(* ===== verification/GoPrelude.thy ===== *)
theory GoPrelude
  imports Main "HOL-Library.Word" "HOL-Library.Sublist"
begin

text \<open>
  Shared vocabulary of the development: Go's machine types, the error plumbing of
  \<open>(value, error)\<close> returns, byte strings in both byte orders, the part of
  \<open>bytes.Reader\<close>, \<open>io\<close>, \<open>math/big\<close> and \<open>encoding/hex\<close> that the program uses,
  and the interfaces (locales) that several components implement: bounded logs and
  stream codecs.
\<close>

section \<open>Machine types and collections\<close>

type_synonym byte = "8 word"
type_synonym u16 = "16 word"
type_synonym u32 = "32 word"
type_synonym u64 = "64 word"

named_theorems bytes_simps "rewrite rules for byte strings and their numeric values"
named_theorems stream_simps "rewrite rules that run readers on explicit input"
named_theorems step_defs "unfolding of handlers and steps"

section \<open>Errors as values\<close>

text \<open>
  A Go function returning \<open>(a, error)\<close> is a function into \<open>'e + 'a\<close>; \<open>ebind\<close> is the
  \<open>if err != nil { return ..., err }\<close> idiom.
\<close>

definition ebind :: "'e + 'a \<Rightarrow> ('a \<Rightarrow> 'e + 'b) \<Rightarrow> 'e + 'b" where
  "ebind x f = (case x of Inl e \<Rightarrow> Inl e | Inr a \<Rightarrow> f a)"

lemma ebind_Inl [simp]: "ebind (Inl e) f = Inl e"
  by (simp add: ebind_def)

lemma ebind_Inr [simp]: "ebind (Inr a) f = f a"
  by (simp add: ebind_def)

lemma ebind_eq_Inr_iff: "ebind x f = Inr b \<longleftrightarrow> (\<exists>a. x = Inr a \<and> f a = Inr b)"
  by (cases x) auto

lemma ebind_cong [fundef_cong]:
  "x = y \<Longrightarrow> (\<And>a. y = Inr a \<Longrightarrow> f a = g a) \<Longrightarrow> ebind x f = ebind y g"
  by (cases y) auto

definition emap_err :: "('e \<Rightarrow> 'f) \<Rightarrow> 'e + 'a \<Rightarrow> 'f + 'a" where
  "emap_err h x = (case x of Inl e \<Rightarrow> Inl (h e) | Inr a \<Rightarrow> Inr a)"

lemma emap_err_simps [simp]:
  "emap_err h (Inl e) = Inl (h e)" "emap_err h (Inr a) = Inr a"
  by (simp_all add: emap_err_def)

lemma emap_err_eq_Inr_iff [simp]: "emap_err h x = Inr a \<longleftrightarrow> x = Inr a"
  by (cases x) auto

section \<open>Byte strings as numbers\<close>

primrec nat_le :: "nat \<Rightarrow> nat \<Rightarrow> byte list" where
  "nat_le 0 v = []"
| "nat_le (Suc n) v = of_nat v # nat_le n (v div 256)"

lemma nat_le_numeral:
  "nat_le (numeral k) v = of_nat v # nat_le (pred_numeral k) (v div 256)"
  by (simp only: numeral_eq_Suc nat_le.simps)

primrec le_nat :: "byte list \<Rightarrow> nat" where
  "le_nat [] = 0"
| "le_nat (b # bs) = unat b + 256 * le_nat bs"

definition be_nat :: "byte list \<Rightarrow> nat" where
  "be_nat bs = le_nat (rev bs)"

lemma unat_byte_lt [simp]: "unat (b :: byte) < 256"
proof -
  have "unat b < 2 ^ LENGTH(8)" by (rule unsigned_less)
  then show ?thesis by simp
qed

lemma unat_u16_lt [simp]: "unat (w :: u16) < 65536"
proof -
  have "unat w < 2 ^ LENGTH(16)" by (rule unsigned_less)
  then show ?thesis by simp
qed

lemma unat_u32_lt [simp]: "unat (w :: u32) < 4294967296"
proof -
  have "unat w < 2 ^ LENGTH(32)" by (rule unsigned_less)
  then show ?thesis by simp
qed

lemma unat_u64_lt [simp]: "unat (w :: u64) < 18446744073709551616"
proof -
  have "unat w < 2 ^ LENGTH(64)" by (rule unsigned_less)
  then show ?thesis by simp
qed

lemma unat_of_nat_byte [simp, bytes_simps]: "unat (of_nat v :: byte) = v mod 256"
  by (simp add: unat_of_nat)

lemma length_nat_le [simp, bytes_simps]: "length (nat_le n v) = n"
  by (induction n arbitrary: v) auto

lemma le_nat_nat_le [simp, bytes_simps]: "le_nat (nat_le n v) = v mod 256 ^ n"
proof (induction n arbitrary: v)
  case (Suc n)
  have "v mod (256 * 256 ^ n) = 256 * (v div 256 mod 256 ^ n) + v mod 256"
    by (rule mod_mult2_eq)
  with Suc show ?case by simp
qed simp

lemma le_nat_bound: "le_nat bs < 256 ^ length bs"
proof (induction bs)
  case (Cons b bs)
  have "unat b + 256 * le_nat bs < 256 + 256 * le_nat bs"
    using unat_byte_lt by (rule add_strict_right_mono)
  also have "\<dots> = 256 * Suc (le_nat bs)" by simp
  also have "\<dots> \<le> 256 * 256 ^ length bs"
    using Cons by (intro mult_le_mono2) simp
  finally show ?case by simp
qed simp

lemma of_nat_unat_add_byte [simp]: "(of_nat (unat b + 256 * n) :: byte) = b"
proof -
  have "unat (of_nat (unat b + 256 * n) :: byte) = (unat b + 256 * n) mod 256"
    by (rule unat_of_nat_byte)
  also have "\<dots> = unat b mod 256" by (rule mod_mult_self2)
  also have "\<dots> = unat b" by simp
  finally show ?thesis by (simp only: word_unat_eq_iff)
qed

lemma nat_le_le_nat: "length bs = n \<Longrightarrow> nat_le n (le_nat bs) = bs"
proof (induction bs arbitrary: n)
  case (Cons b bs)
  then obtain m where [simp]: "n = Suc m" "length bs = m" by auto
  have "(unat b + 256 * le_nat bs) div 256 = le_nat bs"
    using unat_byte_lt [of b] by simp
  with Cons.IH [of m] show ?case by (simp del: of_nat_add of_nat_mult)
qed simp

lemma le_nat_inj: "length xs = length ys \<Longrightarrow> le_nat xs = le_nat ys \<Longrightarrow> xs = ys"
  by (metis nat_le_le_nat)

lemma le_nat_append: "le_nat (xs @ ys) = le_nat xs + 256 ^ length xs * le_nat ys"
  by (induction xs) (auto simp: algebra_simps)

lemma le_nat_replicate_0 [simp]: "le_nat (replicate n 0) = 0"
  by (induction n) auto

lemma be_nat_replicate_append [simp]: "be_nat (replicate n 0 @ bs) = be_nat bs"
  by (simp add: be_nat_def le_nat_append)

lemma be_nat_bound: "be_nat bs < 256 ^ length bs"
  using le_nat_bound [of "rev bs"] by (simp add: be_nat_def)

lemma be_nat_snoc: "be_nat (bs @ [b]) = unat b + 256 * be_nat bs"
  by (simp add: be_nat_def)

subsection \<open>encoding/binary: fixed-width words\<close>

definition put_u16 :: "u16 \<Rightarrow> byte list" where "put_u16 w = nat_le 2 (unat w)"
definition put_u32 :: "u32 \<Rightarrow> byte list" where "put_u32 w = nat_le 4 (unat w)"
definition put_u64 :: "u64 \<Rightarrow> byte list" where "put_u64 w = nat_le 8 (unat w)"
definition get_u16 :: "byte list \<Rightarrow> u16" where "get_u16 bs = of_nat (le_nat bs)"
definition get_u32 :: "byte list \<Rightarrow> u32" where "get_u32 bs = of_nat (le_nat bs)"
definition get_u64 :: "byte list \<Rightarrow> u64" where "get_u64 bs = of_nat (le_nat bs)"
definition put_u16_be :: "u16 \<Rightarrow> byte list" where "put_u16_be w = rev (put_u16 w)"
definition get_u16_be :: "byte list \<Rightarrow> u16" where "get_u16_be bs = get_u16 (rev bs)"

lemma length_put [simp]:
  "length (put_u16 a) = 2" "length (put_u32 b) = 4" "length (put_u64 c) = 8"
  "length (put_u16_be a) = 2"
  by (simp_all add: put_u16_def put_u32_def put_u64_def put_u16_be_def)

lemma get_put_u16 [simp]: "get_u16 (put_u16 w) = w"
  by (simp add: get_u16_def put_u16_def)

lemma get_put_u32 [simp]: "get_u32 (put_u32 w) = w"
  by (simp add: get_u32_def put_u32_def)

lemma get_put_u64 [simp]: "get_u64 (put_u64 w) = w"
  by (simp add: get_u64_def put_u64_def)

lemma get_put_u16_be [simp]: "get_u16_be (put_u16_be w) = w"
  by (simp add: get_u16_be_def put_u16_be_def)

lemma unat_get_u32: "length bs = 4 \<Longrightarrow> unat (get_u32 bs) = le_nat bs"
  using le_nat_bound [of bs] by (simp add: get_u32_def unat_of_nat)

lemma put_get_u32: "length bs = 4 \<Longrightarrow> put_u32 (get_u32 bs) = bs"
  by (simp add: put_u32_def unat_get_u32 nat_le_le_nat)

subsection \<open>math/big: SetBytes and Bytes\<close>

text \<open>\<open>big.Int.Bytes\<close> is the shortest big-endian representation (empty for 0).\<close>

fun nat_bytes :: "nat \<Rightarrow> byte list" where
  "nat_bytes n = (if n = 0 then [] else of_nat n # nat_bytes (n div 256))"

declare nat_bytes.simps [simp del]

definition big_bytes :: "nat \<Rightarrow> byte list" where
  "big_bytes n = rev (nat_bytes n)"

lemma nat_bytes_0 [simp]: "nat_bytes 0 = []"
  by (simp add: nat_bytes.simps)

lemma nat_bytes_pos: "0 < n \<Longrightarrow> nat_bytes n = of_nat n # nat_bytes (n div 256)"
  by (simp add: nat_bytes.simps [of n])

lemma le_nat_nat_bytes [simp]: "le_nat (nat_bytes n) = n"
proof (induction n rule: nat_bytes.induct)
  case (1 n)
  then show ?case by (cases "n = 0") (simp_all add: nat_bytes_pos)
qed

lemma be_nat_big_bytes [simp]: "be_nat (big_bytes n) = n"
  by (simp add: be_nat_def big_bytes_def)

lemma big_bytes_0 [simp]: "big_bytes 0 = []"
  by (simp add: big_bytes_def)

lemma length_nat_bytes_le_iff: "length (nat_bytes n) \<le> k \<longleftrightarrow> n < 256 ^ k"
proof (induction k arbitrary: n)
  case 0
  then show ?case by (cases "n = 0") (simp_all add: nat_bytes_pos)
next
  case (Suc k)
  show ?case
  proof (cases "n = 0")
    case False
    then have "length (nat_bytes n) \<le> Suc k \<longleftrightarrow> n div 256 < 256 ^ k"
      by (simp add: nat_bytes_pos Suc)
    also have "\<dots> \<longleftrightarrow> n < 256 ^ Suc k"
      by (simp add: div_less_iff_less_mult mult.commute)
    finally show ?thesis .
  qed simp
qed

lemma length_big_bytes_le_iff: "length (big_bytes n) \<le> k \<longleftrightarrow> n < 256 ^ k"
  by (simp add: big_bytes_def length_nat_bytes_le_iff)

section \<open>bytes.Reader and io\<close>

text \<open>
  A reader is the list of its unread bytes. \<open>io.ReadFull\<close> fails with \<open>EOF\<close> on an
  exhausted reader and with \<open>UnexpectedEOF\<close> after a partial read.
\<close>

datatype io_error = EOF | UnexpectedEOF

definition read_full :: "nat \<Rightarrow> byte list \<Rightarrow> io_error + (byte list \<times> byte list)" where
  "read_full n r =
     (if n \<le> length r then Inr (take n r, drop n r)
      else if r = [] then Inl EOF else Inl UnexpectedEOF)"

fun read_byte :: "byte list \<Rightarrow> io_error + (byte \<times> byte list)" where
  "read_byte [] = Inl EOF"
| "read_byte (b # r) = Inr (b, r)"

text \<open>
  \<open>io.CopyN(io.Discard, r, n)\<close> with a 64-bit signed count: a negative count copies
  nothing and reports no error, a count past the end reports \<open>EOF\<close>.
\<close>

definition copyN_discard :: "int \<Rightarrow> byte list \<Rightarrow> io_error + byte list" where
  "copyN_discard n r =
     (if n \<le> 0 then Inr r
      else if nat n \<le> length r then Inr (drop (nat n) r) else Inl EOF)"

lemma read_full_append [simp, stream_simps]:
  "n = length xs \<Longrightarrow> read_full n (xs @ r) = Inr (xs, r)"
  by (simp add: read_full_def)

lemma read_full_exact: "read_full (length xs) xs = Inr (xs, [])"
  by (simp add: read_full_def)

lemma read_full_eq_Inr_iff:
  "read_full n r = Inr (bs, r') \<longleftrightarrow> n \<le> length r \<and> bs = take n r \<and> r' = drop n r"
  by (auto simp: read_full_def)

lemma copyN_discard_append [simp, stream_simps]:
  "n = int (length xs) \<Longrightarrow> copyN_discard n (xs @ r) = Inr r"
  by (simp add: copyN_discard_def)

section \<open>encoding/hex\<close>

datatype hex_error = InvalidHexByte | OddHexLength

definition hexDigits :: string where "hexDigits = ''0123456789abcdef''"

definition hex_digit :: "nat \<Rightarrow> char" where
  "hex_digit n = hexDigits ! n"

definition hex_val :: "char \<Rightarrow> nat option" where
  "hex_val c =
     (let n = of_char c :: nat in
      if 48 \<le> n \<and> n \<le> 57 then Some (n - 48)
      else if 97 \<le> n \<and> n \<le> 102 then Some (n - 87)
      else if 65 \<le> n \<and> n \<le> 70 then Some (n - 55)
      else None)"

primrec hexEncode :: "byte list \<Rightarrow> string" where
  "hexEncode [] = []"
| "hexEncode (b # bs) =
     hex_digit (unat b div 16) # hex_digit (unat b mod 16) # hexEncode bs"

fun hexDecode :: "string \<Rightarrow> hex_error + byte list" where
  "hexDecode [] = Inr []"
| "hexDecode [c] = (if hex_val c = None then Inl InvalidHexByte else Inl OddHexLength)"
| "hexDecode (c # d # cs) =
     (case (hex_val c, hex_val d) of
        (Some h, Some l) \<Rightarrow>
          ebind (hexDecode cs) (\<lambda>bs. Inr (of_nat (16 * h + l) # bs))
      | _ \<Rightarrow> Inl InvalidHexByte)"

lemma all_lt_16: "(\<forall>n < (16::nat). P n) \<longleftrightarrow> (\<forall>n \<in> set [0..<16]. P n)"
  by auto

lemma hex_val_hex_digit [simp]: "n < 16 \<Longrightarrow> hex_val (hex_digit n) = Some n"
proof -
  have "\<forall>n < 16. hex_val (hex_digit n) = Some n"
    unfolding all_lt_16 by (simp add: upt_rec hex_digit_def hexDigits_def hex_val_def)
  then show "n < 16 \<Longrightarrow> hex_val (hex_digit n) = Some n" by blast
qed

lemma length_hexEncode [simp]: "length (hexEncode bs) = 2 * length bs"
  by (induction bs) auto

lemma byte_split_16 [simp]: "(of_nat (16 * (unat b div 16) + unat b mod 16) :: byte) = b"
  by (simp only: mult_div_mod_eq of_nat_unat ucast_id)

lemma hexDecode_hexEncode [simp]: "hexDecode (hexEncode bs) = Inr bs"
proof (induction bs)
  case (Cons b bs)
  have "unat b div 16 < 16"
    using unat_byte_lt [of b] by (simp add: div_less_iff_less_mult)
  with Cons show ?case by (simp del: of_nat_add of_nat_mult)
qed simp

lemma length_hexDecode: "hexDecode s = Inr bs \<Longrightarrow> length s = 2 * length bs"
  by (induction s arbitrary: bs rule: hexDecode.induct)
    (auto simp: ebind_eq_Inr_iff split: option.splits if_splits)

section \<open>Bounded logs\<close>

text \<open>
  Several components keep "the last \<open>cap\<close>" entries of what they record:
  \<open>xs = append(xs, x); if len(xs) > cap { xs = xs[len(xs)-cap:] }\<close>. The locale is the
  contract of one such push; its lemmas describe any number of pushes.
\<close>

definition takelast :: "nat \<Rightarrow> 'a list \<Rightarrow> 'a list" where
  "takelast n xs = drop (length xs - n) xs"

lemma length_takelast [simp]: "length (takelast n xs) = min n (length xs)"
  by (auto simp: takelast_def)

lemma takelast_all [simp]: "length xs \<le> n \<Longrightarrow> takelast n xs = xs"
  by (simp add: takelast_def)

lemma takelast_takelast_append: "takelast n (takelast n xs @ ys) = takelast n (xs @ ys)"
proof (cases "length xs \<le> n")
  case False
  then have "length xs - n + (length (takelast n xs @ ys) - n) = length (xs @ ys) - n" by simp
  moreover have "takelast n xs @ ys = drop (length xs - n) (xs @ ys)"
    using False by (simp add: takelast_def)
  ultimately show ?thesis by (simp add: takelast_def add.commute)
qed simp

lemma suffix_takelast: "suffix (takelast n xs) xs"
  by (simp add: takelast_def suffix_drop)

locale bounded_log =
  fixes push :: "'a \<Rightarrow> 's \<Rightarrow> 's" and items :: "'s \<Rightarrow> 'a list" and cap :: nat
  assumes items_push: "items (push x s) = takelast cap (items s @ [x])"
begin

lemma items_push_length: "length (items (push x s)) \<le> cap"
  by (simp add: items_push)

lemma items_pushes:
  "length (items s) \<le> cap \<Longrightarrow> items (fold push xs s) = takelast cap (items s @ xs)"
proof (induction xs arbitrary: s)
  case (Cons x xs)
  have "items (fold push (x # xs) s) = takelast cap (takelast cap (items s @ [x]) @ xs)"
    using Cons.IH [of "push x s"] by (simp add: items_push)
  then show ?case by (simp add: takelast_takelast_append)
qed simp

lemma pushes_bounded: "length (items s) \<le> cap \<Longrightarrow> length (items (fold push xs s)) \<le> cap"
  by (simp add: items_pushes)

lemma pushed_last: "0 < cap \<Longrightarrow> last (items (push x s)) = x"
  by (simp add: items_push takelast_def last_drop)

end

section \<open>Stream skippers and codecs\<close>

text \<open>
  A skipper consumes exactly the encoding of a value from the front of a stream; a
  codec also returns the value. \<open>ok\<close> delimits the values the format can carry.
\<close>

text \<open>\<open>for i := 0; i < n; i++ { if err := skip(r); err != nil { return err } }\<close>\<close>

primrec repeat_skip :: "nat \<Rightarrow> (byte list \<Rightarrow> 'e + byte list) \<Rightarrow> byte list \<Rightarrow> 'e + byte list" where
  "repeat_skip 0 skip r = Inr r"
| "repeat_skip (Suc n) skip r = ebind (skip r) (repeat_skip n skip)"

locale skipper =
  fixes enc :: "'a \<Rightarrow> byte list" and skip :: "byte list \<Rightarrow> 'e + byte list"
    and ok :: "'a \<Rightarrow> bool"
  assumes skip_enc: "ok x \<Longrightarrow> skip (enc x @ r) = Inr r"
begin

lemma repeat_skip_enc:
  "(\<And>x. x \<in> set xs \<Longrightarrow> ok x) \<Longrightarrow>
   repeat_skip (length xs) skip (concat (map enc xs) @ r) = Inr r"
  by (induction xs) (simp_all add: skip_enc)

end

locale codec =
  fixes enc :: "'a \<Rightarrow> byte list" and dec :: "byte list \<Rightarrow> 'e + ('a \<times> byte list)"
    and ok :: "'a \<Rightarrow> bool"
  assumes dec_enc: "ok x \<Longrightarrow> dec (enc x @ r) = Inr (x, r)"
begin

lemma enc_inj: "ok x \<Longrightarrow> ok y \<Longrightarrow> enc x @ r = enc y @ s \<Longrightarrow> x = y \<and> r = s"
  by (metis Pair_inject dec_enc sum.inject(2))

lemma enc_prefix_free: "ok x \<Longrightarrow> ok y \<Longrightarrow> prefix (enc x) (enc y) \<Longrightarrow> x = y"
  by (metis append_Nil2 enc_inj prefixE)

end

sublocale codec \<subseteq> skipper enc "\<lambda>r. ebind (dec r) (\<lambda>(x, r'). Inr r')" ok
  by unfold_locales (simp add: dec_enc)

end
