(* ===== verification/Sha256.thy ===== *)
theory Sha256
  imports GoPrelude
begin

unbundle bit_operations_syntax

text \<open>
  \<open>crypto/sha256.Sum256\<close> of Go's standard library, written out from FIPS 180-4: the
  program hashes transactions, headers, P2P payloads and Base58Check payloads with it,
  always twice (\<open>sha256d\<close>). Executable, so closed instances can be computed.
\<close>

section \<open>The compression function\<close>

definition sha_rotr :: "nat \<Rightarrow> u32 \<Rightarrow> u32" where
  "sha_rotr n x = drop_bit n x OR push_bit (32 - n) x"

definition sha_Ch :: "u32 \<Rightarrow> u32 \<Rightarrow> u32 \<Rightarrow> u32" where
  "sha_Ch x y z = (x AND y) XOR (NOT x AND z)"

definition sha_Maj :: "u32 \<Rightarrow> u32 \<Rightarrow> u32 \<Rightarrow> u32" where
  "sha_Maj x y z = (x AND y) XOR (x AND z) XOR (y AND z)"

definition sha_S0 :: "u32 \<Rightarrow> u32" where
  "sha_S0 x = sha_rotr 2 x XOR sha_rotr 13 x XOR sha_rotr 22 x"

definition sha_S1 :: "u32 \<Rightarrow> u32" where
  "sha_S1 x = sha_rotr 6 x XOR sha_rotr 11 x XOR sha_rotr 25 x"

definition sha_s0 :: "u32 \<Rightarrow> u32" where
  "sha_s0 x = sha_rotr 7 x XOR sha_rotr 18 x XOR drop_bit 3 x"

definition sha_s1 :: "u32 \<Rightarrow> u32" where
  "sha_s1 x = sha_rotr 17 x XOR sha_rotr 19 x XOR drop_bit 10 x"

text \<open>
  The constants are the first 32 bits of the fractional parts of cube and square roots of the
  first primes. \<open>root_bits k t n 0\<close> finds the integer \<open>k\<close>-th root of \<open>t\<close> bit by bit.
\<close>

primrec root_bits :: "nat \<Rightarrow> nat \<Rightarrow> nat \<Rightarrow> nat \<Rightarrow> nat" where
  "root_bits k t 0 r = r"
| "root_bits k t (Suc n) r = root_bits k t n (if (r + 2 ^ n) ^ k \<le> t then r + 2 ^ n else r)"

definition frac_root :: "nat \<Rightarrow> nat \<Rightarrow> u32" where
  "frac_root k p = of_nat (root_bits k (p * (2 ^ 32) ^ k) 35 0)"

definition sha_primes :: "nat list" where
  "sha_primes =
    [2, 3, 5, 7, 11, 13, 17, 19, 23, 29, 31, 37, 41, 43, 47, 53,
     59, 61, 67, 71, 73, 79, 83, 89, 97, 101, 103, 107, 109, 113, 127, 131,
     137, 139, 149, 151, 157, 163, 167, 173, 179, 181, 191, 193, 197, 199, 211, 223,
     227, 229, 233, 239, 241, 251, 257, 263, 269, 271, 277, 281, 283, 293, 307, 311]"

definition sha_K :: "u32 list" where
  "sha_K = map (frac_root 3) sha_primes"

type_synonym sha_state = "u32 \<times> u32 \<times> u32 \<times> u32 \<times> u32 \<times> u32 \<times> u32 \<times> u32"

definition sha_init :: sha_state where
  "sha_init = (frac_root 2 2, frac_root 2 3, frac_root 2 5, frac_root 2 7,
               frac_root 2 11, frac_root 2 13, frac_root 2 17, frac_root 2 19)"

lemma root_bits_root:
  "r ^ k \<le> t \<Longrightarrow> t < (r + 2 ^ n) ^ k \<Longrightarrow>
   root_bits k t n r ^ k \<le> t \<and> t < Suc (root_bits k t n r) ^ k"
proof (induction n arbitrary: r)
  case (Suc n)
  show ?case
  proof (cases "(r + 2 ^ n) ^ k \<le> t")
    case True
    with Suc.prems(2) Suc.IH [of "r + 2 ^ n"] show ?thesis by (simp add: mult_2 add.assoc)
  next
    case False
    with Suc.prems(1) Suc.IH [of r] show ?thesis by simp
  qed
qed simp

lemma root_bits_numeral:
  "root_bits k t (numeral n) r =
     root_bits k t (pred_numeral n)
       (if (r + 2 ^ pred_numeral n) ^ k \<le> t then r + 2 ^ pred_numeral n else r)"
  by (simp add: numeral_eq_Suc)

lemma sha_constants: "frac_root 3 2 = 0x428a2f98" "frac_root 3 311 = 0xc67178f2" "frac_root 2 2 = 0x6a09e667"
  by (simp_all add: frac_root_def root_bits_numeral)

fun sha_round :: "u32 \<times> u32 \<Rightarrow> sha_state \<Rightarrow> sha_state" where
  "sha_round (k, w) (a, b, c, d, e, f, g, h) =
     (let t1 = h + sha_S1 e + sha_Ch e f g + k + w;
          t2 = sha_S0 a + sha_Maj a b c
      in (t1 + t2, a, b, c, d + t1, e, f, g))"

fun sha_add :: "sha_state \<Rightarrow> sha_state \<Rightarrow> sha_state" where
  "sha_add (a, b, c, d, e, f, g, h) (a', b', c', d', e', f', g', h') =
     (a + a', b + b', c + c', d + d', e + e', f + f', g + g', h + h')"

text \<open>The message schedule, newest word first.\<close>

primrec sha_extend :: "nat \<Rightarrow> u32 list \<Rightarrow> u32 list" where
  "sha_extend 0 ws = ws"
| "sha_extend (Suc n) ws =
     sha_extend n ((sha_s1 (ws ! 1) + ws ! 6 + sha_s0 (ws ! 14) + ws ! 15) # ws)"

fun words_be :: "byte list \<Rightarrow> u32 list" where
  "words_be (a # b # c # d # bs) =
     (push_bit 24 (ucast a) OR push_bit 16 (ucast b) OR push_bit 8 (ucast c) OR ucast d) # words_be bs"
| "words_be _ = []"

definition sha_block :: "byte list \<Rightarrow> sha_state \<Rightarrow> sha_state" where
  "sha_block blk st =
     sha_add st (fold sha_round (zip sha_K (rev (sha_extend 48 (rev (words_be blk))))) st)"

section \<open>Padding and the digest\<close>

definition sha_pad :: "byte list \<Rightarrow> byte list" where
  "sha_pad m =
     m @ [0x80] @ replicate ((119 - length m mod 64) mod 64) 0 @ rev (nat_le 8 (8 * length m))"

primrec sha_blocks :: "nat \<Rightarrow> byte list \<Rightarrow> sha_state \<Rightarrow> sha_state" where
  "sha_blocks 0 m st = st"
| "sha_blocks (Suc n) m st = sha_blocks n (drop 64 m) (sha_block (take 64 m) st)"

definition word_be :: "u32 \<Rightarrow> byte list" where
  "word_be w = [ucast (drop_bit 24 w), ucast (drop_bit 16 w), ucast (drop_bit 8 w), ucast w]"

fun sha_digest :: "sha_state \<Rightarrow> byte list" where
  "sha_digest (a, b, c, d, e, f, g, h) =
     word_be a @ word_be b @ word_be c @ word_be d @
     word_be e @ word_be f @ word_be g @ word_be h"

definition sha256 :: "byte list \<Rightarrow> byte list" where
  "sha256 m = sha_digest (sha_blocks (length (sha_pad m) div 64) (sha_pad m) sha_init)"

definition sha256d :: "byte list \<Rightarrow> byte list" where
  "sha256d m = sha256 (sha256 m)"

lemma length_word_be [simp]: "length (word_be w) = 4"
  by (simp add: word_be_def)

lemma length_sha_digest [simp]: "length (sha_digest st) = 32"
  by (cases st rule: sha_digest.cases) simp

lemma length_sha256 [simp]: "length (sha256 m) = 32"
  by (simp add: sha256_def)

lemma length_sha256d [simp]: "length (sha256d m) = 32"
  by (simp add: sha256d_def)

text \<open>Every padded message is a whole number of 64-byte blocks.\<close>

lemma sha_pad_blocks: "length (sha_pad m) mod 64 = 0"
proof -
  define q r where "q = length m div 64" and "r = length m mod 64"
  then have len: "length m = 64 * q + r" and r: "r < 64" by simp_all
  have "(r + 9 + (119 - r) mod 64) mod 64 = 0"
    using r by (cases "r \<le> 55") (auto simp: le_mod_geq mod_if)
  then have "(64 * q + (r + 9 + (119 - r) mod 64)) mod 64 = 0"
    by (metis mod_mult_self4)
  moreover have "length (sha_pad m) = 64 * q + (r + 9 + (119 - r) mod 64)"
    using len r by (simp add: sha_pad_def)
  ultimately show ?thesis by simp
qed

end
