(* ===== verification/HashCompare.thy ===== *)
theory HashCompare
  imports GoPrelude
begin

text \<open>
  \<open>src/hash_compare.go\<close>, the byte reversal of \<open>src/scrypt.go\<close> and the 32-byte
  little-endian target the miners compare with. A hash and a target are byte slices;
  the lemmas show that the byte loops decide the order of the 256-bit numbers.
\<close>

section \<open>Byte order\<close>

text \<open>\<open>reverseBytesInPlace\<close>: swap \<open>b[i]\<close> and \<open>b[len-1-i]\<close> for \<open>i < len/2\<close>.\<close>

definition swap_mirror :: "nat \<Rightarrow> 'a list \<Rightarrow> 'a list" where
  "swap_mirror i b = (let j = length b - 1 - i in b[i := b ! j, j := b ! i])"

primrec reverse_swaps :: "nat \<Rightarrow> 'a list \<Rightarrow> 'a list" where
  "reverse_swaps 0 b = b"
| "reverse_swaps (Suc n) b = swap_mirror n (reverse_swaps n b)"

definition reverseBytesInPlace :: "'a list \<Rightarrow> 'a list" where
  "reverseBytesInPlace b = reverse_swaps (length b div 2) b"

text \<open>\<open>reverseBytes\<close> of \<open>scrypt.go\<close>: a fresh slice with \<open>result[i] = b[len-1-i]\<close>.\<close>

definition reverseBytes :: "'a list \<Rightarrow> 'a list" where
  "reverseBytes b = map (\<lambda>i. b ! (length b - 1 - i)) [0..<length b]"

lemma length_reverse_swaps [simp]: "length (reverse_swaps n b) = length b"
  by (induction n) (simp_all add: swap_mirror_def Let_def)

lemma nth_reverse_swaps:
  "n \<le> length b div 2 \<Longrightarrow> k < length b \<Longrightarrow>
   reverse_swaps n b ! k =
     (if k < n \<or> length b - n \<le> k then b ! (length b - 1 - k) else b ! k)"
proof (induction n arbitrary: k)
  case (Suc n)
  define j where "j = length b - 1 - n"
  from Suc.prems have n: "n < length b div 2" by simp
  then have "n < j" "j < length b" unfolding j_def by auto
  moreover have "reverse_swaps n b ! j = b ! j" "reverse_swaps n b ! n = b ! n"
    using Suc n \<open>n < j\<close> \<open>j < length b\<close> unfolding j_def by auto
  moreover have "length b - 1 - j = n" "length b - Suc n = j"
    using n unfolding j_def by auto
  ultimately show ?case
    using Suc n unfolding reverse_swaps.simps swap_mirror_def
    by (auto simp: Let_def nth_list_update simp flip: j_def)
qed simp

lemma reverseBytesInPlace_rev [simp]: "reverseBytesInPlace b = rev b"
proof (rule nth_equalityI)
  fix k assume "k < length (reverseBytesInPlace b)"
  then have k: "k < length b" by (simp add: reverseBytesInPlace_def)
  have "\<not> (k < length b div 2 \<or> length b - length b div 2 \<le> k) \<Longrightarrow> length b - 1 - k = k"
    by linarith
  with k show "reverseBytesInPlace b ! k = rev b ! k"
    by (auto simp: reverseBytesInPlace_def nth_reverse_swaps rev_nth)
qed (simp add: reverseBytesInPlace_def)

lemma reverseBytes_rev [simp]: "reverseBytes b = rev b"
  by (rule nth_equalityI) (auto simp: reverseBytes_def rev_nth)

section \<open>Display order\<close>

definition HashToDisplayHex :: "byte list \<Rightarrow> string" where
  "HashToDisplayHex h =
     (if length h \<noteq> 32 then hexEncode h else hexEncode (reverseBytesInPlace h))"

lemma HashToDisplayHex_inj:
  "length h = 32 \<Longrightarrow> length h' = 32 \<Longrightarrow> HashToDisplayHex h = HashToDisplayHex h' \<Longrightarrow> h = h'"
  unfolding HashToDisplayHex_def
  by (metis hexDecode_hexEncode reverseBytesInPlace_rev rev_rev_ident sum.inject(2))

section \<open>Comparing a hash with a target\<close>

text \<open>\<open>hashMeetsTargetLE\<close>: from index 31 down; equal bytes all the way is a hit.\<close>

primrec le_loop :: "nat \<Rightarrow> byte list \<Rightarrow> byte list \<Rightarrow> bool" where
  "le_loop 0 h t = True"
| "le_loop (Suc i) h t =
     (if h ! i < t ! i then True else if t ! i < h ! i then False else le_loop i h t)"

definition hashMeetsTargetLE :: "byte list \<Rightarrow> byte list \<Rightarrow> bool" where
  "hashMeetsTargetLE hashLE targetLE =
     (if length hashLE \<noteq> 32 \<or> length targetLE \<noteq> 32 then False
      else le_loop 32 hashLE targetLE)"

text \<open>\<open>hashMeetsTargetFast\<close>: from index 0 up, and equality is a miss.\<close>

function be_loop :: "nat \<Rightarrow> byte list \<Rightarrow> byte list \<Rightarrow> bool" where
  "be_loop i h t =
     (if i < 32 then
        (if h ! i < t ! i then True else if t ! i < h ! i then False else be_loop (Suc i) h t)
      else False)"
  by pat_completeness auto
termination by (relation "measure (\<lambda>(i, h, t). 32 - i)") auto

declare be_loop.simps [simp del]

definition hashMeetsTargetFast :: "byte list \<Rightarrow> byte list \<Rightarrow> bool" where
  "hashMeetsTargetFast hash target =
     (if length hash \<noteq> 32 \<or> length target \<noteq> 32 then False else be_loop 0 hash target)"

lemma le_nat_take_Suc:
  "i < length h \<Longrightarrow> le_nat (take (Suc i) h) = le_nat (take i h) + 256 ^ i * unat (h ! i)"
  by (simp add: take_Suc_conv_app_nth le_nat_append)

lemma le_nat_take_lt: "i \<le> length h \<Longrightarrow> le_nat (take i h) < 256 ^ i"
  using le_nat_bound [of "take i h"] by simp

lemma digit_le_iff:
  fixes a b x y B :: nat
  assumes "a < B" "b < B"
  shows "a + B * x \<le> b + B * y \<longleftrightarrow> x < y \<or> (x = y \<and> a \<le> b)"
proof (cases x y rule: linorder_cases)
  case less
  then have "B * Suc x \<le> B * y" by (intro mult_le_mono2) simp
  with assms less show ?thesis by simp
next
  case greater
  then have "B * Suc y \<le> B * x" by (intro mult_le_mono2) simp
  with assms greater show ?thesis by simp
qed simp

lemma le_loop_iff:
  "i \<le> length h \<Longrightarrow> i \<le> length t \<Longrightarrow>
   le_loop i h t \<longleftrightarrow> le_nat (take i h) \<le> le_nat (take i t)"
proof (induction i)
  case (Suc i)
  then have "i < length h" "i < length t" by simp_all
  with Suc show ?case
    by (auto simp: le_nat_take_Suc digit_le_iff le_nat_take_lt word_less_nat_alt
        word_unat_eq_iff)
qed simp

lemma hashMeetsTargetLE_iff:
  "hashMeetsTargetLE h t \<longleftrightarrow> length h = 32 \<and> length t = 32 \<and> le_nat h \<le> le_nat t"
  using le_loop_iff [of 32 h t] by (auto simp: hashMeetsTargetLE_def)

lemma be_nat_drop:
  "i < length h \<Longrightarrow>
   be_nat (drop i h) = be_nat (drop (Suc i) h) + 256 ^ (length h - Suc i) * unat (h ! i)"
  by (simp add: be_nat_def Cons_nth_drop_Suc [symmetric] le_nat_append)

lemma be_loop_iff:
  "length h = 32 \<Longrightarrow> length t = 32 \<Longrightarrow>
   be_loop i h t \<longleftrightarrow> be_nat (drop i h) < be_nat (drop i t)"
proof (induction i h t rule: be_loop.induct)
  case (1 i h t)
  show ?case
  proof (cases "i < 32")
    case True
    have "be_nat (drop (Suc i) x) < 256 ^ (32 - Suc i)" if "length x = 32" for x
      using that be_nat_bound [of "drop (Suc i) x"] by simp
    note b = this [OF "1.prems"(1)] this [OF "1.prems"(2)]
    have "be_nat (drop i h) < be_nat (drop i t) \<longleftrightarrow>
      unat (h ! i) < unat (t ! i) \<or>
        (h ! i = t ! i \<and> be_nat (drop (Suc i) h) < be_nat (drop (Suc i) t))"
      using True "1.prems" digit_le_iff [OF b(2,1), of "unat (t ! i)" "unat (h ! i)"]
      by (auto simp: be_nat_drop word_unat_eq_iff simp flip: not_le)
    with "1.IH" "1.prems" True show ?thesis
      by (subst be_loop.simps) (auto simp: word_less_nat_alt word_unat_eq_iff)
  qed (use "1.prems" in \<open>simp add: be_loop.simps be_nat_def\<close>)
qed

lemma hashMeetsTargetFast_iff:
  "hashMeetsTargetFast h t \<longleftrightarrow> length h = 32 \<and> length t = 32 \<and> be_nat h < be_nat t"
  using be_loop_iff [of h t 0] by (auto simp: hashMeetsTargetFast_def)

section \<open>The target as 32 little-endian bytes\<close>

text \<open>
  \<open>targetBytesLE := make([]byte, 32); copy(targetBytesLE[32-len(b):], b); reverse\<close>,
  where \<open>b\<close> is the target's big-endian bytes. A target of more than 32 bytes makes the
  slice bound negative, which panics.
\<close>

datatype go_panic = SliceBoundsOutOfRange | BadHeaderLength | ScryptFailed | CloseOfClosedChannel

definition target_le_bytes :: "nat \<Rightarrow> go_panic + byte list" where
  "target_le_bytes target =
     (let b = big_bytes target in
      if 32 < length b then Inl SliceBoundsOutOfRange
      else Inr (reverseBytesInPlace (replicate (32 - length b) 0 @ b)))"

lemma target_le_bytes_Inr:
  "target < 256 ^ 32 \<Longrightarrow>
   \<exists>t. target_le_bytes target = Inr t \<and> length t = 32 \<and> le_nat t = target"
  using length_big_bytes_le_iff [of target 32]
  by (auto simp: target_le_bytes_def Let_def be_nat_def [symmetric] simp flip: rev_append)

lemma target_le_bytes_panics: "256 ^ 32 \<le> target \<Longrightarrow> target_le_bytes target = Inl SliceBoundsOutOfRange"
  using length_big_bytes_le_iff [of target 32] by (auto simp: target_le_bytes_def Let_def)

lemma meets_target_le_bytes:
  "target_le_bytes target = Inr t \<Longrightarrow>
   hashMeetsTargetLE h t \<longleftrightarrow> length h = 32 \<and> le_nat h \<le> target"
  using length_big_bytes_le_iff [of target 32] target_le_bytes_Inr [of target]
  by (auto simp: hashMeetsTargetLE_iff target_le_bytes_def Let_def split: if_splits)

section \<open>Properties\<close>

text \<open>C36: the miners' comparison is exact: for every target that fits 256 bits the byte loop
  over the little-endian target accepts a 32-byte hash exactly when its little-endian number is
  at most the target, and building that byte array panics exactly for larger targets.\<close>

theorem hash_target_comparison:
  assumes "length h = 32"
  shows "case target_le_bytes target of
      Inr t \<Rightarrow> target < 2 ^ 256 \<and> length t = 32 \<and> (hashMeetsTargetLE h t \<longleftrightarrow> le_nat h \<le> target)
    | Inl e \<Rightarrow> e = SliceBoundsOutOfRange \<and> 2 ^ 256 \<le> target"
proof (cases "target < 256 ^ 32")
  case True
  from target_le_bytes_Inr [OF True] obtain t where
    t: "target_le_bytes target = Inr t" "length t = 32" by blast
  with True assms show ?thesis by (simp add: meets_target_le_bytes [OF t(1)])
next
  case False
  then show ?thesis by (simp add: target_le_bytes_panics)
qed

theorem hash_target_comparison_witness:
  "case target_le_bytes 5 of
      Inr t \<Rightarrow> (5 :: nat) < 2 ^ 256 \<and> length t = 32 \<and>
        (hashMeetsTargetLE (3 # replicate 31 0) t \<longleftrightarrow> le_nat (3 # replicate 31 0) \<le> 5)
    | Inl e \<Rightarrow> e = SliceBoundsOutOfRange \<and> (2 :: nat) ^ 256 \<le> 5"
  by (rule hash_target_comparison) simp

text \<open>The fast comparison decides the strict big-endian order and the one on little-endian
  bytes the non-strict order of the reversed bytes; on equal values they disagree.\<close>

theorem fast_and_le_comparison:
  assumes "length h = 32" "length t = 32"
  shows "hashMeetsTargetFast (reverseBytesInPlace h) (reverseBytesInPlace t) \<longleftrightarrow>
    hashMeetsTargetLE h t \<and> h \<noteq> t"
proof -
  have "le_nat h = le_nat t \<longleftrightarrow> h = t" using assms le_nat_inj [of h t] by auto
  then show ?thesis
    using assms by (auto simp: hashMeetsTargetFast_iff hashMeetsTargetLE_iff be_nat_def)
qed

theorem fast_and_le_comparison_witness:
  "hashMeetsTargetFast (reverseBytesInPlace (replicate 32 1)) (reverseBytesInPlace (replicate 32 1)) \<longleftrightarrow>
    hashMeetsTargetLE (replicate 32 1) (replicate 32 1) \<and> replicate 32 1 \<noteq> (replicate 32 1 :: byte list)"
  by (rule fast_and_le_comparison) simp_all

end
