(* ===== verification/TxBlock.thy ===== *)
theory TxBlock
  imports Sha256 HashCompare
begin

text \<open>
  \<open>src/block.go\<close> and the header record of \<open>src/headers.go\<close>: the data model of
  transactions, merge-mining proofs, block headers and blocks, their wire serialisation,
  and \<open>hexTo32Bytes\<close>. \<open>[32]byte\<close> arrays are byte lists; the \<open>wf_\<close> predicates carry
  their length. \<open>int32\<close>/\<open>int64\<close> fields are kept as 32/64-bit words (two's complement),
  block heights as \<open>int\<close>.
\<close>

section \<open>Data\<close>

record OutPoint =
  opHash :: "byte list"
  opIndex :: u32

record TxInput =
  PreviousOutput :: OutPoint
  ScriptSig :: "byte list"
  txSequence :: u32

record TxOutput =
  outValue :: u64
  ScriptPubKey :: "byte list"

record Transaction =
  txVersion :: u32
  Inputs :: "TxInput list"
  Outputs :: "TxOutput list"
  LockTime :: u32

record BlockHeader =
  hVersion :: u32
  hPrevBlock :: "byte list"
  hMerkleRoot :: "byte list"
  hTimestamp :: u32
  hBits :: u32
  hNonce :: u32
  hHeight :: int
  hHash :: "byte list"

record AuxPow =
  CoinbaseTx :: "Transaction option"
  BlockHash :: "byte list"
  MerkleBranch :: "byte list list"
  MerkleIndex :: u32
  ChainMerkleBranch :: "byte list list"
  ChainIndex :: u32
  ParentBlockHeader :: "BlockHeader option"

record Block =
  bVersion :: u32
  bPrevBlock :: "byte list"
  bMerkleRoot :: "byte list"
  bTimestamp :: u32
  bBits :: u32
  bNonce :: u32
  bAuxPow :: "AuxPow option"
  Transactions :: "Transaction list"

section \<open>Serialisation\<close>

definition writeVarInt :: "u64 \<Rightarrow> byte list" where
  "writeVarInt val =
     (if val < 0xFD then [ucast val]
      else if val \<le> 0xFFFF then 0xFD # put_u16 (ucast val)
      else if val \<le> 0xFFFFFFFF then 0xFE # put_u32 (ucast val)
      else 0xFF # put_u64 val)"

text \<open>\<open>writeVarInt(&buf, uint64(len(x)))\<close>\<close>

definition writeLen :: "'a list \<Rightarrow> byte list" where
  "writeLen xs = writeVarInt (of_nat (length xs))"

definition serializeInput :: "TxInput \<Rightarrow> byte list" where
  "serializeInput i =
     opHash (PreviousOutput i) @ put_u32 (opIndex (PreviousOutput i)) @
     writeLen (ScriptSig i) @ ScriptSig i @ put_u32 (txSequence i)"

definition serializeOutput :: "TxOutput \<Rightarrow> byte list" where
  "serializeOutput out = put_u64 (outValue out) @ writeLen (ScriptPubKey out) @ ScriptPubKey out"

definition serializeTx :: "Transaction \<Rightarrow> byte list" where
  "serializeTx tx =
     put_u32 (txVersion tx) @
     writeLen (Inputs tx) @ concat (map serializeInput (Inputs tx)) @
     writeLen (Outputs tx) @ concat (map serializeOutput (Outputs tx)) @
     put_u32 (LockTime tx)"

definition GetHash :: "Transaction \<Rightarrow> byte list" where
  "GetHash tx = sha256 (sha256 (serializeTx tx))"

text \<open>\<open>(*Block).SerializeHeader\<close> and \<open>(*BlockHeader).Serialize\<close> of \<open>headers.go\<close>.\<close>

definition SerializeHeader :: "Block \<Rightarrow> byte list" where
  "SerializeHeader b =
     put_u32 (bVersion b) @ bPrevBlock b @ bMerkleRoot b @
     put_u32 (bTimestamp b) @ put_u32 (bBits b) @ put_u32 (bNonce b)"

definition serializeBlockHeader :: "BlockHeader \<Rightarrow> byte list" where
  "serializeBlockHeader h =
     put_u32 (hVersion h) @ hPrevBlock h @ hMerkleRoot h @
     put_u32 (hTimestamp h) @ put_u32 (hBits h) @ put_u32 (hNonce h)"

definition serializeAuxPow :: "AuxPow \<Rightarrow> byte list" where
  "serializeAuxPow ap =
     (case CoinbaseTx ap of
        Some tx \<Rightarrow> serializeTx tx
      | None \<Rightarrow> put_u32 0 @ writeVarInt 0 @ writeVarInt 0 @ put_u32 0) @
     BlockHash ap @
     writeLen (MerkleBranch ap) @ concat (MerkleBranch ap) @
     put_u32 (MerkleIndex ap) @
     writeLen (ChainMerkleBranch ap) @ concat (ChainMerkleBranch ap) @
     put_u32 (ChainIndex ap) @
     (case ParentBlockHeader ap of
        Some h \<Rightarrow> serializeBlockHeader h
      | None \<Rightarrow> replicate 80 0)"

text \<open>
  \<open>(*Block).Serialize\<close>: the hex of header, AuxPoW section, transaction count and
  transactions. Without an \<open>AuxPow\<close> the section is an empty branch count and a zero
  chain index (5 bytes).
\<close>

definition minimalAuxPow :: "byte list" where
  "minimalAuxPow = writeVarInt 0 @ put_u32 0"

definition serializeBody :: "Block \<Rightarrow> byte list" where
  "serializeBody b =
     (case bAuxPow b of Some ap \<Rightarrow> serializeAuxPow ap | None \<Rightarrow> minimalAuxPow) @
     writeLen (Transactions b) @ concat (map serializeTx (Transactions b))"

definition SerializeBlock :: "Block \<Rightarrow> string" where
  "SerializeBlock b = hexEncode (SerializeHeader b @ serializeBody b)"

section \<open>hexTo32Bytes\<close>

datatype hex32_error = HexError hex_error | Not32Bytes nat

text \<open>The in-place exchange \<open>result[i], result[31-i] = result[31-i], result[i]\<close> for \<open>i < 16\<close>.\<close>

definition hexTo32Bytes :: "string \<Rightarrow> hex32_error + byte list" where
  "hexTo32Bytes s =
     (case hexDecode s of
        Inl e \<Rightarrow> Inl (HexError e)
      | Inr decoded \<Rightarrow>
          if length decoded \<noteq> 32 then Inl (Not32Bytes (length decoded))
          else Inr (reverse_swaps 16 decoded))"

lemma hexTo32Bytes_Inr_iff:
  "hexTo32Bytes s = Inr h \<longleftrightarrow> hexDecode s = Inr (rev h) \<and> length h = 32"
proof -
  have "reverse_swaps 16 d = rev d" if "length d = 32" for d :: "byte list"
    using reverseBytesInPlace_rev [of d] that unfolding reverseBytesInPlace_def by simp
  then show ?thesis
    by (auto simp: hexTo32Bytes_def split: sum.splits)
qed

lemma hexTo32Bytes_display [simp]:
  "length h = 32 \<Longrightarrow> hexTo32Bytes (HashToDisplayHex h) = Inr h"
  by (simp add: hexTo32Bytes_Inr_iff HashToDisplayHex_def)

section \<open>Well-formed values and sizes\<close>

definition wf_input :: "TxInput \<Rightarrow> bool" where
  "wf_input i \<longleftrightarrow> length (opHash (PreviousOutput i)) = 32 \<and> length (ScriptSig i) < 2 ^ 63"

definition wf_output :: "TxOutput \<Rightarrow> bool" where
  "wf_output out \<longleftrightarrow> length (ScriptPubKey out) < 2 ^ 63"

definition wf_tx :: "Transaction \<Rightarrow> bool" where
  "wf_tx tx \<longleftrightarrow> length (Inputs tx) < 2 ^ 64 \<and> length (Outputs tx) < 2 ^ 64 \<and>
     (\<forall>i \<in> set (Inputs tx). wf_input i) \<and> (\<forall>out \<in> set (Outputs tx). wf_output out)"

definition wf_header :: "BlockHeader \<Rightarrow> bool" where
  "wf_header h \<longleftrightarrow> length (hPrevBlock h) = 32 \<and> length (hMerkleRoot h) = 32"

definition wf_branch :: "byte list list \<Rightarrow> bool" where
  "wf_branch br \<longleftrightarrow> length br < 2 ^ 58 \<and> (\<forall>h \<in> set br. length h = 32)"

definition wf_auxpow :: "AuxPow \<Rightarrow> bool" where
  "wf_auxpow ap \<longleftrightarrow> (\<forall>tx \<in> set_option (CoinbaseTx ap). wf_tx tx) \<and> length (BlockHash ap) = 32 \<and>
     wf_branch (MerkleBranch ap) \<and> wf_branch (ChainMerkleBranch ap) \<and>
     (\<forall>h \<in> set_option (ParentBlockHeader ap). wf_header h)"

definition wf_block :: "Block \<Rightarrow> bool" where
  "wf_block b \<longleftrightarrow> length (bPrevBlock b) = 32 \<and> length (bMerkleRoot b) = 32"

lemma length_SerializeHeader [simp]: "wf_block b \<Longrightarrow> length (SerializeHeader b) = 80"
  by (simp add: SerializeHeader_def wf_block_def)

lemma length_serializeBlockHeader [simp]: "wf_header h \<Longrightarrow> length (serializeBlockHeader h) = 80"
  by (simp add: serializeBlockHeader_def wf_header_def)

lemma length_concat_32: "(\<forall>h \<in> set br. length h = 32) \<Longrightarrow> length (concat br) = 32 * length br"
  by (induction br) auto

lemma length_GetHash [simp]: "length (GetHash tx) = 32"
  by (simp add: GetHash_def)

lemma writeVarInt_0 [simp]: "writeVarInt 0 = [0]"
  by (simp add: writeVarInt_def)

lemma put_u32_0: "put_u32 0 = [0, 0, 0, 0]"
  by (simp add: put_u32_def nat_le_numeral)

text \<open>The serialised header determines every header field.\<close>

lemma SerializeHeader_inj:
  assumes "wf_block a" "wf_block b" "SerializeHeader a = SerializeHeader b"
  shows "bVersion a = bVersion b \<and> bPrevBlock a = bPrevBlock b \<and> bMerkleRoot a = bMerkleRoot b \<and>
    bTimestamp a = bTimestamp b \<and> bBits a = bBits b \<and> bNonce a = bNonce b"
proof -
  have "put_u32 x = put_u32 y \<longleftrightarrow> x = y" for x y
    by (metis get_put_u32)
  with assms show ?thesis
    by (simp add: SerializeHeader_def wf_block_def)
qed

end
