(* ===== verification/ScryptMining.thy ===== *)
theory ScryptMining
  imports TxBlock
begin

text \<open>
  \<open>src/scrypt.go\<close>: the CPU miner. \<open>scrypt.Key\<close> of \<open>golang.org/x/crypto\<close> is a parameter
  (\<open>key\<close>); what the code relies on is that it returns as many bytes as asked for. The
  clock and the random source are parameters. Log output is dropped. The single-threaded search is a
  function; the parallel search is a step relation on the shared state and one program
  counter per goroutine, with one atomic access to the shared \<open>found\<close> flag per step, and an
  executable run along a given schedule.
\<close>

unbundle bit_operations_syntax

section \<open>The miner\<close>

type_synonym scrypt_key =
  "byte list \<Rightarrow> byte list \<Rightarrow> int \<Rightarrow> int \<Rightarrow> int \<Rightarrow> nat \<Rightarrow> byte list option"

record ScryptMiner =
  scryptN :: int
  scryptR :: int
  scryptP :: int
  MaxHashes :: u64
  MaxHashesThisRound :: u64
  ThreadCount :: int
  NonceSearchMode :: string
  NonceStartMode :: string
  UseStride :: bool
  DebugLogging :: bool

record MineOutcome =
  moNonce :: u32
  moHash :: "byte list option"
  moFound :: bool
  moHashCount :: u64

definition NewScryptMiner :: ScryptMiner where
  "NewScryptMiner = \<lparr>scryptN = 1024, scryptR = 1, scryptP = 1, MaxHashes = 100000,
     MaxHashesThisRound = 0, ThreadCount = 1, NonceSearchMode = '''', NonceStartMode = '''',
     UseStride = False, DebugLogging = False\<rparr>"

definition NewScryptMinerWithConfig :: "u64 \<Rightarrow> int \<Rightarrow> ScryptMiner" where
  "NewScryptMinerWithConfig maxHashes threadCount =
     NewScryptMiner\<lparr>MaxHashes := maxHashes, ThreadCount := threadCount,
       NonceSearchMode := ''sequential'', NonceStartMode := ''calculated''\<rparr>"

definition SetNonceStrategy :: "string \<Rightarrow> string \<Rightarrow> bool \<Rightarrow> ScryptMiner \<Rightarrow> ScryptMiner" where
  "SetNonceStrategy searchMode startMode useStride m =
     m\<lparr>NonceSearchMode := searchMode, NonceStartMode := startMode, UseStride := useStride\<rparr>"

definition effectiveMaxHashes :: "ScryptMiner \<Rightarrow> u64" where
  "effectiveMaxHashes m = (if 0 < MaxHashesThisRound m then MaxHashesThisRound m else MaxHashes m)"

definition scryptHash :: "scrypt_key \<Rightarrow> ScryptMiner \<Rightarrow> byte list \<Rightarrow> go_panic + byte list" where
  "scryptHash key m header80 =
     (if length header80 \<noteq> 80 then Inl BadHeaderLength
      else case key header80 header80 (scryptN m) (scryptR m) (scryptP m) 32 of
        None \<Rightarrow> Inl ScryptFailed
      | Some hash \<Rightarrow> Inr hash)"

definition precomputeHeaderBase :: "Block \<Rightarrow> byte list" where
  "precomputeHeaderBase block =
     (let header = SerializeHeader (block\<lparr>bNonce := 0\<rparr>) in take (length header - 4) header)"

text \<open>The header buffer with the nonce in its last four bytes, hashed.\<close>

definition hash_nonce :: "scrypt_key \<Rightarrow> ScryptMiner \<Rightarrow> Block \<Rightarrow> u32 \<Rightarrow> go_panic + byte list" where
  "hash_nonce key m block nonce = scryptHash key m (precomputeHeaderBase block @ put_u32 nonce)"

primrec xor_merkle :: "nat \<Rightarrow> byte list \<Rightarrow> u32 \<Rightarrow> u32" where
  "xor_merkle 0 root acc = acc"
| "xor_merkle (Suc i) root acc =
     (let acc = xor_merkle i root acc in
      if i < length root then acc XOR push_bit (8 * i) (ucast (root ! i)) else acc)"

definition calculateStartNonceCPU :: "Block \<Rightarrow> string \<Rightarrow> u64 \<Rightarrow> u32" where
  "calculateStartNonceCPU block startMode unixNano =
     (if startMode = ''random'' then ucast (unixNano AND 0xFFFFFFFF)
      else xor_merkle 4 (bMerkleRoot block) (bVersion block XOR bTimestamp block XOR bBits block))"

section \<open>One thread\<close>

text \<open>\<open>for i := 0; i < maxHashes; i++\<close> with \<open>k\<close> iterations left.\<close>

primrec strategy_loop ::
  "(u32 \<Rightarrow> go_panic + byte list) \<Rightarrow> byte list \<Rightarrow> u32 \<Rightarrow> nat \<Rightarrow> u64 \<Rightarrow> go_panic + MineOutcome" where
  "strategy_loop hash target startNonce 0 i =
     Inr \<lparr>moNonce = 0, moHash = None, moFound = False, moHashCount = i\<rparr>"
| "strategy_loop hash target startNonce (Suc k) i =
     (let nonce = ucast ((ucast startNonce + i) AND 0xFFFFFFFF) in
      ebind (hash nonce) (\<lambda>hashLE.
        if hashMeetsTargetLE hashLE target
        then Inr \<lparr>moNonce = nonce, moHash = Some (reverseBytesInPlace hashLE), moFound = True,
                  moHashCount = i + 1\<rparr>
        else strategy_loop hash target startNonce k (i + 1)))"

definition mineWithStrategy ::
  "scrypt_key \<Rightarrow> ScryptMiner \<Rightarrow> Block \<Rightarrow> nat \<Rightarrow> u32 \<Rightarrow> go_panic + MineOutcome" where
  "mineWithStrategy key m block target startNonce =
     ebind (target_le_bytes target) (\<lambda>targetLE.
       strategy_loop (hash_nonce key m block) targetLE startNonce
         (unat (effectiveMaxHashes m)) 0)"

section \<open>The parallel search\<close>

record Job =
  jMode :: string
  jStride :: bool
  jThreads :: nat
  jBase :: u32
  jMax :: u64
  jTarget :: "byte list"
  jHash :: "u32 \<Rightarrow> go_panic + byte list"

text \<open>
  Where a goroutine stands: at the outer loop's test, at the inner loop's test for a nonce
  and batch end, about to hash that nonce, the same for the stride loop's index, about to send
  the result it found, finished, or returned after a hit.
\<close>

datatype pc =
    AtOuter
  | AtInner u32 u32
  | AtHash u32 u32
  | AtStride u32
  | AtStrideHash u32
  | AtSend u32 "byte list"
  | Finished
  | Returned

record Thread =
  threadStart :: u32
  threadEnd :: u32
  currentNonce :: u32
  localHashCount :: u64
  tPc :: pc

text \<open>
  What the goroutines share: the found flag, what is in the results channel, what the calling
  goroutine has taken out of it, the hash count and a panic.
\<close>

record Shared =
  foundFlag :: bool
  results :: "(u32 \<times> byte list) list"
  received :: "(u32 \<times> byte list) list"
  totalHashes :: u64
  crashed :: "go_panic option"

definition batchSize :: u32 where "batchSize = 1000"

definition thread_init :: "Job \<Rightarrow> nat \<Rightarrow> Thread" where
  "thread_init j t =
     (let range = 0xFFFFFFFF div of_nat (jThreads j) :: u64;
          start = (if jStride j then (jBase j + of_nat t) mod 0xFFFFFFFF
                   else jBase j + ucast (of_nat t * range));
          end' = (if jStride j then 0xFFFFFFFF
                  else if t = jThreads j - 1 then 0xFFFFFFFF
                  else jBase j + ucast (of_nat (t + 1) * range))
      in \<lparr>threadStart = start, threadEnd = end', currentNonce = start, localHashCount = 0,
          tPc = AtOuter\<rparr>)"

definition thread_exit :: "Shared \<Rightarrow> Thread \<Rightarrow> Shared \<times> Thread" where
  "thread_exit sh th =
     (sh\<lparr>totalHashes := totalHashes sh + localHashCount th\<rparr>, th\<lparr>tPc := Finished\<rparr>)"

text \<open>The loop conditions and what happens between them.\<close>

definition outer_step :: "Job \<Rightarrow> Shared \<Rightarrow> Thread \<Rightarrow> Shared \<times> Thread" where
  "outer_step j sh th =
     (let cur = currentNonce th; live = localHashCount th < jMax j \<and> \<not> foundFlag sh in
      if jMode j = ''backward'' then
        if live \<and> 0 < cur
        then (sh, th\<lparr>tPc := AtInner cur (if batchSize < cur then cur - batchSize else 0)\<rparr>)
        else thread_exit sh th
      else if \<not> live then thread_exit sh th
      else if jStride j then (sh, th\<lparr>tPc := AtStride 0\<rparr>)
      else
        let batchEnd = cur + batchSize;
            batchEnd = (if threadEnd th < batchEnd then threadEnd th else batchEnd)
        in (sh, th\<lparr>tPc := AtInner cur batchEnd\<rparr>))"

definition inner_exit :: "Job \<Rightarrow> u32 \<Rightarrow> Thread \<Rightarrow> Thread" where
  "inner_exit j batchEnd th =
     (let more = localHashCount th < jMax j;
          cur = (if jMode j = ''backward''
                 then (if batchEnd = 0 \<and> more then 0xFFFFFFFF else batchEnd)
                 else (if threadEnd th \<le> batchEnd \<and> more then threadStart th else batchEnd))
      in th\<lparr>currentNonce := cur, tPc := AtOuter\<rparr>)"

definition inner_step :: "Job \<Rightarrow> Shared \<Rightarrow> u32 \<Rightarrow> u32 \<Rightarrow> Thread \<Rightarrow> Thread" where
  "inner_step j sh nonce batchEnd th =
     (let inBatch = (if jMode j = ''backward'' then batchEnd < nonce else nonce < batchEnd) in
      if inBatch \<and> localHashCount th < jMax j \<and> \<not> foundFlag sh
      then th\<lparr>tPc := AtHash nonce batchEnd\<rparr>
      else inner_exit j batchEnd th)"

definition stride_step :: "Job \<Rightarrow> Shared \<Rightarrow> u32 \<Rightarrow> Thread \<Rightarrow> Thread" where
  "stride_step j sh i th =
     (if i < batchSize \<and> localHashCount th < jMax j \<and> \<not> foundFlag sh
      then th\<lparr>tPc := AtStrideHash i\<rparr>
      else th\<lparr>threadStart := (threadStart th + batchSize * of_nat (jThreads j)) mod 0xFFFFFFFF,
              tPc := AtOuter\<rparr>)"

text \<open>
  Hash a nonce; on a hit swap the flag, and return when it was set already. The goroutine that
  set it still has to send its result, which is a step of its own (\<open>send_step\<close>).
\<close>

definition hash_step :: "Job \<Rightarrow> Shared \<Rightarrow> u32 \<Rightarrow> pc \<Rightarrow> Thread \<Rightarrow> Shared \<times> Thread" where
  "hash_step j sh nonce nxt th =
     (case jHash j nonce of
        Inl p \<Rightarrow> (sh\<lparr>crashed := Some p\<rparr>, th)
      | Inr hashLE \<Rightarrow>
          let th = th\<lparr>localHashCount := localHashCount th + 1\<rparr> in
          if hashMeetsTargetLE hashLE (jTarget j) then
            (sh\<lparr>foundFlag := True\<rparr>,
             th\<lparr>tPc := if foundFlag sh then Returned
                       else AtSend nonce (reverseBytesInPlace hashLE)\<rparr>)
          else (sh, th\<lparr>tPc := nxt\<rparr>))"

definition send_step :: "u32 \<Rightarrow> byte list \<Rightarrow> Shared \<Rightarrow> Thread \<Rightarrow> Shared \<times> Thread" where
  "send_step nonce hash sh th =
     (sh\<lparr>results := results sh @ [(nonce, hash)]\<rparr>, th\<lparr>tPc := Returned\<rparr>)"

definition thread_step :: "Job \<Rightarrow> Shared \<Rightarrow> Thread \<Rightarrow> Shared \<times> Thread" where
  "thread_step j sh th =
     (case tPc th of
        AtOuter \<Rightarrow> outer_step j sh th
      | AtInner nonce batchEnd \<Rightarrow> (sh, inner_step j sh nonce batchEnd th)
      | AtHash nonce batchEnd \<Rightarrow>
          hash_step j sh nonce
            (AtInner (if jMode j = ''backward'' then nonce - 1 else nonce + 1) batchEnd) th
      | AtStride i \<Rightarrow> (sh, stride_step j sh i th)
      | AtStrideHash i \<Rightarrow>
          hash_step j sh ((threadStart th + i * of_nat (jThreads j)) mod 0xFFFFFFFF)
            (AtStride (i + 1)) th
      | AtSend nonce hash \<Rightarrow> send_step nonce hash sh th
      | Finished \<Rightarrow> (sh, th)
      | Returned \<Rightarrow> (sh, th))"

definition halted :: "Thread \<Rightarrow> bool" where
  "halted th \<longleftrightarrow> tPc th = Finished \<or> tPc th = Returned"

definition par_init :: "Job \<Rightarrow> Shared \<times> Thread list" where
  "par_init j = (\<lparr>foundFlag = False, results = [], received = [], totalHashes = 0, crashed = None\<rparr>,
                 map (thread_init j) [0..<jThreads j])"

text \<open>\<open>for result := range results\<close> takes the next result; the goroutine that drains the
  channel after the caller has returned does the same.\<close>

definition recv_step :: "Shared \<Rightarrow> Shared" where
  "recv_step sh = sh\<lparr>results := tl (results sh), received := received sh @ take 1 (results sh)\<rparr>"

text \<open>The scheduler picks any goroutine that still runs, or the receiver when a result waits; a
  panic stops the process.\<close>

inductive par_step :: "Job \<Rightarrow> Shared \<times> Thread list \<Rightarrow> Shared \<times> Thread list \<Rightarrow> bool" for j where
  par_step: "i < length ths \<Longrightarrow> \<not> halted (ths ! i) \<Longrightarrow> crashed sh = None \<Longrightarrow>
     thread_step j sh (ths ! i) = (sh', th') \<Longrightarrow> par_step j (sh, ths) (sh', ths[i := th'])"
| par_recv: "results sh \<noteq> [] \<Longrightarrow> crashed sh = None \<Longrightarrow> par_step j (sh, ths) (recv_step sh, ths)"

inductive_cases par_stepE: "par_step j s s'"

abbreviation par_reachable :: "Job \<Rightarrow> Shared \<times> Thread list \<Rightarrow> bool" where
  "par_reachable j \<equiv> (par_step j)\<^sup>*\<^sup>* (par_init j)"

text \<open>A schedule names the goroutines in turn; the number after the last one is the receiver.\<close>

fun run_schedule :: "Job \<Rightarrow> nat list \<Rightarrow> Shared \<times> Thread list \<Rightarrow> Shared \<times> Thread list" where
  "run_schedule j [] s = s"
| "run_schedule j (i # sched) (sh, ths) =
     (if i < length ths \<and> \<not> halted (ths ! i) \<and> crashed sh = None
      then (let (sh', th') = thread_step j sh (ths ! i) in run_schedule j sched (sh', ths[i := th']))
      else if i = length ths \<and> results sh \<noteq> [] \<and> crashed sh = None
      then run_schedule j sched (recv_step sh, ths)
      else run_schedule j sched (sh, ths))"

text \<open>
  \<open>for result := range results\<close>: the first result with a nonzero nonce whose hash, now
  in display order, again passes the comparison.
\<close>

fun collect :: "nat \<Rightarrow> u64 \<Rightarrow> (u32 \<times> byte list) list \<Rightarrow> go_panic + MineOutcome" where
  "collect target hashes [] =
     Inr \<lparr>moNonce = 0, moHash = None, moFound = False, moHashCount = hashes\<rparr>"
| "collect target hashes ((nonce, hash) # rs) =
     (if nonce \<noteq> 0 \<and> hash \<noteq> [] then
        ebind (target_le_bytes target) (\<lambda>targetLE.
          if hashMeetsTargetLE hash targetLE
          then Inr \<lparr>moNonce = nonce, moHash = Some hash, moFound = True, moHashCount = hashes\<rparr>
          else collect target hashes rs)
      else collect target hashes rs)"

definition parallel_job :: "scrypt_key \<Rightarrow> ScryptMiner \<Rightarrow> Block \<Rightarrow> byte list \<Rightarrow> u32 \<Rightarrow> Job" where
  "parallel_job key m block targetLE base =
     (let perThread = effectiveMaxHashes m div of_int (ThreadCount m) in
      \<lparr>jMode = NonceSearchMode m, jStride = UseStride m, jThreads = nat (ThreadCount m),
       jBase = base, jMax = (if perThread = 0 then 1000 else perThread), jTarget = targetLE,
       jHash = hash_nonce key m block\<rparr>)"

text \<open>
  \<open>mineParallel\<close> along a schedule: it returns as soon as a received result is accepted, and
  otherwise only when every goroutine is through and the channel is empty, since the results
  channel is closed after all of them.
\<close>

definition mineParallel ::
  "scrypt_key \<Rightarrow> ScryptMiner \<Rightarrow> Block \<Rightarrow> nat \<Rightarrow> u64 \<Rightarrow> nat list \<Rightarrow> (go_panic + MineOutcome) option" where
  "mineParallel key m block target unixNano schedule =
     (case target_le_bytes target of
        Inl p \<Rightarrow> Some (Inl p)
      | Inr targetLE \<Rightarrow>
          let j = parallel_job key m block targetLE (calculateStartNonceCPU block ''random'' unixNano);
              (sh, ths) = run_schedule j schedule (par_init j);
              r = collect target (totalHashes sh) (received sh)
          in if crashed sh \<noteq> None then Some (Inl (the (crashed sh)))
             else if (case r of Inr out \<Rightarrow> moFound out | Inl p \<Rightarrow> False) \<or> list_all halted ths \<and> results sh = []
             then Some r else None)"

definition MineBlock ::
  "scrypt_key \<Rightarrow> ScryptMiner \<Rightarrow> Block \<Rightarrow> string \<Rightarrow> u64 \<Rightarrow> u32 \<Rightarrow> nat list \<Rightarrow>
     (go_panic + MineOutcome) option" where
  "MineBlock key m block targetHex unixNano startNonce schedule =
     (case hexDecode targetHex of
        Inl e \<Rightarrow> Some (Inr \<lparr>moNonce = 0, moHash = None, moFound = False, moHashCount = 0\<rparr>)
      | Inr targetBytes \<Rightarrow>
          let target = (if be_nat targetBytes = 0 then 1 else be_nat targetBytes) in
          if 1 < ThreadCount m then mineParallel key m block target unixNano schedule
          else Some (mineWithStrategy key m block target startNonce))"

section \<open>The single-threaded search\<close>

lemma precomputeHeaderBase_nonce:
  "wf_block b \<Longrightarrow> precomputeHeaderBase b @ put_u32 n = SerializeHeader (b\<lparr>bNonce := n\<rparr>)"
  by (simp add: precomputeHeaderBase_def SerializeHeader_def wf_block_def Let_def)

lemma wf_block_nonce [simp]: "wf_block (b\<lparr>bNonce := n\<rparr>) = wf_block b"
  by (simp add: wf_block_def)

text \<open>The proof-of-work hash of a block as \<open>key\<close> computes it for the given miner.\<close>

definition pow_hash :: "scrypt_key \<Rightarrow> ScryptMiner \<Rightarrow> Block \<Rightarrow> byte list option" where
  "pow_hash key m b =
     key (SerializeHeader b) (SerializeHeader b) (scryptN m) (scryptR m) (scryptP m) 32"

text \<open>The documented contract of \<open>scrypt.Key\<close> for valid parameters: a key of the asked length.\<close>

definition key_ok :: "scrypt_key \<Rightarrow> ScryptMiner \<Rightarrow> bool" where
  "key_ok key m \<longleftrightarrow> (\<forall>p s n. \<exists>h. key p s (scryptN m) (scryptR m) (scryptP m) n = Some h \<and> length h = n)"

lemma hash_nonce_pow:
  assumes "wf_block b" "key_ok key m"
  shows "\<exists>h. pow_hash key m (b\<lparr>bNonce := n\<rparr>) = Some h \<and> hash_nonce key m b n = Inr h \<and> length h = 32"
proof -
  have "length (SerializeHeader (b\<lparr>bNonce := n\<rparr>)) = 80" using assms(1) by simp
  with assms show ?thesis
    unfolding key_ok_def hash_nonce_def scryptHash_def pow_hash_def precomputeHeaderBase_nonce [OF assms(1)]
    by (metis (mono_tags, lifting) option.simps(5))
qed

lemma nonce_of_index: "(ucast ((ucast (s :: u32) + (i :: u64)) AND 0xFFFFFFFF) :: u32) = s + ucast i"
proof -
  have "(ucast s + i) AND 0xFFFFFFFF = take_bit 32 (ucast s + i)"
    by (simp add: take_bit_eq_mask mask_eq_exp_minus_1)
  then show ?thesis
    by (simp add: word_unat_eq_iff unsigned_ucast_eq unsigned_take_bit_eq unat_word_ariths
        take_bit_eq_mod mod_simps mod_mod_cancel)
qed

lemma strategy_loop_Suc:
  "strategy_loop hash target s (Suc k) i =
     ebind (hash (s + ucast i)) (\<lambda>h.
       if hashMeetsTargetLE h target
       then Inr \<lparr>moNonce = s + ucast i, moHash = Some (rev h), moFound = True, moHashCount = i + 1\<rparr>
       else strategy_loop hash target s k (i + 1))"
  by (simp only: strategy_loop.simps nonce_of_index Let_def reverseBytesInPlace_rev)

declare strategy_loop.simps(2) [simp del] strategy_loop_Suc [simp]

lemma ucast_Suc: "(ucast (i + 1 :: u64) :: u32) = ucast i + 1"
  by (simp add: word_unat_eq_iff unsigned_ucast_eq unat_word_ariths take_bit_eq_mod mod_simps mod_mod_cancel)

lemma ucast_Suc': "(ucast (1 + i :: u64) :: u32) = 1 + ucast i"
  using ucast_Suc [of i] by (simp add: add.commute)

text \<open>The loop is a first-hit search over consecutive nonces; \<open>pow n\<close> is what \<open>hash\<close> returns.\<close>

lemma strategy_loop_miss:
  assumes hash: "\<And>n. hash n = Inr (pow n)"
  shows "(\<And>d. d < k \<Longrightarrow> \<not> hashMeetsTargetLE (pow (s + ucast i + of_nat d)) target) \<Longrightarrow>
   strategy_loop hash target s k i =
     Inr \<lparr>moNonce = 0, moHash = None, moFound = False, moHashCount = i + of_nat k\<rparr>"
proof (induction k arbitrary: i)
  case (Suc k)
  from Suc.prems [of 0] have "\<not> hashMeetsTargetLE (pow (s + ucast i)) target" by simp
  moreover have "\<not> hashMeetsTargetLE (pow (s + ucast (i + 1) + of_nat d)) target" if "d < k" for d
    using Suc.prems [of "Suc d"] that by (simp add: ucast_Suc ucast_Suc' add_ac)
  ultimately show ?case using Suc.IH [of "i + 1"]
    by (simp add: hash ucast_Suc ucast_Suc' add_ac)
qed simp

lemma strategy_loop_hit:
  assumes hash: "\<And>n. hash n = Inr (pow n)"
  shows "d < k \<Longrightarrow> hashMeetsTargetLE (pow (s + ucast i + of_nat d)) target \<Longrightarrow>
   (\<And>e. e < d \<Longrightarrow> \<not> hashMeetsTargetLE (pow (s + ucast i + of_nat e)) target) \<Longrightarrow>
   strategy_loop hash target s k i =
     Inr \<lparr>moNonce = s + ucast i + of_nat d, moHash = Some (rev (pow (s + ucast i + of_nat d))),
          moFound = True, moHashCount = i + of_nat d + 1\<rparr>"
proof (induction k arbitrary: i d)
  case (Suc k)
  show ?case
  proof (cases d)
    case 0
    with Suc.prems(2) show ?thesis by (simp add: hash)
  next
    case (Suc d')
    from Suc.prems(3) [of 0] Suc have "\<not> hashMeetsTargetLE (pow (s + ucast i)) target" by simp
    moreover have "\<not> hashMeetsTargetLE (pow (s + ucast (i + 1) + of_nat e)) target" if "e < d'" for e
      using Suc.prems(3) [of "Suc e"] that Suc by (simp add: ucast_Suc ucast_Suc' add_ac)
    ultimately show ?thesis using Suc.IH [of d' "i + 1"] Suc.prems(1,2) Suc
      by (simp add: hash ucast_Suc ucast_Suc' add_ac)
  qed
qed simp

definition nonce_hits :: "scrypt_key \<Rightarrow> ScryptMiner \<Rightarrow> Block \<Rightarrow> nat \<Rightarrow> u32 \<Rightarrow> bool" where
  "nonce_hits key m b target n \<longleftrightarrow>
     (case pow_hash key m (b\<lparr>bNonce := n\<rparr>) of
        Some h \<Rightarrow> length h = 32 \<and> le_nat h \<le> target
      | None \<Rightarrow> False)"

text \<open>What the single-threaded search returns, in terms of the first hit.\<close>

definition search_result :: "scrypt_key \<Rightarrow> ScryptMiner \<Rightarrow> Block \<Rightarrow> nat \<Rightarrow> u32 \<Rightarrow> MineOutcome \<Rightarrow> bool" where
  "search_result key m b target s out \<longleftrightarrow>
     (if moFound out
      then \<exists>d < unat (effectiveMaxHashes m). \<exists>h.
        moNonce out = s + of_nat d \<and> moHashCount out = of_nat d + 1 \<and>
        nonce_hits key m b target (moNonce out) \<and>
        pow_hash key m (b\<lparr>bNonce := moNonce out\<rparr>) = Some h \<and> moHash out = Some (rev h) \<and>
        (\<forall>e < d. \<not> nonce_hits key m b target (s + of_nat e))
      else moHashCount out = effectiveMaxHashes m \<and> moHash out = None \<and>
        (\<forall>d < unat (effectiveMaxHashes m). \<not> nonce_hits key m b target (s + of_nat d)))"

lemma mineWithStrategy_result:
  assumes "wf_block b" "key_ok key m" "target < 2 ^ 256"
  shows "\<exists>out. mineWithStrategy key m b target s = Inr out \<and> search_result key m b target s out"
proof -
  from assms(3) have "target < 256 ^ 32" by simp
  then obtain t where t: "target_le_bytes target = Inr t" using target_le_bytes_Inr by blast
  define pow where "pow n = the (pow_hash key m (b\<lparr>bNonce := n\<rparr>))" for n
  have hash: "hash_nonce key m b n = Inr (pow n)" and pw: "pow_hash key m (b\<lparr>bNonce := n\<rparr>) = Some (pow n)"
    and len: "length (pow n) = 32" for n
    using hash_nonce_pow [OF assms(1,2), of n] by (auto simp: pow_def)
  have hit: "nonce_hits key m b target n \<longleftrightarrow> hashMeetsTargetLE (pow n) t" for n
    by (simp add: nonce_hits_def pw len meets_target_le_bytes [OF t])
  let ?k = "unat (effectiveMaxHashes m)"
  have run: "mineWithStrategy key m b target s = strategy_loop (hash_nonce key m b) t s ?k 0"
    by (simp add: mineWithStrategy_def t)
  show ?thesis
  proof (cases "\<exists>d < ?k. nonce_hits key m b target (s + of_nat d)")
    case True
    then obtain d where d: "d < ?k" "nonce_hits key m b target (s + of_nat d)"
      "\<And>e. e < d \<Longrightarrow> \<not> nonce_hits key m b target (s + of_nat e)"
      using exists_least_iff [of "\<lambda>d. d < ?k \<and> nonce_hits key m b target (s + of_nat d)"] by auto
    from strategy_loop_hit [of "hash_nonce key m b" pow d ?k s 0 t, OF hash d(1)] d(2,3)
    have "mineWithStrategy key m b target s = Inr \<lparr>moNonce = s + of_nat d,
        moHash = Some (rev (pow (s + of_nat d))), moFound = True, moHashCount = of_nat d + 1\<rparr>"
      by (simp add: run hit)
    with d show ?thesis by (auto simp: search_result_def pw)
  next
    case False
    with strategy_loop_miss [of "hash_nonce key m b" pow ?k s 0 t, OF hash]
    have "mineWithStrategy key m b target s = Inr \<lparr>moNonce = 0, moHash = None,
        moFound = False, moHashCount = effectiveMaxHashes m\<rparr>"
      by (simp add: run hit)
    with False show ?thesis by (auto simp: search_result_def)
  qed
qed

section \<open>Safety of the parallel search\<close>

definition at_hash :: "pc \<Rightarrow> bool" where
  "at_hash p \<longleftrightarrow> (case p of AtHash _ _ \<Rightarrow> True | AtStrideHash _ \<Rightarrow> True | _ \<Rightarrow> False)"

definition genuine :: "Job \<Rightarrow> u32 \<times> byte list \<Rightarrow> bool" where
  "genuine j r \<longleftrightarrow> (\<exists>h. jHash j (fst r) = Inr h \<and> hashMeetsTargetLE h (jTarget j) \<and> snd r = rev h)"

text \<open>The result a goroutine has found and not sent yet.\<close>

definition unsent :: "Thread \<Rightarrow> (u32 \<times> byte list) list" where
  "unsent th = (case tPc th of AtSend n h \<Rightarrow> [(n, h)] | _ \<Rightarrow> [])"

definition shared_inv :: "Job \<Rightarrow> Shared \<Rightarrow> bool" where
  "shared_inv j sh \<longleftrightarrow> list_all (genuine j) (results sh) \<and> list_all (genuine j) (received sh)"

definition thread_inv :: "Job \<Rightarrow> Thread \<Rightarrow> bool" where
  "thread_inv j th \<longleftrightarrow> localHashCount th \<le> jMax j \<and>
     (at_hash (tPc th) \<longrightarrow> localHashCount th < jMax j) \<and> list_all (genuine j) (unsent th)"

text \<open>Every result there is: still unsent, in the channel, or received.\<close>

definition results_of :: "Shared \<times> Thread list \<Rightarrow> nat" where
  "results_of s = sum_list (map (length \<circ> unsent) (snd s)) + length (results (fst s)) + length (received (fst s))"

definition par_inv :: "Job \<Rightarrow> Shared \<times> Thread list \<Rightarrow> bool" where
  "par_inv j s \<longleftrightarrow> shared_inv j (fst s) \<and> list_all (thread_inv j) (snd s) \<and>
     results_of s = (if foundFlag (fst s) then 1 else 0)"

definition flag_nat :: "bool \<Rightarrow> nat" where
  "flag_nat b = (if b then 1 else 0)"

lemma flag_nat_simps [simp]: "flag_nat True = 1" "flag_nat False = 0"
  by (simp_all add: flag_nat_def)

text \<open>What one step of a goroutine keeps of the results: they move, none is lost, and a new one
  comes with the flag.\<close>

definition step_ok :: "Shared \<Rightarrow> Thread \<Rightarrow> Shared \<Rightarrow> Thread \<Rightarrow> bool" where
  "step_ok sh th sh' th' \<longleftrightarrow> received sh' = received sh \<and>
     length (unsent th') + length (results sh') + flag_nat (foundFlag sh) =
     length (unsent th) + length (results sh) + flag_nat (foundFlag sh')"

lemma at_hash_simps [simp]:
  "at_hash (AtHash n b)" "at_hash (AtStrideHash i)" "\<not> at_hash AtOuter" "\<not> at_hash (AtInner n b)"
  "\<not> at_hash (AtStride i)" "\<not> at_hash (AtSend n h)" "\<not> at_hash Finished" "\<not> at_hash Returned"
  by (simp_all add: at_hash_def)

lemma hash_step_inv:
  assumes "shared_inv j sh" "thread_inv j th" "at_hash (tPc th)" "\<not> at_hash nxt" "\<forall>n h. nxt \<noteq> AtSend n h"
    and "hash_step j sh nonce nxt th = (sh', th')"
  shows "shared_inv j sh' \<and> thread_inv j th' \<and> step_ok sh th sh' th'"
proof -
  have c: "localHashCount th + 1 \<le> jMax j" "localHashCount th \<le> jMax j"
    using assms(2,3) by (auto simp: thread_inv_def intro: inc_le)
  have u: "unsent th = []" using assms(3) by (cases "tPc th") (simp_all add: unsent_def)
  have x: "unsent (th\<lparr>localHashCount := k, tPc := nxt\<rparr>) = []" for k
    using assms(5) by (simp add: unsent_def split: pc.split)
  show ?thesis
  proof (cases "jHash j nonce")
    case (Inl p)
    with assms show ?thesis by (auto simp: hash_step_def shared_inv_def step_ok_def)
  next
    case (Inr h)
    show ?thesis
    proof (cases "hashMeetsTargetLE h (jTarget j)")
      case True
      have "shared_inv j sh'" "thread_inv j th'"
        using assms(1,6) c Inr True
        by (auto simp: hash_step_def shared_inv_def thread_inv_def genuine_def unsent_def Let_def split: if_splits)
      moreover have "step_ok sh th sh' th'"
        using assms(6) u Inr True by (auto simp: hash_step_def step_ok_def unsent_def Let_def)
      ultimately show ?thesis by blast
    next
      case False
      with assms c u x Inr show ?thesis
        by (auto simp: hash_step_def shared_inv_def thread_inv_def step_ok_def Let_def)
    qed
  qed
qed

lemma thread_step_hash:
  assumes "at_hash (tPc th)"
  obtains n nxt where "thread_step j sh th = hash_step j sh n nxt th" "\<not> at_hash nxt" "\<forall>n h. nxt \<noteq> AtSend n h"
  using assms by (cases "tPc th") (auto simp: thread_step_def)

lemma thread_step_inv:
  assumes "shared_inv j sh" "thread_inv j th" "thread_step j sh th = (sh', th')"
  shows "shared_inv j sh' \<and> thread_inv j th' \<and> step_ok sh th sh' th'"
proof (cases "at_hash (tPc th)")
  case True
  then obtain n nxt where "thread_step j sh th = hash_step j sh n nxt th" "\<not> at_hash nxt" "\<forall>n h. nxt \<noteq> AtSend n h"
    by (rule thread_step_hash)
  with hash_step_inv [OF assms(1,2) True] assms(3) show ?thesis by metis
next
  case False
  with assms show ?thesis
    by (cases "tPc th") (auto simp: thread_step_def outer_step_def thread_exit_def inner_step_def send_step_def
        inner_exit_def stride_step_def shared_inv_def thread_inv_def step_ok_def unsent_def Let_def
        split: if_splits)
qed

lemma sum_list_update_add:
  fixes f :: "'a \<Rightarrow> nat"
  shows "i < length xs \<Longrightarrow>
   sum_list (map f (xs[i := y])) + f (xs ! i) = sum_list (map f xs) + f y"
proof (induction xs arbitrary: i)
  case (Cons x xs)
  then show ?case by (cases i) (simp_all add: add.left_commute)
qed simp

lemma par_init_inv: "par_inv j (par_init j)"
proof -
  have "map (length \<circ> unsent \<circ> thread_init j) [0..<jThreads j] = replicate (jThreads j) 0"
    by (intro nth_equalityI) (simp_all add: thread_init_def unsent_def Let_def)
  then have "sum_list (map (length \<circ> unsent) (snd (par_init j))) = 0"
    by (simp add: par_init_def sum_list_replicate comp_assoc)
  moreover have "shared_inv j (fst (par_init j)) \<and> list_all (thread_inv j) (snd (par_init j))"
    by (auto simp: par_init_def shared_inv_def thread_inv_def thread_init_def unsent_def list_all_iff Let_def)
  ultimately show ?thesis by (simp add: par_inv_def results_of_def) (simp add: par_init_def)
qed

lemma recv_step_inv:
  assumes "par_inv j (sh, ths)" "results sh \<noteq> []"
  shows "par_inv j (recv_step sh, ths)"
  using assms by (cases "results sh") (auto simp: par_inv_def shared_inv_def results_of_def recv_step_def)

lemma par_step_inv:
  assumes "par_step j s s'" "par_inv j s"
  shows "par_inv j s'"
  using assms(1)
proof cases
  case (par_step i ths sh sh' th')
  then have th: "thread_inv j (ths ! i)" and sh: "shared_inv j sh"
    using assms(2) by (simp_all add: list_all_length par_inv_def)
  note st = thread_step_inv [OF sh th par_step(6)]
  have "sum_list (map (length \<circ> unsent) (ths[i := th'])) + length (unsent (ths ! i)) =
      sum_list (map (length \<circ> unsent) ths) + length (unsent th')"
    using sum_list_update_add [OF par_step(3), of "length \<circ> unsent"] by simp
  then have "results_of (sh', ths[i := th']) + flag_nat (foundFlag sh) = results_of (sh, ths) + flag_nat (foundFlag sh')"
    using st by (simp add: step_ok_def results_of_def)
  moreover have "results_of (sh, ths) = flag_nat (foundFlag sh)"
    using assms(2) par_step(1) by (simp add: par_inv_def flag_nat_def)
  ultimately have "results_of (sh', ths[i := th']) = (if foundFlag sh' then 1 else 0)"
    by (simp add: flag_nat_def split: if_splits)
  moreover have "list_all (thread_inv j) (ths[i := th'])"
    using st assms(2) par_step(1) by (auto simp: par_inv_def list_all_iff dest!: set_update_subset_insert [THEN subsetD])
  ultimately show ?thesis using st par_step(2) by (simp add: par_inv_def)
next
  case (par_recv sh ths)
  with assms(2) recv_step_inv show ?thesis by blast
qed

lemma par_reachable_inv: "par_reachable j s \<Longrightarrow> par_inv j s"
proof (induction rule: rtranclp_induct)
  case base
  show ?case by (rule par_init_inv)
next
  case (step s s')
  then show ?case using par_step_inv by blast
qed

lemma reachable_genuine:
  assumes "par_reachable j s" "r \<in> set (results (fst s)) \<union> set (received (fst s))"
  shows "genuine j r"
  using par_reachable_inv [OF assms(1)] assms(2) by (auto simp: par_inv_def shared_inv_def list_all_iff)

lemma no_solution_no_flag:
  assumes "par_reachable j s" "\<And>r. \<not> genuine j r"
  shows "\<not> foundFlag (fst s) \<and> results (fst s) = [] \<and> received (fst s) = []"
proof -
  have inv: "par_inv j s" by (rule par_reachable_inv [OF assms(1)])
  have n: "results (fst s) = []" "received (fst s) = []"
    using inv assms(2) by (cases "results (fst s)"; cases "received (fst s)"; simp add: par_inv_def shared_inv_def)+
  have "unsent th = []" if "th \<in> set (snd s)" for th
    using inv assms(2) [of "hd (unsent th)"] that
    by (cases "unsent th") (fastforce simp: par_inv_def thread_inv_def list_all_iff)+
  then have "map (length \<circ> unsent) (snd s) = map (\<lambda>_. 0) (snd s)" by (intro map_cong) simp_all
  then have "results_of s = 0" using n by (simp add: results_of_def map_replicate_const sum_list_replicate)
  with inv n show ?thesis by (simp add: par_inv_def split: if_splits)
qed

lemma run_schedule_reachable:
  "(par_step j)\<^sup>*\<^sup>* s (run_schedule j sched s)"
proof (induction j sched s rule: run_schedule.induct)
  case (2 j i sched sh ths)
  let ?run = "i < length ths \<and> \<not> halted (ths ! i) \<and> crashed sh = None"
  let ?recv = "i = length ths \<and> results sh \<noteq> [] \<and> crashed sh = None"
  consider ?run | "\<not> ?run" ?recv | "\<not> ?run" "\<not> ?recv" by blast
  then show ?case
  proof cases
    case 1
    obtain sh' th' where st: "thread_step j sh (ths ! i) = (sh', th')" by fastforce
    then have "par_step j (sh, ths) (sh', ths[i := th'])" using 1 by (blast intro: par_step)
    moreover have "(par_step j)\<^sup>*\<^sup>* (sh', ths[i := th']) (run_schedule j sched (sh', ths[i := th']))"
      using 2(1) [OF 1, of "(sh', th')"] st by simp
    ultimately show ?thesis using 1 st by (simp add: converse_rtranclp_into_rtranclp)
  next
    case 2
    then have "par_step j (sh, ths) (recv_step sh, ths)" by (blast intro: par_recv)
    with 2 "2.IH"(2) show ?thesis by (simp add: converse_rtranclp_into_rtranclp)
  next
    case 3
    from "2.IH"(3) [OF 3] 3 show ?thesis by auto
  qed
qed simp

section \<open>Termination of the stride distribution\<close>

definition stride_pc :: "pc \<Rightarrow> bool" where
  "stride_pc p \<longleftrightarrow> (case p of AtInner _ _ \<Rightarrow> False | AtHash _ _ \<Rightarrow> False | _ \<Rightarrow> True)"

definition remaining :: "Job \<Rightarrow> Thread \<Rightarrow> nat" where
  "remaining j th = unat (jMax j) - unat (localHashCount th)"

definition thread_measure :: "Job \<Rightarrow> bool \<Rightarrow> Thread \<Rightarrow> nat" where
  "thread_measure j found th =
     (case tPc th of
        AtOuter \<Rightarrow> 6 * remaining j th + 3
      | AtStride i \<Rightarrow> 6 * remaining j th +
          (if i < batchSize \<and> localHashCount th < jMax j \<and> \<not> found then 2 else 4)
      | AtStrideHash i \<Rightarrow> 6 * remaining j th + 1
      | AtSend n h \<Rightarrow> 2
      | _ \<Rightarrow> 0)"

definition par_measure :: "Job \<Rightarrow> Shared \<times> Thread list \<Rightarrow> nat" where
  "par_measure j s =
     sum_list (map (thread_measure j (foundFlag (fst s))) (snd s)) + length (results (fst s)) +
     (if foundFlag (fst s) then 0 else 2 * length (snd s)) +
     (if crashed (fst s) = None then 1 else 0)"

lemma thread_measure_flip: "thread_measure j True th \<le> thread_measure j False th + 2"
  by (simp add: thread_measure_def split: pc.split)

lemma sum_list_le_add:
  fixes f g :: "'a \<Rightarrow> nat"
  shows "(\<And>x. f x \<le> g x + c) \<Longrightarrow> sum_list (map f xs) \<le> sum_list (map g xs) + c * length xs"
proof (induction xs)
  case (Cons x xs)
  from Cons.prems [of x] Cons.IH [OF Cons.prems] show ?case by simp
qed simp

lemma remaining_Suc:
  assumes "localHashCount th < jMax j"
  shows "remaining j (th\<lparr>localHashCount := localHashCount th + 1, tPc := p\<rparr>) + 1 = remaining j th"
proof -
  have "unat (localHashCount th + 1) = unat (localHashCount th) + 1"
    using assms unat_u64_lt [of "jMax j"]
    by (simp add: word_less_nat_alt unat_word_ariths mod_less del: unat_u64_lt)
  with assms show ?thesis by (simp add: remaining_def word_less_nat_alt)
qed

text \<open>One step of a stride thread: the flag and the crash mark only go up, the measure down.\<close>

lemma stride_hash_step:
  assumes "localHashCount th < jMax j" "tPc th = AtStrideHash i"
    and "hash_step j sh n (AtStride k) th = (sh', th')"
  shows "stride_pc (tPc th') \<and>
    (crashed sh' \<noteq> None \<and> foundFlag sh' = foundFlag sh \<and> results sh' = results sh \<and> th' = th \<or>
     crashed sh' = crashed sh \<and> (foundFlag sh \<longrightarrow> foundFlag sh') \<and> results sh' = results sh \<and>
     thread_measure j (foundFlag sh') th' < thread_measure j (foundFlag sh) th)"
proof (cases "jHash j n")
  case (Inr h)
  have "1 \<le> remaining j th" using remaining_Suc [OF assms(1), of AtOuter] by simp
  then have "thread_measure j b (th\<lparr>localHashCount := c, tPc := AtSend n' h'\<rparr>)
      < thread_measure j (foundFlag sh) th" for b c n' h'
    using assms(2) by (simp add: thread_measure_def)
  moreover
  have "thread_measure j b (th\<lparr>localHashCount := localHashCount th + 1, tPc := AtStride k\<rparr>)
      < thread_measure j (foundFlag sh) th" for b
    using remaining_Suc [OF assms(1), of "AtStride k"] assms(2)
    by (simp add: thread_measure_def)
  moreover have "thread_measure j b (th\<lparr>localHashCount := c, tPc := Returned\<rparr>)
      < thread_measure j (foundFlag sh) th" for b c
    using assms(2) by (simp add: thread_measure_def)
  ultimately show ?thesis
    using assms(3) Inr by (auto simp: hash_step_def Let_def stride_pc_def split: if_splits)
qed (use assms in \<open>auto simp: hash_step_def stride_pc_def\<close>)

lemma stride_thread_step:
  assumes "jMode j \<noteq> ''backward''" "jStride j" "stride_pc (tPc th)" "\<not> halted th" "thread_inv j th"
    and "thread_step j sh th = (sh', th')"
  shows "stride_pc (tPc th') \<and>
    (crashed sh' \<noteq> None \<and> foundFlag sh' = foundFlag sh \<and> results sh' = results sh \<and> th' = th \<or>
     crashed sh' = crashed sh \<and> (foundFlag sh \<longrightarrow> foundFlag sh') \<and>
     (foundFlag sh' = foundFlag sh \<or> results sh' = results sh) \<and>
     thread_measure j (foundFlag sh') th' + length (results sh') < thread_measure j (foundFlag sh) th + length (results sh))"
proof (cases "tPc th")
  case AtOuter
  then show ?thesis using assms
    by (auto simp: thread_step_def outer_step_def thread_exit_def thread_measure_def
        stride_pc_def remaining_def batchSize_def Let_def split: if_splits)
next
  case (AtStride i)
  then show ?thesis using assms
    by (auto simp: thread_step_def stride_step_def thread_measure_def stride_pc_def remaining_def
        split: if_splits)
next
  case (AtStrideHash i)
  moreover from this assms(5) have "localHashCount th < jMax j" by (simp add: thread_inv_def)
  ultimately show ?thesis
    using stride_hash_step assms(6) by (fastforce simp: thread_step_def)
next
  case (AtSend n h)
  then show ?thesis using assms by (auto simp: thread_step_def send_step_def thread_measure_def stride_pc_def)
qed (use assms in \<open>auto simp: stride_pc_def halted_def\<close>)

lemma par_measure_decreases:
  assumes "par_step j s s'" "jMode j \<noteq> ''backward''" "jStride j"
    and "list_all (\<lambda>th. stride_pc (tPc th) \<and> thread_inv j th) (snd s)"
  shows "par_measure j s' < par_measure j s \<and> list_all (\<lambda>th. stride_pc (tPc th)) (snd s')"
  using assms(1)
proof cases
  case (par_step i ths sh sh' th')
  have th: "stride_pc (tPc (ths ! i))" "thread_inv j (ths ! i)"
    using assms(4) par_step by (simp_all add: list_all_length)
  note st = stride_thread_step [OF assms(2,3) th(1) par_step(4) th(2) par_step(6)]
  have pcs: "list_all (\<lambda>th. stride_pc (tPc th)) (ths[i := th'])"
    using assms(4) par_step(1) st by (auto simp: list_all_iff dest!: set_update_subset_insert [THEN subsetD])
  let ?f = "thread_measure j (foundFlag sh)" and ?g = "thread_measure j (foundFlag sh')"
  have upd: "sum_list (map ?g (ths[i := th'])) + ?g (ths ! i) = sum_list (map ?g ths) + ?g th'"
    by (rule sum_list_update_add) (rule par_step(3))
  have "par_measure j s' < par_measure j s"
  proof (cases "foundFlag sh' = foundFlag sh")
    case True
    with st upd par_step show ?thesis
      by (auto simp: par_measure_def)
  next
    case False
    with st have fl: "foundFlag sh'" "\<not> foundFlag sh" "crashed sh' = crashed sh" "results sh' = results sh"
      and lt: "?g th' < ?f (ths ! i)" by auto
    have "sum_list (map ?g (ths[i := th'])) \<le> sum_list (map ?f (ths[i := th'])) + 2 * length (ths[i := th'])"
      by (rule sum_list_le_add) (use fl thread_measure_flip in simp)
    moreover have "?f th' = ?f th'" ..
    moreover have "sum_list (map ?f (ths[i := th'])) + ?f (ths ! i) = sum_list (map ?f ths) + ?f th'"
      by (rule sum_list_update_add) (rule par_step(3))
    moreover have "?f th' < ?f (ths ! i)"
      using lt fl by (auto simp: thread_measure_def split: pc.splits if_splits)
    ultimately show ?thesis using fl par_step by (simp add: par_measure_def)
  qed
  with pcs par_step show ?thesis by simp
next
  case (par_recv sh ths)
  then have "par_measure j s' + 1 = par_measure j s"
    by (cases "results sh") (simp_all add: par_measure_def recv_step_def)
  with par_recv assms(4) show ?thesis by (simp add: list_all_iff)
qed

lemma par_steps_bound:
  assumes "(par_step j ^^ n) (par_init j) s" "jMode j \<noteq> ''backward''" "jStride j"
  shows "n + par_measure j s \<le> par_measure j (par_init j) \<and>
    list_all (\<lambda>th. stride_pc (tPc th)) (snd s) \<and> par_reachable j s"
  using assms(1)
proof (induction n arbitrary: s)
  case 0
  then show ?case
    by (auto simp: par_init_def thread_init_def stride_pc_def list_all_iff Let_def)
next
  case (Suc n)
  then obtain r where r: "(par_step j ^^ n) (par_init j) r" "par_step j r s" by auto
  note IH = Suc.IH [OF r(1)]
  have "list_all (\<lambda>th. stride_pc (tPc th) \<and> thread_inv j th) (snd r)"
    using IH par_reachable_inv [of j r] by (simp add: par_inv_def list_all_iff)
  from par_measure_decreases [OF r(2) assms(2,3) this] IH r(2)
  show ?case by (auto intro: rtranclp.rtrancl_into_rtrancl)
qed

lemma par_measure_init: "par_measure j (par_init j) = jThreads j * (6 * unat (jMax j) + 5) + 1"
proof -
  have "thread_measure j False (thread_init j t) = 6 * unat (jMax j) + 3" for t
    by (simp add: thread_measure_def thread_init_def remaining_def Let_def)
  then have "map (thread_measure j False \<circ> thread_init j) [0..<jThreads j] =
      replicate (jThreads j) (6 * unat (jMax j) + 3)"
    by (intro nth_equalityI) simp_all
  then show ?thesis
    by (simp add: par_measure_def par_init_def sum_list_replicate algebra_simps)
qed

section \<open>Livelock of the range distribution\<close>

lemma thread_init_simps [simp]:
  "localHashCount (thread_init j t) = 0" "tPc (thread_init j t) = AtOuter"
  "currentNonce (thread_init j t) = threadStart (thread_init j t)"
  by (simp_all add: thread_init_def Let_def)

text \<open>A thread whose range wraps around bounces between its two ends without hashing.\<close>

definition bouncing :: "Job \<Rightarrow> nat \<Rightarrow> Thread \<Rightarrow> bool" where
  "bouncing j t th \<longleftrightarrow>
     (let th0 = thread_init j t in
      threadStart th = threadStart th0 \<and> threadEnd th = threadEnd th0 \<and> localHashCount th = 0 \<and>
      (tPc th = AtOuter \<and> currentNonce th = threadStart th0 \<or>
       tPc th = AtInner (threadStart th0) (threadEnd th0)))"

lemma bouncing_step:
  assumes "jMode j \<noteq> ''backward''" "\<not> jStride j" "0 < jMax j"
    and wrap: "threadEnd (thread_init j t) < threadStart (thread_init j t)"
    and room: "threadStart (thread_init j t) < 0xFFFFFFFF - 1000"
    and th: "bouncing j t th" "\<not> foundFlag sh" "thread_step j sh th = (sh', th')"
  shows "bouncing j t th' \<and> foundFlag sh' = foundFlag sh"
proof -
  let ?s = "threadStart (thread_init j t)" and ?e = "threadEnd (thread_init j t)"
  have "?s < ?s + 1000"
    using room by (simp add: word_less_nat_alt unat_word_ariths)
  then have "?e < ?s + batchSize" "\<not> ?s < ?e" using wrap by (simp_all add: batchSize_def)
  then show ?thesis
    using assms by (auto simp: bouncing_def thread_step_def outer_step_def inner_step_def
        inner_exit_def Let_def)
qed

lemma found_monotone:
  "thread_step j sh th = (sh', th') \<Longrightarrow> foundFlag sh \<Longrightarrow> foundFlag sh'"
  by (auto simp: thread_step_def outer_step_def thread_exit_def hash_step_def send_step_def Let_def
      split: pc.splits if_splits sum.splits)

lemma livelock_reachable:
  assumes "par_reachable j s" "jMode j \<noteq> ''backward''" "\<not> jStride j" "0 < jMax j" "t < jThreads j"
    and "threadEnd (thread_init j t) < threadStart (thread_init j t)"
    and "threadStart (thread_init j t) < 0xFFFFFFFF - 1000"
  shows "length (snd s) = jThreads j \<and> (\<not> foundFlag (fst s) \<longrightarrow> bouncing j t (snd s ! t))"
  using assms(1)
proof (induction rule: rtranclp_induct)
  case base
  show ?case using assms(5)
    by (simp add: par_init_def bouncing_def)
next
  case (step r s)
  from step(2) show ?case
  proof cases
    case (par_step i ths sh sh' th')
    show ?thesis
    proof (cases "foundFlag sh'")
      case False
      then have nf: "\<not> foundFlag sh" using found_monotone par_step(6) by blast
      then have b: "bouncing j t (ths ! t)" using step(3) par_step by simp
      show ?thesis
      proof (cases "i = t")
        case True
        have "bouncing j t th'"
          using bouncing_step [OF assms(2,3,4,6,7) b nf, of sh' th'] par_step(6) True by blast
        moreover have "length ths = jThreads j" using step(3) par_step(1) by simp
        ultimately show ?thesis using par_step(2) True assms(5) by simp
      qed (use b par_step step(3) in simp)
    qed (use par_step step(3) in simp)
  next
    case par_recv
    with step(3) show ?thesis by (simp add: recv_step_def)
  qed
qed

text \<open>The range of thread \<open>t\<close> wraps when the 32-bit boundary falls inside it.\<close>

lemma range_wraps:
  fixes base :: u32
  defines "r T \<equiv> (2 ^ 32 - 1) div T"
  assumes "\<not> jStride j" "1 < jThreads j" "jThreads j < 2 ^ 31" "t + 1 < jThreads j"
    and lo: "unat (jBase j) + t * r (jThreads j) < 2 ^ 32 - 1001"
    and hi: "2 ^ 32 \<le> unat (jBase j) + (t + 1) * r (jThreads j)"
  shows "threadEnd (thread_init j t) < threadStart (thread_init j t)"
    and "threadStart (thread_init j t) < 0xFFFFFFFF - 1000"
proof -
  define T R where "T = jThreads j" and "R = r T"
  have R: "R < 2 ^ 32 - 1" using assms(3) by (simp add: R_def T_def r_def div_less_iff_less_mult)
  have TR: "T * R \<le> 2 ^ 32 - 1" unfolding R_def r_def by (rule times_div_less_eq_dividend)
  have t1: "(t + 1) * R \<le> T * R" using assms(5) by (intro mult_le_mono1) (simp add: T_def)
  have u: "unat (0xFFFFFFFF div of_nat T :: u64) = R"
    using assms(4) by (simp add: unat_div unat_of_nat T_def R_def r_def)
  have uc: "unat (ucast (of_nat k * (0xFFFFFFFF div of_nat T :: u64)) :: u32) = k * R" if "k * R < 2 ^ 32" for k
  proof -
    have "(of_nat k * (0xFFFFFFFF div of_nat T) :: u64) = of_nat (k * R)"
      by (simp add: u [symmetric])
    then show ?thesis using that
      by (simp add: unsigned_ucast_eq unat_of_nat take_bit_eq_mod del: of_nat_mult)
  qed
  have k0: "t * R \<le> (t + 1) * R" by simp
  have st: "threadStart (thread_init j t) = jBase j + ucast (of_nat t * (0xFFFFFFFF div of_nat T :: u64))"
    and en: "threadEnd (thread_init j t) = jBase j + ucast (of_nat (t + 1) * (0xFFFFFFFF div of_nat T :: u64))"
  proof -
    have "t \<noteq> jThreads j - 1" using assms(5) by linarith
    with assms(2) show "threadStart (thread_init j t) =
        jBase j + ucast (of_nat t * (0xFFFFFFFF div of_nat T :: u64))"
      "threadEnd (thread_init j t) = jBase j + ucast (of_nat (t + 1) * (0xFFFFFFFF div of_nat T :: u64))"
      by (simp_all only: thread_init_def Let_def T_def if_False refl Thread.select_convs)
  qed
  have "(2 ^ 32 - 1 :: nat) < 2 ^ 32" by simp
  from le_less_trans [OF order_trans [OF t1 TR] this] have lt2: "(t + 1) * R < 2 ^ 32" .
  note lt = le_less_trans [OF k0 lt2] lt2
  have s: "unat (threadStart (thread_init j t)) = unat (jBase j) + t * R"
    unfolding st unat_word_ariths uc [OF lt(1)] using lo by (simp add: R_def T_def)
  have "unat (threadEnd (thread_init j t)) = (unat (jBase j) + (t + 1) * R) mod 2 ^ 32"
    unfolding en unat_word_ariths uc [OF lt(2)] by simp
  moreover have "unat (jBase j) + (t + 1) * R < 2 ^ 32 + 2 ^ 32"
    by (rule add_strict_mono [OF _ lt(2)]) (use unat_u32_lt [of "jBase j"] in simp)
  ultimately have e: "unat (threadEnd (thread_init j t)) = unat (jBase j) + (t + 1) * R - 2 ^ 32"
    using hi [folded T_def, folded R_def] by (metis add_diff_inverse_nat le_mod_geq mod_less not_less nat_add_left_cancel_less)
  show "threadEnd (thread_init j t) < threadStart (thread_init j t)"
    using s e R hi by (simp add: word_less_nat_alt R_def T_def)
  show "threadStart (thread_init j t) < 0xFFFFFFFF - 1000"
    using s lo by (simp add: word_less_nat_alt R_def T_def)
qed

section \<open>What the caller receives\<close>

lemma unsent_sending: "sum_list (map (length \<circ> unsent) ths) = length (filter (\<lambda>th. \<exists>n h. tPc th = AtSend n h) ths)"
  by (induction ths) (auto simp: unsent_def split: pc.split)

lemma crashed_None:
  assumes "\<And>n. \<exists>h. jHash j n = Inr h" "par_reachable j s"
  shows "crashed (fst s) = None"
  using assms(2)
proof (induction rule: rtranclp_induct)
  case base
  show ?case by (simp add: par_init_def)
next
  case (step r s)
  have "crashed sh' = None" if "thread_step j sh th = (sh', th')" "crashed sh = None" for sh th sh' th'
    using that assms(1) by (auto simp: thread_step_def outer_step_def thread_exit_def hash_step_def send_step_def Let_def
        split: pc.splits if_splits sum.splits) (metis Inr_Inl_False)+
  with step show ?case by (auto simp: recv_step_def elim!: par_stepE)
qed

lemma collect_found:
  "collect target hashes rs = Inr out \<Longrightarrow> moFound out \<Longrightarrow>
   \<exists>t h. target_le_bytes target = Inr t \<and> (moNonce out, h) \<in> set rs \<and> moHash out = Some h \<and>
     moNonce out \<noteq> 0 \<and> hashMeetsTargetLE h t"
  by (induction target hashes rs rule: collect.induct)
    (auto simp: ebind_eq_Inr_iff split: if_splits, blast)

lemma be_nat_head: "length h = 32 \<Longrightarrow> 256 ^ 31 * unat (h ! 0) \<le> be_nat h"
  by (cases h) (simp_all add: be_nat_def le_nat_append)

lemma parallel_job_simps [simp]:
  "jMode (parallel_job key m b t base) = NonceSearchMode m"
  "jStride (parallel_job key m b t base) = UseStride m"
  "jThreads (parallel_job key m b t base) = nat (ThreadCount m)"
  "jBase (parallel_job key m b t base) = base"
  "jTarget (parallel_job key m b t base) = t"
  "jHash (parallel_job key m b t base) = hash_nonce key m b"
  "0 < jMax (parallel_job key m b t base)"
  by (simp_all add: parallel_job_def Let_def word_neq_0_conv)

lemma genuine_parallel:
  assumes "wf_block b" "key_ok key m" "target_le_bytes target = Inr t"
    and "genuine (parallel_job key m b t base) (n, h)"
  shows "\<exists>p. pow_hash key m (b\<lparr>bNonce := n\<rparr>) = Some p \<and> length p = 32 \<and> le_nat p \<le> target \<and> h = rev p"
  using assms hash_nonce_pow [OF assms(1,2), of n]
  by (auto simp: genuine_def meets_target_le_bytes)

lemma par_progress:
  assumes "\<not> list_all halted (snd s)" "crashed (fst s) = None"
  shows "\<exists>s'. par_step j s s'"
proof -
  from assms(1) obtain i where "i < length (snd s)" "\<not> halted (snd s ! i)"
    by (auto simp: list_all_length)
  with assms(2) show ?thesis
    by (cases s, cases "thread_step j (fst s) (snd s ! i)") (auto intro: par_step)
qed

section \<open>Properties\<close>

text \<open>C1: the single-threaded miner returns the first nonce from the random start on whose
  proof-of-work hash meets the target, with the number of hashes tried; and when it reports none, none
  of the \<open>MaxHashes\<close> consecutive nonces does.\<close>

theorem mine_returns_first_hit:
  assumes "wf_block b" "key_ok key m" "target < 2 ^ 256"
  shows "\<exists>out. mineWithStrategy key m b target start = Inr out \<and> search_result key m b target start out"
  using assms by (rule mineWithStrategy_result)

definition sampleKey :: scrypt_key where
  "sampleKey p s N r q n = Some (replicate n 255)"

definition sampleBlock :: Block where
  "sampleBlock = \<lparr>bVersion = 0x620104, bPrevBlock = replicate 32 1, bMerkleRoot = replicate 32 2,
     bTimestamp = 1700000000, bBits = 0x1a05e69f, bNonce = 0, bAuxPow = None, Transactions = []\<rparr>"

lemma le_nat_replicate_255: "le_nat (replicate n 255) = 256 ^ n - 1"
proof -
  have "le_nat (replicate n 255) + 1 = 256 ^ n" by (induction n) simp_all
  then show ?thesis by simp
qed

lemma sample_ok: "wf_block sampleBlock" "key_ok sampleKey m"
  by (simp_all add: wf_block_def sampleBlock_def key_ok_def sampleKey_def)

theorem mine_returns_first_hit_witness:
  "\<exists>out. mineWithStrategy sampleKey NewScryptMiner sampleBlock (2 ^ 256 - 1) 7 = Inr out \<and>
     search_result sampleKey NewScryptMiner sampleBlock (2 ^ 256 - 1) 7 out"
  by (rule mine_returns_first_hit) (simp_all add: sample_ok)

text \<open>C7: in every interleaving of the goroutines and the receiver, the goroutine that sets the
  found flag produces the only result: it is about to be sent, waits in the channel, or has been
  received, exactly when the flag is set; once every goroutine is through it has been sent. Every
  result is a genuine solution, so is one that is still to be sent, and no goroutine exceeds its
  share of hashes.\<close>

theorem parallel_safety:
  assumes "(par_step j)\<^sup>*\<^sup>* (par_init j) s"
  shows "length (filter (\<lambda>th. \<exists>n h. tPc th = AtSend n h) (snd s)) +
      length (results (fst s)) + length (received (fst s)) = (if foundFlag (fst s) then 1 else 0) \<and>
    (list_all halted (snd s) \<longrightarrow>
      length (results (fst s) @ received (fst s)) = (if foundFlag (fst s) then 1 else 0)) \<and>
    (\<forall>r \<in> set (results (fst s)) \<union> set (received (fst s)). genuine j r) \<and>
    (\<forall>th \<in> set (snd s). localHashCount th \<le> jMax j \<and> (\<forall>n h. tPc th = AtSend n h \<longrightarrow> genuine j (n, h)))"
proof -
  let ?sending = "\<lambda>th. \<exists>n h. tPc th = AtSend n h"
  have inv: "par_inv j s" by (rule par_reachable_inv [OF assms])
  then have n: "length (filter ?sending (snd s)) + length (results (fst s)) + length (received (fst s)) =
      (if foundFlag (fst s) then 1 else 0)"
    by (simp add: par_inv_def results_of_def unsent_sending)
  moreover have "filter ?sending (snd s) = []" if "list_all halted (snd s)"
    using that by (auto simp: filter_empty_conv list_all_iff halted_def)
  moreover have "localHashCount th \<le> jMax j \<and> (\<forall>n h. tPc th = AtSend n h \<longrightarrow> genuine j (n, h))"
    if "th \<in> set (snd s)" for th
    using inv that by (auto simp: par_inv_def thread_inv_def list_all_iff unsent_def)
  ultimately show ?thesis using reachable_genuine [OF assms] by auto
qed

definition sampleJob :: "bool \<Rightarrow> Job" where
  "sampleJob stride = parallel_job sampleKey ((NewScryptMinerWithConfig 100000 4)\<lparr>UseStride := stride\<rparr>)
     sampleBlock (replicate 32 0) 0x90000000"

theorem parallel_safety_witness:
  "length (filter (\<lambda>th. \<exists>n h. tPc th = AtSend n h) (snd (run_schedule (sampleJob True) [0, 1, 0, 0] (par_init (sampleJob True))))) +
    length (results (fst (run_schedule (sampleJob True) [0, 1, 0, 0] (par_init (sampleJob True))))) +
    length (received (fst (run_schedule (sampleJob True) [0, 1, 0, 0] (par_init (sampleJob True))))) =
    (if foundFlag (fst (run_schedule (sampleJob True) [0, 1, 0, 0] (par_init (sampleJob True)))) then 1 else 0)"
  using parallel_safety [OF run_schedule_reachable] by blast

text \<open>C32: with the stride distribution every interleaving ends: no run has more steps than the
  bound, and a state in which some goroutine still runs has a next step unless the process
  panicked.\<close>

theorem stride_terminates:
  assumes "(par_step j ^^ n) (par_init j) s" "jMode j \<noteq> ''backward''" "jStride j"
  shows "n \<le> jThreads j * (6 * unat (jMax j) + 5) + 1 \<and>
    (list_all halted (snd s) \<or> crashed (fst s) \<noteq> None \<or> (\<exists>s'. par_step j s s'))"
  using par_steps_bound [OF assms] par_progress [of s j] by (auto simp: par_measure_init)

theorem stride_terminates_witness:
  "\<exists>s. (par_step (sampleJob True) ^^ 1) (par_init (sampleJob True)) s \<and>
    1 \<le> jThreads (sampleJob True) * (6 * unat (jMax (sampleJob True)) + 5) + 1"
proof -
  have four: "jThreads (sampleJob True) = 4" by (simp add: sampleJob_def NewScryptMinerWithConfig_def)
  then have "\<not> list_all halted (snd (par_init (sampleJob True)))"
    by (simp add: par_init_def halted_def upt_rec)
  moreover have "crashed (fst (par_init (sampleJob True))) = None" by (simp add: par_init_def)
  ultimately obtain s where "par_step (sampleJob True) (par_init (sampleJob True)) s"
    using par_progress by blast
  then have s: "(par_step (sampleJob True) ^^ 1) (par_init (sampleJob True)) s"
    by (simp only: relpowp_1)
  have "jMode (sampleJob True) \<noteq> ''backward''" "jStride (sampleJob True)"
    by (simp_all add: sampleJob_def NewScryptMinerWithConfig_def)
  with stride_terminates [OF s] s show ?thesis by blast
qed

text \<open>C33: with the range distribution and a search mode other than \<open>backward\<close>, when the
  32-bit boundary falls inside the range of a goroutine that is not the last one and at least 1001
  nonces after the start of that range, and no nonce meets the target, the parallel miner never
  returns: that goroutine bounces between the ends of its range, so no schedule yields a result.\<close>

theorem range_livelock:
  assumes "wf_block b" "key_ok key m" "target < 2 ^ 256" "\<And>n. \<not> nonce_hits key m b target n"
    and "NonceSearchMode m \<noteq> ''backward''" "\<not> UseStride m" "ThreadCount m < 2 ^ 31"
    and "int t + 1 < ThreadCount m"
    and "base = calculateStartNonceCPU b ''random'' unixNano"
    and "unat base + t * ((2 ^ 32 - 1) div nat (ThreadCount m)) < 2 ^ 32 - 1001"
    and "2 ^ 32 \<le> unat base + (t + 1) * ((2 ^ 32 - 1) div nat (ThreadCount m))"
  shows "mineParallel key m b target unixNano schedule = None"
proof -
  from assms(3) have "target < 256 ^ 32" by simp
  then obtain tb where tb: "target_le_bytes target = Inr tb" using target_le_bytes_Inr by blast
  define j where "j = parallel_job key m b tb base"
  obtain sh ths where run: "run_schedule j schedule (par_init j) = (sh, ths)" by fastforce
  have reach: "par_reachable j (sh, ths)"
    using run_schedule_reachable [of j "par_init j" schedule] run by simp
  have crash: "crashed sh = None"
    using crashed_None [OF _ reach] hash_nonce_pow [OF assms(1,2)] by (fastforce simp: j_def)
  have "\<not> genuine j r" for r
    using genuine_parallel [OF assms(1,2) tb, of base "fst r" "snd r"] assms(4) [of "fst r"]
    by (auto simp: nonce_hits_def j_def)
  with no_solution_no_flag [OF reach] have nf: "\<not> foundFlag sh" and res: "received sh = []" by simp_all
  have tT: "t + 1 < jThreads j" "t < jThreads j" "1 < jThreads j" "jThreads j < 2 ^ 31"
    using assms(7,8) by (simp_all add: j_def)
  have wrap: "threadEnd (thread_init j t) < threadStart (thread_init j t)"
      "threadStart (thread_init j t) < 0xFFFFFFFF - 1000"
    by (rule range_wraps; use assms tT in \<open>simp add: j_def\<close>)+
  have "bouncing j t (ths ! t)" "length ths = jThreads j"
    using livelock_reachable [OF reach _ _ _ tT(2) wrap] nf assms(5,6) by (simp_all add: j_def)
  then have "\<not> list_all halted ths"
    using tT(2) by (auto simp: list_all_length bouncing_def halted_def Let_def)
  with crash res show ?thesis
    using run assms(9) by (simp add: mineParallel_def tb j_def)
qed

theorem range_livelock_witness:
  "\<forall>schedule. mineParallel sampleKey (NewScryptMinerWithConfig 100000 4) sampleBlock 5 0x90000000 schedule = None"
  by (intro allI range_livelock [where t = 1 and base = "0x90000000"])
    (simp_all add: sample_ok NewScryptMinerWithConfig_def NewScryptMiner_def calculateStartNonceCPU_def
      nonce_hits_def pow_hash_def sampleKey_def le_nat_replicate_255)

lemma mineParallel_found:
  assumes "wf_block b" "key_ok key m"
    and "mineParallel key m b target unixNano schedule = Some (Inr out)" "moFound out"
  shows "\<exists>p. pow_hash key m (b\<lparr>bNonce := moNonce out\<rparr>) = Some p \<and> le_nat p \<le> target \<and>
    moHash out = Some (rev p) \<and> be_nat p \<le> target \<and> moNonce out \<noteq> 0"
proof -
  from assms(3) obtain t where t: "target_le_bytes target = Inr t"
    by (cases "target_le_bytes target") (auto simp: mineParallel_def)
  define j where "j = parallel_job key m b t (calculateStartNonceCPU b ''random'' unixNano)"
  obtain sh ths where run: "run_schedule j schedule (par_init j) = (sh, ths)" by fastforce
  have c: "collect target (totalHashes sh) (received sh) = Inr out"
    using assms(3) t run by (auto simp: mineParallel_def Let_def simp flip: j_def split: if_splits)
  from collect_found [OF c assms(4)] t obtain h where
    h: "(moNonce out, h) \<in> set (received sh)" "moHash out = Some h" "moNonce out \<noteq> 0" "hashMeetsTargetLE h t"
    by auto
  have "par_reachable j (sh, ths)"
    using run_schedule_reachable [of j "par_init j" schedule] run by simp
  then have "genuine j (moNonce out, h)"
    using h(1) reachable_genuine by fastforce
  from genuine_parallel [OF assms(1,2) t this [unfolded j_def]] h show ?thesis
    by (auto simp: meets_target_le_bytes [OF t] be_nat_def)
qed

text \<open>A solution the parallel miner returns is genuine and also passes the comparison with its
  bytes reversed, which the result loop applies to the display-order hash.\<close>

theorem parallel_found_sound:
  assumes "wf_block b" "key_ok key m"
    and "mineParallel key m b target unixNano schedule = Some (Inr out)" "moFound out"
  shows "\<exists>p. pow_hash key m (b\<lparr>bNonce := moNonce out\<rparr>) = Some p \<and> le_nat p \<le> target \<and>
    moHash out = Some (rev p) \<and> be_nat p \<le> target \<and> moNonce out \<noteq> 0"
  using assms by (rule mineParallel_found)

definition zeroKey :: scrypt_key where
  "zeroKey p s N r q n = Some (replicate n 0)"

definition strideMiner :: ScryptMiner where
  "strideMiner = (NewScryptMinerWithConfig 100000 2)\<lparr>UseStride := True\<rparr>"

lemma hash_nonce_zeroKey: "hash_nonce zeroKey m sampleBlock n = Inr (replicate 32 0)"
  by (simp add: hash_nonce_def precomputeHeaderBase_nonce sample_ok scryptHash_def zeroKey_def)

lemma target_5: "target_le_bytes 5 = Inr (5 # replicate 31 0)"
proof -
  have "big_bytes 5 = [5]" by (simp add: big_bytes_def nat_bytes_pos)
  then show ?thesis by (simp add: target_le_bytes_def)
qed

lemma strideMiner_finds:
  "mineParallel zeroKey strideMiner sampleBlock 5 7 [0, 0, 0, 0, 2] =
    Some (Inr \<lparr>moNonce = 7, moHash = Some (replicate 32 0), moFound = True, moHashCount = 0\<rparr>)"
proof -
  define j where "j = parallel_job zeroKey strideMiner sampleBlock (5 # replicate 31 0) 7"
  have j: "jMode j \<noteq> ''backward''" "jStride j" "jThreads j = 2" "jBase j = 7" "0 < jMax j"
    "jHash j = (\<lambda>n. Inr (replicate 32 0))" "jTarget j = 5 # replicate 31 0"
    by (simp_all add: j_def strideMiner_def NewScryptMinerWithConfig_def hash_nonce_zeroKey fun_eq_iff)
  have st: "threadStart (thread_init j 0) = 7"
    using j by (simp add: thread_init_def Let_def)
  have hit: "hashMeetsTargetLE (replicate 32 0) (5 # replicate 31 0)"
    by (simp add: hashMeetsTargetLE_iff)
  obtain sh ths where run: "run_schedule j [0, 0, 0, 0, 2] (par_init j) = (sh, ths)" by fastforce
  have "sh = \<lparr>foundFlag = True, results = [], received = [(7, replicate 32 0)], totalHashes = 0, crashed = None\<rparr>"
    using run j st hit
    by (auto simp: par_init_def upt_rec halted_def thread_step_def outer_step_def stride_step_def
        hash_step_def send_step_def recv_step_def batchSize_def Let_def)
  then show ?thesis
    using run hit by (simp add: mineParallel_def target_5 calculateStartNonceCPU_def flip: j_def)
qed

theorem parallel_found_sound_witness:
  "\<exists>p. pow_hash zeroKey strideMiner (sampleBlock\<lparr>bNonce := 7\<rparr>) = Some p \<and> le_nat p \<le> 5 \<and> be_nat p \<le> 5"
  using parallel_found_sound [OF _ _ strideMiner_finds]
  by (auto simp: sample_ok key_ok_def zeroKey_def)

text \<open>The re-check in the result loop compares the reversed hash: for targets below \<open>2^248\<close> a
  genuine solution is thrown away whenever the lowest byte of its hash is not zero.\<close>

theorem genuine_solution_dropped:
  assumes "length h = 32" "h ! 0 \<noteq> 0" "target < 2 ^ 248"
  shows "collect target hashes [(nonce, reverseBytesInPlace h)] =
    Inr \<lparr>moNonce = 0, moHash = None, moFound = False, moHashCount = hashes\<rparr>"
proof -
  from assms(3) have "target < 256 ^ 32" by simp
  then obtain t where t: "target_le_bytes target = Inr t" using target_le_bytes_Inr by blast
  have "1 \<le> unat (h ! 0)" using assms(2) by (simp add: word_unat_eq_iff)
  then have "256 ^ 31 * 1 \<le> 256 ^ 31 * unat (h ! 0)" by (rule mult_le_mono2)
  with be_nat_head [OF assms(1)] assms(3) have "\<not> be_nat h \<le> target" by simp
  then show ?thesis using t by (simp add: meets_target_le_bytes [OF t] be_nat_def)
qed

theorem genuine_solution_dropped_witness:
  "hashMeetsTargetLE (1 # replicate 31 0) (5 # replicate 31 0) \<and>
   collect 5 1000 [(77, reverseBytesInPlace (1 # replicate 31 0))] =
    Inr \<lparr>moNonce = 0, moHash = None, moFound = False, moHashCount = 1000\<rparr>"
proof
  show "hashMeetsTargetLE (1 # replicate 31 0) (5 # replicate 31 0)"
    by (simp add: hashMeetsTargetLE_iff)
qed (rule genuine_solution_dropped; simp)

end
