(* ===== verification/GpuMining.thy ===== *)
theory GpuMining
  imports ScryptMining
begin

text \<open>
  The host side of the GPU miner, \<open>src/gpu_miner.go\<close>: its settings, the batch size it
  derives from the device, the candidate nonces it generates, and how a round falls back from
  the OpenCL kernel to the CPU. The OpenCL driver and kernel are parameters: the memory sizes the
  driver reports and what a kernel round returned.
\<close>

unbundle bit_operations_syntax

section \<open>Settings\<close>

text \<open>Handles of the driver are numbers, 0 for none. \<open>initialized\<close> is \<open>clInitialized\<close> here.\<close>

record OpenCLContext =
  clDevices :: "nat list"
  clContext :: nat
  clQueue :: nat
  clDevice :: nat
  clProgram :: nat
  clKernel :: nat
  clInitialized :: bool
  clDeviceName :: string
  clDeviceType :: string
  maxScratchpadBuf :: u64
  useHostPtrScratchpad :: bool
  useVirtualAllocScratch :: bool
  probeFailed :: bool
  useSplitKernelPath :: bool
  scryptVerifyFailed :: bool
  kernelFill :: nat
  kernelMix :: nat

record GPUMiner =
  gMaxHashes :: u64
  gMaxHashesThisRound :: u64
  gThreadCount :: int
  gInitialized :: bool
  openclCtx :: "OpenCLContext option"
  gBatchSize :: int
  gNonceSearchMode :: string
  gNonceStartMode :: string
  gUseStride :: bool

definition NewGPUMiner :: "int \<Rightarrow> u64 \<Rightarrow> int \<Rightarrow> GPUMiner" where
  "NewGPUMiner numCPU maxHashes threadCount =
     (let threadCount = (if threadCount \<le> 0 then numCPU else threadCount);
          threadCount = (if 128 < threadCount then 128 else threadCount);
          batchSize = 262144;
          batchSize = (if 8 < threadCount then 262144 * 2 else batchSize);
          batchSize = (if 16 < threadCount then 262144 * 3 else batchSize);
          batchSize = (if 32 < threadCount then 262144 * 4 else batchSize)
      in \<lparr>gMaxHashes = maxHashes, gMaxHashesThisRound = 0, gThreadCount = threadCount,
          gInitialized = False, openclCtx = None, gBatchSize = batchSize,
          gNonceSearchMode = ''sequential'', gNonceStartMode = ''calculated'', gUseStride = True\<rparr>)"

definition gpu_SetNonceStrategy :: "string \<Rightarrow> string \<Rightarrow> bool \<Rightarrow> GPUMiner \<Rightarrow> GPUMiner" where
  "gpu_SetNonceStrategy searchMode startMode useStride g =
     g\<lparr>gNonceSearchMode := searchMode, gNonceStartMode := startMode, gUseStride := useStride\<rparr>"

definition calculateStartNonce :: "Block \<Rightarrow> string \<Rightarrow> u64 \<Rightarrow> u32" where
  "calculateStartNonce block startMode unixNano =
     (if startMode = ''random'' then ucast (unixNano AND 0xFFFFFFFF)
      else xor_merkle 4 (bMerkleRoot block) (bVersion block XOR bTimestamp block XOR bBits block))"

text \<open>\<open>Initialize\<close>: OpenCL or not, the miner counts as initialised.\<close>

definition gpu_Initialize :: "OpenCLContext option \<Rightarrow> GPUMiner \<Rightarrow> GPUMiner" where
  "gpu_Initialize opencl g =
     (case opencl of
        None \<Rightarrow> g\<lparr>gInitialized := True\<rparr>
      | Some ctx \<Rightarrow> g\<lparr>openclCtx := Some ctx, gInitialized := True\<rparr>)"

definition gpu_effectiveMaxHashes :: "GPUMiner \<Rightarrow> u64" where
  "gpu_effectiveMaxHashes g =
     (if 0 < gMaxHashesThisRound g then gMaxHashesThisRound g else gMaxHashes g)"

section \<open>The batch size\<close>

definition scratchpadPerThread :: u64 where "scratchpadPerThread = 1024 * 32 * 4"
definition maxThreadsPerBatch :: u64 where "maxThreadsPerBatch = 8192"

definition round256 :: "u64 \<Rightarrow> u64" where
  "round256 n = (if 256 < n then (n div 256) * 256 else n)"

definition gpu_batch_size :: "u64 \<Rightarrow> u64 \<Rightarrow> u64 \<Rightarrow> u64 \<Rightarrow> u64" where
  "gpu_batch_size globalMem maxAllocSize maxScratchpad maxHashes =
     (let maxByVRAM = (if scratchpadPerThread < globalMem
                       then round256 ((globalMem div 4) div scratchpadPerThread) else 0);
          maxByAlloc = (if scratchpadPerThread < maxAllocSize
                        then round256 (maxAllocSize div scratchpadPerThread) else 0);
          batch = maxThreadsPerBatch;
          batch = (if 0 < maxByVRAM \<and> maxByVRAM < batch then maxByVRAM else batch);
          batch = (if 0 < maxByAlloc \<and> maxByAlloc < batch
                   then (if maxByAlloc < 256 then 256 else maxByAlloc) else batch);
          batch = (if 0 < maxScratchpad \<and> maxScratchpad < batch * scratchpadPerThread
                   then (let b = round256 (maxScratchpad div scratchpadPerThread)
                         in if b < 256 then 256 else b)
                   else batch);
          batch = (if maxHashes < batch then maxHashes else batch);
          batch = round256 batch
      in if batch = 0 then 256 else batch)"

section \<open>Which miner runs\<close>

text \<open>
  \<open>mineWithOpenCLKernel\<close> up to the first kernel dispatch: does it hand the round over to the
  CPU? The probe of the scratchpad buffer has already been made.
\<close>

definition kernel_runs :: "GPUMiner \<Rightarrow> Block \<Rightarrow> bool" where
  "kernel_runs g block =
     (case openclCtx g of
        None \<Rightarrow> False
      | Some ctx \<Rightarrow> clInitialized ctx \<and> \<not> scryptVerifyFailed ctx \<and>
          (clKernel ctx \<noteq> 0 \<or> useSplitKernelPath ctx) \<and> maxScratchpadBuf ctx \<noteq> 0 \<and>
          length (precomputeHeaderBase block) = 76)"

text \<open>
  \<open>gpuRound\<close> is what a kernel round returned and \<open>cpuInner\<close>, \<open>cpuOuter\<close> what the CPU rounds that
  the kernel function and its caller fall back to returned.
\<close>

definition mineWithOpenCL ::
  "GPUMiner \<Rightarrow> Block \<Rightarrow> MineOutcome \<Rightarrow> MineOutcome \<Rightarrow> MineOutcome \<Rightarrow> MineOutcome" where
  "mineWithOpenCL g block gpuRound cpuInner cpuOuter =
     (case openclCtx g of
        Some ctx \<Rightarrow>
          if clInitialized ctx then
            let out = (if kernel_runs g block then gpuRound else cpuInner) in
            if moFound out then out
            else if 0 < moHashCount out
            then \<lparr>moNonce = 0, moHash = None, moFound = False, moHashCount = moHashCount out\<rparr>
            else cpuOuter
          else cpuOuter
      | None \<Rightarrow> cpuOuter)"

definition gpu_MineBlock ::
  "OpenCLContext option \<Rightarrow> GPUMiner \<Rightarrow> Block \<Rightarrow> string \<Rightarrow> (nat \<Rightarrow> MineOutcome) \<Rightarrow>
     (nat \<Rightarrow> MineOutcome) \<Rightarrow> (nat \<Rightarrow> MineOutcome) \<Rightarrow> MineOutcome \<times> GPUMiner" where
  "gpu_MineBlock opencl g block targetHex gpuRound cpuInner cpuOuter =
     (let g = (if gInitialized g then g else gpu_Initialize opencl g) in
      case hexDecode targetHex of
        Inl e \<Rightarrow> (\<lparr>moNonce = 0, moHash = None, moFound = False, moHashCount = 0\<rparr>, g)
      | Inr targetBytes \<Rightarrow>
          let target = (if be_nat targetBytes = 0 then 1 else be_nat targetBytes) in
          ((case openclCtx g of
              Some ctx \<Rightarrow>
                if clInitialized ctx
                then mineWithOpenCL g block (gpuRound target) (cpuInner target) (cpuOuter target)
                else cpuOuter target
            | None \<Rightarrow> cpuOuter target), g))"

section \<open>Candidate nonces\<close>

text \<open>
  \<open>nonces\<close> is filled from the front; \<open>nonceSet\<close> is the set of what is filled in. The state is
  the filled part, and \<open>idx\<close> its length.
\<close>

definition try_nonce :: "nat \<Rightarrow> u32 \<Rightarrow> u32 list \<Rightarrow> u32 list" where
  "try_nonce count n ns = (if length ns < count \<and> n \<notin> set ns then ns @ [n] else ns)"

definition try_all :: "nat \<Rightarrow> u32 list \<Rightarrow> u32 list \<Rightarrow> u32 list" where
  "try_all count candidates ns = fold (try_nonce count) candidates ns"

definition luckyPatterns :: "u32 list" where
  "luckyPatterns =
    [0x00000000, 0xFFFFFFFF, 0x12345678, 0xABCDEF00, 0x11111111, 0x22222222, 0x33333333, 0x44444444,
     0x55555555, 0x66666666, 0x77777777, 0x88888888, 0x99999999, 0xAAAAAAAA, 0xBBBBBBBB, 0xCCCCCCCC,
     0xDDDDDDDD, 0xEEEEEEEE, 0xFEDCBA98, 0x76543210, 0xDEADBEEF, 0xCAFEBABE, 0xBAADF00D, 0x13371337]"

definition smart_primes :: "u32 list" where
  "smart_primes = [2, 3, 5, 7, 11, 13, 17, 19, 23, 29, 31, 37, 41, 43, 47, 53, 59, 61, 67, 71, 73, 79, 83,
     89, 97, 101, 103, 107, 109, 113]"

definition bitPatterns :: "(u32 \<times> u32) list" where
  "bitPatterns = [(0xFF000000, 0x00000000), (0xFF000000, 0xFF000000), (0x00FF0000, 0x0000FF00),
     (0x0000FFFF, 0x0000FFFF), (0xFFFF0000, 0x0000FFFF)]"

definition seed_low :: "u64 \<Rightarrow> u32" where "seed_low seed = ucast (seed AND 0xFFFFFFFF)"
definition seed_high :: "u64 \<Rightarrow> u32" where "seed_high seed = ucast (drop_bit 32 seed AND 0xFFFFFFFF)"

definition upto_u32 :: "nat \<Rightarrow> u32 list" where
  "upto_u32 n = map of_nat [0..<n]"

text \<open>Strategies 2 to 6 as the lists of nonces they try.\<close>

definition height_nonces :: "Block \<Rightarrow> u64 \<Rightarrow> u32 list" where
  "height_nonces b seed = (let base = bVersion b XOR bTimestamp b XOR bBits b XOR seed_low seed in
     map (\<lambda>i. base + i * 0x10001) (upto_u32 100))"

definition time_nonces :: "Block \<Rightarrow> u64 \<Rightarrow> u32 list" where
  "time_nonces b seed = (let base = bTimestamp b XOR seed_high seed in
     map (\<lambda>i. base XOR (i * 0x1337)) (upto_u32 200))"

definition merkle_nonces :: "Block \<Rightarrow> u32 list" where
  "merkle_nonces b =
     (let m = bMerkleRoot b;
          base = ucast (m ! 0) OR push_bit 8 (ucast (m ! 1)) OR push_bit 16 (ucast (m ! 2)) OR
                 push_bit 24 (ucast (m ! 3))
      in map (\<lambda>i. base + i * 0x2710) (upto_u32 300))"

definition prime_nonces :: "Block \<Rightarrow> u32 list" where
  "prime_nonces b =
     (let base = bTimestamp b AND 0xFFFF0000 in
      concat (map (\<lambda>p. map (\<lambda>k. (base + p * k) mod 0xFFFFFFFF) (upto_u32 500)) smart_primes))"

definition pattern_nonces :: "u32 list" where
  "pattern_nonces =
     concat (map (\<lambda>(mask, value). map (\<lambda>j. (value AND mask) OR (j AND NOT mask)) (upto_u32 1000))
       bitPatterns)"

text \<open>Strategy 7, which stops when the slots are full.\<close>

primrec fib_nonces :: "nat \<Rightarrow> nat \<Rightarrow> u32 \<Rightarrow> u32 \<Rightarrow> u32 list \<Rightarrow> u32 list" where
  "fib_nonces 0 count f1 f2 ns = ns"
| "fib_nonces (Suc k) count f1 f2 ns =
     (if length ns < count
      then let nonce = (f1 + f2) mod 0xFFFFFFFF in fib_nonces k count f2 nonce (try_nonce count nonce ns)
      else ns)"

text \<open>
  Strategy 8 loops until the slots are full. The fuel bounds the loop; \<open>2^32\<close> iterations try
  every nonzero nonce. Its modulus is zero, a division panic, when \<open>2^32 - 1\<close> slots are left.
\<close>

definition smart_start :: "Block \<Rightarrow> nat \<Rightarrow> u64 \<Rightarrow> u32" where
  "smart_start b left seed =
     (let s = ((bTimestamp b XOR bBits b) XOR seed_low seed) mod (0xFFFFFFFF - of_nat left)
      in if s = 0 then 1 else s)"

definition fill_nonce :: "u32 \<Rightarrow> u64 \<Rightarrow> nat \<Rightarrow> u32" where
  "fill_nonce start seed i =
     (let nonce = start + of_nat i + ucast (seed mod 1000000) in if nonce = 0 then 1 else nonce)"

primrec fill_loop :: "nat \<Rightarrow> nat \<Rightarrow> u32 \<Rightarrow> u64 \<Rightarrow> nat \<Rightarrow> u32 list \<Rightarrow> u32 list option" where
  "fill_loop 0 count start seed i ns = (if length ns < count then None else Some ns)"
| "fill_loop (Suc k) count start seed i ns =
     (if length ns < count
      then fill_loop k count start seed (i + 1) (try_nonce count (fill_nonce start seed i) ns)
      else Some ns)"

definition smart_prefix :: "Block \<Rightarrow> nat \<Rightarrow> u64 \<Rightarrow> u32 list" where
  "smart_prefix b count seed =
     fib_nonces 2000 count 1 1
       (try_all count (luckyPatterns @ height_nonces b seed @ time_nonces b seed @ merkle_nonces b @
                       prime_nonces b @ pattern_nonces) [])"

definition generateSmartNonces :: "nat \<Rightarrow> Block \<Rightarrow> nat \<Rightarrow> u64 \<Rightarrow> u32 list option" where
  "generateSmartNonces fuel b count seed =
     (let ns = smart_prefix b count seed
      in fill_loop fuel count (smart_start b (count - length ns) seed) seed 0 ns)"

section \<open>Lemmas\<close>

definition nonces_ok :: "nat \<Rightarrow> u32 list \<Rightarrow> bool" where
  "nonces_ok count ns \<longleftrightarrow> distinct ns \<and> length ns \<le> count"

lemma try_nonce_ok: "nonces_ok count ns \<Longrightarrow> nonces_ok count (try_nonce count n ns)"
  by (auto simp: nonces_ok_def try_nonce_def)

lemma try_nonce_in: "length ns < count \<Longrightarrow> n \<in> set (try_nonce count n ns)"
  by (auto simp: try_nonce_def)

lemma set_try_nonce: "set ns \<subseteq> set (try_nonce count n ns)"
  by (auto simp: try_nonce_def)

lemma try_all_ok: "nonces_ok count ns \<Longrightarrow> nonces_ok count (try_all count cs ns)"
  unfolding try_all_def by (induction cs arbitrary: ns) (auto intro: try_nonce_ok)

lemma set_try_all: "set ns \<subseteq> set (try_all count cs ns)"
  unfolding try_all_def
proof (induction cs arbitrary: ns)
  case (Cons c cs)
  from Cons [of "try_nonce count c ns"] set_try_nonce [of ns count c] show ?case by auto
qed simp

lemma fib_nonces_ok: "nonces_ok count ns \<Longrightarrow> nonces_ok count (fib_nonces k count f1 f2 ns)"
  by (induction k arbitrary: f1 f2 ns) (auto simp: Let_def intro: try_nonce_ok)

lemma set_fib_nonces: "set ns \<subseteq> set (fib_nonces k count f1 f2 ns)"
proof (induction k arbitrary: f1 f2 ns)
  case (Suc k)
  show ?case
    using Suc [of "try_nonce count ((f1 + f2) mod 0xFFFFFFFF) ns" f2 "(f1 + f2) mod 0xFFFFFFFF"]
      set_try_nonce [of ns count "(f1 + f2) mod 0xFFFFFFFF"] by (auto simp: Let_def)
qed simp

lemma smart_prefix_ok: "nonces_ok count (smart_prefix b count seed)"
  unfolding smart_prefix_def
  by (intro fib_nonces_ok try_all_ok) (simp add: nonces_ok_def)

lemma smart_prefix_zero: "0 < count \<Longrightarrow> 0 \<in> set (smart_prefix b count seed)"
proof -
  assume "0 < count"
  then have "(0 :: u32) \<in> set (try_nonce count 0 [])" by (intro try_nonce_in) simp
  then have "(0 :: u32) \<in> set (try_all count (tl luckyPatterns @ cs) (try_nonce count 0 []))" for cs
    using set_try_all by blast
  moreover have "luckyPatterns = 0 # tl luckyPatterns" by (simp add: luckyPatterns_def)
  then have "try_all count (luckyPatterns @ cs) [] =
      try_all count (tl luckyPatterns @ cs) (try_nonce count 0 [])" for cs
    by (metis append_Cons fold_simps(2) try_all_def)
  ultimately have "(0 :: u32) \<in> set (try_all count (luckyPatterns @ cs) [])" for cs by simp
  then show ?thesis unfolding smart_prefix_def by (rule subsetD [OF set_fib_nonces])
qed

lemma fill_loop_ok:
  "nonces_ok count ns \<Longrightarrow> fill_loop k count start seed i ns = Some r \<Longrightarrow>
   distinct r \<and> length r = count"
proof (induction k arbitrary: i ns)
  case 0
  then show ?case by (auto simp: nonces_ok_def split: if_splits)
next
  case (Suc k)
  show ?case
  proof (cases "length ns < count")
    case True
    with Suc.IH [OF try_nonce_ok [OF Suc.prems(1)]] Suc.prems(2) show ?thesis by simp
  next
    case False
    with Suc.prems show ?thesis by (auto simp: nonces_ok_def)
  qed
qed

lemma fill_loop_None:
  "fill_loop k count start seed i ns = None \<Longrightarrow>
   \<exists>r. nonces_ok count ns \<longrightarrow> nonces_ok count r \<and> length r < count \<and> set ns \<subseteq> set r \<and>
     (\<forall>d < k. fill_nonce start seed (i + d) \<in> set r)"
proof (induction k arbitrary: i ns)
  case 0
  then show ?case by (auto split: if_splits intro: exI [of _ ns])
next
  case (Suc k)
  let ?n = "fill_nonce start seed i"
  from Suc.prems have less: "length ns < count"
    and "fill_loop k count start seed (i + 1) (try_nonce count ?n ns) = None"
    by (auto split: if_splits)
  from Suc.IH [OF this(2)] obtain r where r: "nonces_ok count (try_nonce count ?n ns) \<longrightarrow>
      nonces_ok count r \<and> length r < count \<and> set (try_nonce count ?n ns) \<subseteq> set r \<and>
      (\<forall>d < k. fill_nonce start seed (i + 1 + d) \<in> set r)" by blast
  have "fill_nonce start seed (i + d) \<in> set r"
    if "d < Suc k" "nonces_ok count ns" for d
  proof (cases d)
    case 0
    with r that try_nonce_ok try_nonce_in [OF less, of ?n] show ?thesis by auto
  next
    case (Suc e)
    with r that try_nonce_ok show ?thesis by auto
  qed
  with r try_nonce_ok set_try_nonce [of ns count ?n] show ?case by (intro exI [of _ r]) blast
qed

text \<open>Over \<open>2^32\<close> consecutive indices the fill loop tries every nonzero nonce.\<close>

lemma fill_nonce_covers:
  assumes "(n :: u32) \<noteq> 0"
  shows "\<exists>d < 2 ^ 32. fill_nonce start seed d = n"
proof -
  define d where "d = unat (n - start - ucast (seed mod 1000000))"
  have "d < 2 ^ 32" unfolding d_def using unat_u32_lt by simp
  moreover have "start + of_nat d + ucast (seed mod 1000000) = n" by (simp add: d_def)
  ultimately show ?thesis using assms by (intro exI [of _ d]) (simp add: fill_nonce_def)
qed

lemma fill_loop_total:
  assumes "nonces_ok count ns" "0 \<in> set ns" "count \<le> 2 ^ 32"
  shows "fill_loop (2 ^ 32) count start seed 0 ns \<noteq> None"
proof
  assume "fill_loop (2 ^ 32) count start seed 0 ns = None"
  from fill_loop_None [OF this] assms obtain r where r: "distinct r" "length r < count"
    "0 \<in> set r" "\<forall>d < 2 ^ 32. fill_nonce start seed d \<in> set r"
    by (auto simp: nonces_ok_def)
  have "n \<in> set r" for n :: u32
    using r(3,4) fill_nonce_covers [of n start seed] by (cases "n = 0") auto
  then have "set r = UNIV" by blast
  then have "card (UNIV :: u32 set) = length r" using r(1) by (metis distinct_card)
  with r(2) assms(3) show False by (simp add: card_word)
qed

lemma unat_round256: "unat (round256 n) = (if 256 < unat n then unat n div 256 * 256 else unat n)"
proof -
  have "unat n div 256 * 256 \<le> unat n" by simp
  then have "unat n div 256 * 256 < 18446744073709551616" using unat_u64_lt [of n] by (rule le_less_trans)
  then show ?thesis
    by (simp add: round256_def word_less_nat_alt unat_word_ariths unat_div)
qed

lemma round256_le: "unat (round256 n) \<le> unat n"
  by (simp add: unat_round256)

text \<open>The largest batch whose scratchpad fits is no larger than a batch whose scratchpad does not.\<close>

lemma scratchpad_stage:
  assumes "unat b \<le> 8192" "m < b * scratchpadPerThread"
  shows "unat (m div scratchpadPerThread) \<le> 8192"
proof -
  have "unat (b * scratchpadPerThread) = unat b * 131072"
    using assms(1) by (simp add: scratchpadPerThread_def unat_word_ariths)
  then have "unat m < 8192 * 131072"
    using assms by (simp add: word_less_nat_alt)
  then show ?thesis by (simp add: scratchpadPerThread_def unat_div)
qed

text \<open>The batch before the last rounding is at most 8192.\<close>

lemma batch_stages:
  fixes vram alloc scratch :: u64
  defines "b1 \<equiv> (if 0 < vram \<and> vram < maxThreadsPerBatch then vram else maxThreadsPerBatch)"
  defines "b2 \<equiv> (if 0 < alloc \<and> alloc < b1 then (if alloc < 256 then 256 else alloc) else b1)"
  defines "b3 \<equiv> (if 0 < scratch \<and> scratch < b2 * scratchpadPerThread
     then (if round256 (scratch div scratchpadPerThread) < 256 then 256
           else round256 (scratch div scratchpadPerThread)) else b2)"
  shows "unat b3 \<le> 8192"
proof -
  have b1: "unat b1 \<le> 8192" by (auto simp: b1_def maxThreadsPerBatch_def word_less_nat_alt)
  then have b2: "unat b2 \<le> 8192" by (auto simp: b2_def word_less_nat_alt)
  show ?thesis
  proof (cases "0 < scratch \<and> scratch < b2 * scratchpadPerThread")
    case True
    then have "unat (round256 (scratch div scratchpadPerThread)) \<le> 8192"
      using scratchpad_stage [OF b2, of scratch] round256_le [of "scratch div scratchpadPerThread"]
      by linarith
    with True show ?thesis by (simp add: b3_def)
  next
    case False
    then have "b3 = b2" unfolding b3_def by (rule if_not_P)
    with b2 show ?thesis by simp
  qed
qed

lemma final_stage:
  fixes b maxHashes :: u64
  assumes "unat b \<le> 8192"
  defines "c \<equiv> (if maxHashes < b then maxHashes else b)"
  defines "r \<equiv> (if round256 c = 0 then 256 else round256 c)"
  shows "0 < unat r \<and> unat r \<le> 8192 \<and> (unat r < 256 \<or> 256 dvd unat r)"
proof -
  have c: "unat c \<le> 8192" using assms(1) by (auto simp: c_def word_less_nat_alt)
  show ?thesis
  proof (cases "round256 c = 0")
    case False
    then have "0 < unat (round256 c)" by (simp add: unat_gt_0)
    moreover have "unat (round256 c) < 256 \<or> 256 dvd unat (round256 c)"
      by (cases "unat c = 256") (auto simp: unat_round256)
    ultimately show ?thesis using False c round256_le [of c] by (simp add: r_def)
  qed (simp add: r_def)
qed

section \<open>Properties\<close>

text \<open>The candidate generator always returns as many nonces as asked for, all distinct: its last
  strategy ends within \<open>2^32\<close> iterations, for every request of at most \<open>2^32\<close> nonces.\<close>

theorem smart_nonces_distinct:
  assumes "0 < count" "count \<le> 2 ^ 32"
  shows "\<exists>ns. generateSmartNonces (2 ^ 32) b count seed = Some ns \<and> distinct ns \<and> length ns = count"
proof -
  let ?ns = "smart_prefix b count seed" and ?st = "smart_start b (count - length (smart_prefix b count seed)) seed"
  obtain r where r: "fill_loop (2 ^ 32) count ?st seed 0 ?ns = Some r"
    using fill_loop_total [OF smart_prefix_ok smart_prefix_zero [OF assms(1)] assms(2)] by blast
  with fill_loop_ok [OF smart_prefix_ok r] show ?thesis
    by (simp add: generateSmartNonces_def Let_def)
qed

theorem smart_nonces_distinct_witness:
  "\<exists>ns. generateSmartNonces (2 ^ 32) sampleBlock 8192 77 = Some ns \<and> distinct ns \<and> length ns = 8192"
  by (rule smart_nonces_distinct) simp_all

text \<open>Whatever memory sizes the driver reports, a kernel batch has at least one and at most 8192
  nonces, and is either a multiple of 256 or at most 256.\<close>

theorem gpu_batch_bounds:
  "0 < unat (gpu_batch_size globalMem maxAllocSize maxScratchpad maxHashes) \<and>
   unat (gpu_batch_size globalMem maxAllocSize maxScratchpad maxHashes) \<le> 8192 \<and>
   (unat (gpu_batch_size globalMem maxAllocSize maxScratchpad maxHashes) < 256 \<or>
    256 dvd unat (gpu_batch_size globalMem maxAllocSize maxScratchpad maxHashes))"
  unfolding gpu_batch_size_def Let_def by (rule final_stage) (rule batch_stages)

end
