(* ===== verification/CompactTarget.thy ===== *)
theory CompactTarget
  imports TxBlock Complex_Main
begin

unbundle bit_operations_syntax

text \<open>
  \<open>src/pow_dogecoin.go\<close> and \<open>src/template_builder.go\<close>: compact difficulty bits, the
  DigiShield retarget, the next-work rule and the block template built from a chain tip.
  Targets are \<open>big.Int\<close> values that are never negative here, so \<open>nat\<close>; block times and
  heights are \<open>int64\<close>, modelled as \<open>int\<close> (their values stay far below \<open>2^63\<close>); the
  floating-point difficulty is modelled as the exact quotient before rounding.
\<close>

section \<open>Compact bits\<close>

definition BitsToTarget :: "u32 \<Rightarrow> nat" where
  "BitsToTarget bits =
     (let size = unat (drop_bit 24 bits);
          word = unat (bits AND 0x00FFFFFF)
      in if size \<le> 3 then word div 2 ^ (8 * (3 - size)) else word * 2 ^ (8 * (size - 3)))"

definition BigToCompact :: "nat \<Rightarrow> u32" where
  "BigToCompact n =
     (if n = 0 then 0
      else
        let exponent = length (big_bytes n) in
        if exponent \<le> 3 then of_nat (n * 2 ^ (8 * (3 - exponent)))
        else
          let compact = (of_nat (n div 2 ^ (8 * (exponent - 3))) :: u32) in
          if compact AND 0x00800000 \<noteq> 0
          then push_bit 24 (of_nat (exponent + 1)) OR (drop_bit 8 compact AND 0x007fffff)
          else push_bit 24 (of_nat exponent) OR (compact AND 0x007fffff))"

definition BitsToTargetHex :: "u32 \<Rightarrow> string" where
  "BitsToTargetHex bits =
     (let b = big_bytes (BitsToTarget bits);
          b = (if 32 < length b then drop (length b - 32) b else b)
      in hexEncode (replicate (32 - length b) 0 @ b))"

definition difficulty1Target :: nat where
  "difficulty1Target = 0xffff * 2 ^ 208"

definition BitsToDifficulty :: "u32 \<Rightarrow> rat" where
  "BitsToDifficulty bits =
     (if BitsToTarget bits = 0 then 0
      else of_nat difficulty1Target / of_nat (BitsToTarget bits))"

section \<open>DigiShield\<close>

definition dogecoinPowLimitCompact :: u32 where "dogecoinPowLimitCompact = 0x1e0ffff0"
definition testnetMinDifficultySpacing :: int where "testnetMinDifficultySpacing = 120"
definition dogecoinDigishieldStartHeight :: int where "dogecoinDigishieldStartHeight = 145000"

definition dogecoinPowLimitUint256 :: nat where
  "dogecoinPowLimitUint256 = 0x00000fffffffffffffffffffffffffffffffffffffffffffffffffffffffffff"

text \<open>Go's integer division truncates towards zero.\<close>

definition go_div :: "int \<Rightarrow> int \<Rightarrow> int" where
  "go_div a b = sgn a * sgn b * (\<bar>a\<bar> div \<bar>b\<bar>)"

definition modulatedTimespan :: "int \<Rightarrow> int \<Rightarrow> int" where
  "modulatedTimespan tipTime parentTime =
     (let retargetTimespan = 60;
          nActual = (if tipTime - parentTime < 1 then 1 else tipTime - parentTime);
          nMod = retargetTimespan + go_div (nActual - retargetTimespan) 8;
          nMin = retargetTimespan - go_div retargetTimespan 4;
          nMax = retargetTimespan + go_div retargetTimespan 2
      in if nMod < nMin then nMin else if nMax < nMod then nMax else nMod)"

definition calculateDogecoinDigishieldNextWork :: "u32 \<Rightarrow> int \<Rightarrow> int \<Rightarrow> u32" where
  "calculateDogecoinDigishieldNextWork tipBits tipTime parentTime =
     (let bnOld = BitsToTarget tipBits in
      if bnOld = 0 then tipBits
      else
        let bnNew = bnOld * nat (modulatedTimespan tipTime parentTime) div 60;
            bnNew = (if dogecoinPowLimitUint256 < bnNew then dogecoinPowLimitUint256 else bnNew)
        in BigToCompact bnNew)"

definition GetNextWorkRequiredExtended ::
  "BlockHeader option \<Rightarrow> int \<Rightarrow> string \<Rightarrow> u32 option \<Rightarrow> u32 \<Rightarrow> u32" where
  "GetNextWorkRequiredExtended tip blockTime network lastNonMinBits tipParentTimestamp =
     (case tip of
        None \<Rightarrow> dogecoinPowLimitCompact
      | Some t \<Rightarrow>
          let testnetRule = network = ''testnet'' \<and> 157500 \<le> hHeight t in
          if testnetRule \<and> int (unat (hTimestamp t)) + testnetMinDifficultySpacing < blockTime
          then dogecoinPowLimitCompact
          else if testnetRule \<and> hBits t = dogecoinPowLimitCompact \<and>
                  lastNonMinBits \<noteq> None \<and> lastNonMinBits \<noteq> Some 0
          then the lastNonMinBits
          else if hHeight t < dogecoinDigishieldStartHeight then hBits t
          else if tipParentTimestamp = 0 then hBits t
          else calculateDogecoinDigishieldNextWork (hBits t)
                 (int (unat (hTimestamp t))) (int (unat tipParentTimestamp)))"

definition GetNextWorkRequired :: "BlockHeader option \<Rightarrow> int \<Rightarrow> string \<Rightarrow> u32 option \<Rightarrow> u32" where
  "GetNextWorkRequired tip blockTime network lastNonMinBits =
     GetNextWorkRequiredExtended tip blockTime network lastNonMinBits 0"

section \<open>The block template\<close>

definition BlockRewardForHeight :: "int \<Rightarrow> int" where
  "BlockRewardForHeight height = (if 600001 \<le> height then 1000000000000 else 1000000000000)"

text \<open>
  The template's \<open>Transactions\<close>, \<open>CoinbaseAux\<close> and \<open>NonceRange\<close> are always empty here
  and left out.
\<close>

record BlockTemplate =
  tVersion :: u32
  tPreviousBlockHash :: string
  tCoinbaseValue :: int
  tCoinbaseScript :: "byte list"
  tTarget :: string
  tBits :: string
  tHeight :: int
  tDifficulty :: rat
  tMintime :: int
  tCurTime :: int

datatype template_error = NilTip

definition BuildTemplateFromHeader ::
  "BlockHeader option \<Rightarrow> string \<Rightarrow> u32 option \<Rightarrow> u32 \<Rightarrow> int \<Rightarrow> template_error + BlockTemplate" where
  "BuildTemplateFromHeader tip network lastNonMinBits tipParentTimestamp now =
     (case tip of
        None \<Rightarrow> Inl NilTip
      | Some t \<Rightarrow>
          let nextHeight = hHeight t + 1;
              nextBits = GetNextWorkRequiredExtended tip now network lastNonMinBits tipParentTimestamp
          in Inr \<lparr>tVersion = hVersion t OR 0x100,
                   tPreviousBlockHash = hexEncode (reverseBytesInPlace (hHash t)),
                   tCoinbaseValue = BlockRewardForHeight nextHeight,
                   tCoinbaseScript = [0],
                   tTarget = BitsToTargetHex nextBits,
                   tBits = hexEncode (put_u32 nextBits),
                   tHeight = nextHeight,
                   tDifficulty = BitsToDifficulty nextBits,
                   tMintime = int (unat (hTimestamp t)),
                   tCurTime = now\<rparr>)"

definition FormatTemplateBitsForLog :: "string \<Rightarrow> string" where
  "FormatTemplateBitsForLog bitsHex =
     (case hexDecode bitsHex of
        Inl e \<Rightarrow> bitsHex
      | Inr b \<Rightarrow>
          if length b \<noteq> 4 then bitsHex
          else ''nBits(compact)=0x'' @ hexEncode (rev (put_u32 (get_u32 b))) @
               '' wire-bytes-hex='' @ bitsHex)"

section \<open>Sizes of targets\<close>

lemma unat_and_mask24: "unat (b AND 0x00FFFFFF :: u32) = unat b mod 2 ^ 24"
proof -
  have "b AND 0x00FFFFFF = take_bit 24 b"
    by (simp add: take_bit_eq_mask mask_eq_exp_minus_1)
  then have "unat (b AND 0x00FFFFFF) = take_bit 24 (unat b)"
    by (simp only: unsigned_take_bit_eq)
  then show ?thesis by (simp only: take_bit_eq_mod)
qed

lemma unat_drop_bit24: "unat (drop_bit 24 (b :: u32)) = unat b div 2 ^ 24"
proof -
  have "unat (drop_bit 24 b) = drop_bit 24 (unat b)"
    by (simp only: unsigned_drop_bit_eq) (simp add: take_bit_nat_eq_self)
  then show ?thesis by (simp only: drop_bit_eq_div)
qed

lemma BitsToTarget_nat:
  "BitsToTarget bits =
     (let size = unat bits div 2 ^ 24; word = unat bits mod 2 ^ 24 in
      if size \<le> 3 then word div 2 ^ (8 * (3 - size)) else word * 2 ^ (8 * (size - 3)))"
  by (simp only: BitsToTarget_def unat_and_mask24 unat_drop_bit24)

lemma BitsToTargetHex_decode:
  assumes "BitsToTarget bits < 256 ^ 32"
  shows "\<exists>t. hexDecode (BitsToTargetHex bits) = Inr t \<and> length t = 32 \<and> be_nat t = BitsToTarget bits"
  using assms length_big_bytes_le_iff [of "BitsToTarget bits" 32]
  by (auto simp: BitsToTargetHex_def Let_def)

lemma go_div_8_nonneg: "0 \<le> a \<Longrightarrow> go_div a 8 = a div 8"
  by (cases "a = 0") (simp_all add: go_div_def)

lemma go_div_8_neg: "a < 0 \<Longrightarrow> go_div a 8 = - ((- a) div 8)"
  by (simp add: go_div_def)

lemma modulatedTimespan_bounds:
  "53 \<le> modulatedTimespan t p \<and> modulatedTimespan t p \<le> 90"
proof -
  define n where "n = (if t - p < 1 then 1 else t - p)"
  then have n: "1 \<le> n" by simp
  have "53 \<le> 60 + go_div (n - 60) 8"
  proof (cases "n < 60")
    case True
    then have "(- (n - 60)) div 8 \<le> 7" using n by simp
    with True show ?thesis by (simp add: go_div_8_neg)
  qed (simp add: go_div_8_nonneg)
  moreover have "go_div 60 4 = 15" "go_div 60 2 = 30" by (simp_all add: go_div_def)
  ultimately show ?thesis
    unfolding modulatedTimespan_def Let_def n_def [symmetric] by auto
qed

lemma modulatedTimespan_60: "modulatedTimespan (p + 60) p = 60"
  by (simp add: modulatedTimespan_def go_div_def)

lemma modulatedTimespan_mono:
  "t \<le> t' \<Longrightarrow> modulatedTimespan t p \<le> modulatedTimespan t' p"
proof -
  assume "t \<le> t'"
  define n where "n u = (if u - p < 1 then 1 else u - p)" for u
  have le: "n t \<le> n t'" using \<open>t \<le> t'\<close> by (simp add: n_def)
  have "go_div a 8 \<le> go_div b 8" if "a \<le> b" for a b :: int
  proof (cases "a < 0")
    case True
    show ?thesis
    proof (cases "b < 0")
      case False
      have "0 \<le> (- a) div 8" "0 \<le> b div 8" using True False by simp_all
      with True False show ?thesis by (simp add: go_div_8_neg go_div_8_nonneg)
    qed (use that True in \<open>simp add: go_div_8_neg zdiv_mono1\<close>)
  qed (use that in \<open>simp add: go_div_8_nonneg zdiv_mono1\<close>)
  from this [of "n t - 60" "n t' - 60"] le
  have "60 + go_div (n t - 60) 8 \<le> 60 + go_div (n t' - 60) 8" by simp
  moreover have "go_div 60 4 = 15" "go_div 60 2 = 30" by (simp_all add: go_div_def)
  ultimately show ?thesis
    unfolding modulatedTimespan_def Let_def n_def [symmetric] by auto
qed

section \<open>Compact bits of large targets\<close>

text \<open>Encoding keeps the leading 23 or 24 bits: the decoded target is \<open>n\<close> truncated.\<close>

lemma length_big_bytes_eq:
  assumes "256 ^ k \<le> n" "n < 256 ^ Suc k"
  shows "length (big_bytes n) = Suc k"
  using assms length_big_bytes_le_iff [of n k] length_big_bytes_le_iff [of n "Suc k"] by linarith

lemma and_bit23: "(of_nat m :: u32) AND 0x00800000 \<noteq> 0 \<longleftrightarrow> odd (m div 2 ^ 23)"
proof -
  have "(0x00800000 :: u32) = push_bit 23 1" by simp
  then have "(of_nat m :: u32) AND 0x00800000 \<noteq> 0 \<longleftrightarrow> bit (of_nat m :: u32) 23"
    by (metis and_exp_eq_0_iff_not_bit push_bit_of_1)
  also have "\<dots> \<longleftrightarrow> bit m 23"
    by (simp add: bit_simps)
  finally show ?thesis by (simp add: bit_iff_odd)
qed

lemma compact_join:
  assumes "e < 256" "m < 2 ^ 23"
  shows "unat (push_bit 24 (of_nat e) OR ((of_nat m :: u32) AND 0x007fffff)) = e * 2 ^ 24 + m"
proof -
  have mask: "(of_nat m :: u32) AND 0x007fffff = of_nat m"
  proof -
    have "(of_nat m :: u32) AND 0x007fffff = take_bit 23 (of_nat m)"
      by (simp add: take_bit_eq_mask mask_eq_exp_minus_1)
    also have "\<dots> = of_nat (take_bit 23 m)" by (simp add: take_bit_of_nat)
    finally show ?thesis using assms by (simp add: take_bit_nat_eq_self)
  qed
  have "push_bit 24 (of_nat e :: u32) = of_nat (e * 2 ^ 24)"
    by (simp add: push_bit_of_nat push_bit_eq_mult)
  moreover have "(of_nat (e * 2 ^ 24) :: u32) AND of_nat m = 0"
  proof -
    have high: "\<not> bit m n" if "24 \<le> n" for n
    proof -
      have "bit m n = bit (take_bit 23 m) n"
        using assms by (simp add: take_bit_nat_eq_self)
      with that show ?thesis by (simp add: bit_take_bit_iff)
    qed
    have "push_bit 24 e AND m = 0"
    proof (rule bit_eqI)
      fix n
      show "bit (push_bit 24 e AND m) n = bit 0 n"
        using high [of n] by (cases "24 \<le> n") (simp_all add: bit_and_iff bit_push_bit_iff)
    qed
    then have "e * 2 ^ 24 AND m = 0"
      by (simp only: push_bit_eq_mult)
    then show ?thesis
      by (simp only: of_nat_and_eq [symmetric]) simp
  qed
  ultimately have "push_bit 24 (of_nat e) OR (of_nat m :: u32) = of_nat (e * 2 ^ 24 + m)"
    by (metis disjunctive_add_eq_or of_nat_add)
  then have "unat (push_bit 24 (of_nat e) OR (of_nat m :: u32)) = (e * 2 ^ 24 + m) mod 2 ^ 32"
    by (simp only: unat_of_nat) simp
  with mask assms show ?thesis by simp
qed

lemma pow8: "(2 :: nat) ^ (8 * k) = 256 ^ k"
  by (simp add: power_mult)

text \<open>The encoder's two cases, by the top bit of the 24-bit mantissa.\<close>

lemma BigToCompact_cases:
  assumes n: "256 ^ (k + 3) \<le> n" "n < 256 ^ (k + 4)" and k: "k \<le> 28"
  defines "m \<equiv> n div 256 ^ (k + 1)"
  shows "unat (BigToCompact n) =
    (if m < 2 ^ 23 then (k + 4) * 2 ^ 24 + m else (k + 5) * 2 ^ 24 + m div 256)"
    and "2 ^ 16 \<le> m" and "m < 2 ^ 24"
proof -
  have len: "length (big_bytes n) = k + 4"
  proof -
    have k4: "k + 4 = Suc (k + 3)" by simp
    show ?thesis using n unfolding k4 by (rule length_big_bytes_eq)
  qed
  have n0: "n \<noteq> 0"
  proof
    assume "n = 0"
    with n(1) show False by simp
  qed
  have "2 ^ 16 * 256 ^ (k + 1) \<le> n" using n(1) by (simp add: power_add)
  then show m16: "2 ^ 16 \<le> m"
    unfolding m_def by (metis div_le_mono nonzero_mult_div_cancel_right power_not_zero zero_neq_numeral)
  have "n < 2 ^ 24 * 256 ^ (k + 1)" using n(2) by (simp add: power_add)
  then show m24: "m < 2 ^ 24"
    unfolding m_def by (simp add: div_less_iff_less_mult)
  have odd: "odd (m div 2 ^ 23) \<longleftrightarrow> 2 ^ 23 \<le> m"
  proof (cases "m < 2 ^ 23")
    case False
    then have "m div 2 ^ 23 = 1" using m24 by (intro div_nat_eqI) simp_all
    with False show ?thesis by simp
  qed simp
  have sh: "drop_bit 8 (of_nat m :: u32) = of_nat (m div 256)"
  proof (rule unsigned_word_eqI)
    have "unat (drop_bit 8 (of_nat m :: u32)) = unat (of_nat m :: u32) div 2 ^ 8"
      by (simp only: unsigned_drop_bit_eq) (simp add: drop_bit_eq_div take_bit_nat_eq_self)
    then show "unat (drop_bit 8 (of_nat m :: u32)) = unat (of_nat (m div 256) :: u32)"
      using m24 by (simp add: unat_of_nat)
  qed
  have m': "m div 256 < 2 ^ 23" using m24 by simp
  show "unat (BigToCompact n) =
    (if m < 2 ^ 23 then (k + 4) * 2 ^ 24 + m else (k + 5) * 2 ^ 24 + m div 256)"
  proof (cases "m < 2 ^ 23")
    case True
    then have "BigToCompact n = push_bit 24 (of_nat (k + 4)) OR ((of_nat m :: u32) AND 0x007fffff)"
      using n0 odd and_bit23 [of m] by (simp only: BigToCompact_def len Let_def pow8 m_def) simp
    with True k show ?thesis using compact_join [of "k + 4" m] by simp
  next
    case False
    then have "BigToCompact n =
        push_bit 24 (of_nat (k + 4 + 1)) OR ((of_nat (m div 256) :: u32) AND 0x007fffff)"
      using n0 odd and_bit23 [of m] sh
      by (simp only: BigToCompact_def len Let_def pow8 m_def) simp
    with False k m' show ?thesis using compact_join [of "k + 4 + 1" "m div 256"] by simp
  qed
qed

text \<open>Every target between \<open>2^24\<close> and \<open>2^256\<close> has such an exponent \<open>k\<close>.\<close>

lemma exponent_exists:
  fixes n :: nat
  assumes "2 ^ 24 \<le> n" "n < 2 ^ 256"
  obtains k where "k \<le> 28" "256 ^ (k + 3) \<le> n" "n < 256 ^ (k + 4)"
proof -
  define k where "k = length (big_bytes n) - 4"
  have "\<not> length (big_bytes n) \<le> 3" "length (big_bytes n) \<le> 32"
    using assms length_big_bytes_le_iff [of n 3] length_big_bytes_le_iff [of n 32] by simp_all
  then have k: "length (big_bytes n) = k + 4" "k \<le> 28" by (simp_all add: k_def)
  then have "\<not> length (big_bytes n) \<le> k + 3" "length (big_bytes n) \<le> k + 4" by simp_all
  then have "256 ^ (k + 3) \<le> n" "n < 256 ^ (k + 4)"
    by (simp_all only: length_big_bytes_le_iff not_less)
  with k(2) show thesis by (rule that)
qed

lemma BitsToTarget_large:
  "unat bits = s * 2 ^ 24 + w \<Longrightarrow> w < 2 ^ 24 \<Longrightarrow> 3 < s \<Longrightarrow> BitsToTarget bits = w * 256 ^ (s - 3)"
  by (simp add: BitsToTarget_nat Let_def pow8)

lemma BitsToTarget_BigToCompact:
  assumes "256 ^ (k + 3) \<le> n" "n < 256 ^ (k + 4)" "k \<le> 28"
  obtains B where "BitsToTarget (BigToCompact n) = n div B * B" "2 ^ 15 \<le> n div B" "0 < B"
proof -
  define m where "m = n div 256 ^ (k + 1)"
  note c = BigToCompact_cases [OF assms, folded m_def]
  show thesis
  proof (cases "m < 2 ^ 23")
    case True
    then have "BitsToTarget (BigToCompact n) = m * 256 ^ (k + 1)"
      using c BitsToTarget_large [of "BigToCompact n" "k + 4" m] by simp
    with c(2) that [of "256 ^ (k + 1)"] show thesis by (simp add: m_def)
  next
    case False
    then have "BitsToTarget (BigToCompact n) = m div 256 * 256 ^ (k + 2)"
      using c BitsToTarget_large [of "BigToCompact n" "k + 5" "m div 256"] by simp
    moreover have "m div 256 = n div 256 ^ (k + 2)"
      unfolding m_def by (simp add: div_mult2_eq [symmetric] mult.commute)
    moreover have "2 ^ 15 \<le> m div 256" using False by simp
    ultimately show thesis using that [of "256 ^ (k + 2)"] by simp
  qed
qed

lemma compact_truncation:
  fixes n :: nat
  assumes "2 ^ 24 \<le> n" "n < 2 ^ 256"
  defines "t \<equiv> BitsToTarget (BigToCompact n)"
  shows "t \<le> n" "2 ^ 15 * (n - t) < t"
proof -
  obtain k where "k \<le> 28" "256 ^ (k + 3) \<le> n" "n < 256 ^ (k + 4)"
    using exponent_exists [OF assms(1,2)] .
  then obtain B where B: "t = n div B * B" "2 ^ 15 \<le> n div B" "0 < B"
    unfolding t_def using BitsToTarget_BigToCompact [of k n] by metis
  then show "t \<le> n" by simp
  have "n - t = n mod B" using B(1) by (simp add: minus_div_mult_eq_mod)
  then have "2 ^ 15 * (n - t) < 2 ^ 15 * B" using B(3) by simp
  also have "\<dots> \<le> n div B * B" using B(2) by (intro mult_le_mono1)
  finally show "2 ^ 15 * (n - t) < t" using B(1) by simp
qed

lemma compact_zero: "n < 2 ^ 24 \<Longrightarrow> BitsToTarget (BigToCompact n) = 0"
proof (cases "n = 0")
  case False
  assume n: "n < 2 ^ 24"
  define e where "e = length (big_bytes n)"
  have e: "e \<le> 3" using n length_big_bytes_le_iff [of n 3] by (simp add: e_def)
  have "n < 256 ^ e" using length_big_bytes_le_iff [of n e] by (simp add: e_def)
  then have "n * 256 ^ (3 - e) < 256 ^ e * 256 ^ (3 - e)" by simp
  also have "\<dots> = 2 ^ 24" using e by (simp flip: power_add)
  finally have lt: "n * 256 ^ (3 - e) < 2 ^ 24" .
  have "BigToCompact n = of_nat (n * 256 ^ (3 - e))"
    using e False by (simp add: BigToCompact_def Let_def pow8 flip: e_def)
  then have "unat (BigToCompact n) = n * 256 ^ (3 - e)"
    using lt by (simp only: unat_of_nat) simp
  with lt show ?thesis by (simp add: BitsToTarget_nat Let_def)
qed (simp add: BigToCompact_def BitsToTarget_def)

lemma BitsToTarget_BigToCompact_le: "n < 2 ^ 256 \<Longrightarrow> BitsToTarget (BigToCompact n) \<le> n"
  by (cases "2 ^ 24 \<le> n") (simp_all add: compact_truncation(1) compact_zero)

text \<open>Canonical bits: a positive mantissa below \<open>2^23\<close> whose top byte is not wasted.\<close>

definition canonical_bits :: "u32 \<Rightarrow> bool" where
  "canonical_bits bits \<longleftrightarrow>
     2 ^ 15 \<le> unat bits mod 2 ^ 24 \<and> unat bits mod 2 ^ 24 < 2 ^ 23 \<and>
     2 ^ 24 \<le> BitsToTarget bits \<and> BitsToTarget bits < 2 ^ 256"

lemma BigToCompact_canonical:
  assumes "canonical_bits bits"
  shows "BigToCompact (BitsToTarget bits) = bits"
proof -
  define s w n where "s = unat bits div 2 ^ 24" and "w = unat bits mod 2 ^ 24"
    and "n = BitsToTarget bits"
  have bits: "unat bits = s * 2 ^ 24 + w" by (simp add: s_def w_def)
  from assms have w: "2 ^ 15 \<le> w" "w < 2 ^ 23" and n: "2 ^ 24 \<le> n" "n < 2 ^ 256"
    by (simp_all add: canonical_bits_def w_def n_def)
  have "3 < s"
  proof (rule ccontr)
    assume "\<not> 3 < s"
    then have "n = w div 2 ^ (8 * (3 - s))"
      by (simp add: n_def BitsToTarget_nat Let_def w_def s_def)
    then have "n \<le> w" by simp
    with w n show False by simp
  qed
  then have nw: "n = w * 256 ^ (s - 3)"
    using BitsToTarget_large [OF bits] w by (simp add: n_def)
  have "unat (BigToCompact n) = unat bits"
  proof (cases "w < 2 ^ 16")
    case False
    define k where "k = s - 4"
    with \<open>3 < s\<close> have k: "s = k + 4" by simp
    have lo: "256 ^ (k + 3) \<le> n" and hi: "n < 256 ^ (k + 4)"
      using False w by (simp_all add: nw k power_add)
    have "k \<le> 28"
    proof (rule ccontr)
      assume "\<not> k \<le> 28"
      then have "(256 :: nat) ^ 32 \<le> 256 ^ (k + 3)" by (intro power_increasing) simp_all
      with lo n(2) show False by simp
    qed
    with BigToCompact_cases(1) [OF lo hi] w show ?thesis by (simp add: nw k bits)
  next
    case True
    have "4 < s"
    proof (rule ccontr)
      assume "\<not> 4 < s"
      with \<open>3 < s\<close> have "s = 4" by simp
      with nw True n(1) show False by simp
    qed
    define k where "k = s - 5"
    with \<open>4 < s\<close> have k: "s = k + 5" by simp
    have lo: "256 ^ (k + 3) \<le> n" and hi: "n < 256 ^ (k + 4)"
      using True w by (simp_all add: nw k power_add)
    have "k \<le> 28"
    proof (rule ccontr)
      assume "\<not> k \<le> 28"
      then have "(256 :: nat) ^ 32 \<le> 256 ^ (k + 3)" by (intro power_increasing) simp_all
      with lo n(2) show False by simp
    qed
    moreover have "n div 256 ^ (k + 1) = 256 * w"
      by (simp add: nw k power_add)
    ultimately show ?thesis using BigToCompact_cases(1) [OF lo hi] w by (simp add: bits k)
  qed
  then show ?thesis by (simp add: n_def word_unat_eq_iff)
qed

section \<open>DigiShield and the next-work rule\<close>

lemma digishield_target:
  assumes "BitsToTarget bits \<noteq> 0"
  shows "calculateDogecoinDigishieldNextWork bits t p = BigToCompact
    (min (BitsToTarget bits * nat (modulatedTimespan t p) div 60) dogecoinPowLimitUint256)"
  using assms by (auto simp: calculateDogecoinDigishieldNextWork_def Let_def min_def)

lemma powLimit_lt: "dogecoinPowLimitUint256 < 2 ^ 256"
  by (simp add: dogecoinPowLimitUint256_def)

lemma digishield_step_le:
  "BitsToTarget (calculateDogecoinDigishieldNextWork bits t p)
     \<le> min (BitsToTarget bits * nat (modulatedTimespan t p) div 60) dogecoinPowLimitUint256"
proof (cases "BitsToTarget bits = 0")
  case False
  show ?thesis
    unfolding digishield_target [OF False]
    by (rule BitsToTarget_BigToCompact_le) (use powLimit_lt in simp)
qed (simp add: calculateDogecoinDigishieldNextWork_def)

lemma BitsToTarget_powLimitCompact: "BitsToTarget dogecoinPowLimitCompact \<le> dogecoinPowLimitUint256"
  by (simp add: BitsToTarget_nat dogecoinPowLimitCompact_def dogecoinPowLimitUint256_def Let_def)

text \<open>A header as the chain had it in late 2023, for concrete instances.\<close>

definition sampleTip :: BlockHeader where
  "sampleTip = \<lparr>hVersion = 6422788, hPrevBlock = replicate 32 5, hMerkleRoot = replicate 32 6,
     hTimestamp = 1700000000, hBits = 0x1a05e69f, hNonce = 0, hHeight = 5000000,
     hHash = replicate 32 7\<rparr>"

lemma sampleTip_target: "BitsToTarget (hBits sampleTip) \<le> dogecoinPowLimitUint256"
  by (simp add: sampleTip_def BitsToTarget_nat Let_def dogecoinPowLimitUint256_def)

lemma next_work_le_limit:
  assumes "\<And>t. tip = Some t \<Longrightarrow> BitsToTarget (hBits t) \<le> dogecoinPowLimitUint256"
    and "\<And>b. lastNonMin = Some b \<Longrightarrow> BitsToTarget b \<le> dogecoinPowLimitUint256"
  shows "BitsToTarget (GetNextWorkRequiredExtended tip now network lastNonMin parentTime)
    \<le> dogecoinPowLimitUint256"
  using assms BitsToTarget_powLimitCompact digishield_step_le
  by (auto simp: GetNextWorkRequiredExtended_def Let_def split: option.splits)

lemma timespan_nat_le_90: "nat (modulatedTimespan t p) \<le> 90"
  using modulatedTimespan_bounds [of t p] by linarith

lemma timespan_nat_ge_53: "53 \<le> nat (modulatedTimespan t p)"
  using modulatedTimespan_bounds [of t p] by linarith

text \<open>Compact bits are canonical: re-encoding the target that canonical bits denote gives
  the same bits back.\<close>

theorem compact_bits_roundtrip:
  assumes "2 ^ 15 \<le> unat bits mod 2 ^ 24" "unat bits mod 2 ^ 24 < 2 ^ 23"
    and "2 ^ 24 \<le> BitsToTarget bits" "BitsToTarget bits < 2 ^ 256"
  shows "BigToCompact (BitsToTarget bits) = bits"
  using assms by (intro BigToCompact_canonical) (simp add: canonical_bits_def)

theorem compact_bits_roundtrip_witness:
  "BigToCompact (BitsToTarget 0x1a05e69f) = 0x1a05e69f"
  by (rule compact_bits_roundtrip) (simp_all add: BitsToTarget_nat Let_def)

text \<open>The compact form of a target rounds it down, and what is lost is less than one part in
  \<open>2^15\<close> of what is kept.\<close>

theorem compact_truncation_error:
  assumes "2 ^ 24 \<le> n" "n < 2 ^ 256"
  shows "BitsToTarget (BigToCompact n) \<le> n \<and>
    2 ^ 15 * (n - BitsToTarget (BigToCompact n)) < BitsToTarget (BigToCompact n)"
  using compact_truncation [OF assms] by blast

theorem compact_truncation_error_witness:
  "BitsToTarget (BigToCompact 0xFFFFFFFFFF) \<le> 0xFFFFFFFFFF \<and>
    2 ^ 15 * (0xFFFFFFFFFF - BitsToTarget (BigToCompact 0xFFFFFFFFFF))
      < BitsToTarget (BigToCompact 0xFFFFFFFFFF)"
  by (rule compact_truncation_error) simp_all

text \<open>Targets of three bytes and less lose their exponent byte in \<open>BigToCompact\<close>: the bits
  it returns denote the target 0, which no hash meets except 0.\<close>

theorem compact_small_target_lost:
  "n < 2 ^ 24 \<Longrightarrow> BitsToTarget (BigToCompact n) = 0"
  by (rule compact_zero)

theorem compact_small_target_lost_witness: "BitsToTarget (BigToCompact 0x123456) = 0"
  by (rule compact_small_target_lost) simp

text \<open>One DigiShield step never exceeds the proof-of-work limit and never eases the target
  by more than half, whatever the two timestamps.\<close>

theorem digishield_bounds:
  "BitsToTarget (calculateDogecoinDigishieldNextWork tipBits tipTime parentTime)
     \<le> dogecoinPowLimitUint256 \<and>
   2 * BitsToTarget (calculateDogecoinDigishieldNextWork tipBits tipTime parentTime)
     \<le> 3 * BitsToTarget tipBits"
proof -
  have "BitsToTarget tipBits * nat (modulatedTimespan tipTime parentTime) div 60
      \<le> BitsToTarget tipBits * 90 div 60"
    using timespan_nat_le_90 by (intro div_le_mono mult_le_mono2)
  also have "2 * \<dots> \<le> 3 * BitsToTarget tipBits" by linarith
  finally show ?thesis
    using digishield_step_le [of tipBits tipTime parentTime] by simp
qed

text \<open>A DigiShield step from a target within the limit never hardens it by more than one
  eighth, compact rounding included.\<close>

theorem digishield_max_hardening:
  assumes "2 ^ 25 \<le> BitsToTarget tipBits" "BitsToTarget tipBits \<le> dogecoinPowLimitUint256"
  shows "7 * BitsToTarget tipBits
    < 8 * BitsToTarget (calculateDogecoinDigishieldNextWork tipBits tipTime parentTime)"
proof -
  define T where "T = BitsToTarget tipBits"
  define x where "x = min (T * nat (modulatedTimespan tipTime parentTime) div 60) dogecoinPowLimitUint256"
  define new where "new = BitsToTarget (BigToCompact x)"
  have T0: "BitsToTarget tipBits \<noteq> 0" using assms(1) by auto
  have T: "2 ^ 25 \<le> T" "T \<le> dogecoinPowLimitUint256" using assms by (simp_all add: T_def)
  have "T * 53 \<le> T * nat (modulatedTimespan tipTime parentTime)"
    using timespan_nat_ge_53 by (intro mult_le_mono2)
  then have "T * 53 div 60 \<le> T * nat (modulatedTimespan tipTime parentTime) div 60"
    by (rule div_le_mono)
  moreover have "T * 53 div 60 \<le> T" by linarith
  ultimately have x: "T * 53 div 60 \<le> x" using T unfolding x_def by simp
  have "2 ^ 24 \<le> x" using x T(1) by simp
  moreover have "x < 2 ^ 256" using powLimit_lt by (simp add: x_def)
  ultimately have "2 ^ 15 * (x - new) < new" "new \<le> x"
    unfolding new_def by (rule compact_truncation(2), rule compact_truncation(1))
  then have "32768 * x < 32769 * new" by simp
  with x T(1) have "7 * T < 8 * new" by simp
  then show ?thesis
    unfolding digishield_target [OF T0] by (simp add: new_def x_def T_def)
qed

theorem digishield_max_hardening_witness:
  "7 * BitsToTarget 0x1a05e69f
    < 8 * BitsToTarget (calculateDogecoinDigishieldNextWork 0x1a05e69f 1000 999)"
  by (rule digishield_max_hardening)
    (simp_all add: BitsToTarget_nat Let_def dogecoinPowLimitUint256_def)

text \<open>Blocks that arrive exactly on the 60 second target leave canonical difficulty bits
  unchanged.\<close>

theorem digishield_stable:
  assumes "canonical_bits bits" "BitsToTarget bits \<le> dogecoinPowLimitUint256"
  shows "calculateDogecoinDigishieldNextWork bits (parentTime + 60) parentTime = bits"
proof -
  have "BitsToTarget bits \<noteq> 0" using assms(1) by (auto simp: canonical_bits_def)
  from digishield_target [OF this] assms show ?thesis
    by (simp add: modulatedTimespan_60 min_def BigToCompact_canonical)
qed

theorem digishield_stable_witness:
  "calculateDogecoinDigishieldNextWork 0x1a05e69f (1700000000 + 60) 1700000000 = 0x1a05e69f"
  by (rule digishield_stable)
    (simp_all add: canonical_bits_def BitsToTarget_nat Let_def dogecoinPowLimitUint256_def)

text \<open>The work required on top of a tip never exceeds the proof-of-work limit, in every
  branch of the rule (no tip, testnet minimum difficulty, walked-back bits, pre-DigiShield,
  unknown parent, DigiShield), provided the bits it may copy do not.\<close>

theorem next_work_within_limit:
  assumes "\<And>t. tip = Some t \<Longrightarrow> BitsToTarget (hBits t) \<le> dogecoinPowLimitUint256"
    and "\<And>b. lastNonMin = Some b \<Longrightarrow> BitsToTarget b \<le> dogecoinPowLimitUint256"
  shows "BitsToTarget (GetNextWorkRequiredExtended tip now network lastNonMin parentTime)
    \<le> dogecoinPowLimitUint256"
  using assms by (rule next_work_le_limit)

theorem next_work_within_limit_witness:
  "BitsToTarget (GetNextWorkRequiredExtended (Some sampleTip) 2000000000 ''testnet''
      (Some 0x1a05e69f) 1699999990) \<le> dogecoinPowLimitUint256"
  by (rule next_work_within_limit)
    (use sampleTip_target in \<open>auto simp: sampleTip_def BitsToTarget_nat Let_def dogecoinPowLimitUint256_def\<close>)

lemma template_of_tip:
  assumes "length (hHash t) = 32" "BitsToTarget (hBits t) \<le> dogecoinPowLimitUint256"
    and "\<And>b. lastNonMin = Some b \<Longrightarrow> BitsToTarget b \<le> dogecoinPowLimitUint256"
  shows "\<exists>T b x. BuildTemplateFromHeader (Some t) network lastNonMin parentTime now = Inr T \<and>
    hexTo32Bytes (tPreviousBlockHash T) = Inr (hHash t) \<and>
    hexDecode (tBits T) = Inr b \<and>
    get_u32 b = GetNextWorkRequiredExtended (Some t) now network lastNonMin parentTime \<and>
    hexDecode (tTarget T) = Inr x \<and> length x = 32 \<and> be_nat x = BitsToTarget (get_u32 b) \<and>
    tHeight T = hHeight t + 1 \<and> bit (tVersion T) 8"
proof -
  let ?bits = "GetNextWorkRequiredExtended (Some t) now network lastNonMin parentTime"
  have "BitsToTarget ?bits \<le> dogecoinPowLimitUint256"
    by (rule next_work_le_limit) (use assms in auto)
  then have "BitsToTarget ?bits < 256 ^ 32" by (simp add: dogecoinPowLimitUint256_def)
  from BitsToTargetHex_decode [OF this] obtain x where
    "hexDecode (BitsToTargetHex ?bits) = Inr x" "length x = 32" "be_nat x = BitsToTarget ?bits"
    by blast
  moreover have "bit (0x100 :: u32) 8" by (simp add: bit_iff_odd_drop_bit)
  then have "bit (hVersion t OR 0x100) 8" by (simp add: bit_or_iff)
  ultimately show ?thesis
    using assms(1) by (simp add: BuildTemplateFromHeader_def Let_def hexTo32Bytes_Inr_iff)
qed

text \<open>The template built on a tip decodes back to what block assembly needs: its previous
  block hash to the tip's hash, its bits to the next work (little-endian), its target to the
  number those bits denote, with the next height and the AuxPoW version bit set.\<close>

theorem template_decodes:
  assumes "length (hHash t) = 32" "BitsToTarget (hBits t) \<le> dogecoinPowLimitUint256"
    and "\<And>b. lastNonMin = Some b \<Longrightarrow> BitsToTarget b \<le> dogecoinPowLimitUint256"
  shows "\<exists>T b x. BuildTemplateFromHeader (Some t) network lastNonMin parentTime now = Inr T \<and>
    hexTo32Bytes (tPreviousBlockHash T) = Inr (hHash t) \<and>
    hexDecode (tBits T) = Inr b \<and>
    get_u32 b = GetNextWorkRequiredExtended (Some t) now network lastNonMin parentTime \<and>
    hexDecode (tTarget T) = Inr x \<and> length x = 32 \<and> be_nat x = BitsToTarget (get_u32 b) \<and>
    tHeight T = hHeight t + 1 \<and> bit (tVersion T) 8"
  using assms by (rule template_of_tip)

theorem template_decodes_witness:
  "\<exists>T b x. BuildTemplateFromHeader (Some sampleTip) ''mainnet'' None 1699999990 1700000050 = Inr T \<and>
    hexTo32Bytes (tPreviousBlockHash T) = Inr (hHash sampleTip) \<and>
    hexDecode (tBits T) = Inr b \<and>
    get_u32 b = GetNextWorkRequiredExtended (Some sampleTip) 1700000050 ''mainnet'' None 1699999990 \<and>
    hexDecode (tTarget T) = Inr x \<and> length x = 32 \<and> be_nat x = BitsToTarget (get_u32 b) \<and>
    tHeight T = hHeight sampleTip + 1 \<and> bit (tVersion T) 8"
  by (rule template_decodes) (simp_all add: sampleTip_target, simp add: sampleTip_def)

end
