(* ===== verification/GoText.thy ===== *)
theory GoText
  imports GoPrelude
begin

text \<open>
  The functions on text the program takes from Go's packages \<open>strconv\<close>, \<open>strings\<close> and \<open>net\<close>:
  decimal numbers, white space, splitting, and \<open>host:port\<close> pairs. A string is its list of bytes.
\<close>

section \<open>Decimal numbers\<close>

definition dec_digit :: "nat \<Rightarrow> char" where
  "dec_digit d = char_of (48 + d)"

definition dec_value :: "char \<Rightarrow> nat option" where
  "dec_value c = (let n = of_char c in if 48 \<le> n \<and> n < 58 then Some (n - 48) else None)"

fun itoa_nat :: "nat \<Rightarrow> string" where
  "itoa_nat n = (if n < 10 then [dec_digit n] else itoa_nat (n div 10) @ [dec_digit (n mod 10)])"

declare itoa_nat.simps [simp del]

text \<open>\<open>strconv.Itoa\<close>, and \<open>%d\<close>.\<close>

definition Itoa :: "int \<Rightarrow> string" where
  "Itoa i = (if i < 0 then ''-'' @ itoa_nat (nat (- i)) else itoa_nat (nat i))"

fun digits_value :: "nat \<Rightarrow> string \<Rightarrow> nat option" where
  "digits_value acc [] = Some acc"
| "digits_value acc (c # cs) =
     (case dec_value c of None \<Rightarrow> None | Some d \<Rightarrow> digits_value (10 * acc + d) cs)"

definition in_int64 :: "int \<Rightarrow> bool" where
  "in_int64 i \<longleftrightarrow> - (2 ^ 63) \<le> i \<and> i < 2 ^ 63"

text \<open>\<open>strconv.Atoi\<close>: an optional sign, at least one digit, a value of 64 bits.\<close>

definition Atoi :: "string \<Rightarrow> int option" where
  "Atoi s =
     (let (neg, ds) = (case s of c # cs \<Rightarrow> if c = CHR ''-'' then (True, cs)
                        else if c = CHR ''+'' then (False, cs) else (False, s) | [] \<Rightarrow> (False, s))
      in if ds = [] then None
         else case digits_value 0 ds of
           None \<Rightarrow> None
         | Some n \<Rightarrow> let i = (if neg then - int n else int n) in if in_int64 i then Some i else None)"

lemma dec_value_digit [simp]: "d < 10 \<Longrightarrow> dec_value (dec_digit d) = Some d"
  by (simp add: dec_value_def dec_digit_def Let_def)

lemma dec_digit_neq [simp]:
  "d < 10 \<Longrightarrow> dec_digit d \<noteq> CHR ''-''" "d < 10 \<Longrightarrow> dec_digit d \<noteq> CHR ''+''" "d < 10 \<Longrightarrow> dec_digit d \<noteq> CHR '':''"
  "d < 10 \<Longrightarrow> dec_digit d \<noteq> CHR ''[''" "d < 10 \<Longrightarrow> dec_digit d \<noteq> CHR '']''"
  by (auto simp: dec_digit_def dest!: arg_cong [of _ _ "of_char :: char \<Rightarrow> nat"])

lemma digits_value_append:
  "digits_value acc (xs @ ys) = Option.bind (digits_value acc xs) (\<lambda>a. digits_value a ys)"
  by (induction acc xs rule: digits_value.induct) (auto split: option.split)

lemma digits_value_itoa: "digits_value 0 (itoa_nat n) = Some n"
proof (induction n rule: itoa_nat.induct)
  case (1 n)
  show ?case
  proof (cases "n < 10")
    case False
    have "digits_value 0 (itoa_nat n) = Some (10 * (n div 10) + n mod 10)"
      using False 1 by (simp add: itoa_nat.simps [of n] digits_value_append del: mult_div_mod_eq)
    then show ?thesis by simp
  qed (simp add: itoa_nat.simps [of n])
qed

lemma itoa_nat_nonempty [simp]: "itoa_nat n \<noteq> []"
  by (simp add: itoa_nat.simps [of n])

lemma itoa_nat_digits: "c \<in> set (itoa_nat n) \<Longrightarrow> \<exists>d < 10. c = dec_digit d"
proof (induction n rule: itoa_nat.induct)
  case (1 n)
  have "n mod 10 < 10" by simp
  with 1 show ?case by (cases "n < 10") (auto simp: itoa_nat.simps [of n] simp del: mod_less_divisor)
qed

lemma itoa_nat_notin [simp]:
  "CHR '':'' \<notin> set (itoa_nat n)" "CHR ''['' \<notin> set (itoa_nat n)" "CHR '']'' \<notin> set (itoa_nat n)"
  "CHR ''-'' \<notin> set (itoa_nat n)" "CHR ''+'' \<notin> set (itoa_nat n)"
  using itoa_nat_digits by (metis dec_digit_neq)+

lemma Atoi_Itoa: "in_int64 i \<Longrightarrow> Atoi (Itoa i) = Some i"
proof -
  assume i: "in_int64 i"
  obtain c cs where c: "itoa_nat (nat i) = c # cs" by (metis itoa_nat_nonempty neq_Nil_conv)
  then have "c \<noteq> CHR ''-''" "c \<noteq> CHR ''+''" by (metis itoa_nat_notin(4,5) list.set_intros(1))+
  with c have "Atoi (itoa_nat (nat i)) = Some i" if "0 \<le> i"
    using i that digits_value_itoa [of "nat i"] by (simp add: Atoi_def)
  then show ?thesis using i digits_value_itoa [of "nat (- i)"]
    by (cases "i < 0") (simp_all add: Atoi_def Itoa_def)
qed

section \<open>White space and substrings\<close>

definition is_space :: "char \<Rightarrow> bool" where
  "is_space c \<longleftrightarrow> (of_char c :: nat) \<in> {9, 10, 11, 12, 13, 32}"

definition TrimSpace :: "string \<Rightarrow> string" where
  "TrimSpace s = rev (dropWhile is_space (rev (dropWhile is_space s)))"

lemma TrimSpace_id: "\<forall>c \<in> set s. \<not> is_space c \<Longrightarrow> TrimSpace s = s"
proof -
  assume a: "\<forall>c \<in> set s. \<not> is_space c"
  then have "dropWhile is_space s = s" by (cases s) auto
  moreover have "dropWhile is_space (rev s) = rev s" using a by (cases "rev s") auto
  ultimately show ?thesis by (simp add: TrimSpace_def)
qed

definition str_contains :: "string \<Rightarrow> string \<Rightarrow> bool" where
  "str_contains s sub \<longleftrightarrow> list_ex (prefix sub) (suffixes s)"

lemma str_contains_iff: "str_contains s sub \<longleftrightarrow> (\<exists>a b. s = a @ sub @ b)"
proof
  assume "\<exists>a b. s = a @ sub @ b"
  then obtain a b where s: "s = a @ sub @ b" by blast
  then have "suffix (sub @ b) s" by (simp add: suffix_def)
  then show "str_contains s sub"
    by (auto simp: str_contains_def list_ex_iff intro!: bexI [of _ "sub @ b"])
qed (auto simp: str_contains_def list_ex_iff suffix_def prefix_def; blast)

text \<open>\<open>strings.Split\<close> at a one-byte separator.\<close>

fun str_split :: "char \<Rightarrow> string \<Rightarrow> string list" where
  "str_split sep [] = [[]]"
| "str_split sep (c # cs) =
     (if c = sep then [] # str_split sep cs
      else case str_split sep cs of [] \<Rightarrow> [[c]] | w # ws \<Rightarrow> (c # w) # ws)"

lemma str_split_nonempty [simp]: "str_split sep s \<noteq> []"
  by (induction sep s rule: str_split.induct) (auto split: list.split)

lemma str_split_notin: "sep \<notin> set s \<Longrightarrow> str_split sep s = [s]"
  by (induction sep s rule: str_split.induct) auto

lemma str_split_append: "sep \<notin> set a \<Longrightarrow> str_split sep (a @ sep # b) = a # str_split sep b"
  by (induction a) auto

text \<open>What follows the last separator, when there is one after the first byte.\<close>

definition after_last :: "char \<Rightarrow> string \<Rightarrow> string option" where
  "after_last sep s =
     (let tl = takeWhile (\<lambda>c. c \<noteq> sep) (rev s)
      in if length tl + 1 < length s then Some (rev tl) else None)"

lemma after_last_append: "sep \<notin> set b \<Longrightarrow> a \<noteq> [] \<Longrightarrow> after_last sep (a @ sep # b) = Some b"
proof -
  assume a: "sep \<notin> set b" "a \<noteq> []"
  then have "takeWhile (\<lambda>c. c \<noteq> sep) (rev b @ [sep] @ rev a) = rev b"
    by (subst takeWhile_append2) auto
  then show ?thesis using a(2) by (simp add: after_last_def)
qed

section \<open>Host and port\<close>

definition JoinHostPort :: "string \<Rightarrow> string \<Rightarrow> string" where
  "JoinHostPort host prt =
     (if CHR '':'' \<in> set host then ''['' @ host @ '']:'' @ prt else host @ '':'' @ prt)"

end
