(* ===== verification/GpuDriver.thy ===== *)
theory GpuDriver
  imports GpuMining CompactTarget GoText "HOL-Library.Multiset"
begin

text \<open>
  How \<open>src/gpu_miner.go\<close> sets up OpenCL: finding a device, building the kernels, probing how large
  a scratchpad the driver accepts, checking the kernels against a known block, and releasing it
  all. The driver (\<open>OpenCL.dll\<close>, and \<open>VirtualAlloc\<close> of Windows) is a parameter: a function from the
  calls made so far, newest first, and the next call to its reply. The history of calls is the
  state, so that what is still allocated can be read off it.
\<close>

unbundle bit_operations_syntax

section \<open>The driver\<close>

datatype kernel_arg = BufferArg nat | NonceArg u32

datatype cl_call =
    PlatformIDs
  | DeviceIDs nat nat
  | GetDeviceName nat
  | GetGlobalMem nat
  | GetMaxAlloc nat
  | CreateContext nat
  | CreateQueue nat nat
  | CreateProgram nat
  | BuildProgram nat nat
  | BuildStatus nat nat
  | CreateKernel nat string
  | CreateBuffer nat u64 nat
  | WriteBuffer nat "byte list"
  | ZeroResults nat
  | CopyBuffer nat nat u64
  | SetKernelArg nat nat kernel_arg
  | RunKernel nat u64 u64
  | FinishQueue
  | ReadResults nat
  | ReleaseMem nat
  | ReleaseKernel nat
  | ReleaseProgram nat
  | ReleaseQueue nat
  | ReleaseContext nat
  | AllocPages u64
  | FreePages nat

record cl_reply =
  rpErr :: int
  rpHandle :: nat
  rpHandles :: "nat list"
  rpText :: string
  rpSize :: u64
  rpWords :: "u32 list"

type_synonym history = "cl_call list"
type_synonym cl_driver = "history \<Rightarrow> cl_call \<Rightarrow> cl_reply"

definition cl :: "cl_driver \<Rightarrow> cl_call \<Rightarrow> history \<Rightarrow> cl_reply \<times> history" where
  "cl drv c h = (drv h c, c # h)"

text \<open>Did a creating call succeed: \<open>errCode == CL_SUCCESS && buf != 0\<close>.\<close>

definition made :: "cl_reply \<Rightarrow> bool" where
  "made r \<longleftrightarrow> rpErr r = 0 \<and> rpHandle r \<noteq> 0"

definition release_all :: "nat list \<Rightarrow> history \<Rightarrow> history" where
  "release_all bs h = fold (\<lambda>b h. ReleaseMem b # h) bs h"

text \<open>The flags as the program defines them.\<close>

definition CL_MEM_READ_ONLY :: nat where "CL_MEM_READ_ONLY = 0x1"
definition CL_MEM_WRITE_ONLY :: nat where "CL_MEM_WRITE_ONLY = 0x2"
definition CL_MEM_READ_WRITE :: nat where "CL_MEM_READ_WRITE = 0x3"
definition CL_MEM_ALLOC_HOST_PTR :: nat where "CL_MEM_ALLOC_HOST_PTR = 0x20"
definition CL_MEM_USE_HOST_PTR :: nat where "CL_MEM_USE_HOST_PTR = 0x40"

text \<open>A buffer with a deferred release around the code that uses it.\<close>

definition with_buffer ::
  "cl_driver \<Rightarrow> nat \<Rightarrow> u64 \<Rightarrow> 'e \<Rightarrow> (nat \<Rightarrow> history \<Rightarrow> ('e + unit) \<times> history) \<Rightarrow> history \<Rightarrow> ('e + unit) \<times> history" where
  "with_buffer drv flags sz e body h =
     (case cl drv (CreateBuffer flags sz 0) h of
        (r, h) \<Rightarrow>
          if \<not> made r then (Inl e, h)
          else case body (rpHandle r) h of (res, h) \<Rightarrow> (res, ReleaseMem (rpHandle r) # h))"

section \<open>Probing the scratchpad\<close>

definition probe_sizes :: "u64 list" where
  "probe_sizes = map (\<lambda>k. k * 1024) [262144, 131072, 65536, 32768, 16384, 4096, 1024, 128]"

definition tryCreate :: "cl_driver \<Rightarrow> nat \<Rightarrow> u64 \<Rightarrow> nat \<Rightarrow> history \<Rightarrow> bool \<times> history" where
  "tryCreate drv flags sz host h =
     (case cl drv (CreateBuffer flags sz host) h of
        (r, h) \<Rightarrow> if made r then (True, ReleaseMem (rpHandle r) # h) else (False, h))"

text \<open>The largest size one way of creating a buffer accepts; \<open>host\<close> is the host memory to use, if any.\<close>

primrec probe_flags :: "cl_driver \<Rightarrow> nat \<Rightarrow> nat \<Rightarrow> u64 list \<Rightarrow> history \<Rightarrow> u64 option \<times> history" where
  "probe_flags drv flags host [] h = (None, h)"
| "probe_flags drv flags host (sz # sizes) h =
     (case tryCreate drv flags sz host h of
        (True, h) \<Rightarrow> (Some sz, h)
      | (False, h) \<Rightarrow> probe_flags drv flags host sizes h)"

definition page_size :: u64 where "page_size = 4096"

definition allocPageAligned :: "cl_driver \<Rightarrow> u64 \<Rightarrow> history \<Rightarrow> nat \<times> history" where
  "allocPageAligned drv sz h =
     (case cl drv (AllocPages ((sz + page_size - 1) div page_size * page_size)) h of (r, h) \<Rightarrow> (rpHandle r, h))"

definition freePageAligned :: "nat \<Rightarrow> history \<Rightarrow> history" where
  "freePageAligned p h = (if p = 0 then h else FreePages p # h)"

primrec probe_pages :: "cl_driver \<Rightarrow> u64 list \<Rightarrow> history \<Rightarrow> u64 option \<times> history" where
  "probe_pages drv [] h = (None, h)"
| "probe_pages drv (sz # sizes) h =
     (case allocPageAligned drv sz h of
        (p, h) \<Rightarrow>
          if p = 0 then probe_pages drv sizes h
          else case tryCreate drv (CL_MEM_READ_WRITE OR CL_MEM_USE_HOST_PTR) sz p h of
            (True, h) \<Rightarrow> (Some sz, freePageAligned p h)
          | (False, h) \<Rightarrow> probe_pages drv sizes (freePageAligned p h))"

primrec probe_split :: "cl_driver \<Rightarrow> u64 list \<Rightarrow> history \<Rightarrow> u64 option \<times> history" where
  "probe_split drv [] h = (None, h)"
| "probe_split drv (sz # sizes) h =
     (case cl drv (CreateBuffer CL_MEM_WRITE_ONLY sz 0) h of
        (vw, h) \<Rightarrow>
          if \<not> made vw then probe_split drv sizes h
          else case cl drv (CreateBuffer CL_MEM_READ_ONLY sz 0) h of
            (vr, h) \<Rightarrow>
              let h = ReleaseMem (rpHandle vw) # h in
              if \<not> made vr then probe_split drv sizes h
              else (Some sz, ReleaseMem (rpHandle vr) # h))"

definition split_ready :: "bool \<Rightarrow> OpenCLContext \<Rightarrow> bool" where
  "split_ready hasCopy ctx \<longleftrightarrow> kernelFill ctx \<noteq> 0 \<and> kernelMix ctx \<noteq> 0 \<and> hasCopy"

text \<open>\<open>hasCopy\<close>: the library exports \<open>clEnqueueCopyBuffer\<close>.\<close>

definition probeScratchpadBuffer ::
  "cl_driver \<Rightarrow> bool \<Rightarrow> nat \<Rightarrow> OpenCLContext \<times> history \<Rightarrow> OpenCLContext \<times> history" where
  "probeScratchpadBuffer drv hasCopy slicePtr s =
     (case s of (ctx, h) \<Rightarrow>
        if probeFailed ctx \<or> maxScratchpadBuf ctx \<noteq> 0 then (ctx, h)
        else case probe_flags drv CL_MEM_READ_WRITE 0 probe_sizes h of
          (Some sz, h) \<Rightarrow> (ctx\<lparr>maxScratchpadBuf := sz, useHostPtrScratchpad := False\<rparr>, h)
        | (None, h) \<Rightarrow>
          (case probe_flags drv (CL_MEM_READ_WRITE OR CL_MEM_ALLOC_HOST_PTR) 0 probe_sizes h of
             (Some sz, h) \<Rightarrow> (ctx\<lparr>maxScratchpadBuf := sz, useHostPtrScratchpad := False\<rparr>, h)
           | (None, h) \<Rightarrow>
             (case probe_flags drv (CL_MEM_READ_WRITE OR CL_MEM_USE_HOST_PTR) slicePtr probe_sizes h of
                (Some sz, h) \<Rightarrow>
                  (ctx\<lparr>maxScratchpadBuf := sz, useHostPtrScratchpad := True, useVirtualAllocScratch := False\<rparr>, h)
              | (None, h) \<Rightarrow>
                (case probe_pages drv probe_sizes h of
                   (Some sz, h) \<Rightarrow>
                     (ctx\<lparr>maxScratchpadBuf := sz, useHostPtrScratchpad := True, useVirtualAllocScratch := True\<rparr>, h)
                 | (None, h) \<Rightarrow>
                   (case (if split_ready hasCopy ctx then probe_split drv probe_sizes h else (None, h)) of
                      (Some sz, h) \<Rightarrow> (ctx\<lparr>maxScratchpadBuf := sz, useSplitKernelPath := True\<rparr>, h)
                    | (None, h) \<Rightarrow>
                        (ctx\<lparr>probeFailed := True\<rparr>, snd (tryCreate drv CL_MEM_READ_WRITE 256 0 h)))))))"

section \<open>Checking the kernels against block 100000\<close>

definition hex_bytes :: "string \<Rightarrow> byte list" where
  "hex_bytes s = (case hexDecode s of Inr b \<Rightarrow> b | Inl e \<Rightarrow> [])"

definition block100000_base :: "byte list" where
  "block100000_base =
     put_u32 2 @ reverseBytesInPlace (hex_bytes ''12aca0938fe1fb786c9e0e4375900e8333123de75e240abd3337d1b411d14ebe'') @
     reverseBytesInPlace (hex_bytes ''31757c266102d1bee62ef2ff8438663107d64bdd5d9d9173421ec25fb2a814de'') @
     put_u32 0x52fd869d @ put_u32 0x1b267eeb"

definition known_nonce :: u32 where "known_nonce = 0x84214800"

definition buildBlock100000Header :: "byte list" where
  "buildBlock100000Header = block100000_base @ put_u32 known_nonce"

datatype verify_failure = NoBuffer | RunFailed int | NotFound | HashMismatch

definition result_words :: "cl_reply \<Rightarrow> u32 list" where
  "result_words r = (if rpErr r = 0 then take 34 (rpWords r @ replicate 34 0) else replicate 34 0)"

text \<open>The hash in the results buffer, low bytes of 32 words, turned round.\<close>

definition result_hash :: "u32 list \<Rightarrow> byte list" where
  "result_hash ws = reverseBytesInPlace (map (\<lambda>w. ucast (w AND 0xff)) (take 32 (drop 2 ws)))"

definition check_known :: "byte list \<Rightarrow> u32 list \<Rightarrow> verify_failure + unit" where
  "check_known expected ws =
     (if ws ! 0 \<noteq> 1 then Inl NotFound
      else if result_hash ws \<noteq> expected then Inl HashMismatch else Inr ())"

definition set_args :: "nat \<Rightarrow> kernel_arg list \<Rightarrow> history \<Rightarrow> history" where
  "set_args k args h = fold (\<lambda>(i, a) h. SetKernelArg k i a # h) (enumerate 0 args) h"

definition scratch1 :: u64 where "scratch1 = 1024 * 32 * 4"

text \<open>The two kernels one after the other on one work item, and the results read back.\<close>

definition split_verify_run ::
  "cl_driver \<Rightarrow> OpenCLContext \<Rightarrow> byte list \<Rightarrow> u32 \<Rightarrow> nat \<Rightarrow> nat \<Rightarrow> nat \<Rightarrow> nat \<Rightarrow> nat \<Rightarrow> nat \<Rightarrow> nat \<Rightarrow>
     history \<Rightarrow> (verify_failure + unit) \<times> history" where
  "split_verify_run drv ctx expected nonce hb vw vr sw sr tb rb h =
     (let h = set_args (kernelFill ctx) [BufferArg hb, NonceArg nonce, BufferArg vw, BufferArg sw] (ZeroResults rb # h) in
      case cl drv (RunKernel (kernelFill ctx) 1 0) h of
        (r, h) \<Rightarrow>
          if rpErr r \<noteq> 0 then (Inl (RunFailed (rpErr r)), h)
          else
            let h = FinishQueue # CopyBuffer sw sr 128 # CopyBuffer vw vr scratch1 # h;
                h = set_args (kernelMix ctx) [BufferArg hb, NonceArg nonce, BufferArg sr, BufferArg vr, BufferArg tb, BufferArg rb] h
            in case cl drv (RunKernel (kernelMix ctx) 1 0) h of
              (r, h) \<Rightarrow>
                if rpErr r \<noteq> 0 then (Inl (RunFailed (rpErr r)), h)
                else case cl drv (ReadResults rb) (FinishQueue # h) of
                  (r, h) \<Rightarrow> (check_known expected (result_words r), h))"

definition verifyGPUScryptSplitKernel ::
  "cl_driver \<Rightarrow> OpenCLContext \<Rightarrow> byte list \<Rightarrow> byte list \<Rightarrow> u32 \<Rightarrow> byte list \<Rightarrow> history \<Rightarrow>
     (verify_failure + unit) \<times> history" where
  "verifyGPUScryptSplitKernel drv ctx base target nonce expected =
     with_buffer drv CL_MEM_READ_ONLY 76 NoBuffer (\<lambda>hb h.
     with_buffer drv CL_MEM_WRITE_ONLY scratch1 NoBuffer (\<lambda>vw.
     with_buffer drv CL_MEM_READ_ONLY scratch1 NoBuffer (\<lambda>vr.
     with_buffer drv CL_MEM_WRITE_ONLY 128 NoBuffer (\<lambda>sw.
     with_buffer drv CL_MEM_READ_ONLY 128 NoBuffer (\<lambda>sr.
     with_buffer drv CL_MEM_READ_ONLY 32 NoBuffer (\<lambda>tb h.
     with_buffer drv CL_MEM_WRITE_ONLY 136 NoBuffer (\<lambda>rb.
       split_verify_run drv ctx expected nonce hb vw vr sw sr tb rb) (WriteBuffer tb target # h))))))
     (WriteBuffer hb base # h))"

text \<open>With the scratchpad as well; a failed run counts as verified.\<close>

definition single_verify_run ::
  "cl_driver \<Rightarrow> OpenCLContext \<Rightarrow> byte list \<Rightarrow> byte list \<Rightarrow> u32 \<Rightarrow> byte list \<Rightarrow> nat \<Rightarrow> nat \<Rightarrow> nat \<Rightarrow> nat \<Rightarrow>
     history \<Rightarrow> (verify_failure + unit) \<times> history" where
  "single_verify_run drv ctx base target nonce expected hb tb rb sb h =
     (let h = set_args (clKernel ctx) [BufferArg hb, NonceArg nonce, BufferArg tb, BufferArg rb, BufferArg sb]
                (ZeroResults rb # WriteBuffer tb target # WriteBuffer hb base # h) in
      case cl drv (RunKernel (clKernel ctx) 1 0) h of
        (r, h) \<Rightarrow>
          if rpErr r \<noteq> 0 then (Inr (), h)
          else case cl drv (ReadResults rb) (FinishQueue # h) of
            (r, h) \<Rightarrow> (check_known expected (result_words r), h))"

definition single_verify_scratch ::
  "cl_driver \<Rightarrow> bool \<Rightarrow> OpenCLContext \<Rightarrow> byte list \<Rightarrow> byte list \<Rightarrow> u32 \<Rightarrow> byte list \<Rightarrow> nat \<Rightarrow> nat \<Rightarrow> nat \<Rightarrow>
     history \<Rightarrow> (verify_failure + unit) \<times> history" where
  "single_verify_scratch drv hasCopy ctx base target nonce expected hb tb rb h =
     (let run = (\<lambda>sb h. case single_verify_run drv ctx base target nonce expected hb tb rb sb h of
                   (res, h) \<Rightarrow> (res, ReleaseMem sb # h)) in
      case cl drv (CreateBuffer CL_MEM_READ_WRITE scratch1 0) h of
        (r, h) \<Rightarrow>
          if made r then run (rpHandle r) h
          else case cl drv (CreateBuffer (CL_MEM_READ_WRITE OR CL_MEM_ALLOC_HOST_PTR) scratch1 0) h of
            (r, h) \<Rightarrow>
              if made r then run (rpHandle r) h
              else if split_ready hasCopy ctx
              then (Inr (), snd (verifyGPUScryptSplitKernel drv ctx base target nonce expected h))
              else (Inr (), h))"

definition verifyGPUScryptKnownVector ::
  "cl_driver \<Rightarrow> bool \<Rightarrow> OpenCLContext \<Rightarrow> byte list \<Rightarrow> byte list \<Rightarrow> u32 \<Rightarrow> byte list \<Rightarrow> history \<Rightarrow>
     (verify_failure + unit) \<times> history" where
  "verifyGPUScryptKnownVector drv hasCopy ctx base target nonce expected h =
     (if clKernel ctx = 0 then (Inr (), h)
      else
        with_buffer drv CL_MEM_READ_ONLY 76 NoBuffer (\<lambda>hb.
        with_buffer drv CL_MEM_READ_ONLY 32 NoBuffer (\<lambda>tb.
        with_buffer drv CL_MEM_WRITE_ONLY 136 NoBuffer (\<lambda>rb.
          single_verify_scratch drv hasCopy ctx base target nonce expected hb tb rb))) h)"

section \<open>Building the program\<close>

datatype build_error = ProgramFailed int | BuildFailed int | BuildStatusBad int | KernelFailed int | ScryptError

definition create_split_kernel :: "cl_driver \<Rightarrow> string \<Rightarrow> OpenCLContext \<times> history \<Rightarrow> OpenCLContext \<times> history" where
  "create_split_kernel drv name s =
     (case s of (ctx, h) \<Rightarrow>
        case cl drv (CreateKernel (clProgram ctx) name) h of
          (r, h) \<Rightarrow>
            if made r
            then (if name = ''scrypt_fill'' then ctx\<lparr>kernelFill := rpHandle r\<rparr> else ctx\<lparr>kernelMix := rpHandle r\<rparr>, h)
            else (ctx, h))"

text \<open>The check with the hash the CPU computes; \<open>None\<close> when \<open>scrypt.Key\<close> fails.\<close>

definition verify_kernels ::
  "cl_driver \<Rightarrow> bool \<Rightarrow> byte list option \<Rightarrow> OpenCLContext \<times> history \<Rightarrow> (build_error + unit) \<times> OpenCLContext \<times> history" where
  "verify_kernels drv hasCopy expected s =
     (case s of (ctx, h) \<Rightarrow>
        let target = (case target_le_bytes (BitsToTarget 0x1b267eeb) of Inl p \<Rightarrow> [] | Inr t \<Rightarrow> t);
            base = block100000_base in
        if useSplitKernelPath ctx \<and> split_ready hasCopy ctx then
          (case expected of
             None \<Rightarrow> (Inl ScryptError, ctx, h)
           | Some e \<Rightarrow>
               (case verifyGPUScryptSplitKernel drv ctx base target known_nonce e h of
                  (Inl _, h) \<Rightarrow> (Inr (), ctx\<lparr>scryptVerifyFailed := True\<rparr>, h)
                | (Inr _, h) \<Rightarrow> (Inr (), ctx, h)))
        else
          (case expected of
             None \<Rightarrow> (Inr (), ctx\<lparr>scryptVerifyFailed := True\<rparr>, h)
           | Some e \<Rightarrow>
               (case verifyGPUScryptKnownVector drv hasCopy ctx base target known_nonce e h of
                  (Inl _, h) \<Rightarrow> (Inr (), ctx\<lparr>scryptVerifyFailed := True\<rparr>, h)
                | (Inr _, h) \<Rightarrow> (Inr (), ctx, h))))"

definition buildScryptProgram ::
  "cl_driver \<Rightarrow> bool \<Rightarrow> nat \<Rightarrow> byte list option \<Rightarrow> OpenCLContext \<times> history \<Rightarrow>
     (build_error + unit) \<times> OpenCLContext \<times> history" where
  "buildScryptProgram drv hasCopy slicePtr expected s =
     (case s of (ctx, h) \<Rightarrow>
        case cl drv (CreateProgram (clContext ctx)) h of
          (r, h) \<Rightarrow>
            let ctx = ctx\<lparr>clProgram := rpHandle r\<rparr> in
            if \<not> made r then (Inl (ProgramFailed (rpErr r)), ctx, h)
            else case cl drv (BuildProgram (clProgram ctx) (clDevice ctx)) h of
              (b, h) \<Rightarrow>
                if rpErr b \<noteq> 0 then (Inl (BuildFailed (rpErr b)), ctx, h)
                else case cl drv (BuildStatus (clProgram ctx) (clDevice ctx)) h of
                  (st, h) \<Rightarrow>
                    if rpErr st \<noteq> 0 then (Inl (BuildStatusBad (rpErr st)), ctx, h)
                    else case cl drv (CreateKernel (clProgram ctx) ''mine_scrypt'') h of
                      (k, h) \<Rightarrow>
                        let ctx = ctx\<lparr>clKernel := rpHandle k\<rparr> in
                        if \<not> made k then (Inl (KernelFailed (rpErr k)), ctx, h)
                        else verify_kernels drv hasCopy expected
                          (probeScratchpadBuffer drv hasCopy slicePtr
                            (create_split_kernel drv ''scrypt_mix'' (create_split_kernel drv ''scrypt_fill'' (ctx, h)))))"

section \<open>The context and its object\<close>

text \<open>
  Contexts are objects that the global variable and the miners share: \<open>ghContexts\<close> is the store, an
  object's address its position, and \<open>ghGlobal\<close> the variable \<open>globalOpenCLContext\<close>.
\<close>

record GpuHost =
  ghContexts :: "OpenCLContext list"
  ghGlobal :: "nat option"
  ghHistory :: history

record ClEnv =
  ceDriver :: cl_driver
  ceLoads :: bool
  ceCopy :: bool
  ceSlice :: nat
  ceKey :: scrypt_key

datatype init_error = NoLibrary | NoPlatforms | PlatformsFailed int | NoDevices | ContextFailed int | QueueFailed int

definition filled :: "u64 \<Rightarrow> nat list \<Rightarrow> nat list" where
  "filled n hs = take (unat n) (hs @ replicate (unat n) 0)"

text \<open>The first platform with devices of the kind: their number is asked first, then the devices.\<close>

primrec find_devices :: "cl_driver \<Rightarrow> nat \<Rightarrow> nat list \<Rightarrow> history \<Rightarrow> nat list \<times> history" where
  "find_devices drv kind [] h = ([], h)"
| "find_devices drv kind (p # ps) h =
     (case cl drv (DeviceIDs p kind) h of
        (n, h) \<Rightarrow>
          if rpErr n \<noteq> 0 \<or> rpSize n = 0 then find_devices drv kind ps h
          else case cl drv (DeviceIDs p kind) h of
            (r, h) \<Rightarrow>
              if rpErr r \<noteq> 0 then find_devices drv kind ps h else (filled (rpSize n) (rpHandles r), h))"

definition CL_DEVICE_TYPE_GPU :: nat where "CL_DEVICE_TYPE_GPU = 4"
definition CL_DEVICE_TYPE_CPU :: nat where "CL_DEVICE_TYPE_CPU = 2"

definition device_name :: "cl_reply \<Rightarrow> string" where
  "device_name r = (if rpErr r = 0 \<and> 0 < rpSize r then take (unat (rpSize r) - 1) (rpText r) else ''Unknown Device'')"

definition new_context :: OpenCLContext where
  "new_context = \<lparr>clDevices = [], clContext = 0, clQueue = 0, clDevice = 0, clProgram = 0, clKernel = 0,
     clInitialized = False, clDeviceName = '''', clDeviceType = '''', maxScratchpadBuf = 0,
     useHostPtrScratchpad = False, useVirtualAllocScratch = False, probeFailed = False,
     useSplitKernelPath = False, scryptVerifyFailed = False, kernelFill = 0, kernelMix = 0\<rparr>"

text \<open>The device chosen, with the devices found and whether they are GPUs.\<close>

definition choose_device :: "cl_driver \<Rightarrow> nat list \<Rightarrow> history \<Rightarrow> (nat \<times> nat list \<times> bool) \<times> history" where
  "choose_device drv platforms h =
     (case find_devices drv CL_DEVICE_TYPE_GPU platforms h of
        (d # ds, h) \<Rightarrow> ((d, d # ds, True), h)
      | ([], h) \<Rightarrow>
          (case find_devices drv CL_DEVICE_TYPE_CPU platforms h of
             (d # ds, h) \<Rightarrow> ((d, d # ds, False), h)
           | ([], h) \<Rightarrow> ((0, [], False), h)))"

definition open_device ::
  "ClEnv \<Rightarrow> nat \<times> nat list \<times> bool \<Rightarrow> history \<Rightarrow> (init_error + OpenCLContext) \<times> history" where
  "open_device env sel h =
     (case sel of (dev, devs, gpu) \<Rightarrow>
        let drv = ceDriver env; header = buildBlock100000Header in
        if dev = 0 then (Inl NoDevices, h)
        else case cl drv (GetDeviceName dev) h of
          (nm, h) \<Rightarrow>
            (case cl drv (CreateContext dev) h of
               (c, h) \<Rightarrow>
                 if \<not> made c then (Inl (ContextFailed (rpErr c)), h)
                 else case cl drv (CreateQueue (rpHandle c) dev) h of
                   (q, h) \<Rightarrow>
                     if \<not> made q then (Inl (QueueFailed (rpErr q)), ReleaseContext (rpHandle c) # h)
                     else
                       let ctx = new_context\<lparr>clDevices := devs, clContext := rpHandle c, clQueue := rpHandle q,
                             clDevice := dev, clInitialized := True, clDeviceName := device_name nm,
                             clDeviceType := (if gpu then ''GPU'' else ''CPU'')\<rparr>
                       in case buildScryptProgram drv (ceCopy env) (ceSlice env) (ceKey env header header 1024 1 1 32) (ctx, h) of
                            (_, ctx, h) \<Rightarrow> (Inr ctx, h)))"

definition init_fresh :: "ClEnv \<Rightarrow> GpuHost \<Rightarrow> (init_error + nat) \<times> GpuHost" where
  "init_fresh env g =
     (if \<not> ceLoads env then (Inl NoLibrary, g)
      else
        let drv = ceDriver env in
        case cl drv PlatformIDs (ghHistory g) of
          (n, h) \<Rightarrow>
            if rpErr n \<noteq> 0 \<or> rpSize n = 0 then (Inl NoPlatforms, g\<lparr>ghHistory := h\<rparr>)
            else case cl drv PlatformIDs h of
              (r, h) \<Rightarrow>
                if rpErr r \<noteq> 0 then (Inl (PlatformsFailed (rpErr r)), g\<lparr>ghHistory := h\<rparr>)
                else case choose_device drv (filled (rpSize n) (rpHandles r)) h of
                  (sel, h) \<Rightarrow>
                    (case open_device env sel h of
                       (Inl e, h) \<Rightarrow> (Inl e, g\<lparr>ghHistory := h\<rparr>)
                     | (Inr ctx, h) \<Rightarrow>
                         let a = length (ghContexts g)
                         in (Inr a, g\<lparr>ghContexts := ghContexts g @ [ctx], ghGlobal := Some a, ghHistory := h\<rparr>)))"

definition InitializeOpenCL :: "ClEnv \<Rightarrow> GpuHost \<Rightarrow> (init_error + nat) \<times> GpuHost" where
  "InitializeOpenCL env g =
     (case ghGlobal g of
        Some a \<Rightarrow> if clInitialized (ghContexts g ! a) then (Inr a, g) else init_fresh env g
      | None \<Rightarrow> init_fresh env g)"

text \<open>\<open>CleanupOpenCL\<close> on an object: every handle it holds is released and cleared.\<close>

definition drop_handle :: "nat \<Rightarrow> (nat \<Rightarrow> cl_call) \<Rightarrow> history \<Rightarrow> history" where
  "drop_handle x c h = (if x = 0 then h else c x # h)"

definition cleanup_context :: "OpenCLContext \<times> history \<Rightarrow> OpenCLContext \<times> history" where
  "cleanup_context s =
     (case s of (ctx, h) \<Rightarrow>
        if \<not> clInitialized ctx then (ctx, h)
        else
          (ctx\<lparr>kernelFill := 0, kernelMix := 0, clKernel := 0, clProgram := 0, clQueue := 0, clContext := 0,
               clInitialized := False\<rparr>,
           drop_handle (clContext ctx) ReleaseContext (drop_handle (clQueue ctx) ReleaseQueue
             (drop_handle (clProgram ctx) ReleaseProgram (drop_handle (clKernel ctx) ReleaseKernel
               (drop_handle (kernelMix ctx) ReleaseKernel (drop_handle (kernelFill ctx) ReleaseKernel h)))))))"

definition CleanupOpenCL :: "nat \<Rightarrow> GpuHost \<Rightarrow> GpuHost" where
  "CleanupOpenCL a g =
     (case cleanup_context (ghContexts g ! a, ghHistory g) of
        (ctx, h) \<Rightarrow> g\<lparr>ghContexts := (ghContexts g)[a := ctx], ghHistory := h\<rparr>)"

definition GetDeviceInfo :: "OpenCLContext option \<Rightarrow> string" where
  "GetDeviceInfo c =
     (case c of
        None \<Rightarrow> ''No OpenCL device''
      | Some ctx \<Rightarrow> if clInitialized ctx then clDeviceType ctx @ '': '' @ clDeviceName ctx else ''No OpenCL device'')"

text \<open>Both detections initialise, look, and clean up what they were given.\<close>

definition IsGPUAvailable :: "ClEnv \<Rightarrow> GpuHost \<Rightarrow> bool \<times> GpuHost" where
  "IsGPUAvailable env g =
     (case InitializeOpenCL env g of
        (Inl e, g) \<Rightarrow> (False, g)
      | (Inr a, g) \<Rightarrow>
          let ctx = ghContexts g ! a
          in (clInitialized ctx \<and> clDeviceType ctx = ''GPU'', CleanupOpenCL a g))"

primrec name_devices :: "cl_driver \<Rightarrow> nat \<Rightarrow> nat list \<Rightarrow> history \<Rightarrow> string list \<times> history" where
  "name_devices drv i [] h = ([], h)"
| "name_devices drv i (d # ds) h =
     (case cl drv (GetDeviceName d) h of
        (r, h) \<Rightarrow>
          (case name_devices drv (Suc i) ds h of
             (ns, h) \<Rightarrow>
               (if 0 < rpSize r
                then (''GPU '' @ Itoa (int (Suc i)) @ '': '' @ take (unat (rpSize r) - 1) (rpText r)) # ns else ns, h)))"

definition DetectGPUs :: "ClEnv \<Rightarrow> int \<Rightarrow> GpuHost \<Rightarrow> string list \<times> GpuHost" where
  "DetectGPUs env cores g =
     (case InitializeOpenCL env g of
        (Inl e, g) \<Rightarrow> ([''CPU: '' @ Itoa cores @ '' cores available''], g)
      | (Inr a, g) \<Rightarrow>
          (case name_devices (ceDriver env) 0 (clDevices (ghContexts g ! a)) (ghHistory g) of
             (ns, h) \<Rightarrow> (ns, CleanupOpenCL a (g\<lparr>ghHistory := h\<rparr>))))"

text \<open>The miner \<open>Initialize\<close> with the address it keeps, and what it sees through it later.\<close>

definition gpu_attach :: "ClEnv \<Rightarrow> GpuHost \<Rightarrow> nat option \<times> GpuHost" where
  "gpu_attach env g =
     (case InitializeOpenCL env g of (Inl e, g) \<Rightarrow> (None, g) | (Inr a, g) \<Rightarrow> (Some a, g))"

definition gpu_view :: "GpuHost \<Rightarrow> nat option \<Rightarrow> GPUMiner \<Rightarrow> GPUMiner" where
  "gpu_view g a m = m\<lparr>openclCtx := map_option (\<lambda>a. ghContexts g ! a) a, gInitialized := True\<rparr>"

section \<open>What is still allocated\<close>

fun live_buffers :: "cl_driver \<Rightarrow> history \<Rightarrow> nat multiset" where
  "live_buffers drv [] = {#}"
| "live_buffers drv (CreateBuffer f n p # h) =
     (if rpHandle (drv h (CreateBuffer f n p)) \<noteq> 0
      then add_mset (rpHandle (drv h (CreateBuffer f n p))) (live_buffers drv h) else live_buffers drv h)"
| "live_buffers drv (ReleaseMem b # h) = live_buffers drv h - {#b#}"
| "live_buffers drv (c # h) = live_buffers drv h"

fun live_pages :: "cl_driver \<Rightarrow> history \<Rightarrow> nat multiset" where
  "live_pages drv [] = {#}"
| "live_pages drv (AllocPages n # h) =
     (if rpHandle (drv h (AllocPages n)) \<noteq> 0
      then add_mset (rpHandle (drv h (AllocPages n))) (live_pages drv h) else live_pages drv h)"
| "live_pages drv (FreePages p # h) = live_pages drv h - {#p#}"
| "live_pages drv (c # h) = live_pages drv h"

text \<open>\<open>clCreateBuffer\<close>: on success a non-zero object and \<open>CL_SUCCESS\<close>, otherwise NULL and an error.\<close>

definition driver_ok :: "cl_driver \<Rightarrow> bool" where
  "driver_ok drv \<longleftrightarrow> (\<forall>h f n p. rpErr (drv h (CreateBuffer f n p)) = 0 \<longleftrightarrow> rpHandle (drv h (CreateBuffer f n p)) \<noteq> 0)"

lemma driver_okD: "driver_ok drv \<Longrightarrow> \<not> made (drv h (CreateBuffer f n p)) \<Longrightarrow> rpHandle (drv h (CreateBuffer f n p)) = 0"
  by (auto simp: driver_ok_def made_def)

lemma driver_ok_made: "driver_ok drv \<Longrightarrow> made (drv h (CreateBuffer f n p)) \<longleftrightarrow> rpHandle (drv h (CreateBuffer f n p)) \<noteq> 0"
  by (auto simp: driver_ok_def made_def)

text \<open>The same buffers and pages as before.\<close>

definition same_memory :: "cl_driver \<Rightarrow> history \<Rightarrow> history \<Rightarrow> bool" where
  "same_memory drv h h' \<longleftrightarrow> live_buffers drv h' = live_buffers drv h \<and> live_pages drv h' = live_pages drv h"

lemma same_memory_refl [simp]: "same_memory drv h h"
  by (simp add: same_memory_def)

lemma same_memory_trans [trans]: "same_memory drv a b \<Longrightarrow> same_memory drv b c \<Longrightarrow> same_memory drv a c"
  by (simp add: same_memory_def)

definition allocates :: "cl_call \<Rightarrow> bool" where
  "allocates c \<longleftrightarrow> (case c of CreateBuffer _ _ _ \<Rightarrow> True | ReleaseMem _ \<Rightarrow> True | AllocPages _ \<Rightarrow> True | FreePages _ \<Rightarrow> True | _ \<Rightarrow> False)"

lemma same_memory_Cons [simp]: "\<not> allocates c \<Longrightarrow> same_memory drv h (c # h') = same_memory drv h h'"
  by (cases c) (simp_all add: same_memory_def allocates_def)

lemma allocates_simps [simp]:
  "\<not> allocates PlatformIDs" "\<not> allocates (DeviceIDs p k)" "\<not> allocates (GetDeviceName d)" "\<not> allocates (GetGlobalMem d)"
  "\<not> allocates (GetMaxAlloc d)" "\<not> allocates (CreateContext d)" "\<not> allocates (CreateQueue x d)" "\<not> allocates (CreateProgram x)"
  "\<not> allocates (BuildProgram x d)" "\<not> allocates (BuildStatus x d)" "\<not> allocates (CreateKernel x nm)"
  "\<not> allocates (WriteBuffer b bs)" "\<not> allocates (ZeroResults b)" "\<not> allocates (CopyBuffer a b n)"
  "\<not> allocates (SetKernelArg k i x')" "\<not> allocates (RunKernel k n l)" "\<not> allocates FinishQueue" "\<not> allocates (ReadResults b)"
  "\<not> allocates (ReleaseKernel k)" "\<not> allocates (ReleaseProgram k)" "\<not> allocates (ReleaseQueue k)" "\<not> allocates (ReleaseContext k)"
  by (simp_all add: allocates_def)

lemma same_memory_set_args [simp]: "same_memory drv h (set_args k args h') = same_memory drv h h'"
proof -
  have "same_memory drv h (fold (\<lambda>(i, a) h. SetKernelArg k i a # h) xs h'') = same_memory drv h h''" for xs h''
    by (induction xs arbitrary: h'') (auto split: prod.split)
  then show ?thesis by (simp add: set_args_def)
qed

lemma try_memory:
  assumes "driver_ok drv"
  shows "same_memory drv h (snd (tryCreate drv f n p h))"
  using driver_okD [OF assms] by (auto simp: tryCreate_def cl_def same_memory_def made_def)

lemma with_buffer_memory:
  assumes "driver_ok drv" "\<And>b h. same_memory drv h (snd (body b h))"
  shows "same_memory drv h (snd (with_buffer drv f n e body h))"
proof -
  let ?c = "CreateBuffer f n 0"
  let ?r = "drv h ?c"
  show ?thesis
  proof (cases "made ?r")
    case True
    have "same_memory drv (?c # h) (snd (body (rpHandle ?r) (?c # h)))" by (rule assms(2))
    then show ?thesis using True
      by (auto simp: with_buffer_def cl_def same_memory_def made_def split: prod.split)
  next
    case False
    then show ?thesis using driver_okD [OF assms(1) False]
      by (simp add: with_buffer_def cl_def same_memory_def)
  qed
qed

lemma same_memory_snd_after:
  "same_memory drv h0 h \<Longrightarrow> same_memory drv h (snd (f h)) \<Longrightarrow> same_memory drv h0 (snd (f h))"
  by (rule same_memory_trans)

lemma probe_flags_memory:
  assumes "driver_ok drv"
  shows "same_memory drv h (snd (probe_flags drv f p ss h))"
proof (induction ss arbitrary: h)
  case (Cons n ss)
  obtain b h1 where t: "tryCreate drv f n p h = (b, h1)" by fastforce
  with try_memory [OF assms, of h f n p] have "same_memory drv h h1" by simp
  with Cons.IH [of h1] t show ?case by (cases b) (auto intro: same_memory_trans)
qed simp

lemma probe_pages_memory:
  assumes "driver_ok drv"
  shows "same_memory drv h (snd (probe_pages drv ss h))"
proof (induction ss arbitrary: h)
  case (Cons n ss)
  obtain q h1 where a: "allocPageAligned drv n h = (q, h1)" by fastforce
  show ?case
  proof (cases "q = 0")
    case True
    with a have "same_memory drv h h1" by (auto simp: allocPageAligned_def cl_def same_memory_def)
    with Cons.IH [of h1] a True show ?thesis by (auto intro: same_memory_trans)
  next
    case False
    obtain b h2 where t: "tryCreate drv (CL_MEM_READ_WRITE OR CL_MEM_USE_HOST_PTR) n q h1 = (b, h2)" by fastforce
    with try_memory [OF assms, of h1 "CL_MEM_READ_WRITE OR CL_MEM_USE_HOST_PTR" n q] have "same_memory drv h1 h2" by simp
    with a False have "same_memory drv h (FreePages q # h2)"
      by (auto simp: allocPageAligned_def cl_def same_memory_def)
    with Cons.IH [of "FreePages q # h2"] a False t show ?thesis
      by (cases b) (auto simp: freePageAligned_def intro: same_memory_trans)
  qed
qed simp

lemma probe_split_memory:
  assumes "driver_ok drv"
  shows "same_memory drv h (snd (probe_split drv ss h))"
proof (induction ss arbitrary: h)
  case (Cons n ss)
  let ?w = "CreateBuffer CL_MEM_WRITE_ONLY n 0" and ?r = "CreateBuffer CL_MEM_READ_ONLY n 0"
  show ?case
  proof (cases "made (drv h ?w)")
    case False
    then have "same_memory drv h (?w # h)" using driver_okD [OF assms False] by (simp add: same_memory_def)
    with Cons.IH [of "?w # h"] False show ?thesis by (auto simp: cl_def intro: same_memory_trans)
  next
    case True
    let ?h = "ReleaseMem (rpHandle (drv h ?w)) # ?r # ?w # h"
    show ?thesis
    proof (cases "made (drv (?w # h) ?r)")
      case False
      then have "same_memory drv h ?h" using driver_okD [OF assms False] True by (simp add: same_memory_def made_def)
      with Cons.IH [of ?h] True False show ?thesis by (auto simp: cl_def Let_def intro: same_memory_trans)
    next
      case m: True
      with True show ?thesis by (simp add: cl_def Let_def same_memory_def made_def add_mset_commute)
    qed
  qed
qed simp

lemma probe_memory:
  assumes "driver_ok drv" "probeScratchpadBuffer drv c sp (ctx, h) = (ctx', h')"
  shows "same_memory drv h h'"
proof (cases "probeFailed ctx \<or> maxScratchpadBuf ctx \<noteq> 0")
  case True
  with assms(2) show ?thesis by (simp add: probeScratchpadBuffer_def)
next
  case False
  obtain o1 h1 where 1: "probe_flags drv CL_MEM_READ_WRITE 0 probe_sizes h = (o1, h1)" by fastforce
  obtain o2 h2 where 2: "probe_flags drv (CL_MEM_READ_WRITE OR CL_MEM_ALLOC_HOST_PTR) 0 probe_sizes h1 = (o2, h2)" by fastforce
  obtain o3 h3 where 3: "probe_flags drv (CL_MEM_READ_WRITE OR CL_MEM_USE_HOST_PTR) sp probe_sizes h2 = (o3, h3)" by fastforce
  obtain o4 h4 where 4: "probe_pages drv probe_sizes h3 = (o4, h4)" by fastforce
  obtain o5 h5 where 5: "(if split_ready c ctx then probe_split drv probe_sizes h4 else (None, h4)) = (o5, h5)" by fastforce
  have m1: "same_memory drv h h1" using probe_flags_memory [OF assms(1), of h CL_MEM_READ_WRITE 0 probe_sizes] 1 by simp
  have m2: "same_memory drv h1 h2"
    using probe_flags_memory [OF assms(1), of h1 "CL_MEM_READ_WRITE OR CL_MEM_ALLOC_HOST_PTR" 0 probe_sizes] 2 by simp
  have m3: "same_memory drv h2 h3"
    using probe_flags_memory [OF assms(1), of h2 "CL_MEM_READ_WRITE OR CL_MEM_USE_HOST_PTR" sp probe_sizes] 3 by simp
  have m4: "same_memory drv h3 h4" using probe_pages_memory [OF assms(1), of h3 probe_sizes] 4 by simp
  have m5: "same_memory drv h4 h5" using probe_split_memory [OF assms(1), of h4 probe_sizes] 5 by (auto split: if_splits)
  have m6: "same_memory drv h5 (snd (tryCreate drv CL_MEM_READ_WRITE 256 0 h5))" by (rule try_memory [OF assms(1)])
  have "h' = h1 \<or> h' = h2 \<or> h' = h3 \<or> h' = h4 \<or> h' = h5 \<or> h' = snd (tryCreate drv CL_MEM_READ_WRITE 256 0 h5)"
    using assms(2) False 1 2 3 4 5 by (auto simp: probeScratchpadBuffer_def split: option.splits)
  with m1 m2 m3 m4 m5 m6 show ?thesis by (meson same_memory_trans)
qed

lemma split_run_memory:
  "same_memory drv h (snd (split_verify_run drv ctx ex n hb vw vr sw sr tb rb h))"
  by (simp add: split_verify_run_def cl_def Let_def)

lemma split_verify_memory:
  assumes "driver_ok drv"
  shows "same_memory drv h (snd (verifyGPUScryptSplitKernel drv ctx base target n ex h))"
proof -
  note w = with_buffer_memory [OF assms]
  have 1: "same_memory drv h (snd (with_buffer drv f m e (\<lambda>rb. split_verify_run drv ctx ex n hb vw vr sw sr tb rb) h))"
    for h f m hb vw vr sw sr tb and e :: verify_failure
    by (rule w) (rule split_run_memory)
  have 2: "same_memory drv h (snd (with_buffer drv f m e (\<lambda>rb. split_verify_run drv ctx ex n hb vw vr sw sr tb rb)
      (WriteBuffer tb target # h)))" for h f m hb vw vr sw sr tb and e :: verify_failure
    using 1 by (rule same_memory_trans [rotated]) simp
  have 3: "same_memory drv h (snd (with_buffer drv f1 m1 e1 (\<lambda>vw. with_buffer drv f2 m2 e2 (\<lambda>vr.
      with_buffer drv f3 m3 e3 (\<lambda>sw. with_buffer drv f4 m4 e4 (\<lambda>sr. with_buffer drv f5 m5 e5 (\<lambda>tb h.
      with_buffer drv f6 m6 e6 (\<lambda>rb. split_verify_run drv ctx ex n hb vw vr sw sr tb rb) (WriteBuffer tb target # h))))))
      (WriteBuffer hb base # h)))"
    for h f1 m1 f2 m2 f3 m3 f4 m4 f5 m5 f6 m6 hb and e1 e2 e3 e4 e5 e6 :: verify_failure
    by (rule same_memory_trans [of _ _ "WriteBuffer hb base # h"]) (simp, intro w 2)
  show ?thesis unfolding verifyGPUScryptSplitKernel_def by (intro w 3)
qed

lemma single_run_memory: "same_memory drv h (snd (single_verify_run drv ctx base target n ex hb tb rb sb h))"
  by (simp add: single_verify_run_def cl_def Let_def)

lemma single_scratch_memory:
  assumes "driver_ok drv"
  shows "same_memory drv h (snd (single_verify_scratch drv c ctx base target n ex hb tb rb h))"
proof -
  let ?a = "CreateBuffer CL_MEM_READ_WRITE scratch1 0"
  let ?b = "CreateBuffer (CL_MEM_READ_WRITE OR CL_MEM_ALLOC_HOST_PTR) scratch1 0"
  have run: "same_memory drv h (ReleaseMem (rpHandle (drv h x)) # snd (single_verify_run drv ctx base target n ex hb tb rb sb (x # h)))"
    if "made (drv h x)" "x = CreateBuffer f k p" for h x f k p sb
    using single_run_memory [of drv "x # h" ctx base target n ex hb tb rb sb] that
    by (simp add: same_memory_def made_def)
  show ?thesis
  proof (cases "made (drv h ?a)")
    case True
    from run [OF True refl] True show ?thesis
      by (simp add: single_verify_scratch_def cl_def Let_def split: prod.split) (metis snd_conv)
  next
    case False
    then have 1: "same_memory drv h (?a # h)" using driver_okD [OF assms False] by (simp add: same_memory_def)
    show ?thesis
    proof (cases "made (drv (?a # h) ?b)")
      case True
      from same_memory_trans [OF 1 run [OF True refl]] True False show ?thesis
        by (simp add: single_verify_scratch_def cl_def Let_def split: prod.split) (metis snd_conv)
    next
      case no: False
      then have 2: "same_memory drv h (?b # ?a # h)"
        using driver_okD [OF assms no] 1 by (simp add: same_memory_def)
      then have "same_memory drv h (snd (verifyGPUScryptSplitKernel drv ctx base target n ex (?b # ?a # h)))"
        using split_verify_memory [OF assms] same_memory_trans by blast
      with 2 False no show ?thesis by (simp add: single_verify_scratch_def cl_def Let_def)
    qed
  qed
qed

lemma known_vector_memory:
  assumes "driver_ok drv"
  shows "same_memory drv h (snd (verifyGPUScryptKnownVector drv c ctx base target n ex h))"
  unfolding verifyGPUScryptKnownVector_def
  by (auto intro!: with_buffer_memory [OF assms] single_scratch_memory [OF assms])

lemma verify_kernels_memory:
  assumes "driver_ok drv"
  shows "same_memory drv h (snd (snd (verify_kernels drv c ex (ctx, h)))) \<and>
    clInitialized (fst (snd (verify_kernels drv c ex (ctx, h)))) = clInitialized ctx"
  using split_verify_memory [OF assms, of h ctx] known_vector_memory [OF assms, of h c ctx]
  by (auto simp: verify_kernels_def Let_def split: option.split prod.split sum.split) (metis snd_conv)+

lemma create_split_memory:
  "create_split_kernel drv nm (ctx, h) = (ctx', h') \<Longrightarrow> same_memory drv h h' \<and> clInitialized ctx' = clInitialized ctx"
  by (auto simp: create_split_kernel_def cl_def split: if_splits)

lemma probe_initialized: "probeScratchpadBuffer drv c sp (ctx, h) = (ctx', h') \<Longrightarrow> clInitialized ctx' = clInitialized ctx"
  by (auto simp: probeScratchpadBuffer_def split: if_splits option.splits prod.splits)

lemma build_memory:
  assumes "driver_ok drv" "buildScryptProgram drv c sp ex (ctx, h) = (r, ctx', h')"
  shows "same_memory drv h h' \<and> clInitialized ctx' = clInitialized ctx"
proof -
  let ?p = "CreateProgram (clContext ctx)"
  define ctx1 where "ctx1 = ctx\<lparr>clProgram := rpHandle (drv h ?p)\<rparr>"
  define h3 where "h3 = BuildStatus (clProgram ctx1) (clDevice ctx1) # BuildProgram (clProgram ctx1) (clDevice ctx1) # ?p # h"
  let ?k = "CreateKernel (clProgram ctx1) ''mine_scrypt''"
  define ctx2 where "ctx2 = ctx1\<lparr>clKernel := rpHandle (drv h3 ?k)\<rparr>"
  obtain c3 h4 where 1: "create_split_kernel drv ''scrypt_fill'' (ctx2, ?k # h3) = (c3, h4)" by fastforce
  obtain c4 h5 where 2: "create_split_kernel drv ''scrypt_mix'' (c3, h4) = (c4, h5)" by fastforce
  obtain c5 h6 where 3: "probeScratchpadBuffer drv c sp (c4, h5) = (c5, h6)" by fastforce
  have m3: "same_memory drv h h3" "same_memory drv h (?k # h3)" by (simp_all add: h3_def)
  have m: "same_memory drv h h6"
    using m3(2) create_split_memory [OF 1] create_split_memory [OF 2] probe_memory [OF assms(1) 3]
    by (meson same_memory_trans)
  have i: "clInitialized c5 = clInitialized ctx"
    using create_split_memory [OF 1] create_split_memory [OF 2] probe_initialized [OF 3]
    by (simp add: ctx1_def ctx2_def)
  note v = verify_kernels_memory [OF assms(1), of h6 c ex c5]
  have "(r, ctx', h') = verify_kernels drv c ex (c5, h6) \<or>
      same_memory drv h h' \<and> clInitialized ctx' = clInitialized ctx"
    using assms(2) 1 2 3 m3
    by (auto simp: buildScryptProgram_def cl_def Let_def ctx1_def ctx2_def h3_def split: if_splits)
  then show ?thesis
  proof
    assume e: "(r, ctx', h') = verify_kernels drv c ex (c5, h6)"
    from v have "same_memory drv h6 h' \<and> clInitialized ctx' = clInitialized c5" by (simp flip: e)
    with m i show ?thesis by (auto intro: same_memory_trans)
  qed
qed

lemma find_devices_memory: "find_devices drv k ps h = (ds, h') \<Longrightarrow> same_memory drv h h'"
proof (induction ps arbitrary: h)
  case (Cons p ps)
  let ?c = "DeviceIDs p k"
  from Cons.prems consider "find_devices drv k ps (?c # h) = (ds, h')" | "find_devices drv k ps (?c # ?c # h) = (ds, h')"
    | "h' = ?c # ?c # h"
    by (auto simp: cl_def split: if_splits)
  then show ?case
  proof cases
    case 1
    have "same_memory drv h (?c # h)" by simp
    then show ?thesis using Cons.IH [OF 1] by (rule same_memory_trans)
  next
    case 2
    have "same_memory drv h (?c # ?c # h)" by simp
    then show ?thesis using Cons.IH [OF 2] by (rule same_memory_trans)
  qed simp
qed simp

lemma choose_device_memory:
  assumes "choose_device drv ps h = (sel, h')"
  shows "same_memory drv h h'"
proof -
  obtain ds1 h1 where 1: "find_devices drv CL_DEVICE_TYPE_GPU ps h = (ds1, h1)" by fastforce
  obtain ds2 h2 where 2: "find_devices drv CL_DEVICE_TYPE_CPU ps h1 = (ds2, h2)" by fastforce
  have "h' = h1 \<or> h' = h2" using assms 1 2 by (auto simp: choose_device_def split: list.splits)
  with find_devices_memory [OF 1] find_devices_memory [OF 2] show ?thesis by (meson same_memory_trans)
qed

lemma open_device_memory:
  assumes "driver_ok (ceDriver env)" "open_device env sel h = (r, h')"
  shows "same_memory (ceDriver env) h h' \<and> (\<forall>ctx. r = Inr ctx \<longrightarrow> clInitialized ctx)"
proof -
  let ?drv = "ceDriver env"
  obtain dev devs gpu where sel: "sel = (dev, devs, gpu)" by (cases sel)
  define h1 where "h1 = CreateContext dev # GetDeviceName dev # h"
  define c where "c = ?drv (GetDeviceName dev # h) (CreateContext dev)"
  define h2 where "h2 = CreateQueue (rpHandle c) dev # h1"
  define q where "q = ?drv h1 (CreateQueue (rpHandle c) dev)"
  define ctx where "ctx = new_context\<lparr>clDevices := devs, clContext := rpHandle c, clQueue := rpHandle q,
      clDevice := dev, clInitialized := True, clDeviceName := device_name (?drv h (GetDeviceName dev)),
      clDeviceType := (if gpu then ''GPU'' else ''CPU'')\<rparr>"
  obtain br ctx' h3 where b: "buildScryptProgram ?drv (ceCopy env) (ceSlice env)
      (ceKey env buildBlock100000Header buildBlock100000Header 1024 1 1 32) (ctx, h2) = (br, ctx', h3)"
    by (metis prod_cases3)
  have m2: "same_memory ?drv h h2" "same_memory ?drv h h1" by (simp_all add: h2_def h1_def)
  have ini: "clInitialized ctx" by (simp add: ctx_def)
  from build_memory [OF assms(1) b] m2 ini have m3: "same_memory ?drv h h3" "clInitialized ctx'"
    by (auto intro: same_memory_trans)
  show ?thesis using assms(2) b m2 m3
    by (auto simp: open_device_def sel cl_def Let_def h1_def h2_def c_def q_def ctx_def split: if_splits)
qed

lemma init_fresh_memory:
  assumes "driver_ok (ceDriver env)" "init_fresh env g = (r, g')"
  shows "same_memory (ceDriver env) (ghHistory g) (ghHistory g') \<and>
    (\<forall>a. r = Inr a \<longrightarrow> a < length (ghContexts g') \<and> ghGlobal g' = Some a \<and> clInitialized (ghContexts g' ! a))"
proof -
  let ?drv = "ceDriver env" and ?h = "PlatformIDs # PlatformIDs # ghHistory g"
  let ?ps = "filled (rpSize (?drv (ghHistory g) PlatformIDs)) (rpHandles (?drv (PlatformIDs # ghHistory g) PlatformIDs))"
  obtain sel h1 where 1: "choose_device ?drv ?ps ?h = (sel, h1)" by fastforce
  obtain o2 h2 where 2: "open_device env sel h1 = (o2, h2)" by fastforce
  have "same_memory ?drv (ghHistory g) ?h" by simp
  with choose_device_memory [OF 1] open_device_memory [OF assms(1) 2] have m: "same_memory ?drv (ghHistory g) h2"
    by (meson same_memory_trans)
  show ?thesis using assms(2) 1 2 m open_device_memory [OF assms(1) 2]
    by (cases o2) (auto simp: init_fresh_def cl_def Let_def split: if_splits)
qed

section \<open>Properties\<close>

definition host_ok :: "GpuHost \<Rightarrow> bool" where
  "host_ok g \<longleftrightarrow> (\<forall>a. ghGlobal g = Some a \<longrightarrow> a < length (ghContexts g))"

lemma InitializeOpenCL_result:
  assumes "driver_ok (ceDriver env)" "host_ok g" "InitializeOpenCL env g = (r, g')"
  shows "same_memory (ceDriver env) (ghHistory g) (ghHistory g') \<and>
    (\<forall>a. r = Inr a \<longrightarrow> a < length (ghContexts g') \<and> ghGlobal g' = Some a \<and> clInitialized (ghContexts g' ! a))"
proof (cases "\<exists>a. ghGlobal g = Some a \<and> clInitialized (ghContexts g ! a)")
  case True
  with assms(2,3) show ?thesis by (auto simp: InitializeOpenCL_def host_ok_def)
next
  case False
  then have "init_fresh env g = (r, g')" using assms(3) by (auto simp: InitializeOpenCL_def split: option.splits)
  from init_fresh_memory [OF assms(1) this] show ?thesis .
qed

text \<open>Whatever the driver answers, setting OpenCL up, probing and checking the kernels included, leaves
  no buffer and no page behind, on every error path.\<close>

theorem setup_releases_memory:
  assumes "driver_ok (ceDriver env)" "host_ok g"
  shows "live_buffers (ceDriver env) (ghHistory (snd (InitializeOpenCL env g))) = live_buffers (ceDriver env) (ghHistory g) \<and>
    live_pages (ceDriver env) (ghHistory (snd (InitializeOpenCL env g))) = live_pages (ceDriver env) (ghHistory g)"
  using InitializeOpenCL_result [OF assms, of "fst (InitializeOpenCL env g)" "snd (InitializeOpenCL env g)"]
  by (simp add: same_memory_def)

lemma probe_flags_rejected:
  assumes "\<And>h n. \<not> made (drv h (CreateBuffer f n p))"
  shows "fst (probe_flags drv f p ss h) = None"
  by (induction ss arbitrary: h) (simp_all add: tryCreate_def cl_def assms)

lemma probe_pages_rejected:
  assumes "\<And>h n p. \<not> made (drv h (CreateBuffer (CL_MEM_READ_WRITE OR CL_MEM_USE_HOST_PTR) n p))"
  shows "fst (probe_pages drv ss h) = None"
  by (induction ss arbitrary: h) (auto simp: tryCreate_def cl_def assms split: prod.split)

text \<open>\<open>CL_MEM_READ_WRITE\<close> is 3 here, which to an OpenCL driver means read-write together with
  write-only. A driver that rejects that combination, as the standard has it, never gets the
  single kernel to run: after the probe either the split kernels are used or the GPU is given up.\<close>

theorem standard_driver_needs_split:
  assumes "\<forall>h f n p. f AND 3 = 3 \<longrightarrow> rpErr (drv h (CreateBuffer f n p)) \<noteq> 0"
    and "\<not> probeFailed ctx" "maxScratchpadBuf ctx = 0"
    and "probeScratchpadBuffer drv hasCopy slicePtr (ctx, h) = (ctx', h')"
  shows "probeFailed ctx' \<and> maxScratchpadBuf ctx' = 0 \<or> useSplitKernelPath ctx' \<and> split_ready hasCopy ctx"
proof -
  have no: "\<not> made (drv h (CreateBuffer f n p))" if "f AND 3 = 3" for h f n p
    using assms(1) that by (simp add: made_def)
  have rw: "CL_MEM_READ_WRITE AND 3 = 3" "(CL_MEM_READ_WRITE OR CL_MEM_ALLOC_HOST_PTR) AND 3 = 3"
    "(CL_MEM_READ_WRITE OR CL_MEM_USE_HOST_PTR) AND 3 = 3"
    by (simp_all add: CL_MEM_READ_WRITE_def CL_MEM_ALLOC_HOST_PTR_def CL_MEM_USE_HOST_PTR_def)
  have "fst (probe_flags drv CL_MEM_READ_WRITE 0 probe_sizes h) = None"
    by (rule probe_flags_rejected) (rule no [OF rw(1)])
  then obtain h1 where 1: "probe_flags drv CL_MEM_READ_WRITE 0 probe_sizes h = (None, h1)"
    by (metis prod.collapse)
  have "fst (probe_flags drv (CL_MEM_READ_WRITE OR CL_MEM_ALLOC_HOST_PTR) 0 probe_sizes h1) = None"
    by (rule probe_flags_rejected) (rule no [OF rw(2)])
  then obtain h2 where 2: "probe_flags drv (CL_MEM_READ_WRITE OR CL_MEM_ALLOC_HOST_PTR) 0 probe_sizes h1 = (None, h2)"
    by (metis prod.collapse)
  have "fst (probe_flags drv (CL_MEM_READ_WRITE OR CL_MEM_USE_HOST_PTR) slicePtr probe_sizes h2) = None"
    by (rule probe_flags_rejected) (rule no [OF rw(3)])
  then obtain h3 where 3: "probe_flags drv (CL_MEM_READ_WRITE OR CL_MEM_USE_HOST_PTR) slicePtr probe_sizes h2 = (None, h3)"
    by (metis prod.collapse)
  have "fst (probe_pages drv probe_sizes h3) = None"
    by (rule probe_pages_rejected) (rule no [OF rw(3)])
  then obtain h4 where 4: "probe_pages drv probe_sizes h3 = (None, h4)"
    by (metis prod.collapse)
  obtain o5 h5 where 5: "(if split_ready hasCopy ctx then probe_split drv probe_sizes h4 else (None, h4)) = (o5, h5)" by fastforce
  show ?thesis
  proof (cases o5)
    case None
    with assms(2-4) 1 2 3 4 5 show ?thesis by (auto simp: probeScratchpadBuffer_def)
  next
    case (Some n)
    with 5 have "split_ready hasCopy ctx" by (auto split: if_splits)
    with Some assms(2-4) 1 2 3 4 5 show ?thesis by (auto simp: probeScratchpadBuffer_def)
  qed
qed

lemma cleanup_uninitialised:
  "a < length (ghContexts g) \<Longrightarrow> \<not> clInitialized (ghContexts (CleanupOpenCL a g) ! a)"
  by (auto simp: CleanupOpenCL_def cleanup_context_def split: prod.split)

text \<open>Looking whether there is a GPU, as the optimizer does when it starts, cleans up the context object
  that a running GPU miner holds too: from then on every round of that miner is a CPU round.\<close>

theorem detection_stops_gpu:
  assumes "driver_ok (ceDriver env)" "host_ok g" "gpu_attach env g = (Some a, g1)" "IsGPUAvailable env' g1 = (found, g2)"
  shows "fst (gpu_MineBlock opencl (gpu_view g2 (Some a) m) block hex kernelRound cpuInner cpuOuter) =
    (case hexDecode hex of
       Inl e \<Rightarrow> \<lparr>moNonce = 0, moHash = None, moFound = False, moHashCount = 0\<rparr>
     | Inr t \<Rightarrow> cpuOuter (if be_nat t = 0 then 1 else be_nat t))"
proof -
  from assms(3) have "InitializeOpenCL env g = (Inr a, g1)" by (auto simp: gpu_attach_def split: sum.splits prod.splits)
  from InitializeOpenCL_result [OF assms(1,2) this]
  have a: "a < length (ghContexts g1)" "ghGlobal g1 = Some a" "clInitialized (ghContexts g1 ! a)" by auto
  then have "InitializeOpenCL env' g1 = (Inr a, g1)" by (simp add: InitializeOpenCL_def)
  with assms(4) have "g2 = CleanupOpenCL a g1" by (simp add: IsGPUAvailable_def Let_def)
  with a(1) have "\<not> clInitialized (ghContexts g2 ! a)" by (simp add: cleanup_uninitialised)
  then show ?thesis by (simp add: gpu_MineBlock_def gpu_view_def Let_def split: sum.split)
qed

section \<open>Witnesses\<close>

text \<open>A driver that agrees to everything, and one that follows the standard on flags.\<close>

definition willing_driver :: cl_driver where
  "willing_driver h c = \<lparr>rpErr = 0, rpHandle = 1, rpHandles = [1], rpText = ''G'', rpSize = 1, rpWords = []\<rparr>"

definition standard_driver :: cl_driver where
  "standard_driver h c =
     (let r = \<lparr>rpErr = 0, rpHandle = 1, rpHandles = [1], rpText = ''G'', rpSize = 1, rpWords = []\<rparr> in
      case c of CreateBuffer f n p \<Rightarrow> if f AND 3 = 3 then r\<lparr>rpErr := -30, rpHandle := 0\<rparr> else r | _ \<Rightarrow> r)"

definition cl_env :: "cl_driver \<Rightarrow> ClEnv" where
  "cl_env drv = \<lparr>ceDriver = drv, ceLoads = True, ceCopy = True, ceSlice = 4096, ceKey = \<lambda>p s N r q n. None\<rparr>"

definition no_host :: GpuHost where
  "no_host = \<lparr>ghContexts = [], ghGlobal = None, ghHistory = []\<rparr>"

lemma drivers_ok: "driver_ok willing_driver" "driver_ok standard_driver" "host_ok no_host"
  by (simp_all add: driver_ok_def willing_driver_def standard_driver_def host_ok_def no_host_def Let_def)

lemma willing_attach: "\<exists>g1. gpu_attach (cl_env willing_driver) no_host = (Some 0, g1)"
  by (simp add: gpu_attach_def InitializeOpenCL_def no_host_def init_fresh_def cl_env_def cl_def willing_driver_def Let_def
      choose_device_def filled_def open_device_def made_def split: prod.split)

theorem setup_releases_memory_witness:
  "live_buffers standard_driver (ghHistory (snd (InitializeOpenCL (cl_env standard_driver) no_host))) = {#}"
  using setup_releases_memory [of "cl_env standard_driver" no_host] drivers_ok
  by (simp add: cl_env_def) (simp add: no_host_def)

theorem standard_driver_needs_split_witness:
  "\<exists>ctx' h'. probeScratchpadBuffer standard_driver True 4096 (new_context\<lparr>kernelFill := 1, kernelMix := 1\<rparr>, []) = (ctx', h') \<and>
     (probeFailed ctx' \<and> maxScratchpadBuf ctx' = 0 \<or> useSplitKernelPath ctx')"
proof -
  obtain ctx' h' where p: "probeScratchpadBuffer standard_driver True 4096 (new_context\<lparr>kernelFill := 1, kernelMix := 1\<rparr>, []) = (ctx', h')"
    by fastforce
  have "probeFailed ctx' \<and> maxScratchpadBuf ctx' = 0 \<or> useSplitKernelPath ctx' \<and> split_ready True (new_context\<lparr>kernelFill := 1, kernelMix := 1\<rparr>)"
    by (rule standard_driver_needs_split [OF _ _ _ p]) (simp_all add: standard_driver_def new_context_def Let_def)
  with p show ?thesis by blast
qed

theorem detection_stops_gpu_witness:
  "\<exists>g1. gpu_attach (cl_env willing_driver) no_host = (Some 0, g1) \<and>
     fst (gpu_MineBlock None (gpu_view (snd (IsGPUAvailable (cl_env willing_driver) g1)) (Some 0) (NewGPUMiner 8 1000 2))
       sampleBlock ''05'' (\<lambda>_. undefined) (\<lambda>_. undefined) f) = f 5"
proof -
  obtain g1 where g1: "gpu_attach (cl_env willing_driver) no_host = (Some 0, g1)" using willing_attach by blast
  have ok: "driver_ok (ceDriver (cl_env willing_driver))" by (simp add: cl_env_def drivers_ok)
  have "hexDecode ''05'' = Inr [5]" by (simp add: hex_val_def)
  then show ?thesis
    using detection_stops_gpu [OF ok drivers_ok(3) g1 surjective_pairing, where env' = "cl_env willing_driver"
        and opencl = None and m = "NewGPUMiner 8 1000 2" and block = sampleBlock and hex = "''05''"
        and kernelRound = "\<lambda>_. undefined" and cpuInner = "\<lambda>_. undefined" and cpuOuter = f] g1
    by (simp add: be_nat_def)
qed

end
