(* ===== verification/GpuParallel.thy ===== *)
theory GpuParallel
  imports GpuMining
begin

text \<open>
  \<open>mineParallel\<close> of \<open>src/gpu_miner.go\<close>: the goroutines the GPU miner falls back to when OpenCL does
  not run, as a step relation over their interleavings, and the watchdog that ends a round which
  makes no progress. Threads and program counters are those of the CPU miner; the batch size, the
  counting of hashes, the cancellation and the form of a result differ. Times are milliseconds.
\<close>

section \<open>The job\<close>

definition scryptHashFast :: "scrypt_key \<Rightarrow> byte list \<Rightarrow> go_panic + byte list" where
  "scryptHashFast key header80 =
     (if length header80 \<noteq> 80 then Inl BadHeaderLength
      else case key header80 header80 1024 1 1 32 of None \<Rightarrow> Inl ScryptFailed | Some hash \<Rightarrow> Inr hash)"

definition gpu_hash_nonce :: "scrypt_key \<Rightarrow> Block \<Rightarrow> u32 \<Rightarrow> go_panic + byte list" where
  "gpu_hash_nonce key block nonce = scryptHashFast key (precomputeHeaderBase block @ put_u32 nonce)"

record GpuJob =
  gjJob :: Job
  gjBatch :: u32

definition gpu_job :: "scrypt_key \<Rightarrow> GPUMiner \<Rightarrow> Block \<Rightarrow> byte list \<Rightarrow> u32 \<Rightarrow> GpuJob" where
  "gpu_job key g block targetLE base =
     (let perThread = gpu_effectiveMaxHashes g div of_int (gThreadCount g) in
      \<lparr>gjJob = \<lparr>jMode = gNonceSearchMode g, jStride = gUseStride g, jThreads = nat (gThreadCount g),
         jBase = base, jMax = (if perThread = 0 then 1000 else perThread), jTarget = targetLE,
         jHash = gpu_hash_nonce key block\<rparr>,
       gjBatch = of_int (gBatchSize g)\<rparr>)"

record GpuShared =
  gsFound :: bool
  gsCancel :: bool
  gsResults :: "(u32 \<times> byte list) list"
  gsTotal :: u64
  gsCrashed :: "go_panic option"

section \<open>The worker goroutines\<close>

text \<open>Leaving the loops adds what has not been reported in steps of 500.\<close>

definition gpu_exit :: "GpuShared \<Rightarrow> Thread \<Rightarrow> GpuShared \<times> Thread" where
  "gpu_exit sh th = (sh\<lparr>gsTotal := gsTotal sh + localHashCount th mod 500\<rparr>, th\<lparr>tPc := Finished\<rparr>)"

definition gpu_outer :: "GpuJob \<Rightarrow> GpuShared \<Rightarrow> Thread \<Rightarrow> GpuShared \<times> Thread" where
  "gpu_outer gj sh th =
     (let j = gjJob gj; batch = gjBatch gj; cur = currentNonce th;
          live = localHashCount th < jMax j \<and> \<not> gsFound sh in
      if jMode j = ''backward'' then
        if live \<and> 0 < cur
        then (sh, th\<lparr>tPc := AtInner cur (if batch < cur then cur - batch else 0)\<rparr>)
        else gpu_exit sh th
      else if \<not> live then gpu_exit sh th
      else if jStride j then (sh, th\<lparr>tPc := AtStride 0\<rparr>)
      else
        let batchEnd = cur + batch;
            batchEnd = (if threadEnd th < batchEnd then threadEnd th else batchEnd)
        in (sh, th\<lparr>tPc := AtInner cur batchEnd\<rparr>))"

definition gpu_inner :: "GpuJob \<Rightarrow> GpuShared \<Rightarrow> u32 \<Rightarrow> u32 \<Rightarrow> Thread \<Rightarrow> Thread" where
  "gpu_inner gj sh nonce batchEnd th =
     (let j = gjJob gj; inBatch = (if jMode j = ''backward'' then batchEnd < nonce else nonce < batchEnd) in
      if inBatch \<and> localHashCount th < jMax j \<and> \<not> gsFound sh
      then th\<lparr>tPc := AtHash nonce batchEnd\<rparr>
      else inner_exit j batchEnd th)"

definition gpu_stride :: "GpuJob \<Rightarrow> GpuShared \<Rightarrow> u32 \<Rightarrow> Thread \<Rightarrow> Thread" where
  "gpu_stride gj sh i th =
     (let j = gjJob gj in
      if i < gjBatch gj \<and> localHashCount th < jMax j \<and> \<not> gsFound sh
      then th\<lparr>tPc := AtStrideHash i\<rparr>
      else th\<lparr>threadStart := (threadStart th + gjBatch gj * of_nat (jThreads j)) mod 0xFFFFFFFF,
              tPc := AtOuter\<rparr>)"

text \<open>
  Hash a nonce. Every 500 hashes the cancellation is looked at and the counter moved; then the
  hash is compared with the target, and the first hit takes the found flag; sending it as little-endian
  bytes is a step of its own.
\<close>

definition gpu_hash :: "GpuJob \<Rightarrow> GpuShared \<Rightarrow> u32 \<Rightarrow> pc \<Rightarrow> Thread \<Rightarrow> GpuShared \<times> Thread" where
  "gpu_hash gj sh nonce nxt th =
     (case jHash (gjJob gj) nonce of
        Inl p \<Rightarrow> (sh\<lparr>gsCrashed := Some p\<rparr>, th)
      | Inr hash \<Rightarrow>
          let th = th\<lparr>localHashCount := localHashCount th + 1\<rparr>;
              report = (localHashCount th mod 500 = 0) in
          if report \<and> gsCancel sh then (sh, th\<lparr>tPc := Returned\<rparr>)
          else
            let sh = (if report then sh\<lparr>gsTotal := gsTotal sh + 500\<rparr> else sh) in
            if hashMeetsTargetLE hash (jTarget (gjJob gj))
            then (sh\<lparr>gsFound := True\<rparr>, th\<lparr>tPc := if gsFound sh then Returned else AtSend nonce hash\<rparr>)
            else (sh, th\<lparr>tPc := nxt\<rparr>))"

definition gpu_send :: "u32 \<Rightarrow> byte list \<Rightarrow> GpuShared \<Rightarrow> Thread \<Rightarrow> GpuShared \<times> Thread" where
  "gpu_send nonce hash sh th = (sh\<lparr>gsResults := gsResults sh @ [(nonce, hash)]\<rparr>, th\<lparr>tPc := Returned\<rparr>)"

definition gpu_thread_step :: "GpuJob \<Rightarrow> GpuShared \<Rightarrow> Thread \<Rightarrow> GpuShared \<times> Thread" where
  "gpu_thread_step gj sh th =
     (case tPc th of
        AtOuter \<Rightarrow> gpu_outer gj sh th
      | AtInner nonce batchEnd \<Rightarrow> (sh, gpu_inner gj sh nonce batchEnd th)
      | AtHash nonce batchEnd \<Rightarrow>
          gpu_hash gj sh nonce
            (AtInner (if jMode (gjJob gj) = ''backward'' then nonce - 1 else nonce + 1) batchEnd) th
      | AtStride i \<Rightarrow> (sh, gpu_stride gj sh i th)
      | AtStrideHash i \<Rightarrow>
          gpu_hash gj sh ((threadStart th + i * of_nat (jThreads (gjJob gj))) mod 0xFFFFFFFF)
            (AtStride (i + 1)) th
      | AtSend nonce hash \<Rightarrow> gpu_send nonce hash sh th
      | Finished \<Rightarrow> (sh, th)
      | Returned \<Rightarrow> (sh, th))"

section \<open>The watchdog\<close>

text \<open>The variables of the progress goroutine that decide; \<open>None\<close> before the first count is seen.\<close>

record Watch =
  waLastN :: u64
  waLastT :: int
  waProgress :: int
  waDone :: bool

definition watch_init :: Watch where
  "watch_init = \<lparr>waLastN = 0, waLastT = 0, waProgress = 0, waDone = False\<rparr>"

definition nearCapThreshold :: "u64 \<Rightarrow> u64" where
  "nearCapThreshold roundCap = (if 0 < roundCap then roundCap * 95 div 100 else 0)"

text \<open>One tick at time \<open>now\<close> with the counter at \<open>n\<close>: the new variables and whether the round is cancelled.\<close>

definition watch_tick :: "u64 \<Rightarrow> int \<Rightarrow> u64 \<Rightarrow> Watch \<Rightarrow> Watch \<times> bool" where
  "watch_tick roundCap now n w =
     (if waDone w \<or> n = 0 then (w, False)
      else if waLastN w = 0 then (w\<lparr>waLastN := n, waLastT := now, waProgress := now\<rparr>, False)
      else
        let deltaN = n - waLastN w; delta = now - waLastT w;
            w = (if 0 < deltaN then w\<lparr>waProgress := now\<rparr> else w);
            w = w\<lparr>waLastN := n, waLastT := now\<rparr> in
        if delta < 500 \<or> 0 < deltaN then (w, False)
        else
          let stuck = now - waProgress w; near = nearCapThreshold roundCap in
          if 0 < near \<and> near \<le> n \<and> 2000 \<le> stuck \<or> 90000 \<le> stuck
          then (w\<lparr>waDone := True\<rparr>, True)
          else (w, False))"

definition cancel_round :: "GpuShared \<Rightarrow> GpuShared" where
  "cancel_round sh = sh\<lparr>gsCancel := True, gsFound := True\<rparr>"

section \<open>A round\<close>

record GpuRound =
  grShared :: GpuShared
  grThreads :: "Thread list"
  grWatch :: Watch

definition gpu_init :: "GpuJob \<Rightarrow> GpuRound" where
  "gpu_init gj = \<lparr>grShared = \<lparr>gsFound = False, gsCancel = False, gsResults = [], gsTotal = 0, gsCrashed = None\<rparr>,
     grThreads = map (thread_init (gjJob gj)) [0..<jThreads (gjJob gj)], grWatch = watch_init\<rparr>"

datatype gpu_event = Worker nat | Tick int

text \<open>A worker runs up to its next shared access, or the watchdog's ticker fires.\<close>

fun gpu_event_step :: "GpuJob \<Rightarrow> u64 \<Rightarrow> gpu_event \<Rightarrow> GpuRound \<Rightarrow> GpuRound" where
  "gpu_event_step gj roundCap (Worker i) r =
     (if i < length (grThreads r) \<and> \<not> halted (grThreads r ! i) \<and> gsCrashed (grShared r) = None
      then case gpu_thread_step gj (grShared r) (grThreads r ! i) of
             (sh, th) \<Rightarrow> r\<lparr>grShared := sh, grThreads := (grThreads r)[i := th]\<rparr>
      else r)"
| "gpu_event_step gj roundCap (Tick now) r =
     (case watch_tick roundCap now (gsTotal (grShared r)) (grWatch r) of
        (w, cancel) \<Rightarrow> r\<lparr>grWatch := w, grShared := (if cancel then cancel_round (grShared r) else grShared r)\<rparr>)"

definition gpu_run :: "GpuJob \<Rightarrow> u64 \<Rightarrow> gpu_event list \<Rightarrow> GpuRound \<Rightarrow> GpuRound" where
  "gpu_run gj roundCap evs r = fold (gpu_event_step gj roundCap) evs r"

text \<open>
  The final \<open>select\<close>: when a result is waiting and all workers are done, both cases are ready and
  \<open>pickDone\<close> is Go's choice. A result is used when its nonce is not zero.
\<close>

definition gpu_select :: "bool \<Rightarrow> nat \<Rightarrow> GpuShared \<Rightarrow> go_panic + MineOutcome" where
  "gpu_select pickDone target sh =
     (let none = \<lparr>moNonce = 0, moHash = None, moFound = False, moHashCount = gsTotal sh\<rparr> in
      if pickDone then Inr none
      else case gsResults sh of
        [] \<Rightarrow> Inr none
      | (nonce, hash) # _ \<Rightarrow>
          if nonce \<noteq> 0 \<and> hash \<noteq> [] then
            ebind (target_le_bytes target) (\<lambda>targetLE.
              Inr (if hashMeetsTargetLE hash targetLE
                   then \<lparr>moNonce = nonce, moHash = Some hash, moFound = True, moHashCount = gsTotal sh\<rparr>
                   else none))
          else Inr none)"

datatype gpu_panic = WorkerPanic go_panic | BadThreadCount

text \<open>
  It returns when all workers are done (\<open>None\<close>: they are not). \<open>ThreadCount\<close> 0 divides by zero, and
  the channel of a negative capacity panics.
\<close>

definition gpu_mineParallel ::
  "scrypt_key \<Rightarrow> GPUMiner \<Rightarrow> Block \<Rightarrow> nat \<Rightarrow> u64 \<Rightarrow> gpu_event list \<Rightarrow> bool \<Rightarrow> (gpu_panic + MineOutcome) option" where
  "gpu_mineParallel key g block target unixNano evs pickDone =
     (if gThreadCount g \<le> 0 then Some (Inl BadThreadCount)
      else case target_le_bytes target of
        Inl p \<Rightarrow> Some (Inl (WorkerPanic p))
      | Inr targetLE \<Rightarrow>
          let gj = gpu_job key g block targetLE (calculateStartNonce block (gNonceStartMode g) unixNano);
              r = gpu_run gj (gpu_effectiveMaxHashes g) evs (gpu_init gj)
          in case gsCrashed (grShared r) of
               Some p \<Rightarrow> Some (Inl (WorkerPanic p))
             | None \<Rightarrow>
                 if list_all halted (grThreads r)
                 then Some (emap_err WorkerPanic (gpu_select pickDone target (grShared r)))
                 else None)"

section \<open>Safety\<close>

definition gpu_genuine :: "GpuJob \<Rightarrow> u32 \<times> byte list \<Rightarrow> bool" where
  "gpu_genuine gj r \<longleftrightarrow> jHash (gjJob gj) (fst r) = Inr (snd r) \<and> hashMeetsTargetLE (snd r) (jTarget (gjJob gj))"

definition gpu_shared_inv :: "GpuJob \<Rightarrow> GpuShared \<Rightarrow> bool" where
  "gpu_shared_inv gj sh \<longleftrightarrow> list_all (gpu_genuine gj) (gsResults sh)"

definition gpu_thread_inv :: "GpuJob \<Rightarrow> Thread \<Rightarrow> bool" where
  "gpu_thread_inv gj th \<longleftrightarrow> localHashCount th \<le> jMax (gjJob gj) \<and>
     (at_hash (tPc th) \<longrightarrow> localHashCount th < jMax (gjJob gj)) \<and> list_all (gpu_genuine gj) (unsent th)"

text \<open>The hashes of a thread that may already be in the shared counter.\<close>

definition credit :: "Thread \<Rightarrow> nat" where
  "credit th = (let l = unat (localHashCount th) in if tPc th = Finished then l else 500 * (l div 500))"

lemma credit_le: "credit th \<le> unat (localHashCount th)"
  by (simp add: credit_def Let_def)

lemma unat_plus_le: "unat (a + b :: 'a::len word) \<le> unat a + unat b"
  by (simp add: unat_word_ariths)

text \<open>What one step of a worker keeps and moves: there is no new result, sent or unsent, without the flag.\<close>

definition gpu_step_ok :: "GpuJob \<Rightarrow> GpuShared \<times> Thread \<Rightarrow> GpuShared \<times> Thread \<Rightarrow> bool" where
  "gpu_step_ok gj s s' \<longleftrightarrow> gpu_shared_inv gj (fst s') \<and> gpu_thread_inv gj (snd s') \<and>
     length (unsent (snd s')) + length (gsResults (fst s')) + flag_nat (gsFound (fst s)) \<le>
       length (unsent (snd s)) + length (gsResults (fst s)) + flag_nat (gsFound (fst s')) \<and>
     unat (gsTotal (fst s')) + credit (snd s) \<le> unat (gsTotal (fst s)) + credit (snd s') \<and>
     (gsFound (fst s) \<longrightarrow> gsFound (fst s')) \<and> (gsCrashed (fst s) \<noteq> None \<longrightarrow> gsCrashed (fst s') \<noteq> None)"

lemma gpu_step_ok_quiet:
  assumes "gpu_shared_inv gj sh" "gpu_thread_inv gj th'" "localHashCount th' = localHashCount th"
    "\<not> halted th" "tPc th' \<noteq> Finished" "unsent th' = []"
  shows "gpu_step_ok gj (sh, th) (sh, th')"
  using assms by (simp add: gpu_step_ok_def credit_def halted_def Let_def)

lemma gpu_exit_ok:
  assumes "gpu_shared_inv gj sh" "gpu_thread_inv gj th" "\<not> halted th"
  shows "gpu_step_ok gj (sh, th) (gpu_exit sh th)"
proof -
  have "unat (gsTotal sh + localHashCount th mod 500) \<le> unat (gsTotal sh) + unat (localHashCount th) mod 500"
    using unat_plus_le [of "gsTotal sh" "localHashCount th mod 500"] by (simp add: unat_mod)
  moreover have "500 * (unat (localHashCount th) div 500) + unat (localHashCount th) mod 500 = unat (localHashCount th)"
    by (rule mult_div_mod_eq)
  ultimately have "unat (gsTotal sh + localHashCount th mod 500) + 500 * (unat (localHashCount th) div 500)
      \<le> unat (gsTotal sh) + unat (localHashCount th)" by linarith
  then show ?thesis using assms
    by (auto simp: gpu_step_ok_def gpu_exit_def credit_def halted_def gpu_shared_inv_def gpu_thread_inv_def unsent_def Let_def)
qed

lemma unat_local_Suc:
  "localHashCount th < (m :: u64) \<Longrightarrow> unat (localHashCount th + 1) = unat (localHashCount th) + 1"
  using unat_u64_lt [of m]
  by (simp add: word_less_nat_alt unat_word_ariths mod_less del: unat_u64_lt)

lemma gpu_hash_ok:
  assumes "gpu_shared_inv gj sh" "gpu_thread_inv gj th" "at_hash (tPc th)" "\<not> at_hash nxt" "nxt \<noteq> Finished"
    and "\<forall>n h. nxt \<noteq> AtSend n h"
  shows "gpu_step_ok gj (sh, th) (gpu_hash gj sh nonce nxt th)"
proof (cases "jHash (gjJob gj) nonce")
  case (Inl p)
  with assms show ?thesis by (simp add: gpu_hash_def gpu_step_ok_def gpu_shared_inv_def)
next
  case (Inr h)
  define th1 where "th1 = th\<lparr>localHashCount := localHashCount th + 1\<rparr>"
  define report where "report \<longleftrightarrow> localHashCount th1 mod 500 = 0"
  define sh1 where "sh1 = (if report then sh\<lparr>gsTotal := gsTotal sh + 500\<rparr> else sh)"
  have lt: "localHashCount th < jMax (gjJob gj)" using assms(2,3) by (simp add: gpu_thread_inv_def)
  note u = unat_local_Suc [OF lt]
  have plain: "unsent (th1\<lparr>tPc := p\<rparr>) = []" if "\<forall>n h. p \<noteq> AtSend n h" for p
    using that by (simp add: unsent_def split: pc.split)
  have none: "unsent th = []" using assms(3) by (cases "tPc th") (simp_all add: unsent_def)
  have inv: "gpu_thread_inv gj (th1\<lparr>tPc := p\<rparr>)" if "\<not> at_hash p" "\<forall>n h. p \<noteq> AtSend n h" for p
    using that(1) plain [OF that(2)] inc_le [OF lt] by (simp add: gpu_thread_inv_def th1_def)
  have sending: "gpu_thread_inv gj (th1\<lparr>tPc := AtSend nonce h\<rparr>)" if "hashMeetsTargetLE h (jTarget (gjJob gj))"
    using that inc_le [OF lt] Inr by (simp add: gpu_thread_inv_def th1_def unsent_def gpu_genuine_def)
  have fin: "tPc th \<noteq> Finished" using assms(3) by auto
  have r: "report \<longleftrightarrow> (unat (localHashCount th) + 1) mod 500 = 0"
    by (simp add: report_def th1_def word_unat_eq_iff unat_mod u)
  have c0: "credit th \<le> credit (th1\<lparr>tPc := p\<rparr>)" if "p \<noteq> Finished" for p
    using that fin div_le_mono [of "unat (localHashCount th)" "unat (localHashCount th) + 1" 500]
    by (simp add: credit_def th1_def u Let_def)
  have c1: "unat (gsTotal sh1) + credit th \<le> unat (gsTotal sh) + credit (th1\<lparr>tPc := p\<rparr>)" if "p \<noteq> Finished" for p
  proof (cases report)
    case True
    then have "(unat (localHashCount th) + 1) mod 500 = 0" by (simp only: r)
    then have "500 * (unat (localHashCount th) div 500) + 500 = 500 * ((unat (localHashCount th) + 1) div 500)"
      by (simp add: div_Suc)
    with True that fin show ?thesis using unat_plus_le [of "gsTotal sh" 500]
      by (simp add: sh1_def credit_def th1_def u Let_def)
  next
    case False
    then show ?thesis using c0 [OF that] by (simp add: sh1_def)
  qed
  have s1: "gpu_shared_inv gj sh1" "gsFound sh1 = gsFound sh" "gsCrashed sh1 = gsCrashed sh" "gsResults sh1 = gsResults sh"
    using assms(1) by (simp_all add: sh1_def gpu_shared_inv_def split: if_splits)
  have e: "gpu_hash gj sh nonce nxt th =
      (if report \<and> gsCancel sh then (sh, th1\<lparr>tPc := Returned\<rparr>)
       else if hashMeetsTargetLE h (jTarget (gjJob gj))
       then (sh1\<lparr>gsFound := True\<rparr>, th1\<lparr>tPc := if gsFound sh1 then Returned else AtSend nonce h\<rparr>)
       else (sh1, th1\<lparr>tPc := nxt\<rparr>))"
    by (simp add: gpu_hash_def Inr Let_def report_def th1_def sh1_def)
  have sh2: "gpu_shared_inv gj (sh1\<lparr>gsFound := True\<rparr>)"
    using s1(1) by (simp add: gpu_shared_inv_def)
  have sent: "unsent (th1\<lparr>tPc := AtSend nonce h\<rparr>) = [(nonce, h)]" "unsent (th1\<lparr>tPc := Returned\<rparr>) = []"
    by (simp_all add: unsent_def)
  show ?thesis
    unfolding e using assms(1,4-6) s1 c0 c1 inv sending sh2 none sent plain [OF assms(6)]
    by (simp add: gpu_step_ok_def)
qed

lemma gpu_thread_step_ok:
  assumes "gpu_shared_inv gj sh" "gpu_thread_inv gj th" "\<not> halted th"
  shows "gpu_step_ok gj (sh, th) (gpu_thread_step gj sh th)"
proof (cases "tPc th")
  case AtOuter
  have q: "gpu_step_ok gj (sh, th) (sh, th\<lparr>tPc := p\<rparr>)" if "\<not> at_hash p" "p \<noteq> Finished" "unsent (th\<lparr>tPc := p\<rparr>) = []" for p
    using that assms by (intro gpu_step_ok_quiet) (simp_all add: gpu_thread_inv_def)
  show ?thesis using q gpu_exit_ok [OF assms] AtOuter
    by (simp add: gpu_thread_step_def gpu_outer_def unsent_def Let_def)
next
  case (AtInner n b)
  show ?thesis using AtInner assms
    by (auto simp: gpu_thread_step_def gpu_inner_def inner_exit_def gpu_thread_inv_def unsent_def Let_def intro!: gpu_step_ok_quiet)
next
  case (AtStride i)
  show ?thesis using AtStride assms
    by (auto simp: gpu_thread_step_def gpu_stride_def gpu_thread_inv_def unsent_def Let_def intro!: gpu_step_ok_quiet)
next
  case (AtHash n b)
  with gpu_hash_ok [OF assms(1,2)] show ?thesis by (simp add: gpu_thread_step_def)
next
  case (AtStrideHash i)
  with gpu_hash_ok [OF assms(1,2)] show ?thesis by (simp add: gpu_thread_step_def)
next
  case (AtSend n h)
  with assms show ?thesis
    by (simp add: gpu_thread_step_def gpu_send_def gpu_step_ok_def gpu_shared_inv_def gpu_thread_inv_def unsent_def
        credit_def Let_def)
qed (use assms in \<open>simp_all add: halted_def\<close>)

definition gpu_round_inv :: "GpuJob \<Rightarrow> GpuRound \<Rightarrow> bool" where
  "gpu_round_inv gj r \<longleftrightarrow> gpu_shared_inv gj (grShared r) \<and> list_all (gpu_thread_inv gj) (grThreads r) \<and>
     sum_list (map (length \<circ> unsent) (grThreads r)) + length (gsResults (grShared r)) \<le> flag_nat (gsFound (grShared r)) \<and>
     unat (gsTotal (grShared r)) \<le> sum_list (map credit (grThreads r)) \<and>
     length (grThreads r) = jThreads (gjJob gj)"

lemma gpu_init_inv: "gpu_round_inv gj (gpu_init gj)"
proof -
  have "map (length \<circ> unsent \<circ> thread_init (gjJob gj)) [0..<jThreads (gjJob gj)] = replicate (jThreads (gjJob gj)) 0"
    by (intro nth_equalityI) (simp_all add: thread_init_def unsent_def Let_def)
  then have "sum_list (map (length \<circ> unsent) (grThreads (gpu_init gj))) = 0"
    by (simp add: gpu_init_def sum_list_replicate comp_assoc)
  moreover have "list_all (gpu_thread_inv gj) (grThreads (gpu_init gj))"
    by (auto simp: gpu_init_def gpu_thread_inv_def thread_init_def unsent_def list_all_iff Let_def)
  ultimately show ?thesis by (simp add: gpu_round_inv_def gpu_init_def gpu_shared_inv_def)
qed

lemma flag_nat_le: "flag_nat b \<le> Suc 0"
  by (simp add: flag_nat_def)

lemma gpu_event_inv:
  assumes "gpu_round_inv gj r"
  shows "gpu_round_inv gj (gpu_event_step gj cap ev r)"
proof (cases ev)
  case (Worker i)
  show ?thesis
  proof (cases "i < length (grThreads r) \<and> \<not> halted (grThreads r ! i) \<and> gsCrashed (grShared r) = None")
    case True
    obtain sh th where st: "gpu_thread_step gj (grShared r) (grThreads r ! i) = (sh, th)" by fastforce
    have "gpu_step_ok gj (grShared r, grThreads r ! i) (sh, th)"
      using gpu_thread_step_ok [of gj "grShared r" "grThreads r ! i"] assms True
      by (simp add: gpu_round_inv_def list_all_length st)
    moreover have "sum_list (map credit ((grThreads r)[i := th])) + credit (grThreads r ! i) =
        sum_list (map credit (grThreads r)) + credit th"
      using True by (intro sum_list_update_add) simp
    moreover have "sum_list (map (length \<circ> unsent) ((grThreads r)[i := th])) + length (unsent (grThreads r ! i)) =
        sum_list (map (length \<circ> unsent) (grThreads r)) + length (unsent th)"
      using sum_list_update_add [of i "grThreads r" "length \<circ> unsent" th] True by simp
    ultimately show ?thesis using assms True
      by (auto simp: Worker st gpu_step_ok_def gpu_round_inv_def list_all_iff
          dest!: set_update_subset_insert [THEN subsetD])
  next
    case False
    then have "gpu_event_step gj cap ev r = r" unfolding Worker by (simp only: gpu_event_step.simps if_False)
    with assms show ?thesis by simp
  qed
next
  case (Tick t)
  have "gpu_shared_inv gj (cancel_round (grShared r))"
    using assms by (cases "gsFound (grShared r)") (simp_all add: gpu_round_inv_def gpu_shared_inv_def cancel_round_def)
  moreover have "sum_list (map (length \<circ> unsent) (grThreads r)) + length (gsResults (grShared r)) \<le> Suc 0"
    using assms flag_nat_le [of "gsFound (grShared r)"] unfolding gpu_round_inv_def by (meson order_trans)
  ultimately show ?thesis using assms
    by (auto simp: Tick gpu_round_inv_def cancel_round_def split: prod.split)
qed

lemma gpu_run_inv: "gpu_round_inv gj r \<Longrightarrow> gpu_round_inv gj (gpu_run gj cap evs r)"
  unfolding gpu_run_def by (induction evs arbitrary: r) (simp_all add: gpu_event_inv)

lemma sum_credit_le: "sum_list (map credit ths) \<le> sum_list (map (\<lambda>th. unat (localHashCount th)) ths)"
  by (rule sum_list_mono) (rule credit_le)

section \<open>Ending\<close>

text \<open>How many steps a worker makes at most once the flag is set.\<close>

definition steps_left :: "Thread \<Rightarrow> nat" where
  "steps_left th =
     (case tPc th of AtHash _ _ \<Rightarrow> 3 | AtStrideHash _ \<Rightarrow> 3 | AtInner _ _ \<Rightarrow> 2 | AtStride _ \<Rightarrow> 2 | AtOuter \<Rightarrow> 1 | AtSend _ _ \<Rightarrow> 1 | _ \<Rightarrow> 0)"

lemma steps_left_0: "steps_left th = 0 \<longleftrightarrow> halted th"
  by (simp add: steps_left_def halted_def split: pc.split)

lemma steps_left_pc:
  "steps_left (th\<lparr>tPc := Returned\<rparr>) = 0" "steps_left (th\<lparr>tPc := Finished\<rparr>) = 0"
  "steps_left (th\<lparr>tPc := AtInner n b\<rparr>) = 2" "steps_left (th\<lparr>tPc := AtStride i\<rparr>) = 2"
  by (simp_all add: steps_left_def)

lemma gpu_step_flagged:
  assumes "gpu_thread_step gj sh th = (sh', th')" "gsFound sh" "\<not> halted th"
  shows "gsFound sh' \<and> (gsCrashed sh' \<noteq> None \<or> gsCrashed sh' = gsCrashed sh \<and> steps_left th' < steps_left th)"
proof (cases "tPc th")
  case AtOuter
  with assms show ?thesis
    by (auto simp: gpu_thread_step_def gpu_outer_def gpu_exit_def steps_left_def Let_def split: if_splits)
next
  case (AtInner n b)
  with assms show ?thesis
    by (auto simp: gpu_thread_step_def gpu_inner_def inner_exit_def steps_left_def Let_def)
next
  case (AtStride i)
  with assms show ?thesis
    by (auto simp: gpu_thread_step_def gpu_stride_def steps_left_def Let_def)
next
  case (AtHash n b)
  with assms have "gpu_hash gj sh n (AtInner (if jMode (gjJob gj) = ''backward'' then n - 1 else n + 1) b) th = (sh', th')"
    by (simp add: gpu_thread_step_def)
  with AtHash assms(2) show ?thesis
    by (auto simp: gpu_hash_def steps_left_def Let_def split: sum.splits if_splits)
next
  case (AtStrideHash i)
  with assms show ?thesis
    by (auto simp: gpu_thread_step_def gpu_hash_def steps_left_def Let_def split: sum.splits if_splits)
next
  case (AtSend n h)
  with assms show ?thesis by (auto simp: gpu_thread_step_def gpu_send_def steps_left_def)
qed (use assms in \<open>simp_all add: halted_def\<close>)

definition turns :: "nat \<Rightarrow> gpu_event list \<Rightarrow> nat" where
  "turns i evs = length (filter (\<lambda>ev. ev = Worker i) evs)"

lemma turns_simps [simp]:
  "turns i [] = 0" "turns i (ev # evs) = (if ev = Worker i then Suc (turns i evs) else turns i evs)"
  by (simp_all add: turns_def)

text \<open>One event in a round whose flag is set.\<close>

lemma gpu_event_flagged:
  assumes "gsFound (grShared r)"
  shows "gsFound (grShared (gpu_event_step gj cap ev r)) \<and>
    length (grThreads (gpu_event_step gj cap ev r)) = length (grThreads r) \<and>
    (gsCrashed (grShared r) \<noteq> None \<longrightarrow> gsCrashed (grShared (gpu_event_step gj cap ev r)) \<noteq> None) \<and>
    (gsCrashed (grShared (gpu_event_step gj cap ev r)) \<noteq> None \<or>
     (\<forall>i < length (grThreads r). steps_left (grThreads (gpu_event_step gj cap ev r) ! i) + (if ev = Worker i then 1 else 0)
        \<le> max (steps_left (grThreads r ! i)) (if ev = Worker i then 1 else 0)))"
proof (cases ev)
  case (Worker k)
  show ?thesis
  proof (cases "k < length (grThreads r) \<and> \<not> halted (grThreads r ! k) \<and> gsCrashed (grShared r) = None")
    case True
    obtain sh th where st: "gpu_thread_step gj (grShared r) (grThreads r ! k) = (sh, th)" by fastforce
    from gpu_step_flagged [OF st assms] True have
      f: "gsFound sh" "gsCrashed sh \<noteq> None \<or> steps_left th < steps_left (grThreads r ! k)" by auto
    have e: "gpu_event_step gj cap ev r = r\<lparr>grShared := sh, grThreads := (grThreads r)[k := th]\<rparr>"
      using True by (simp add: Worker st)
    from f(2) show ?thesis
    proof
      assume "gsCrashed sh \<noteq> None"
      with e f(1) show ?thesis by simp
    next
      assume lt: "steps_left th < steps_left (grThreads r ! k)"
      have "steps_left ((grThreads r)[k := th] ! i) + (if ev = Worker i then 1 else 0)
          \<le> max (steps_left (grThreads r ! i)) (if ev = Worker i then 1 else 0)" if "i < length (grThreads r)" for i
        using that lt Worker by (cases "i = k") simp_all
      with e f(1) True show ?thesis by simp
    qed
  next
    case False
    then have e: "gpu_event_step gj cap ev r = r" unfolding Worker by (simp only: gpu_event_step.simps if_False)
    from False consider "gsCrashed (grShared r) \<noteq> None" | "\<not> k < length (grThreads r)"
      | "k < length (grThreads r)" "halted (grThreads r ! k)" by auto
    then show ?thesis
    proof cases
      case 3
      then have "steps_left (grThreads r ! k) = 0" by (simp add: steps_left_0)
      then show ?thesis unfolding e using assms Worker by auto
    next
      case 1
      then show ?thesis unfolding e using assms by simp
    next
      case 2
      then show ?thesis unfolding e using assms Worker by auto
    qed
  qed
next
  case (Tick t)
  with assms show ?thesis by (auto simp: cancel_round_def split: prod.split)
qed

lemma gpu_run_flagged:
  assumes "gsFound (grShared r)" "\<And>i. i < length (grThreads r) \<Longrightarrow> steps_left (grThreads r ! i) \<le> turns i evs"
  shows "gsCrashed (grShared (gpu_run gj cap evs r)) \<noteq> None \<or> list_all halted (grThreads (gpu_run gj cap evs r))"
  using assms
proof (induction evs arbitrary: r)
  case Nil
  then show ?case by (simp add: gpu_run_def list_all_length flip: steps_left_0)
next
  case (Cons ev evs)
  let ?r = "gpu_event_step gj cap ev r"
  note f = gpu_event_flagged [OF Cons.prems(1), of gj cap ev]
  show ?case
  proof (cases "gsCrashed (grShared ?r) = None")
    case True
    have "steps_left (grThreads ?r ! i) \<le> turns i evs" if i: "i < length (grThreads ?r)" for i
    proof -
      from f True i have "steps_left (grThreads ?r ! i) + (if ev = Worker i then 1 else 0)
          \<le> max (steps_left (grThreads r ! i)) (if ev = Worker i then 1 else 0)" by simp
      with Cons.prems(2) [of i] f i show ?thesis by (auto split: if_splits)
    qed
    with Cons.IH [of ?r] f show ?thesis by (simp add: gpu_run_def)
  next
    case False
    have "gsCrashed (grShared r1) \<noteq> None \<Longrightarrow> gsFound (grShared r1) \<Longrightarrow>
        gsCrashed (grShared (gpu_run gj cap es r1)) \<noteq> None" for es r1
    proof (induction es arbitrary: r1)
      case (Cons e es)
      with gpu_event_flagged [OF Cons.prems(2), of gj cap e] show ?case by (simp add: gpu_run_def)
    qed (simp add: gpu_run_def)
    with False f show ?thesis by (simp add: gpu_run_def)
  qed
qed

lemma steps_left_le: "steps_left th \<le> 3"
  by (simp add: steps_left_def split: pc.split)

definition ticks :: "gpu_event list \<Rightarrow> int list" where
  "ticks evs = concat (map (\<lambda>ev. case ev of Tick t \<Rightarrow> [t] | Worker i \<Rightarrow> []) evs)"

lemma ticks_simps [simp]:
  "ticks [] = []" "ticks (Tick t # evs) = t # ticks evs" "ticks (Worker i # evs) = ticks evs"
  by (simp_all add: ticks_def)

lemma gpu_run_simps [simp]:
  "gpu_run gj cap [] r = r" "gpu_run gj cap (ev # evs) r = gpu_run gj cap evs (gpu_event_step gj cap ev r)"
  by (simp_all add: gpu_run_def)

lemma gpu_run_append: "gpu_run gj cap (xs @ ys) r = gpu_run gj cap ys (gpu_run gj cap xs r)"
  by (simp add: gpu_run_def)

lemma gpu_run_keeps_flag:
  "gsFound (grShared r) \<Longrightarrow> gsFound (grShared (gpu_run gj cap evs r))"
  by (induction evs arbitrary: r) (simp_all add: gpu_event_flagged)

text \<open>What the watchdog remembers: its last tick, and that it has not given up without cancelling.\<close>

definition watch_inv :: "int \<Rightarrow> GpuRound \<Rightarrow> bool" where
  "watch_inv t r \<longleftrightarrow> waProgress (grWatch r) \<le> t \<and> (waDone (grWatch r) \<longrightarrow> gsFound (grShared r))"

lemma worker_watch [simp]: "grWatch (gpu_event_step gj cap (Worker i) r) = grWatch r"
  by (simp split: prod.split)

lemma worker_keeps_flag: "gsFound (grShared r) \<Longrightarrow> gsFound (grShared (gpu_event_step gj cap ev r))"
  by (simp add: gpu_event_flagged)

lemma watch_inv_run:
  "watch_inv t r \<Longrightarrow> (\<And>s. s \<in> set (ticks evs) \<Longrightarrow> s \<le> t) \<Longrightarrow> watch_inv t (gpu_run gj cap evs r)"
proof (induction evs arbitrary: r)
  case (Cons ev evs)
  have "watch_inv t (gpu_event_step gj cap ev r)"
  proof (cases ev)
    case (Worker i)
    with Cons.prems(1) worker_keeps_flag [of r gj cap ev] show ?thesis
      unfolding watch_inv_def Worker worker_watch by blast
  next
    case (Tick s)
    with Cons.prems have "s \<le> t" by simp
    with Cons.prems(1) Tick show ?thesis
      by (auto simp: watch_inv_def watch_tick_def cancel_round_def Let_def split: if_splits)
  qed
  with Cons.IH Cons.prems(2) show ?case by (cases ev) simp_all
qed simp

text \<open>A tick that finds the counter where it was.\<close>

lemma tick_stalled:
  assumes "waLastN (grWatch r) = n" "n \<noteq> 0" "gsTotal (grShared r) = n" "waLastT (grWatch r) + 500 \<le> t"
    and "waDone (grWatch r) \<longrightarrow> gsFound (grShared r)"
  shows "gsFound (grShared (gpu_event_step gj cap (Tick t) r)) \<or>
    t - waProgress (grWatch r) < 90000 \<and> waLastN (grWatch (gpu_event_step gj cap (Tick t) r)) = n \<and>
    waLastT (grWatch (gpu_event_step gj cap (Tick t) r)) = t \<and>
    waProgress (grWatch (gpu_event_step gj cap (Tick t) r)) = waProgress (grWatch r) \<and>
    \<not> waDone (grWatch (gpu_event_step gj cap (Tick t) r))"
  using assms by (auto simp: watch_tick_def cancel_round_def Let_def)

lemma stalled_run_flagged:
  assumes "waLastN (grWatch r) = n" "n \<noteq> 0" "waProgress (grWatch r) \<le> p"
    and "waDone (grWatch r) \<longrightarrow> gsFound (grShared r)"
    and "sorted_wrt (\<lambda>a b. a + 500 \<le> b) (waLastT (grWatch r) # ticks evs)"
    and "\<exists>t \<in> set (ticks evs). p + 90000 \<le> t"
    and "\<And>k. k \<le> length evs \<Longrightarrow> gsTotal (grShared (gpu_run gj cap (take k evs) r)) = n"
  shows "gsFound (grShared (gpu_run gj cap evs r))"
  using assms
proof (induction evs arbitrary: r)
  case (Cons ev evs)
  let ?r = "gpu_event_step gj cap ev r"
  have total: "gsTotal (grShared (gpu_run gj cap (take k evs) ?r)) = n" if "k \<le> length evs" for k
    using Cons.prems(7) [of "Suc k"] that by simp
  show ?case
  proof (cases "gsFound (grShared ?r)")
    case True
    then show ?thesis by (simp add: gpu_run_keeps_flag)
  next
    case False
    then have nf: "\<not> gsFound (grShared r)" using worker_keeps_flag by blast
    then have nd: "\<not> waDone (grWatch r)" using Cons.prems(4) by blast
    show ?thesis
    proof (cases ev)
      case (Worker i)
      have "gsFound (grShared (gpu_run gj cap evs ?r))"
        by (rule Cons.IH) (use Cons.prems nd total Worker in \<open>simp_all del: gpu_event_step.simps\<close>)
      then show ?thesis by simp
    next
      case (Tick t)
      have "gsTotal (grShared r) = n" using Cons.prems(7) [of 0] by simp
      moreover have "waLastT (grWatch r) + 500 \<le> t" using Cons.prems(5) Tick by simp
      ultimately have s: "t - waProgress (grWatch r) < 90000" "waLastN (grWatch ?r) = n" "waLastT (grWatch ?r) = t"
        "waProgress (grWatch ?r) = waProgress (grWatch r)" "\<not> waDone (grWatch ?r)"
        using tick_stalled [of r n t gj cap] Cons.prems(1,2,4) False unfolding Tick by blast+
      have "gsFound (grShared (gpu_run gj cap evs ?r))"
        by (rule Cons.IH) (use Cons.prems s total Tick in \<open>auto simp del: gpu_event_step.simps\<close>)
      then show ?thesis by simp
    qed
  qed
qed simp

text \<open>The first tick that sees a new count, or the same one again.\<close>

lemma tick_notes:
  assumes "n \<noteq> 0" "gsTotal (grShared r) = n" "watch_inv t r"
  shows "gsFound (grShared (gpu_event_step gj cap (Tick t) r)) \<or>
    waLastN (grWatch (gpu_event_step gj cap (Tick t) r)) = n \<and>
    waLastT (grWatch (gpu_event_step gj cap (Tick t) r)) = t"
  using assms by (auto simp: watch_tick_def cancel_round_def watch_inv_def Let_def)

lemma tick_total: "gsTotal (grShared (gpu_event_step gj cap (Tick t) r)) = gsTotal (grShared r)"
  by (simp add: cancel_round_def split: prod.split)

lemma stalled_flagged:
  assumes "watch_inv t0 r" "n \<noteq> 0" "sorted_wrt (\<lambda>a b. a + 500 \<le> b) (t0 # ticks quiet)"
    and "\<exists>t \<in> set (ticks quiet). t0 + 90000 \<le> t"
    and "\<And>k. k \<le> length quiet \<Longrightarrow> gsTotal (grShared (gpu_run gj cap (Tick t0 # take k quiet) r)) = n"
  shows "gsFound (grShared (gpu_run gj cap (Tick t0 # quiet) r))"
proof -
  let ?r = "gpu_event_step gj cap (Tick t0) r"
  have n: "gsTotal (grShared r) = n" using assms(5) [of 0] by (simp add: tick_total del: gpu_event_step.simps)
  show ?thesis
  proof (cases "gsFound (grShared ?r)")
    case True
    then show ?thesis by (simp add: gpu_run_keeps_flag del: gpu_event_step.simps)
  next
    case False
    with tick_notes [OF assms(2) n assms(1), of gj cap]
    have w: "waLastN (grWatch ?r) = n" "waLastT (grWatch ?r) = t0" by blast+
    have "watch_inv t0 ?r" using watch_inv_run [OF assms(1), of "[Tick t0]" gj cap] by simp
    then have i: "waProgress (grWatch ?r) \<le> t0" "waDone (grWatch ?r) \<longrightarrow> gsFound (grShared ?r)"
      by (simp_all add: watch_inv_def del: gpu_event_step.simps)
    have "gsFound (grShared (gpu_run gj cap quiet ?r))"
      by (rule stalled_run_flagged [OF w(1) assms(2) i]) (use assms w in \<open>simp_all del: gpu_event_step.simps\<close>)
    then show ?thesis by (simp del: gpu_event_step.simps)
  qed
qed

lemma gpu_run_length: "length (grThreads (gpu_run gj cap evs (gpu_init gj))) = jThreads (gjJob gj)"
  using gpu_run_inv [OF gpu_init_inv, of gj cap evs] by (simp add: gpu_round_inv_def)

section \<open>Properties\<close>

lemma gpu_hash_nonce_eq: "gpu_hash_nonce key b n = hash_nonce key NewScryptMiner b n"
  by (simp add: gpu_hash_nonce_def hash_nonce_def scryptHashFast_def scryptHash_def NewScryptMiner_def)

lemma gpu_run_round: "gpu_round_inv gj (gpu_run gj cap evs (gpu_init gj))"
  by (intro gpu_run_inv gpu_init_inv)

text \<open>C18: however workers and watchdog interleave, there is at most one result, sent or about to be, and one that was
  sent is a genuine solution; no worker exceeds its share, and the reported number of hashes is not more than were
  computed.\<close>

theorem gpu_parallel_safety:
  "length (filter (\<lambda>th. \<exists>n h. tPc th = AtSend n h) (grThreads (gpu_run gj cap evs (gpu_init gj)))) +
     length (gsResults (grShared (gpu_run gj cap evs (gpu_init gj)))) \<le> 1 \<and>
   list_all (gpu_genuine gj) (gsResults (grShared (gpu_run gj cap evs (gpu_init gj)))) \<and>
   list_all (\<lambda>th. localHashCount th \<le> jMax (gjJob gj)) (grThreads (gpu_run gj cap evs (gpu_init gj))) \<and>
   unat (gsTotal (grShared (gpu_run gj cap evs (gpu_init gj))))
     \<le> sum_list (map (\<lambda>th. unat (localHashCount th)) (grThreads (gpu_run gj cap evs (gpu_init gj))))"
proof -
  obtain r where r: "gpu_run gj cap evs (gpu_init gj) = r" by simp
  have inv: "gpu_round_inv gj r" using gpu_run_round [of gj cap evs] r by simp
  have "sum_list (map (length \<circ> unsent) (grThreads r)) + length (gsResults (grShared r)) \<le> Suc 0"
    using inv flag_nat_le [of "gsFound (grShared r)"] unfolding gpu_round_inv_def by (meson order_trans)
  moreover have "unat (gsTotal (grShared r)) \<le> sum_list (map (\<lambda>th. unat (localHashCount th)) (grThreads r))"
    using inv sum_credit_le [of "grThreads r"] unfolding gpu_round_inv_def by (meson order_trans)
  moreover have "list_all (\<lambda>th. localHashCount th \<le> jMax (gjJob gj)) (grThreads r)"
    using inv by (auto simp: gpu_round_inv_def gpu_thread_inv_def list_all_iff)
  ultimately show ?thesis using inv unfolding r unsent_sending by (simp add: gpu_round_inv_def gpu_shared_inv_def)
qed

lemma gpu_mineParallel_found:
  assumes "gpu_mineParallel key g b target t evs pickDone = Some (Inr out)" "moFound out"
  shows "\<exists>targetLE h. target_le_bytes target = Inr targetLE \<and> gpu_hash_nonce key b (moNonce out) = Inr h \<and>
    moHash out = Some h \<and> hashMeetsTargetLE h targetLE \<and> moNonce out \<noteq> 0 \<and> \<not> pickDone"
proof -
  from assms(1) obtain tb where tb: "target_le_bytes target = Inr tb"
    by (cases "target_le_bytes target") (auto simp: gpu_mineParallel_def split: if_splits)
  define gj where "gj = gpu_job key g b tb (calculateStartNonce b (gNonceStartMode g) t)"
  define sh where "sh = grShared (gpu_run gj (gpu_effectiveMaxHashes g) evs (gpu_init gj))"
  from assms(1) tb have sel: "gpu_select pickDone target sh = Inr out"
    by (auto simp: gpu_mineParallel_def Let_def gj_def sh_def split: if_splits option.splits)
  have "list_all (gpu_genuine gj) (gsResults sh)" using gpu_run_round [of gj "gpu_effectiveMaxHashes g" evs]
    by (simp add: sh_def gpu_round_inv_def gpu_shared_inv_def)
  moreover from sel assms(2) tb obtain h rs where "gsResults sh = (moNonce out, h) # rs" "moHash out = Some h"
    "moNonce out \<noteq> 0" "hashMeetsTargetLE h tb" "\<not> pickDone"
    by (auto simp: gpu_select_def Let_def split: if_splits list.splits prod.splits)
  ultimately show ?thesis using tb by (auto simp: gpu_genuine_def gj_def gpu_job_def Let_def)
qed

text \<open>A solution the GPU miner's CPU round reports is one: the scrypt hash of the header with that nonce
  meets the target, and it is returned in the little-endian form that the mining loop checks.\<close>

theorem gpu_found_sound:
  assumes "gpu_mineParallel key g b target t evs pickDone = Some (Inr out)" "moFound out"
    and "wf_block b" "key_ok key NewScryptMiner"
  shows "\<exists>h. pow_hash key NewScryptMiner (b\<lparr>bNonce := moNonce out\<rparr>) = Some h \<and> moHash out = Some h \<and>
    le_nat h \<le> target \<and> moNonce out \<noteq> 0"
  using gpu_mineParallel_found [OF assms(1,2)] hash_nonce_pow [OF assms(3,4), of "moNonce out"]
  by (auto simp: gpu_hash_nonce_eq meets_target_le_bytes)

text \<open>A round that returns a solution would have lost it under the other choice of the final \<open>select\<close>:
  when all workers are done, the closed channel and the waiting result are both ready and Go picks
  one of them at random.\<close>

theorem gpu_solution_race:
  assumes "gpu_mineParallel key g b target t evs False = Some (Inr out)" "moFound out"
  shows "gpu_mineParallel key g b target t evs True =
    Some (Inr \<lparr>moNonce = 0, moHash = None, moFound = False, moHashCount = moHashCount out\<rparr>)"
proof -
  from assms(1) obtain tb where tb: "target_le_bytes target = Inr tb"
    by (cases "target_le_bytes target") (auto simp: gpu_mineParallel_def split: if_splits)
  define gj where "gj = gpu_job key g b tb (calculateStartNonce b (gNonceStartMode g) t)"
  define r where "r = gpu_run gj (gpu_effectiveMaxHashes g) evs (gpu_init gj)"
  from assms(1) tb have sel: "gpu_select False target (grShared r) = Inr out" "0 < gThreadCount g"
      "gsCrashed (grShared r) = None" "list_all halted (grThreads r)"
    by (auto simp: gpu_mineParallel_def Let_def gj_def r_def split: if_splits option.splits)
  then have "moHashCount out = gsTotal (grShared r)"
    by (auto simp: gpu_select_def Let_def ebind_eq_Inr_iff split: if_splits list.splits)
  with sel tb show ?thesis
    by (simp add: gpu_mineParallel_def Let_def gj_def [symmetric] r_def [symmetric] gpu_select_def)
qed

text \<open>C34: a round in which the counter stands still for 90 seconds of ticks, after at least one reported
  hash, ends: the watchdog sets the flag, and then three more turns of each worker suffice.
  So the range mode, which can hang the CPU miner, cannot hang this one.\<close>

theorem stalled_round_ends:
  assumes "\<forall>t \<in> set (ticks pre). t \<le> t0" "0 \<le> t0" "sorted_wrt (\<lambda>a b. a + 500 \<le> b) (t0 # ticks quiet)"
    and "\<exists>t \<in> set (ticks quiet). t0 + 90000 \<le> t" "n \<noteq> 0"
    and "\<forall>k \<le> length quiet. gsTotal (grShared (gpu_run gj cap (pre @ Tick t0 # take k quiet) (gpu_init gj))) = n"
    and "\<forall>i < jThreads (gjJob gj). 3 \<le> turns i final"
  shows "gsCrashed (grShared (gpu_run gj cap (pre @ Tick t0 # quiet @ final) (gpu_init gj))) \<noteq> None \<or>
    list_all halted (grThreads (gpu_run gj cap (pre @ Tick t0 # quiet @ final) (gpu_init gj)))"
proof -
  define r where "r = gpu_run gj cap pre (gpu_init gj)"
  have "watch_inv t0 (gpu_init gj)" using assms(2) by (simp add: watch_inv_def gpu_init_def watch_init_def)
  then have "watch_inv t0 r" unfolding r_def by (rule watch_inv_run) (use assms(1) in blast)
  then have f: "gsFound (grShared (gpu_run gj cap (Tick t0 # quiet) r))"
    by (rule stalled_flagged [OF _ assms(5,3,4)])
      (use assms(6) in \<open>simp only: gpu_run_append r_def [symmetric]\<close>)
  define s where "s = gpu_run gj cap (Tick t0 # quiet) r"
  have s: "s = gpu_run gj cap (pre @ Tick t0 # quiet) (gpu_init gj)" by (simp only: s_def r_def gpu_run_append)
  then have len: "length (grThreads s) = jThreads (gjJob gj)" by (simp only: gpu_run_length)
  have left: "steps_left (grThreads s ! i) \<le> turns i final" if "i < length (grThreads s)" for i
    using order_trans [OF steps_left_le] assms(7) that len by simp
  have "gsCrashed (grShared (gpu_run gj cap final s)) \<noteq> None \<or> list_all halted (grThreads (gpu_run gj cap final s))"
    by (rule gpu_run_flagged [OF f [folded s_def] left])
  moreover have "gpu_run gj cap final s = gpu_run gj cap (pre @ Tick t0 # quiet @ final) (gpu_init gj)"
    unfolding s gpu_run_append [symmetric] by simp
  ultimately show ?thesis by simp
qed

section \<open>Witnesses\<close>

definition gpuMiner2 :: "u64 \<Rightarrow> GPUMiner" where
  "gpuMiner2 maxHashes = NewGPUMiner 8 maxHashes 2"

text \<open>Worker 0 finds nonce 1 at once and worker 1 stops.\<close>

definition hit_events :: "gpu_event list" where
  "hit_events = [Worker 0, Worker 0, Worker 0, Worker 0, Worker 1]"

lemma gpu_hash_zeroKey: "gpu_hash_nonce zeroKey sampleBlock n = Inr (replicate 32 0)"
  by (simp add: gpu_hash_nonce_eq hash_nonce_zeroKey)

lemma gpu_hit:
  "gpu_mineParallel zeroKey ((gpuMiner2 1000)\<lparr>gNonceStartMode := ''random''\<rparr>) sampleBlock 5 1 hit_events False =
     Some (Inr \<lparr>moNonce = 1, moHash = Some (replicate 32 0), moFound = True, moHashCount = 0\<rparr>)"
proof -
  let ?g = "(gpuMiner2 1000)\<lparr>gNonceStartMode := ''random''\<rparr>"
  define gj where "gj = gpu_job zeroKey ?g sampleBlock (5 # replicate 31 0) 1"
  have g: "gThreadCount ?g = 2" "gNonceSearchMode ?g \<noteq> ''backward''" "gUseStride ?g" "gBatchSize ?g = 262144"
    by (simp_all add: gpuMiner2_def NewGPUMiner_def)
  have j: "jMode (gjJob gj) \<noteq> ''backward''" "jStride (gjJob gj)" "jThreads (gjJob gj) = 2" "jBase (gjJob gj) = 1"
    "0 < jMax (gjJob gj)" "jHash (gjJob gj) = (\<lambda>n. Inr (replicate 32 0))" "jTarget (gjJob gj) = 5 # replicate 31 0"
    "gjBatch gj = 262144"
    using g by (simp_all add: gj_def gpu_job_def gpu_hash_zeroKey fun_eq_iff word_neq_0_conv Let_def)
  have st: "threadStart (thread_init (gjJob gj) 0) = 1" using j by (simp add: thread_init_def Let_def)
  have hit: "hashMeetsTargetLE (replicate 32 0) (5 # replicate 31 0)" by (simp add: hashMeetsTargetLE_iff)
  obtain r where run: "gpu_run gj (gpu_effectiveMaxHashes ?g) hit_events (gpu_init gj) = r" by simp
  have "list_all halted (grThreads r) \<and>
      grShared r = \<lparr>gsFound = True, gsCancel = False, gsResults = [(1, replicate 32 0)], gsTotal = 0, gsCrashed = None\<rparr>"
    using run j st hit
    by (auto simp: hit_events_def gpu_init_def upt_rec halted_def gpu_thread_step_def gpu_outer_def gpu_stride_def
        gpu_hash_def gpu_send_def gpu_exit_def Let_def)
  then show ?thesis
    using run hit g by (simp add: gpu_mineParallel_def target_5 calculateStartNonce_def gpu_select_def Let_def flip: gj_def)
qed

theorem gpu_found_sound_witness:
  "\<exists>h. pow_hash zeroKey NewScryptMiner (sampleBlock\<lparr>bNonce := 1\<rparr>) = Some h \<and> le_nat h \<le> 5"
  using gpu_found_sound [OF gpu_hit] by (auto simp: sample_ok key_ok_def zeroKey_def)

theorem gpu_solution_race_witness:
  "gpu_mineParallel zeroKey ((gpuMiner2 1000)\<lparr>gNonceStartMode := ''random''\<rparr>) sampleBlock 5 1 hit_events True =
     Some (Inr \<lparr>moNonce = 0, moHash = None, moFound = False, moHashCount = 0\<rparr>)"
  using gpu_solution_race [OF gpu_hit] by simp

text \<open>Worker 0 does its one hash and finishes, worker 1 is stuck for 91 seconds.\<close>

definition stuck_job :: GpuJob where
  "stuck_job = gpu_job sampleKey (gpuMiner2 2) sampleBlock (replicate 32 0) 7"

definition one_hash :: "gpu_event list" where
  "one_hash = [Worker 0, Worker 0, Worker 0, Worker 0, Worker 0, Worker 0]"

lemma gpu_hash_sampleKey: "gpu_hash_nonce sampleKey sampleBlock n = Inr (replicate 32 255)"
  by (simp add: gpu_hash_nonce_eq hash_nonce_def precomputeHeaderBase_nonce sample_ok scryptHash_def sampleKey_def)

lemma one_hash_total: "gsTotal (grShared (gpu_run stuck_job 2 one_hash (gpu_init stuck_job))) = 1"
proof -
  have j: "jMode (gjJob stuck_job) \<noteq> ''backward''" "jStride (gjJob stuck_job)" "jThreads (gjJob stuck_job) = 2"
    "jMax (gjJob stuck_job) = 1" "jHash (gjJob stuck_job) = (\<lambda>n. Inr (replicate 32 255))"
    "jTarget (gjJob stuck_job) = replicate 32 0" "gjBatch stuck_job = 262144"
    by (simp_all add: stuck_job_def gpu_job_def gpu_hash_sampleKey fun_eq_iff gpuMiner2_def NewGPUMiner_def
        gpu_effectiveMaxHashes_def Let_def)
  have miss: "\<not> hashMeetsTargetLE (replicate 32 255) (replicate 32 0)"
    by (simp add: hashMeetsTargetLE_iff le_nat_replicate_255)
  show ?thesis using j miss
    by (simp add: one_hash_def gpu_init_def upt_rec halted_def gpu_thread_step_def gpu_outer_def
        gpu_stride_def gpu_hash_def gpu_exit_def Let_def)
qed

lemma gpu_run_no_crash:
  assumes "\<And>n p. jHash (gjJob gj) n \<noteq> Inl p"
  shows "gsCrashed (grShared r) = None \<Longrightarrow> gsCrashed (grShared (gpu_run gj cap evs r)) = None"
proof (induction evs arbitrary: r)
  case (Cons ev evs)
  have hash: "gsCrashed (fst (gpu_hash gj sh n nxt th)) = gsCrashed sh" for sh n nxt th
    using assms by (auto simp: gpu_hash_def Let_def split: sum.split)
  have step: "gsCrashed (fst (gpu_thread_step gj sh th)) = gsCrashed sh" for sh th
    by (auto simp: gpu_thread_step_def gpu_outer_def gpu_exit_def gpu_send_def hash Let_def split: pc.split)
  have "gsCrashed (grShared (gpu_event_step gj cap ev r)) = None"
  proof (cases ev)
    case (Worker i)
    then show ?thesis using Cons.prems step [of "grShared r" "grThreads r ! i"] by (auto split: prod.split)
  next
    case (Tick t)
    then show ?thesis using Cons.prems by (auto simp: cancel_round_def split: prod.split)
  qed
  then show ?case using Cons.IH by (simp only: gpu_run_simps)
qed simp

theorem stalled_round_ends_witness:
  "list_all halted (grThreads (gpu_run stuck_job 2 (one_hash @ Tick 1000 # [Tick 92000] @ replicate 3 (Worker 0) @ replicate 3 (Worker 1))
      (gpu_init stuck_job)))"
proof -
  have e: "gpu_run stuck_job 2 (one_hash @ Tick 1000 # take k [Tick 92000]) (gpu_init stuck_job) =
      gpu_run stuck_job 2 (Tick 1000 # take k [Tick 92000]) (gpu_run stuck_job 2 one_hash (gpu_init stuck_job))" for k
    by (simp only: gpu_run_append)
  have "gsTotal (grShared (gpu_run stuck_job 2 (Tick 1000 # take k [Tick 92000]) r)) = gsTotal (grShared r)" for k r
    by (cases k) (simp_all add: tick_total del: gpu_event_step.simps)
  then have total: "\<forall>k \<le> length [Tick 92000]. gsTotal (grShared (gpu_run stuck_job 2
      (one_hash @ Tick 1000 # take k [Tick 92000]) (gpu_init stuck_job))) = 1"
    by (simp only: e one_hash_total) simp
  have "jThreads (gjJob stuck_job) = 2" by (simp add: stuck_job_def gpu_job_def gpuMiner2_def NewGPUMiner_def Let_def)
  then have turns: "\<forall>i < jThreads (gjJob stuck_job). 3 \<le> turns i (replicate 3 (Worker 0) @ replicate 3 (Worker 1))"
    by (auto simp: numeral_eq_Suc less_Suc_eq)
  have alive: "gsCrashed (grShared (gpu_run stuck_job 2 evs (gpu_init stuck_job))) = None" for evs
    by (rule gpu_run_no_crash) (simp_all add: stuck_job_def gpu_job_def gpu_hash_sampleKey gpu_init_def Let_def)
  show ?thesis
  proof (rule disjE [OF stalled_round_ends [OF _ _ _ _ _ total turns]])
    assume "gsCrashed (grShared (gpu_run stuck_job 2 (one_hash @ Tick 1000 # [Tick 92000] @ replicate 3 (Worker 0) @ replicate 3 (Worker 1))
      (gpu_init stuck_job))) \<noteq> None"
    then show ?thesis by (rule notE) (rule alive)
  qed (simp_all only: ticks_simps list.set sorted_wrt.simps one_hash_def, simp_all)
qed

end
