(* ===== verification/GpuKernel.thy ===== *)
theory GpuKernel
  imports GpuDriver GpuParallel
begin

text \<open>
  \<open>mineWithOpenCLKernel\<close> of \<open>src/gpu_miner.go\<close>: one GPU round as a loop of batches. Each batch creates
  its buffers (or uses the ones created once for the split kernels), runs the kernel or the two
  split kernels over a range of nonces, reads the results buffer and checks what the kernel
  claims to have found, on the host and again with scrypt on the CPU. The driver is that of
  \<open>GpuDriver\<close>; the CPU round that one error falls back to is a parameter.
\<close>

unbundle bit_operations_syntax

section \<open>A batch\<close>

definition work_size :: "u64 \<Rightarrow> u64 \<Rightarrow> u64 \<Rightarrow> u64" where
  "work_size maxHashes tried batch =
     (let remaining = maxHashes - tried; w = (if remaining < batch then remaining else batch) in
      if 256 < w then (w div 256) * 256
      else if 0 < w \<and> w < 256 then (if 128 < w then 128 else if 64 < w then 64 else 32)
      else w)"

definition local_size :: "u64 \<Rightarrow> u64" where
  "local_size w = (case filter (\<lambda>s. w mod s = 0) [128, 64, 256, 32, 16] of [] \<Rightarrow> 0 | s # _ \<Rightarrow> s)"

text \<open>What the batch found: the kernel's claim, checked against the target and then by the CPU.\<close>

definition check_hit :: "scrypt_key \<Rightarrow> byte list \<Rightarrow> byte list \<Rightarrow> u32 list \<Rightarrow> (u32 \<times> byte list) option" where
  "check_hit key header target ws =
     (if ws ! 0 \<noteq> 1 then None
      else
        let nonce = ws ! 1; header80 = header @ put_u32 nonce in
        if \<not> hashMeetsTargetLE (result_hash ws) target then None
        else case key header80 header80 1024 1 1 32 of
          None \<Rightarrow> None
        | Some h \<Rightarrow>
            let hashLE = take 32 (h @ replicate 32 0)
            in if hashMeetsTargetLE hashLE target then Some (nonce, hashLE) else None)"

record KernelEnv =
  keDriver :: cl_driver
  keKey :: scrypt_key
  keCopy :: bool
  keSlice :: nat
  keHeader :: "byte list"
  keTarget :: "byte list"
  keMax :: u64
  keStart :: u32
  keCpu :: MineOutcome

text \<open>The header, target and results buffers of one batch.\<close>

definition batch_buffers :: "KernelEnv \<Rightarrow> history \<Rightarrow> (nat \<times> nat \<times> nat) option \<times> history" where
  "batch_buffers env h =
     (let drv = keDriver env in
      case cl drv (CreateBuffer CL_MEM_READ_ONLY (of_nat (length (keHeader env))) 0) h of
        (hb, h) \<Rightarrow>
          if \<not> made hb then (None, h)
          else case cl drv (WriteBuffer (rpHandle hb) (keHeader env)) h of
            (r, h) \<Rightarrow>
              if rpErr r \<noteq> 0 then (None, release_all [rpHandle hb] h)
              else case cl drv (CreateBuffer CL_MEM_READ_ONLY 32 0) h of
                (tb, h) \<Rightarrow>
                  if \<not> made tb then (None, release_all [rpHandle hb] h)
                  else case cl drv (WriteBuffer (rpHandle tb) (keTarget env)) h of
                    (r, h) \<Rightarrow>
                      if rpErr r \<noteq> 0 then (None, release_all [rpHandle hb, rpHandle tb] h)
                      else case cl drv (CreateBuffer CL_MEM_WRITE_ONLY 136 0) h of
                        (rb, h) \<Rightarrow>
                          if \<not> made rb then (None, release_all [rpHandle hb, rpHandle tb] h)
                          else (Some (rpHandle hb, rpHandle tb, rpHandle rb), h))"

text \<open>Creating buffers one after another until one fails; the handles so far, the last one's included.\<close>

primrec create_chain :: "cl_driver \<Rightarrow> (nat \<times> u64) list \<Rightarrow> nat list \<Rightarrow> history \<Rightarrow> nat list \<times> bool \<times> history" where
  "create_chain drv [] bs h = (bs, True, h)"
| "create_chain drv (s # ss) bs h =
     (case cl drv (CreateBuffer (fst s) (snd s) 0) h of
        (r, h) \<Rightarrow>
          if made r then create_chain drv ss (bs @ [rpHandle r]) h else (bs @ [rpHandle r], False, h))"

definition state_bytes :: u64 where "state_bytes = 32 * 4"

definition split_specs :: "u64 \<Rightarrow> (nat \<times> u64) list" where
  "split_specs w =
     [(CL_MEM_WRITE_ONLY, w * scratchpadPerThread), (CL_MEM_READ_ONLY, w * scratchpadPerThread),
      (CL_MEM_WRITE_ONLY, w * state_bytes), (CL_MEM_READ_ONLY, w * state_bytes)]"

text \<open>The buffers that all batches of the split path share, when they can all be had.\<close>

record ReuseBuffers =
  rbThree :: "nat \<times> nat \<times> nat"
  rbFour :: "nat list"

definition reuse_buffers :: "KernelEnv \<Rightarrow> OpenCLContext \<Rightarrow> u64 \<Rightarrow> history \<Rightarrow> ReuseBuffers option \<times> history" where
  "reuse_buffers env ctx batch h =
     (if useSplitKernelPath ctx \<and> split_ready (keCopy env) ctx then
        (case create_chain (keDriver env)
             ([(CL_MEM_READ_ONLY, of_nat (length (keHeader env))), (CL_MEM_READ_ONLY, 32), (CL_MEM_WRITE_ONLY, 136)] @
              split_specs batch) [] h of
           (bs, ok, h) \<Rightarrow>
             if ok
             then (Some \<lparr>rbThree = (bs ! 0, bs ! 1, bs ! 2), rbFour = drop 3 bs\<rparr>,
                   WriteBuffer (bs ! 1) (keTarget env) # WriteBuffer (bs ! 0) (keHeader env) # h)
             else (None, release_all (filter (\<lambda>b. b \<noteq> 0) (take 6 bs)) h))
      else (None, h))"

datatype batch_end = Scanned "(u32 \<times> byte list) option" | Halved u64 | FellBack

section \<open>The split kernels\<close>

definition run_split ::
  "KernelEnv \<Rightarrow> OpenCLContext \<Rightarrow> u32 \<Rightarrow> u64 \<Rightarrow> nat \<times> nat \<times> nat \<Rightarrow> nat list \<Rightarrow> history \<Rightarrow>
     (u32 \<times> byte list) option \<times> history" where
  "run_split env ctx nonce w three four h =
     (case three of (hb, tb, rb) \<Rightarrow>
        let drv = keDriver env; vw = four ! 0; vr = four ! 1; sw = four ! 2; sr = four ! 3;
            h = set_args (kernelFill ctx) [BufferArg hb, NonceArg nonce, BufferArg vw, BufferArg sw] h in
        case cl drv (RunKernel (kernelFill ctx) w (local_size w)) h of
          (r, h) \<Rightarrow>
            if rpErr r \<noteq> 0 then (None, h)
            else
              let h = FinishQueue # CopyBuffer sw sr (w * state_bytes) # CopyBuffer vw vr (w * scratchpadPerThread) # h;
                  h = set_args (kernelMix ctx)
                    [BufferArg hb, NonceArg nonce, BufferArg sr, BufferArg vr, BufferArg tb, BufferArg rb] h
              in case cl drv (RunKernel (kernelMix ctx) w (local_size w)) h of
                (r, h) \<Rightarrow>
                  if rpErr r \<noteq> 0 then (None, h)
                  else case cl drv (ReadResults rb) (FinishQueue # h) of
                    (r, h) \<Rightarrow> (if rpErr r = 0 then check_hit (keKey env) (keHeader env) (keTarget env) (result_words r)
                               else None, h))"

definition three_list :: "nat \<times> nat \<times> nat \<Rightarrow> nat list" where
  "three_list t = (case t of (a, b, c) \<Rightarrow> [a, b, c])"

text \<open>With the shared buffers nothing is released here, without them everything is.\<close>

definition split_batch ::
  "KernelEnv \<Rightarrow> OpenCLContext \<Rightarrow> ReuseBuffers option \<Rightarrow> u32 \<Rightarrow> u64 \<Rightarrow> nat \<times> nat \<times> nat \<Rightarrow> history \<Rightarrow>
     (u32 \<times> byte list) option \<times> history" where
  "split_batch env ctx reuse nonce w three h =
     (case reuse of
        Some rb \<Rightarrow> run_split env ctx nonce w three (rbFour rb) h
      | None \<Rightarrow>
          (case create_chain (keDriver env) (split_specs w) [] h of
             (bs, ok, h) \<Rightarrow>
               if ok
               then (case run_split env ctx nonce w three bs h of
                       (res, h) \<Rightarrow> (res, release_all (three_list three @ bs) h))
               else (None, release_all (three_list three @ butlast bs) h)))"

section \<open>The single kernel\<close>

text \<open>The scratchpad as the probe found it to work; \<open>None\<close> in front when the pages could not be had.\<close>

definition create_scratchpad ::
  "KernelEnv \<Rightarrow> OpenCLContext \<Rightarrow> u64 \<Rightarrow> history \<Rightarrow> (cl_reply \<times> nat) option \<times> history" where
  "create_scratchpad env ctx w h =
     (let drv = keDriver env; n = w * scratchpadPerThread in
      if useHostPtrScratchpad ctx then
        (case (if useVirtualAllocScratch ctx then allocPageAligned drv n h else (keSlice env, h)) of
           (p, h) \<Rightarrow>
             if useVirtualAllocScratch ctx \<and> p = 0 then (None, h)
             else case cl drv (CreateBuffer (CL_MEM_READ_WRITE OR CL_MEM_USE_HOST_PTR) n p) h of
               (r, h) \<Rightarrow> (Some (r, if useVirtualAllocScratch ctx then p else 0), h))
      else case cl drv (CreateBuffer CL_MEM_READ_WRITE n 0) h of
        (r, h) \<Rightarrow>
          if made r then (Some (r, 0), h)
          else case cl drv (CreateBuffer (CL_MEM_READ_WRITE OR CL_MEM_ALLOC_HOST_PTR) n 0) h of
            (r, h) \<Rightarrow> (Some (r, 0), h))"

definition CL_INVALID_VALUE :: int where "CL_INVALID_VALUE = -30"
definition CL_INVALID_WORK_GROUP_SIZE :: int where "CL_INVALID_WORK_GROUP_SIZE = -54"

text \<open>
  A scratchpad the driver refuses does not give back the pages. Error -54 of the kernel hands the
  rest of the round to the CPU.
\<close>

definition single_batch ::
  "KernelEnv \<Rightarrow> OpenCLContext \<Rightarrow> u64 \<Rightarrow> u32 \<Rightarrow> u64 \<Rightarrow> nat \<times> nat \<times> nat \<Rightarrow> history \<Rightarrow> batch_end \<times> history" where
  "single_batch env ctx batch nonce w three h =
     (case three of (hb, tb, rb) \<Rightarrow>
        let drv = keDriver env in
        case create_scratchpad env ctx w h of
          (None, h) \<Rightarrow> (Scanned None, release_all [hb, tb, rb] h)
        | (Some (sp, pages), h) \<Rightarrow>
            if \<not> made sp then
              (if rpErr sp = CL_INVALID_VALUE \<and> 256 < batch
               then Halved (if batch div 2 < 256 then 256 else batch div 2) else Scanned None,
               release_all [hb, tb, rb] h)
            else
              let clean = (\<lambda>h. freePageAligned pages (release_all [hb, tb, rb, rpHandle sp] h));
                  h = set_args (clKernel ctx) [BufferArg hb, NonceArg nonce, BufferArg tb, BufferArg rb, BufferArg (rpHandle sp)] h
              in case cl drv (RunKernel (clKernel ctx) w (local_size w)) h of
                (r, h) \<Rightarrow>
                  if rpErr r = CL_INVALID_WORK_GROUP_SIZE then (FellBack, clean h)
                  else if rpErr r \<noteq> 0 then (Scanned None, clean h)
                  else case cl drv (ReadResults rb) (FinishQueue # h) of
                    (r, h) \<Rightarrow>
                      (Scanned (if rpErr r = 0
                                then check_hit (keKey env) (keHeader env) (keTarget env) (result_words r) else None),
                       clean h))"

section \<open>The round\<close>

definition run_batch ::
  "KernelEnv \<Rightarrow> OpenCLContext \<Rightarrow> ReuseBuffers option \<Rightarrow> u64 \<Rightarrow> u64 \<Rightarrow> u64 \<Rightarrow> history \<Rightarrow> batch_end \<times> history" where
  "run_batch env ctx reuse batch w tried h =
     (let nonce = keStart env + ucast tried in
      case (case reuse of Some rb \<Rightarrow> (Some (rbThree rb), h) | None \<Rightarrow> batch_buffers env h) of
        (None, h) \<Rightarrow> (Scanned None, h)
      | (Some three, h) \<Rightarrow>
          let h = ZeroResults (snd (snd three)) # h in
          if useSplitKernelPath ctx \<and> split_ready (keCopy env) ctx
          then (case split_batch env ctx reuse nonce w three h of (res, h) \<Rightarrow> (Scanned res, h))
          else single_batch env ctx batch nonce w three h)"

definition no_hit :: "u64 \<Rightarrow> MineOutcome" where
  "no_hit n = \<lparr>moNonce = 0, moHash = None, moFound = False, moHashCount = n\<rparr>"

partial_function (option) kernel_loop ::
  "KernelEnv \<Rightarrow> OpenCLContext \<Rightarrow> ReuseBuffers option \<Rightarrow> u64 \<Rightarrow> u64 \<Rightarrow> history \<Rightarrow> (MineOutcome \<times> history) option" where
  "kernel_loop env ctx reuse batch tried h =
     (if \<not> tried < keMax env then Some (no_hit tried, h)
      else if work_size (keMax env) tried batch = 0 then Some (no_hit tried, h)
      else case run_batch env ctx reuse batch (work_size (keMax env) tried batch) tried h of
        (e, h) \<Rightarrow>
          (case e of
             Halved b \<Rightarrow> kernel_loop env ctx reuse b tried h
           | FellBack \<Rightarrow>
               (let out = keCpu env; n = tried + moHashCount out
                in Some (if moFound out then out\<lparr>moHashCount := n\<rparr> else no_hit n, h))
           | Scanned res \<Rightarrow>
               (case res of
                  Some (nonce, hash) \<Rightarrow>
                    Some (\<lparr>moNonce = nonce, moHash = Some hash, moFound = True,
                            moHashCount = tried + work_size (keMax env) tried batch\<rparr>, h)
                | None \<Rightarrow> kernel_loop env ctx reuse batch (tried + work_size (keMax env) tried batch) h)))"

text \<open>The whole function, after the checks of \<open>kernel_runs\<close>: the probe has been made.\<close>

definition mineWithOpenCLKernel ::
  "KernelEnv \<Rightarrow> OpenCLContext \<Rightarrow> history \<Rightarrow> (MineOutcome \<times> history) option" where
  "mineWithOpenCLKernel env ctx h =
     (let drv = keDriver env in
      case cl drv (GetGlobalMem (clDevice ctx)) h of
        (gm, h) \<Rightarrow>
          (case cl drv (GetMaxAlloc (clDevice ctx)) h of
             (ma, h) \<Rightarrow>
               let batch = gpu_batch_size (rpSize gm) (rpSize ma) (maxScratchpadBuf ctx) (keMax env) in
               (case reuse_buffers env ctx batch h of
                  (reuse, h) \<Rightarrow>
                    map_option (\<lambda>(out, h). (out, case reuse of None \<Rightarrow> h
                        | Some rb \<Rightarrow> release_all (three_list (rbThree rb) @ rbFour rb) h))
                      (kernel_loop env ctx reuse batch 0 h))))"

section \<open>Sizes\<close>

lemma work_size_bounds:
  assumes "tried < (m :: u64)" "batch \<noteq> 0"
  shows "32 \<le> unat (work_size m tried batch)" "unat (work_size m tried batch) \<le> unat m - unat tried + 31"
    "work_size m tried batch \<le> (if batch < 32 then 32 else batch)"
proof -
  let ?r = "m - tried"
  define w where "w = (if ?r < batch then ?r else batch)"
  have r: "unat ?r = unat m - unat tried" using assms(1) by (simp add: unat_sub word_le_nat_alt word_less_nat_alt less_imp_le)
  have "0 < unat ?r" using r assms(1) by (simp add: word_less_nat_alt)
  moreover have "0 < unat batch" using assms(2) by (simp add: unat_gt_0)
  ultimately have w: "0 < unat w" "unat w \<le> unat ?r" "unat w \<le> unat batch"
    by (auto simp: w_def word_less_nat_alt)
  have e: "work_size m tried batch = (if 256 < w then (w div 256) * 256
      else if 0 < w \<and> w < 256 then (if 128 < w then 128 else if 64 < w then 64 else 32) else w)"
    by (simp add: work_size_def w_def Let_def)
  have d: "unat ((w div 256) * 256) = unat w div 256 * 256"
  proof -
    have "unat w div 256 * 256 < 18446744073709551616"
      by (rule le_less_trans [OF div_times_less_eq_dividend unat_u64_lt])
    then show ?thesis by (simp add: unat_word_ariths unat_div)
  qed
  have big: "256 \<le> unat w div 256 * 256" if "256 < unat w"
    using that div_le_mono [of 256 "unat w" 256] by simp
  have u: "unat (work_size m tried batch) = (if 256 < unat w then unat w div 256 * 256
      else if unat w < 256 then (if 128 < unat w then 128 else if 64 < unat w then 64 else 32) else unat w)"
    unfolding e using w(1) d by (simp add: word_less_nat_alt)
  have dm: "unat w div 256 * 256 \<le> unat w" by simp
  show "32 \<le> unat (work_size m tried batch)" unfolding u using big by auto
  show "unat (work_size m tried batch) \<le> unat m - unat tried + 31" unfolding u using w dm r by auto
  show "work_size m tried batch \<le> (if batch < 32 then 32 else batch)"
    unfolding word_le_nat_alt u using w dm by (auto simp: word_less_nat_alt)
qed

lemma work_size_step:
  assumes "tried < m" "batch \<noteq> 0" "m \<le> 2 ^ 64 - 33"
  shows "unat (tried + work_size m tried batch) = unat tried + unat (work_size m tried batch)"
    "unat tried < unat (tried + work_size m tried batch)" "unat (tried + work_size m tried batch) \<le> unat m + 31"
    "work_size m tried batch \<noteq> 0"
proof -
  note b = work_size_bounds [OF assms(1,2)]
  have t: "unat tried < unat m" using assms(1) by (simp add: word_less_nat_alt)
  have "unat m \<le> 2 ^ 64 - 33" using assms(3) by (simp add: word_le_nat_alt)
  with b t have "unat tried + unat (work_size m tried batch) < 2 ^ 64" by simp
  then show s: "unat (tried + work_size m tried batch) = unat tried + unat (work_size m tried batch)"
    by (simp add: unat_word_ariths)
  show "unat tried < unat (tried + work_size m tried batch)" "unat (tried + work_size m tried batch) \<le> unat m + 31"
    using s b t by simp_all
  show "work_size m tried batch \<noteq> 0" using b(1) by auto
qed

section \<open>Hits\<close>

lemma check_hit_sound:
  "check_hit key header target ws = Some (n, h) \<Longrightarrow>
     \<exists>p. key (header @ put_u32 n) (header @ put_u32 n) 1024 1 1 32 = Some p \<and> h = take 32 (p @ replicate 32 0) \<and>
       hashMeetsTargetLE h target"
  by (auto simp: check_hit_def Let_def split: if_splits option.splits)

definition hit_ok :: "KernelEnv \<Rightarrow> u32 \<times> byte list \<Rightarrow> bool" where
  "hit_ok env r \<longleftrightarrow> (\<exists>p. keKey env (keHeader env @ put_u32 (fst r)) (keHeader env @ put_u32 (fst r)) 1024 1 1 32 = Some p \<and>
     snd r = take 32 (p @ replicate 32 0) \<and> hashMeetsTargetLE (snd r) (keTarget env))"

lemma check_hit_ok: "check_hit (keKey env) (keHeader env) (keTarget env) ws = Some r \<Longrightarrow> hit_ok env r"
  using check_hit_sound [of "keKey env" "keHeader env" "keTarget env" ws "fst r" "snd r"] by (simp add: hit_ok_def)

lemma run_split_hit: "run_split env ctx n w three four h = (Some r, h') \<Longrightarrow> hit_ok env r"
  by (auto simp: run_split_def cl_def Let_def split: prod.splits if_splits intro: check_hit_ok)

lemma split_batch_hit: "split_batch env ctx reuse n w three h = (Some r, h') \<Longrightarrow> hit_ok env r"
  by (auto simp: split_batch_def split: option.splits prod.splits if_splits intro: run_split_hit)

lemma single_batch_end:
  "single_batch env ctx batch n w three h = (e, h') \<Longrightarrow>
     (\<forall>r. e = Scanned (Some r) \<longrightarrow> hit_ok env r) \<and> (\<forall>b. e = Halved b \<longrightarrow> 256 < batch \<and> b = (if batch div 2 < 256 then 256 else batch div 2))"
  by (auto simp: single_batch_def cl_def Let_def split: option.splits prod.splits if_splits intro: check_hit_ok)

lemma run_batch_end:
  assumes "run_batch env ctx reuse batch w tried h = (e, h')"
  shows "(\<forall>r. e = Scanned (Some r) \<longrightarrow> hit_ok env r) \<and> (\<forall>b. e = Halved b \<longrightarrow> 256 < batch \<and> b = (if batch div 2 < 256 then 256 else batch div 2))"
proof -
  let ?n = "keStart env + ucast tried"
  obtain o1 h1 where 1: "(case reuse of Some rb \<Rightarrow> (Some (rbThree rb), h) | None \<Rightarrow> batch_buffers env h) = (o1, h1)" by fastforce
  show ?thesis
  proof (cases o1)
    case None
    with assms 1 show ?thesis by (auto simp: run_batch_def Let_def)
  next
    case (Some three)
    let ?h = "ZeroResults (snd (snd three)) # h1"
    show ?thesis
    proof (cases "useSplitKernelPath ctx \<and> split_ready (keCopy env) ctx")
      case True
      obtain res h2 where 2: "split_batch env ctx reuse ?n w three ?h = (res, h2)" by fastforce
      have "run_batch env ctx reuse batch w tried h = (Scanned res, h2)"
        using True by (simp add: run_batch_def Let_def 1 Some 2)
      with assms split_batch_hit [of env ctx reuse ?n w three ?h] 2 show ?thesis by auto
    next
      case False
      then have "run_batch env ctx reuse batch w tried h = single_batch env ctx batch ?n w three ?h"
        unfolding run_batch_def Let_def 1 Some by (simp only: prod.case option.case if_False)
      with assms single_batch_end show ?thesis by metis
    qed
  qed
qed

lemma create_scratchpad_cases:
  "fst (create_scratchpad env ctx w h) = None \<or> (\<exists>r p. fst (create_scratchpad env ctx w h) = Some (r, p))"
  by (cases "fst (create_scratchpad env ctx w h)") auto

lemma single_batch_hit: "single_batch env ctx batch n w three h = (Scanned (Some r), h') \<Longrightarrow> hit_ok env r"
  by (auto simp: single_batch_def cl_def Let_def split: option.splits prod.splits if_splits intro: check_hit_ok)

lemma run_batch_hit: "run_batch env ctx reuse batch w tried h = (Scanned (Some r), h') \<Longrightarrow> hit_ok env r"
  by (auto simp: run_batch_def Let_def split: option.splits prod.splits if_splits
      intro: single_batch_hit split_batch_hit)

section \<open>The memory of a batch\<close>

lemma live_release_all [simp]: "live_buffers drv (release_all bs h) = live_buffers drv h - mset bs"
  by (induction bs arbitrary: h) (simp_all add: release_all_def)

lemma pages_release_all [simp]: "live_pages drv (release_all bs h) = live_pages drv h"
  by (induction bs arbitrary: h) (simp_all add: release_all_def)

lemma create_chain_memory:
  assumes "driver_ok drv"
  shows "create_chain drv ss bs h = (bs', ok, h') \<Longrightarrow>
    \<exists>new. bs' = bs @ new \<and> live_pages drv h' = live_pages drv h \<and>
      (if ok then live_buffers drv h' = live_buffers drv h + mset new \<and> 0 \<notin> set new \<and> length new = length ss
       else new \<noteq> [] \<and> length new \<le> length ss \<and> last new = 0 \<and>
         live_buffers drv h' = live_buffers drv h + mset (butlast new) \<and> 0 \<notin> set (butlast new))"
proof (induction ss arbitrary: bs h)
  case Nil
  then show ?case by simp
next
  case (Cons s ss)
  let ?c = "CreateBuffer (fst s) (snd s) 0"
  let ?b = "rpHandle (drv h ?c)"
  show ?case
  proof (cases "made (drv h ?c)")
    case False
    with driver_okD [OF assms False] Cons.prems show ?thesis
      by (intro exI [of _ "[?b]"]) (auto simp: cl_def)
  next
    case True
    then have "create_chain drv ss (bs @ [?b]) (?c # h) = (bs', ok, h')" using Cons.prems by (simp add: cl_def)
    from Cons.IH [OF this] obtain new where "bs' = bs @ ?b # new" and
      "live_pages drv h' = live_pages drv h \<and>
      (if ok then live_buffers drv h' = live_buffers drv (?c # h) + mset new \<and> 0 \<notin> set new \<and> length new = length ss
       else new \<noteq> [] \<and> length new \<le> length ss \<and> last new = 0 \<and>
         live_buffers drv h' = live_buffers drv (?c # h) + mset (butlast new) \<and> 0 \<notin> set (butlast new))"
      by auto
    with True show ?thesis
      by (intro exI [of _ "?b # new"]) (auto simp: made_def split: if_splits)
  qed
qed

lemma batch_buffers_memory:
  assumes "driver_ok (keDriver env)" "batch_buffers env h = (r, h')"
  shows "live_pages (keDriver env) h' = live_pages (keDriver env) h \<and>
    live_buffers (keDriver env) h' = live_buffers (keDriver env) h + (case r of None \<Rightarrow> {#} | Some t \<Rightarrow> mset (three_list t))"
  using assms(2) driver_okD [OF assms(1)]
  by (auto simp: batch_buffers_def cl_def Let_def made_def release_all_def three_list_def split: if_splits)

lemma run_split_memory: "same_memory (keDriver env) h (snd (run_split env ctx n w three four h))"
  by (auto simp: run_split_def cl_def Let_def split: prod.split)

lemma split_batch_memory:
  assumes "driver_ok (keDriver env)" "split_batch env ctx reuse n w three h = (r, h')"
  shows "live_pages (keDriver env) h' = live_pages (keDriver env) h \<and>
    live_buffers (keDriver env) h' = live_buffers (keDriver env) h - (if reuse = None then mset (three_list three) else {#})"
proof (cases reuse)
  case (Some rb)
  with assms(2) run_split_memory [of env h ctx n w three "rbFour rb"] show ?thesis
    by (simp add: split_batch_def same_memory_def)
next
  case None
  obtain bs ok h1 where c: "create_chain (keDriver env) (split_specs w) [] h = (bs, ok, h1)" by (cases "create_chain (keDriver env) (split_specs w) [] h")
  note m = create_chain_memory [OF assms(1) c]
  show ?thesis
  proof (cases ok)
    case True
    with m have 1: "live_pages (keDriver env) h1 = live_pages (keDriver env) h"
      "live_buffers (keDriver env) h1 = live_buffers (keDriver env) h + mset bs" by auto
    have "h' = release_all (three_list three @ bs) (snd (run_split env ctx n w three bs h1))"
      using assms(2) None c True by (auto simp: split_batch_def split: prod.splits)
    with 1 run_split_memory [of env h1 ctx n w three bs] None show ?thesis
      by (simp add: same_memory_def)
  next
    case False
    with m have 1: "live_pages (keDriver env) h1 = live_pages (keDriver env) h"
      "live_buffers (keDriver env) h1 = live_buffers (keDriver env) h + mset (butlast bs)" by auto
    have "h' = release_all (three_list three @ butlast bs) h1"
      using assms(2) None c False by (simp add: split_batch_def)
    with 1 None show ?thesis by simp
  qed
qed

text \<open>The pages a scratchpad of the last kind costs; \<open>None\<close> when there were none to be had.\<close>

lemma create_scratchpad_memory:
  assumes "driver_ok (keDriver env)" "create_scratchpad env ctx w h = (r, h')"
  shows "case r of
      None \<Rightarrow> same_memory (keDriver env) h h'
    | Some (sp, p) \<Rightarrow>
        live_buffers (keDriver env) h' = live_buffers (keDriver env) h + (if made sp then {#rpHandle sp#} else {#}) \<and>
        live_pages (keDriver env) h' = live_pages (keDriver env) h + (if p = 0 then {#} else {#p#}) \<and>
        (p \<noteq> 0 \<longleftrightarrow> useHostPtrScratchpad ctx \<and> useVirtualAllocScratch ctx)"
proof (cases "useHostPtrScratchpad ctx \<and> useVirtualAllocScratch ctx")
  case True
  then show ?thesis using assms(2)
    by (auto simp: create_scratchpad_def allocPageAligned_def cl_def Let_def driver_ok_made [OF assms(1)] same_memory_def split: if_splits)
next
  case False
  then show ?thesis using assms(2)
    by (auto simp: create_scratchpad_def cl_def Let_def driver_ok_made [OF assms(1)] split: if_splits)
qed

lemma single_batch_live:
  assumes "driver_ok (keDriver env)" "single_batch env ctx batch n w three h = (r, h')"
  shows "live_buffers (keDriver env) h' = live_buffers (keDriver env) h - mset (three_list three)"
proof -
  obtain hb tb rb where t: "three = (hb, tb, rb)" by (cases three)
  obtain o1 h1 where c: "create_scratchpad env ctx w h = (o1, h1)" by fastforce
  note m = create_scratchpad_memory [OF assms(1) c]
  have free: "live_buffers drv (freePageAligned p x) = live_buffers drv x" for drv p x
    by (simp add: freePageAligned_def)
  have args: "live_buffers drv (set_args k a x) = live_buffers drv x" for drv k a x
    using same_memory_set_args [of drv x k a x] by (simp add: same_memory_def)
  show ?thesis
  proof (cases o1)
    case None
    with c m assms(2) show ?thesis
      by (auto simp: single_batch_def t same_memory_def three_list_def)
  next
    case (Some q)
    obtain sp p where q: "q = (sp, p)" by (cases q)
    from m Some q have l: "live_buffers (keDriver env) h1 = live_buffers (keDriver env) h + (if made sp then {#rpHandle sp#} else {#})"
      by simp
    show ?thesis
    proof (cases "made sp")
      case False
      with c l Some q assms(2) show ?thesis
        by (auto simp: single_batch_def t three_list_def)
    next
      case True
      have l1: "live_buffers (keDriver env) h1 = live_buffers (keDriver env) h + {#rpHandle sp#}" using l True by simp
      have e: "live_buffers (keDriver env) (freePageAligned p (release_all [hb, tb, rb, rpHandle sp] x)) =
          live_buffers (keDriver env) h - mset (three_list three)"
        if "live_buffers (keDriver env) x = live_buffers (keDriver env) h1" for x
        unfolding free live_release_all that l1 t three_list_def by (simp add: add_mset_commute)
      from True c l Some q assms(2) show ?thesis
        by (auto simp: single_batch_def t cl_def Let_def args simp del: live_release_all mset.simps split: if_splits intro!: e [unfolded t])
    qed
  qed
qed

lemma pages_free [simp]:
  "live_pages drv (freePageAligned p h) = live_pages drv h - (if p = 0 then {#} else {#p#})"
  by (simp add: freePageAligned_def)

lemma args_pages [simp]: "live_pages drv (set_args k a h) = live_pages drv h"
  using same_memory_set_args [of drv h k a h] by (simp add: same_memory_def)

text \<open>A batch keeps no pages, but for a scratchpad in them that the driver refused.\<close>

lemma single_batch_pages:
  assumes "driver_ok (keDriver env)" "single_batch env ctx batch n w three h = (r, h')"
  shows "live_pages (keDriver env) h' = live_pages (keDriver env) h +
    (case create_scratchpad env ctx w h of (Some (sp, p), _) \<Rightarrow> if \<not> made sp \<and> p \<noteq> 0 then {#p#} else {#} | _ \<Rightarrow> {#})"
proof -
  obtain o1 h1 where c: "create_scratchpad env ctx w h = (o1, h1)" by fastforce
  note m = create_scratchpad_memory [OF assms(1) c]
  show ?thesis
  proof (cases o1)
    case None
    with c m assms(2) show ?thesis by (cases three) (auto simp: single_batch_def same_memory_def)
  next
    case (Some q)
    obtain sp p where q: "q = (sp, p)" by (cases q)
    with m Some have "live_pages (keDriver env) h1 = live_pages (keDriver env) h + (if p = 0 then {#} else {#p#})" by simp
    with c Some q assms(2) show ?thesis
      by (cases three) (auto simp: single_batch_def cl_def Let_def split: if_splits)
  qed
qed

lemma run_batch_live:
  assumes "driver_ok (keDriver env)" "reuse = None \<or> useSplitKernelPath ctx \<and> split_ready (keCopy env) ctx"
    "run_batch env ctx reuse batch w tried h = (r, h')"
  shows "live_buffers (keDriver env) h' = live_buffers (keDriver env) h"
proof -
  have zero: "live_buffers (keDriver env) (ZeroResults b # x) = live_buffers (keDriver env) x" for b x by simp
  have split: "live_buffers (keDriver env) (snd (split_batch env ctx reuse n w three x)) =
      live_buffers (keDriver env) x - (if reuse = None then mset (three_list three) else {#})" for n three x
    using split_batch_memory [OF assms(1), of ctx reuse n w three x] by (cases "split_batch env ctx reuse n w three x") auto
  have single: "live_buffers (keDriver env) (snd (single_batch env ctx batch n w three x)) =
      live_buffers (keDriver env) x - mset (three_list three)" for n three x
    using single_batch_live [OF assms(1), of ctx batch n w three x] by (cases "single_batch env ctx batch n w three x") auto
  have h': "h' = snd (run_batch env ctx reuse batch w tried h)" using assms(3) by simp
  show ?thesis
  proof (cases reuse)
    case (Some rb)
    with assms(2) split show ?thesis unfolding h'
      by (simp add: run_batch_def Let_def split_beta)
  next
    case None
    obtain o1 h1 where b: "batch_buffers env h = (o1, h1)" by fastforce
    note m = batch_buffers_memory [OF assms(1) b]
    show ?thesis
    proof (cases o1)
      case None
      with b m \<open>reuse = None\<close> show ?thesis unfolding h' by (simp add: run_batch_def)
    next
      case (Some three)
      with b m \<open>reuse = None\<close> split single show ?thesis unfolding h'
        by (simp add: run_batch_def Let_def split_beta)
    qed
  qed
qed

lemma run_batch_pages:
  assumes "driver_ok (keDriver env)" "\<not> (useHostPtrScratchpad ctx \<and> useVirtualAllocScratch ctx)"
    "run_batch env ctx reuse batch w tried h = (r, h')"
  shows "live_pages (keDriver env) h' = live_pages (keDriver env) h"
proof -
  have split: "live_pages (keDriver env) (snd (split_batch env ctx ru n w three x)) = live_pages (keDriver env) x" for ru n three x
    using split_batch_memory [OF assms(1), of ctx ru n w three x] by (cases "split_batch env ctx ru n w three x") auto
  have nop: "p = 0" if "create_scratchpad env ctx w x = (Some (sp, p), y)" for x sp p y
    using create_scratchpad_memory [OF assms(1) that] assms(2) by auto
  have single: "live_pages (keDriver env) (snd (single_batch env ctx batch n w three x)) = live_pages (keDriver env) x" for n three x
    using single_batch_pages [OF assms(1), of ctx batch n w three x] nop [of x]
    by (cases "single_batch env ctx batch n w three x") (fastforce split: prod.splits option.splits if_splits)
  have buffers: "live_pages (keDriver env) x = live_pages (keDriver env) h" if "batch_buffers env h = (o1, x)" for o1 x
    using batch_buffers_memory [OF assms(1) that] by simp
  have h': "h' = snd (run_batch env ctx reuse batch w tried h)" using assms(3) by simp
  show ?thesis
    by (cases reuse; cases "batch_buffers env h"; cases "fst (batch_buffers env h)")
      (auto simp: h' run_batch_def Let_def split_beta split single dest: buffers)
qed

lemma kernel_loop_live:
  assumes "kernel_loop env ctx reuse batch tried h = Some (out, h')" "driver_ok (keDriver env)"
    "reuse = None \<or> useSplitKernelPath ctx \<and> split_ready (keCopy env) ctx"
  shows "live_buffers (keDriver env) h' = live_buffers (keDriver env) h"
proof -
  have "driver_ok (keDriver env) \<longrightarrow> (reuse = None \<or> useSplitKernelPath ctx \<and> split_ready (keCopy env) ctx) \<longrightarrow>
      live_buffers (keDriver env) (snd (out, h')) = live_buffers (keDriver env) h"
    by (rule kernel_loop.raw_induct [where P = "\<lambda>env ctx reuse batch tried h r. driver_ok (keDriver env) \<longrightarrow>
        (reuse = None \<or> useSplitKernelPath ctx \<and> split_ready (keCopy env) ctx) \<longrightarrow>
        live_buffers (keDriver env) (snd r) = live_buffers (keDriver env) h", OF _ assms(1)])
      (auto simp: Let_def split: if_splits prod.splits batch_end.splits option.splits dest!: run_batch_live)
  with assms(2,3) show ?thesis by simp
qed

lemma kernel_loop_pages:
  assumes "kernel_loop env ctx reuse batch tried h = Some (out, h')" "driver_ok (keDriver env)"
    "\<not> (useHostPtrScratchpad ctx \<and> useVirtualAllocScratch ctx)"
  shows "live_pages (keDriver env) h' = live_pages (keDriver env) h"
proof -
  have "driver_ok (keDriver env) \<longrightarrow> \<not> (useHostPtrScratchpad ctx \<and> useVirtualAllocScratch ctx) \<longrightarrow>
      live_pages (keDriver env) (snd (out, h')) = live_pages (keDriver env) h"
    by (rule kernel_loop.raw_induct [where P = "\<lambda>env ctx reuse batch tried h r. driver_ok (keDriver env) \<longrightarrow>
        \<not> (useHostPtrScratchpad ctx \<and> useVirtualAllocScratch ctx) \<longrightarrow>
        live_pages (keDriver env) (snd r) = live_pages (keDriver env) h", OF _ assms(1)])
      (auto simp: Let_def split: if_splits prod.splits batch_end.splits option.splits dest!: run_batch_pages)
  with assms(2,3) show ?thesis by simp
qed

lemma reuse_buffers_memory:
  assumes "driver_ok (keDriver env)" "reuse_buffers env ctx batch h = (r, h')"
  shows "live_pages (keDriver env) h' = live_pages (keDriver env) h \<and>
    live_buffers (keDriver env) h' = live_buffers (keDriver env) h +
      (case r of None \<Rightarrow> {#} | Some rb \<Rightarrow> mset (three_list (rbThree rb) @ rbFour rb)) \<and>
    (r \<noteq> None \<longrightarrow> useSplitKernelPath ctx \<and> split_ready (keCopy env) ctx)"
proof (cases "useSplitKernelPath ctx \<and> split_ready (keCopy env) ctx")
  case False
  with assms(2) show ?thesis by (auto simp: reuse_buffers_def)
next
  case True
  define specs where "specs = [(CL_MEM_READ_ONLY, of_nat (length (keHeader env))), (CL_MEM_READ_ONLY, 32), (CL_MEM_WRITE_ONLY, 136)] @
              split_specs batch"
  have len: "length specs = 7" by (simp add: specs_def split_specs_def)
  obtain bs ok h1 where c: "create_chain (keDriver env) specs [] h = (bs, ok, h1)"
    by (cases "create_chain (keDriver env) specs [] h")
  note m = create_chain_memory [OF assms(1) c]
  show ?thesis
  proof (cases ok)
    case False
    with m len have b: "bs \<noteq> []" "length bs \<le> 7" "last bs = 0" "0 \<notin> set (butlast bs)"
      and l: "live_pages (keDriver env) h1 = live_pages (keDriver env) h"
        "live_buffers (keDriver env) h1 = live_buffers (keDriver env) h + mset (butlast bs)" by auto
    from b(1) have bs: "bs = butlast bs @ [last bs]" by simp
    have "filter (\<lambda>b. b \<noteq> 0) (take 6 bs) = filter (\<lambda>b. b \<noteq> 0) (butlast bs @ take (6 - length (butlast bs)) [last bs])"
      using b(2) by (subst bs) (simp add: take_Cons')
    also have "\<dots> = butlast bs" using b by (auto simp: filter_id_conv take_Cons' intro!: gr0I)
    finally have f: "filter (\<lambda>b. b \<noteq> 0) (take 6 bs) = butlast bs" .
    with True False c l assms(2) show ?thesis by (auto simp: reuse_buffers_def specs_def)
  next
    case ok: True
    with m have l: "live_pages (keDriver env) h1 = live_pages (keDriver env) h"
        "live_buffers (keDriver env) h1 = live_buffers (keDriver env) h + mset bs" "length bs = 7" using len by auto
    then obtain b0 b1 b2 rest where "bs = b0 # b1 # b2 # rest" by (auto simp: length_Suc_conv eval_nat_numeral)
    with True ok c l assms(2) show ?thesis by (auto simp: reuse_buffers_def specs_def three_list_def)
  qed
qed

section \<open>The round ends\<close>

lemma run_batch_halved:
  assumes "run_batch env ctx reuse batch w tried h = (Halved b, h')"
  shows "unat b < unat batch" "b \<noteq> 0"
proof -
  have 1: "256 < batch \<and> b = (if batch div 2 < 256 then 256 else batch div 2)"
    using assms by (auto simp: run_batch_def single_batch_def cl_def Let_def split: option.splits prod.splits if_splits)
  then have "unat b = (if unat batch div 2 < 256 then 256 else unat batch div 2)" "256 < unat batch"
    by (auto simp: word_less_nat_alt unat_div)
  then show "unat b < unat batch" "b \<noteq> 0" by (auto split: if_splits)
qed

lemma kernel_loop_ends:
  assumes "keMax env \<le> 2 ^ 64 - 33"
  shows "batch \<noteq> 0 \<Longrightarrow> unat tried \<le> unat (keMax env) + 31 \<Longrightarrow>
    \<exists>out h'. kernel_loop env ctx reuse batch tried h = Some (out, h') \<and>
      unat (moHashCount out) \<le> unat (keMax env) + 31 + unat (moHashCount (keCpu env))"
proof (induction "(unat (keMax env) - unat tried) * 2 ^ 64 + unat batch" arbitrary: batch tried h rule: less_induct)
  case less
  note IH = less.hyps
  show ?case
  proof (cases "tried < keMax env")
    case False
    with less.prems show ?thesis by (subst kernel_loop.simps) (simp add: no_hit_def)
  next
    case True
    let ?w = "work_size (keMax env) tried batch"
    note s = work_size_step [OF True less.prems(1) assms]
    obtain e h1 where b: "run_batch env ctx reuse batch ?w tried h = (e, h1)" by fastforce
    note unfold = kernel_loop.simps [of env ctx reuse batch tried h]
    show ?thesis
    proof (cases e)
      case (Halved b')
      with b run_batch_halved have lt: "unat b' < unat batch" "b' \<noteq> 0" by blast+
      then have "\<exists>out h'. kernel_loop env ctx reuse b' tried h1 = Some (out, h') \<and>
          unat (moHashCount out) \<le> unat (keMax env) + 31 + unat (moHashCount (keCpu env))"
        by (intro IH less.prems(2)) simp_all
      with True s(4) b Halved show ?thesis unfolding unfold by simp
    next
      case FellBack
      have "unat (tried + moHashCount (keCpu env)) \<le> unat (keMax env) + 31 + unat (moHashCount (keCpu env))"
        using less.prems(2) unat_plus_le [of tried "moHashCount (keCpu env)"] by linarith
      with True s(4) b FellBack show ?thesis unfolding unfold by (auto simp: Let_def no_hit_def)
    next
      case (Scanned res)
      show ?thesis
      proof (cases res)
        case (Some q)
        with True s b Scanned show ?thesis unfolding unfold by (cases q) auto
      next
        case None
        have "unat tried < unat (keMax env)" using True by (simp add: word_less_nat_alt)
        then have "(unat (keMax env) - unat (tried + ?w)) * 2 ^ 64 < (unat (keMax env) - unat tried) * 2 ^ 64"
          using s(2) by (intro mult_strict_right_mono) simp_all
        then have "\<exists>out h'. kernel_loop env ctx reuse batch (tried + ?w) h1 = Some (out, h') \<and>
          unat (moHashCount out) \<le> unat (keMax env) + 31 + unat (moHashCount (keCpu env))"
          using s(3) by (intro IH less.prems(1)) simp_all
        with True s(4) b Scanned None show ?thesis unfolding unfold by simp
      qed
    qed
  qed
qed

lemma kernel_loop_found:
  assumes "kernel_loop env ctx reuse batch tried h = Some (out, h')" "moFound out"
  shows "(\<exists>hash. moHash out = Some hash \<and> hit_ok env (moNonce out, hash)) \<or>
    moFound (keCpu env) \<and> moNonce out = moNonce (keCpu env) \<and> moHash out = moHash (keCpu env)"
proof -
  have "moFound (fst (out, h')) \<longrightarrow> (\<exists>hash. moHash (fst (out, h')) = Some hash \<and> hit_ok env (moNonce (fst (out, h')), hash)) \<or>
    moFound (keCpu env) \<and> moNonce (fst (out, h')) = moNonce (keCpu env) \<and> moHash (fst (out, h')) = moHash (keCpu env)"
    by (rule kernel_loop.raw_induct [where P = "\<lambda>env ctx reuse batch tried h r. moFound (fst r) \<longrightarrow>
        (\<exists>hash. moHash (fst r) = Some hash \<and> hit_ok env (moNonce (fst r), hash)) \<or>
        moFound (keCpu env) \<and> moNonce (fst r) = moNonce (keCpu env) \<and> moHash (fst r) = moHash (keCpu env)", OF _ assms(1)])
      (auto simp: Let_def no_hit_def split: if_splits prod.splits batch_end.splits option.splits dest!: run_batch_hit)
  with assms(2) show ?thesis by simp
qed

section \<open>The GPU miner with its kernel\<close>

text \<open>What the function does once the guards of \<open>kernel_runs\<close> have passed: target, start nonce, batches.\<close>

definition gpu_kernel_round ::
  "cl_driver \<Rightarrow> bool \<Rightarrow> nat \<Rightarrow> scrypt_key \<Rightarrow> GPUMiner \<Rightarrow> Block \<Rightarrow> nat \<Rightarrow> u64 \<Rightarrow> MineOutcome \<Rightarrow> OpenCLContext \<Rightarrow>
     history \<Rightarrow> (go_panic + MineOutcome \<times> history) option" where
  "gpu_kernel_round drv copy hostMem key g block target unixNano cpu ctx h =
     (case target_le_bytes target of
        Inl p \<Rightarrow> Some (Inl p)
      | Inr targetLE \<Rightarrow>
          map_option Inr (mineWithOpenCLKernel
            \<lparr>keDriver = drv, keKey = key, keCopy = copy, keSlice = hostMem, keHeader = precomputeHeaderBase block,
             keTarget = targetLE, keMax = gpu_effectiveMaxHashes g,
             keStart = calculateStartNonce block ''random'' unixNano, keCpu = cpu\<rparr> ctx h))"

text \<open>A solution: the nonce gives the header a scrypt hash that meets the target, and the hash is that one.\<close>

definition solves :: "scrypt_key \<Rightarrow> Block \<Rightarrow> nat \<Rightarrow> MineOutcome \<Rightarrow> bool" where
  "solves key b target out \<longleftrightarrow> (\<exists>h. pow_hash key NewScryptMiner (b\<lparr>bNonce := moNonce out\<rparr>) = Some h \<and>
     moHash out = Some h \<and> le_nat h \<le> target)"

lemma gpu_parallel_solves:
  assumes "gpu_mineParallel key g b target t evs pickDone = Some (Inr out)" "moFound out"
    and "wf_block b" "key_ok key NewScryptMiner"
  shows "solves key b target out"
  using gpu_mineParallel_found [OF assms(1,2)] hash_nonce_pow [OF assms(3,4), of "moNonce out"]
  by (auto simp: solves_def gpu_hash_nonce_eq meets_target_le_bytes)

lemma hit_solves:
  assumes "hit_ok env (moNonce out, hash)" "moHash out = Some hash" "keKey env = key"
    "keHeader env = precomputeHeaderBase b" "target_le_bytes target = Inr (keTarget env)"
    "wf_block b" "key_ok key NewScryptMiner"
  shows "solves key b target out"
proof -
  let ?n = "moNonce out"
  obtain h where h: "pow_hash key NewScryptMiner (b\<lparr>bNonce := ?n\<rparr>) = Some h" "hash_nonce key NewScryptMiner b ?n = Inr h"
    "length h = 32"
    using hash_nonce_pow [OF assms(6,7), of ?n] by blast
  have "length (precomputeHeaderBase b @ put_u32 ?n) = 80"
    using assms(6) by (simp add: precomputeHeaderBase_nonce)
  then have "gpu_hash_nonce key b ?n = (case key (precomputeHeaderBase b @ put_u32 ?n) (precomputeHeaderBase b @ put_u32 ?n) 1024 1 1 32
      of None \<Rightarrow> Inl ScryptFailed | Some h \<Rightarrow> Inr h)"
    by (simp add: gpu_hash_nonce_def scryptHashFast_def)
  then have k: "key (precomputeHeaderBase b @ put_u32 ?n) (precomputeHeaderBase b @ put_u32 ?n) 1024 1 1 32 = Some h"
    using h(2) by (simp add: gpu_hash_nonce_eq split: option.splits)
  with assms(1) h(3) have "hash = h" "hashMeetsTargetLE h (keTarget env)"
    by (auto simp: hit_ok_def assms(3,4))
  with h(1,3) assms(2,5) show ?thesis by (auto simp: solves_def meets_target_le_bytes)
qed

lemma mineWithOpenCLKernel_loop:
  assumes "mineWithOpenCLKernel env ctx h = Some (out, h')"
  shows "\<exists>reuse batch h1 h2. kernel_loop env ctx reuse batch 0 h1 = Some (out, h2)"
  using assms by (auto simp: mineWithOpenCLKernel_def cl_def Let_def split: prod.splits)

lemma gpu_kernel_solves:
  assumes "gpu_kernel_round drv copy hostMem key g b target t cpu ctx h = Some (Inr (out, h'))" "moFound out"
    and "wf_block b" "key_ok key NewScryptMiner" "moFound cpu \<longrightarrow> solves key b target cpu"
  shows "solves key b target out"
proof -
  from assms(1) obtain tb where tb: "target_le_bytes target = Inr tb"
    by (cases "target_le_bytes target") (auto simp: gpu_kernel_round_def)
  define env where "env = \<lparr>keDriver = drv, keKey = key, keCopy = copy, keSlice = hostMem, keHeader = precomputeHeaderBase b,
     keTarget = tb, keMax = gpu_effectiveMaxHashes g, keStart = calculateStartNonce b ''random'' t, keCpu = cpu\<rparr>"
  from assms(1) tb have "mineWithOpenCLKernel env ctx h = Some (out, h')"
    by (auto simp: gpu_kernel_round_def env_def)
  from mineWithOpenCLKernel_loop [OF this] kernel_loop_found [OF _ assms(2)]
  consider hash where "moHash out = Some hash" "hit_ok env (moNonce out, hash)"
    | "moFound cpu" "moNonce out = moNonce cpu" "moHash out = moHash cpu"
    by (fastforce simp: env_def)
  then show ?thesis
  proof cases
    case 1
    with hit_solves [OF 1(2,1) _ _ _ assms(3,4)] tb show ?thesis by (simp add: env_def)
  next
    case 2
    with assms(5) show ?thesis by (simp add: solves_def)
  qed
qed

section \<open>Properties\<close>

text \<open>A solution a kernel round reports was verified by the CPU: whatever the driver and the kernel
  answer, the nonce gives the header a scrypt hash that meets the target.\<close>

theorem kernel_found_sound:
  assumes "gpu_kernel_round drv copy hostMem key g b target t cpu ctx h = Some (Inr (out, h'))" "moFound out"
    and "gpu_mineParallel key g b target t2 evs pickDone = Some (Inr cpu)"
    and "wf_block b" "key_ok key NewScryptMiner"
  shows "\<exists>h. pow_hash key NewScryptMiner (b\<lparr>bNonce := moNonce out\<rparr>) = Some h \<and> moHash out = Some h \<and> le_nat h \<le> target"
proof -
  have "moFound cpu \<longrightarrow> solves key b target cpu" using gpu_parallel_solves [OF assms(3) _ assms(4,5)] by blast
  with gpu_kernel_solves [OF assms(1,2,4,5)] show ?thesis by (simp add: solves_def)
qed

text \<open>C11: the kernel round ends for every driver: a batch either advances the count or, refused for
  its size, halves the batch, which stops at 256. The count it reports exceeds the cap by at most 31
  and what the CPU round it fell back to has tried.\<close>

theorem kernel_round_returns:
  assumes "keMax env \<le> 2 ^ 64 - 33"
  shows "\<exists>out h'. mineWithOpenCLKernel env ctx h = Some (out, h') \<and>
    unat (moHashCount out) \<le> unat (keMax env) + 31 + unat (moHashCount (keCpu env))"
proof -
  let ?g = "rpSize (keDriver env h (GetGlobalMem (clDevice ctx)))"
  let ?h1 = "GetGlobalMem (clDevice ctx) # h"
  let ?m = "rpSize (keDriver env ?h1 (GetMaxAlloc (clDevice ctx)))"
  let ?batch = "gpu_batch_size ?g ?m (maxScratchpadBuf ctx) (keMax env)"
  obtain reuse h2 where r: "reuse_buffers env ctx ?batch (GetMaxAlloc (clDevice ctx) # ?h1) = (reuse, h2)" by fastforce
  have "0 < unat ?batch"
    unfolding gpu_batch_size_def Let_def by (rule conjunct1 [OF final_stage]) (rule batch_stages)
  then have "?batch \<noteq> 0" by auto
  from kernel_loop_ends [OF assms this, of 0 ctx reuse h2] obtain out h3 where
    "kernel_loop env ctx reuse ?batch 0 h2 = Some (out, h3)"
    "unat (moHashCount out) \<le> unat (keMax env) + 31 + unat (moHashCount (keCpu env))" by auto
  with r show ?thesis by (simp add: mineWithOpenCLKernel_def cl_def Let_def)
qed

text \<open>C10: a kernel round releases every buffer it created, on every path: failed creations, refused
  batches, driver errors, hits. Pages are kept only for a scratchpad in allocated pages.\<close>

theorem kernel_releases_buffers:
  assumes "mineWithOpenCLKernel env ctx h = Some (out, h')" "driver_ok (keDriver env)"
  shows "live_buffers (keDriver env) h' = live_buffers (keDriver env) h \<and>
    (useHostPtrScratchpad ctx \<and> useVirtualAllocScratch ctx \<or> live_pages (keDriver env) h' = live_pages (keDriver env) h)"
proof -
  let ?drv = "keDriver env"
  let ?h1 = "GetGlobalMem (clDevice ctx) # h"
  let ?h2 = "GetMaxAlloc (clDevice ctx) # ?h1"
  let ?batch = "gpu_batch_size (rpSize (?drv h (GetGlobalMem (clDevice ctx)))) (rpSize (?drv ?h1 (GetMaxAlloc (clDevice ctx))))
      (maxScratchpadBuf ctx) (keMax env)"
  obtain reuse h3 where r: "reuse_buffers env ctx ?batch ?h2 = (reuse, h3)" by fastforce
  note m = reuse_buffers_memory [OF assms(2) r]
  from assms(1) r obtain h4 where l: "kernel_loop env ctx reuse ?batch 0 h3 = Some (out, h4)"
    and h': "h' = (case reuse of None \<Rightarrow> h4 | Some rb \<Rightarrow> release_all (three_list (rbThree rb) @ rbFour rb) h4)"
    by (auto simp: mineWithOpenCLKernel_def cl_def Let_def)
  have live: "live_buffers ?drv h4 = live_buffers ?drv h3"
    by (rule kernel_loop_live [OF l assms(2)]) (use m in auto)
  have pages: "useHostPtrScratchpad ctx \<and> useVirtualAllocScratch ctx \<or> live_pages ?drv h4 = live_pages ?drv h3"
    using kernel_loop_pages [OF l assms(2)] by blast
  have h2: "live_buffers ?drv ?h2 = live_buffers ?drv h" "live_pages ?drv ?h2 = live_pages ?drv h" by simp_all
  show ?thesis using m live pages h2 by (cases reuse) (auto simp: h')
qed

text \<open>But each time the driver refuses a scratchpad in pages allocated for it, the pages are lost:
  the branch releases the other buffers and forgets them, and no later call frees them.\<close>

theorem refused_scratchpad_leaks:
  assumes "driver_ok (keDriver env)" "useHostPtrScratchpad ctx" "useVirtualAllocScratch ctx"
    and "create_scratchpad env ctx w h = (Some (sp, p), h1)" "\<not> made sp"
  shows "p \<noteq> 0 \<and>
    live_pages (keDriver env) (snd (single_batch env ctx batch n w three h)) = live_pages (keDriver env) h + {#p#} \<and>
    fst (single_batch env ctx batch n w three h) \<in> {Scanned None, Halved (if batch div 2 < 256 then 256 else batch div 2)}"
proof -
  obtain hb tb rb where t: "three = (hb, tb, rb)" by (cases three)
  have "p \<noteq> 0" using create_scratchpad_memory [OF assms(1,4)] assms(2,3) by simp
  moreover have "live_pages (keDriver env) (snd (single_batch env ctx batch n w three h)) = live_pages (keDriver env) h + {#p#}"
    using single_batch_pages [OF assms(1), of ctx batch n w three h] assms(4,5) \<open>p \<noteq> 0\<close>
    by (cases "single_batch env ctx batch n w three h") simp
  ultimately show ?thesis using assms(4,5) by (simp add: single_batch_def t)
qed

text \<open>The outcomes a CPU round and a kernel round of the GPU miner can have.\<close>

definition cpu_outcome :: "scrypt_key \<Rightarrow> Block \<Rightarrow> nat \<Rightarrow> MineOutcome \<Rightarrow> bool" where
  "cpu_outcome key b target out \<longleftrightarrow> (\<exists>g t evs pickDone. gpu_mineParallel key g b target t evs pickDone = Some (Inr out))"

definition kernel_outcome :: "scrypt_key \<Rightarrow> Block \<Rightarrow> nat \<Rightarrow> MineOutcome \<Rightarrow> bool" where
  "kernel_outcome key b target out \<longleftrightarrow> (\<exists>drv copy hostMem g t cpu ctx h h'. cpu_outcome key b target cpu \<and>
     gpu_kernel_round drv copy hostMem key g b target t cpu ctx h = Some (Inr (out, h')))"

lemma cpu_outcome_solves:
  "cpu_outcome key b target out \<Longrightarrow> moFound out \<Longrightarrow> wf_block b \<Longrightarrow> key_ok key NewScryptMiner \<Longrightarrow> solves key b target out"
  by (auto simp: cpu_outcome_def intro: gpu_parallel_solves)

lemma kernel_outcome_solves:
  "kernel_outcome key b target out \<Longrightarrow> moFound out \<Longrightarrow> wf_block b \<Longrightarrow> key_ok key NewScryptMiner \<Longrightarrow> solves key b target out"
  unfolding kernel_outcome_def using gpu_kernel_solves cpu_outcome_solves by blast

lemma mineWithOpenCL_out: "moFound (mineWithOpenCL g b x y z) \<Longrightarrow> mineWithOpenCL g b x y z \<in> {x, y, z}"
  by (auto simp: mineWithOpenCL_def Let_def split: option.splits if_splits)

lemma gpu_MineBlock_out:
  assumes "gpu_MineBlock opencl g b targetHex kernelRound cpuInner cpuOuter = (out, g')" "hexDecode targetHex = Inr bs" "moFound out"
  shows "out \<in> {kernelRound (if be_nat bs = 0 then 1 else be_nat bs), cpuInner (if be_nat bs = 0 then 1 else be_nat bs),
    cpuOuter (if be_nat bs = 0 then 1 else be_nat bs)}"
proof -
  define T where "T = (if be_nat bs = 0 then 1 else be_nat bs)"
  define g1 where "g1 = (if gInitialized g then g else gpu_Initialize opencl g)"
  have "gpu_MineBlock opencl g b targetHex kernelRound cpuInner cpuOuter =
      ((case openclCtx g1 of Some ctx \<Rightarrow> if clInitialized ctx
          then mineWithOpenCL g1 b (kernelRound T) (cpuInner T) (cpuOuter T) else cpuOuter T
        | None \<Rightarrow> cpuOuter T), g1)"
    unfolding gpu_MineBlock_def assms(2) g1_def T_def by (simp add: Let_def)
  with assms(1) have "out \<in> {mineWithOpenCL g1 b (kernelRound T) (cpuInner T) (cpuOuter T), cpuOuter T}"
    by (auto split: option.splits if_splits)
  with assms(3) mineWithOpenCL_out show ?thesis unfolding T_def [symmetric] by blast
qed

text \<open>C9: the GPU miner as a whole: with the rounds it can make in place of its parameters, a block
  \<open>MineBlock\<close> reports solved is solved for the target given in hexadecimal, whether the kernel, the
  kernel's fallback or the CPU found it.\<close>

theorem gpu_block_sound:
  assumes "gpu_MineBlock opencl g b targetHex kernelRound cpuInner cpuOuter = (out, g')" "moFound out"
    and "hexDecode targetHex = Inr bs" "target = (if be_nat bs = 0 then 1 else be_nat bs)"
    and "kernel_outcome key b target (kernelRound target)"
    and "cpu_outcome key b target (cpuInner target)" "cpu_outcome key b target (cpuOuter target)"
    and "wf_block b" "key_ok key NewScryptMiner"
  shows "\<exists>h. pow_hash key NewScryptMiner (b\<lparr>bNonce := moNonce out\<rparr>) = Some h \<and> moHash out = Some h \<and> le_nat h \<le> target"
proof -
  from gpu_MineBlock_out [OF assms(1,3,2)] have "out \<in> {kernelRound target, cpuInner target, cpuOuter target}"
    by (simp only: assms(4))
  then have "solves key b target out"
    using assms(2,5-9) cpu_outcome_solves kernel_outcome_solves by blast
  then show ?thesis by (simp add: solves_def)
qed

section \<open>Witnesses\<close>

text \<open>A driver that does everything asked of it and whose kernel claims nonce 5, and one that refuses
  buffers in host memory.\<close>

definition hitDriver :: cl_driver where
  "hitDriver h c = \<lparr>rpErr = 0, rpHandle = length h + 1, rpHandles = [7], rpText = '''', rpSize = 2 ^ 30,
     rpWords = [1, 5] @ replicate 32 0\<rparr>"

definition pickyDriver :: cl_driver where
  "pickyDriver h c = (case c of
     CreateBuffer f n p \<Rightarrow> if p = 0 then hitDriver h c else (hitDriver h c)\<lparr>rpErr := -6, rpHandle := 0\<rparr>
   | _ \<Rightarrow> hitDriver h c)"

definition kernelCtx :: OpenCLContext where
  "kernelCtx = \<lparr>clDevices = [7], clContext = 1, clQueue = 1, clDevice = 7, clProgram = 1, clKernel = 9, clInitialized = True,
     clDeviceName = ''GPU'', clDeviceType = ''GPU'', maxScratchpadBuf = 2 ^ 28, useHostPtrScratchpad = False,
     useVirtualAllocScratch = False, probeFailed = False, useSplitKernelPath = False, scryptVerifyFailed = False,
     kernelFill = 0, kernelMix = 0\<rparr>"

lemma hitDriver_ok: "driver_ok hitDriver" "driver_ok pickyDriver"
  by (simp_all add: driver_ok_def hitDriver_def pickyDriver_def)

definition kernelMiner :: GPUMiner where
  "kernelMiner = (gpuMiner2 1000)\<lparr>gNonceStartMode := ''random''\<rparr>"

text \<open>What \<open>gpu_hit\<close> returns.\<close>

definition cpuHit :: MineOutcome where
  "cpuHit = \<lparr>moNonce = 1, moHash = Some (replicate 32 0), moFound = True, moHashCount = 0\<rparr>"

definition kernelEnv :: "cl_driver \<Rightarrow> KernelEnv" where
  "kernelEnv drv = \<lparr>keDriver = drv, keKey = zeroKey, keCopy = True, keSlice = 3, keHeader = precomputeHeaderBase sampleBlock,
     keTarget = 5 # replicate 31 0, keMax = 1000, keStart = 1, keCpu = cpuHit\<rparr>"

lemma hitDriver_simps [simp]: "rpErr (hitDriver h c) = 0" "rpHandle (hitDriver h c) = Suc (length h)"
  "rpSize (hitDriver h c) = 2 ^ 30" "rpWords (hitDriver h c) = [1, 5] @ replicate 32 0"
  by (simp_all add: hitDriver_def)

lemma hit_check: "check_hit zeroKey hd80 (5 # replicate 31 0) (1 # 5 # replicate 32 0) = Some (5, replicate 32 0)"
proof -
  have r: "result_hash (1 # 5 # replicate 32 (0 :: u32)) = replicate 32 0"
    by (simp add: result_hash_def numeral_eq_Suc)
  have m: "hashMeetsTargetLE (replicate 32 0) (5 # replicate 31 0)"
    by (simp add: hashMeetsTargetLE_iff)
  show ?thesis by (simp add: check_hit_def Let_def r m zeroKey_def)
qed

lemma kernel_batch: "gpu_batch_size (2 ^ 30) (2 ^ 30) (2 ^ 28) 1000 = 768"
  by (simp add: gpu_batch_size_def Let_def round256_def scratchpadPerThread_def maxThreadsPerBatch_def)

lemma hit_words: "rpErr r = 0 \<Longrightarrow> rpWords r = [1, 5] @ replicate 32 0 \<Longrightarrow> result_words r = 1 # 5 # replicate 32 0"
  by (simp add: result_words_def)

lemma kernel_hit_batch: "\<exists>h'. single_batch (kernelEnv hitDriver) kernelCtx 768 1 768 three h = (Scanned (Some (5, replicate 32 0)), h')"
proof -
  have c: "\<exists>sp. create_scratchpad (kernelEnv hitDriver) kernelCtx 768 h = (Some (sp, 0), CreateBuffer CL_MEM_READ_WRITE (768 * scratchpadPerThread) 0 # h) \<and> made sp"
    by (simp add: create_scratchpad_def kernelCtx_def kernelEnv_def cl_def made_def Let_def)
  then obtain sp where sp: "create_scratchpad (kernelEnv hitDriver) kernelCtx 768 h =
      (Some (sp, 0), CreateBuffer CL_MEM_READ_WRITE (768 * scratchpadPerThread) 0 # h)" "made sp" by blast
  have e: "keDriver (kernelEnv hitDriver) = hitDriver" "keKey (kernelEnv hitDriver) = zeroKey"
    "keTarget (kernelEnv hitDriver) = 5 # replicate 31 0" by (simp_all add: kernelEnv_def)
  have w: "result_words (hitDriver x y) = 1 # 5 # replicate 32 0" for x y by (rule hit_words) simp_all
  show ?thesis
    by (cases three) (simp add: single_batch_def sp e w hit_check cl_def Let_def CL_INVALID_WORK_GROUP_SIZE_def)
qed

lemma kernel_hit_run:
  "\<exists>h'. run_batch (kernelEnv hitDriver) kernelCtx None 768 768 0 h = (Scanned (Some (5, replicate 32 0)), h')"
proof -
  obtain three h1 where b: "batch_buffers (kernelEnv hitDriver) h = (Some three, h1)"
    by (simp add: batch_buffers_def kernelEnv_def cl_def made_def)
  have "\<not> useSplitKernelPath kernelCtx" "keStart (kernelEnv hitDriver) = 1" by (simp_all add: kernelCtx_def kernelEnv_def)
  with b kernel_hit_batch [of three "ZeroResults (snd (snd three)) # h1"] show ?thesis
    by (auto simp: run_batch_def Let_def)
qed

lemma kernel_hit:
  "\<exists>h'. mineWithOpenCLKernel (kernelEnv hitDriver) kernelCtx h =
     Some (\<lparr>moNonce = 5, moHash = Some (replicate 32 0), moFound = True, moHashCount = 768\<rparr>, h')"
proof -
  have ctx: "clDevice kernelCtx = 7" "maxScratchpadBuf kernelCtx = 2 ^ 28" "\<not> useSplitKernelPath kernelCtx"
    by (simp_all add: kernelCtx_def)
  have env: "keDriver (kernelEnv hitDriver) = hitDriver" "keMax (kernelEnv hitDriver) = 1000" by (simp_all add: kernelEnv_def)
  have w: "work_size 1000 0 768 = 768" by (simp add: work_size_def Let_def)
  obtain h1 where h1: "h1 = GetMaxAlloc 7 # GetGlobalMem 7 # h" by simp
  obtain h2 where r: "run_batch (kernelEnv hitDriver) kernelCtx None 768 768 0 h1 = (Scanned (Some (5, replicate 32 0)), h2)"
    using kernel_hit_run by blast
  have "kernel_loop (kernelEnv hitDriver) kernelCtx None 768 0 h1 =
      Some (\<lparr>moNonce = 5, moHash = Some (replicate 32 0), moFound = True, moHashCount = 768\<rparr>, h2)"
    by (subst kernel_loop.simps) (simp add: env w r)
  then show ?thesis
    using kernel_batch by (simp add: mineWithOpenCLKernel_def ctx env cl_def Let_def reuse_buffers_def h1)
qed

lemma kernel_round_hit:
  "\<exists>h'. gpu_kernel_round hitDriver True 3 zeroKey kernelMiner sampleBlock 5 1 cpuHit kernelCtx [] =
     Some (Inr (\<lparr>moNonce = 5, moHash = Some (replicate 32 0), moFound = True, moHashCount = 768\<rparr>, h'))"
proof -
  have "gpu_effectiveMaxHashes kernelMiner = 1000" "calculateStartNonce sampleBlock ''random'' 1 = 1"
    by (simp_all add: kernelMiner_def gpuMiner2_def NewGPUMiner_def gpu_effectiveMaxHashes_def calculateStartNonce_def Let_def)
  with kernel_hit [of "[]"] show ?thesis by (simp add: gpu_kernel_round_def target_5 flip: kernelEnv_def)
qed

theorem kernel_found_sound_witness:
  "\<exists>h. pow_hash zeroKey NewScryptMiner (sampleBlock\<lparr>bNonce := 5\<rparr>) = Some h \<and> le_nat h \<le> 5"
proof -
  obtain h' where "gpu_kernel_round hitDriver True 3 zeroKey kernelMiner sampleBlock 5 1 cpuHit kernelCtx [] =
     Some (Inr (\<lparr>moNonce = 5, moHash = Some (replicate 32 0), moFound = True, moHashCount = 768\<rparr>, h'))"
    using kernel_round_hit by blast
  from kernel_found_sound [OF this _ gpu_hit [folded cpuHit_def kernelMiner_def]] show ?thesis
    by (auto simp: sample_ok key_ok_def zeroKey_def)
qed

theorem kernel_round_returns_witness:
  "\<exists>out h'. mineWithOpenCLKernel (kernelEnv pickyDriver) kernelCtx [] = Some (out, h') \<and> unat (moHashCount out) \<le> 1031"
  using kernel_round_returns [of "kernelEnv pickyDriver" kernelCtx "[]"] by (simp add: kernelEnv_def cpuHit_def)

theorem kernel_releases_buffers_witness:
  "\<exists>out h'. mineWithOpenCLKernel (kernelEnv hitDriver) kernelCtx [] = Some (out, h') \<and> moFound out \<and>
    live_buffers hitDriver h' = {#} \<and> live_pages hitDriver h' = {#}"
proof -
  obtain h' where h': "mineWithOpenCLKernel (kernelEnv hitDriver) kernelCtx [] =
     Some (\<lparr>moNonce = 5, moHash = Some (replicate 32 0), moFound = True, moHashCount = 768\<rparr>, h')"
    using kernel_hit by blast
  have "keDriver (kernelEnv hitDriver) = hitDriver" by (simp add: kernelEnv_def)
  with kernel_releases_buffers [OF h'] hitDriver_ok h' show ?thesis by (auto simp: kernelCtx_def)
qed

theorem refused_scratchpad_leaks_witness:
  "live_pages pickyDriver (snd (single_batch (kernelEnv pickyDriver)
     (kernelCtx\<lparr>useHostPtrScratchpad := True, useVirtualAllocScratch := True\<rparr>) 768 1 256 (1, 2, 3) [])) = {#1#}"
proof -
  let ?ctx = "kernelCtx\<lparr>useHostPtrScratchpad := True, useVirtualAllocScratch := True\<rparr>"
  obtain sp h1 where "create_scratchpad (kernelEnv pickyDriver) ?ctx 256 [] = (Some (sp, 1), h1)" "\<not> made sp"
    by (simp add: create_scratchpad_def kernelEnv_def allocPageAligned_def cl_def Let_def pickyDriver_def made_def)
  from refused_scratchpad_leaks [OF _ _ _ this, of 768 1 "(1, 2, 3)"] hitDriver_ok show ?thesis
    by (simp add: kernelEnv_def)
qed

theorem gpu_block_sound_witness:
  "\<exists>h. pow_hash zeroKey NewScryptMiner (sampleBlock\<lparr>bNonce := 5\<rparr>) = Some h \<and> le_nat h \<le> 5"
proof -
  let ?g = "kernelMiner\<lparr>openclCtx := Some kernelCtx, gInitialized := True\<rparr>"
  let ?hit = "\<lparr>moNonce = 5, moHash = Some (replicate 32 0), moFound = True, moHashCount = 768\<rparr>"
  have c: "cpu_outcome zeroKey sampleBlock 5 cpuHit"
    unfolding cpu_outcome_def using gpu_hit [folded cpuHit_def kernelMiner_def] by blast
  then have k: "kernel_outcome zeroKey sampleBlock 5 ?hit" unfolding kernel_outcome_def using kernel_round_hit by blast
  have hex: "hexDecode ''05'' = Inr [5]" by code_simp
  have "length (precomputeHeaderBase sampleBlock @ put_u32 0) = 80" by (simp add: precomputeHeaderBase_nonce sample_ok)
  then have "kernel_runs ?g sampleBlock" by (simp add: kernel_runs_def kernelCtx_def)
  then have "gpu_MineBlock None ?g sampleBlock ''05'' (\<lambda>_. ?hit) (\<lambda>_. cpuHit) (\<lambda>_. cpuHit) = (?hit, ?g)"
    using hex by (simp add: gpu_MineBlock_def mineWithOpenCL_def kernelCtx_def Let_def be_nat_def)
  from gpu_block_sound [OF this _ hex _ _ _ _ sample_ok(1)] c k show ?thesis
    by (auto simp: key_ok_def zeroKey_def be_nat_def)
qed

end
