(* ===== verification/WireFormat.thy ===== *)
theory WireFormat
  imports TxBlock
begin

text \<open>
  The P2P wire format of \<open>src/p2p.go\<close>: variable-length integers and strings, the
  24-byte message frame, the skippers that keep the header stream aligned over AuxPoW
  sections, and the parsers of \<open>inv\<close>, \<open>reject\<close>, \<open>addr\<close> and \<open>headers\<close> payloads.
  The codec and skipper interfaces of the prelude are interpreted on these definitions,
  against the writers of \<open>TxBlock\<close>.
\<close>

section \<open>Variable-length integers and strings\<close>

definition readVarInt :: "byte list \<Rightarrow> io_error + (u64 \<times> byte list)" where
  "readVarInt r =
     ebind (read_byte r) (\<lambda>(b, r).
       if b = 0xfd then ebind (read_full 2 r) (\<lambda>(v, r). Inr (ucast (get_u16 v), r))
       else if b = 0xfe then ebind (read_full 4 r) (\<lambda>(v, r). Inr (ucast (get_u32 v), r))
       else if b = 0xff then ebind (read_full 8 r) (\<lambda>(v, r). Inr (get_u64 v, r))
       else Inr (ucast b, r))"

datatype str_error = StrIO io_error | StrTooLong u64

definition readString :: "byte list \<Rightarrow> str_error + (byte list \<times> byte list)" where
  "readString r =
     ebind (emap_err StrIO (readVarInt r)) (\<lambda>(n, r).
       if 256 < n then Inl (StrTooLong n)
       else emap_err StrIO (read_full (unat n) r))"

definition readVarStr :: "byte list \<Rightarrow> str_error + (byte list \<times> byte list)" where
  "readVarStr r =
     ebind (emap_err StrIO (readVarInt r)) (\<lambda>(n, r).
       if 1048576 < n then Inl (StrTooLong n)
       else emap_err StrIO (read_full (unat n) r))"

lemma ucast_ucast_small:
  assumes "unat (w :: u64) < 2 ^ LENGTH('b::len)"
  shows "ucast (ucast w :: 'b word) = w"
proof (rule unsigned_word_eqI)
  have "take_bit LENGTH('b) (unat w) = unat w"
    using assms by (rule take_bit_nat_eq_self)
  then show "unat (ucast (ucast w :: 'b word) :: u64) = unat w"
    by (simp add: unsigned_ucast_eq unsigned_take_bit_eq)
qed

lemma varint_lead: "(v :: u64) < 0xFD \<Longrightarrow> (ucast v :: byte) \<noteq> 0xfd \<and> (ucast v :: byte) \<noteq> 0xfe \<and> (ucast v :: byte) \<noteq> 0xff"
  by (auto simp: word_less_nat_alt word_unat_eq_iff unsigned_ucast_eq take_bit_eq_mod)

lemma readVarInt_writeVarInt [simp, stream_simps]:
  "readVarInt (writeVarInt v @ r) = Inr (v, r)"
proof (cases "v < 0xFD")
  case True
  then have "unat v < 2 ^ LENGTH(8)" by (simp add: word_less_nat_alt)
  with True varint_lead [OF True] show ?thesis
    by (simp add: readVarInt_def writeVarInt_def ucast_ucast_small)
next
  case False
  consider "v \<le> 0xFFFF" | "\<not> v \<le> 0xFFFF" "v \<le> 0xFFFFFFFF" | "\<not> v \<le> 0xFFFF" "\<not> v \<le> 0xFFFFFFFF"
    by blast
  then show ?thesis
  proof cases
    case 1
    then have "unat v < 2 ^ LENGTH(16)" by (simp add: word_le_nat_alt)
    with 1 False show ?thesis by (simp add: readVarInt_def writeVarInt_def ucast_ucast_small)
  next
    case 2
    then have "unat v < 2 ^ LENGTH(32)" by (simp add: word_le_nat_alt)
    with 2 False show ?thesis by (simp add: readVarInt_def writeVarInt_def ucast_ucast_small)
  next
    case 3
    with False show ?thesis by (simp add: readVarInt_def writeVarInt_def)
  qed
qed

interpretation varint: codec writeVarInt readVarInt "\<lambda>_. True"
  by unfold_locales simp

lemma unat_of_nat_u64: "n < 2 ^ 64 \<Longrightarrow> unat (of_nat n :: u64) = n"
  by (simp add: unat_of_nat)

lemma readVarInt_writeLen [simp, stream_simps]:
  "readVarInt (writeLen xs @ r) = Inr (of_nat (length xs), r)"
  by (simp add: writeLen_def)

lemma sint_of_nat_u64: "n < 2 ^ 63 \<Longrightarrow> sint (of_nat n :: u64) = int n"
  by (simp add: signed_of_nat signed_take_bit_int_eq_self)

section \<open>Skipping transactions and AuxPoW sections\<close>

definition skip_input :: "byte list \<Rightarrow> io_error + byte list" where
  "skip_input r =
     ebind (copyN_discard 36 r) (\<lambda>r.
     ebind (readVarInt r) (\<lambda>(scriptLen, r).
     ebind (copyN_discard (sint scriptLen) r) (copyN_discard 4)))"

definition skip_output :: "byte list \<Rightarrow> io_error + byte list" where
  "skip_output r =
     ebind (copyN_discard 8 r) (\<lambda>r.
     ebind (readVarInt r) (\<lambda>(scriptLen, r). copyN_discard (sint scriptLen) r))"

definition skipTransaction :: "byte list \<Rightarrow> io_error + byte list" where
  "skipTransaction r =
     ebind (copyN_discard 4 r) (\<lambda>r.
     ebind (readVarInt r) (\<lambda>(nVin, r).
     ebind (repeat_skip (unat nVin) skip_input r) (\<lambda>r.
     ebind (readVarInt r) (\<lambda>(nVout, r).
     ebind (repeat_skip (unat nVout) skip_output r) (copyN_discard 4)))))"

text \<open>The branch of \<open>n\<close> hashes is skipped as \<open>int64(n*32)\<close> bytes, a 64-bit product.\<close>

definition skip_branch :: "byte list \<Rightarrow> io_error + byte list" where
  "skip_branch r =
     ebind (readVarInt r) (\<lambda>(n, r).
     ebind (copyN_discard (sint (n * 32)) r) (copyN_discard 4))"

definition skipAuxPow :: "byte list \<Rightarrow> io_error + byte list" where
  "skipAuxPow r =
     ebind (skipTransaction r) (\<lambda>r.
     ebind (copyN_discard 32 r) (\<lambda>r.
     ebind (skip_branch r) (\<lambda>r.
     ebind (skip_branch r) (copyN_discard 80))))"

lemma skip_input_serialize:
  "wf_input i \<Longrightarrow> skip_input (serializeInput i @ r) = Inr r"
  by (simp add: skip_input_def serializeInput_def wf_input_def sint_of_nat_u64
      copyN_discard_append [of 36 "opHash (PreviousOutput i) @ put_u32 (opIndex (PreviousOutput i))", simplified])

lemma skip_output_serialize:
  "wf_output out \<Longrightarrow> skip_output (serializeOutput out @ r) = Inr r"
  by (simp add: skip_output_def serializeOutput_def wf_output_def sint_of_nat_u64)

interpretation input_skip: skipper serializeInput skip_input wf_input
  by unfold_locales (rule skip_input_serialize)

interpretation output_skip: skipper serializeOutput skip_output wf_output
  by unfold_locales (rule skip_output_serialize)

lemma skipTransaction_serialize:
  "wf_tx tx \<Longrightarrow> skipTransaction (serializeTx tx @ r) = Inr r"
  by (simp add: skipTransaction_def serializeTx_def wf_tx_def unat_of_nat_u64
      input_skip.repeat_skip_enc output_skip.repeat_skip_enc)

interpretation tx_skip: skipper serializeTx skipTransaction wf_tx
  by unfold_locales (rule skipTransaction_serialize)

lemma sint_branch: "n < 2 ^ 58 \<Longrightarrow> sint (of_nat n * 32 :: u64) = int (32 * n)"
  using sint_of_nat_u64 [of "32 * n"] by (simp add: mult.commute)

lemma skip_branch_serialize:
  "wf_branch br \<Longrightarrow>
   skip_branch (writeLen br @ concat br @ put_u32 i @ r) = Inr r"
  by (simp add: skip_branch_def wf_branch_def sint_branch length_concat_32)

lemma skipTransaction_empty:
  "skipTransaction (put_u32 0 @ writeVarInt 0 @ writeVarInt 0 @ put_u32 0 @ r) = Inr r"
  by (simp add: skipTransaction_def readVarInt_def)

lemma skipAuxPow_serialize:
  "wf_auxpow ap \<Longrightarrow> skipAuxPow (serializeAuxPow ap @ r) = Inr r"
  by (cases "CoinbaseTx ap"; cases "ParentBlockHeader ap")
    (simp_all add: skipAuxPow_def serializeAuxPow_def wf_auxpow_def skip_branch_serialize
      skipTransaction_serialize skipTransaction_empty [simplified])

interpretation auxpow_skip: skipper serializeAuxPow skipAuxPow wf_auxpow
  by unfold_locales (rule skipAuxPow_serialize)

text \<open>A skipped AuxPoW section has at least 132 bytes; the minimal one has 5.\<close>

definition consumes :: "nat \<Rightarrow> (byte list \<Rightarrow> io_error + byte list) \<Rightarrow> bool" where
  "consumes n f \<longleftrightarrow> (\<forall>r r'. f r = Inr r' \<longrightarrow> n + length r' \<le> length r)"

lemma consumes_ebind:
  "consumes m f \<Longrightarrow> consumes n g \<Longrightarrow> consumes (m + n) (\<lambda>r. ebind (f r) g)"
  by (force simp: consumes_def ebind_eq_Inr_iff)

lemma consumes_copyN: "0 \<le> n \<Longrightarrow> consumes (nat n) (copyN_discard n)"
  by (auto simp: consumes_def copyN_discard_def split: if_splits)

lemma consumes_copyN_any: "consumes 0 (copyN_discard n)"
  by (auto simp: consumes_def copyN_discard_def split: if_splits)

lemma read_full_length: "read_full n r = Inr (bs, r') \<Longrightarrow> length r' \<le> length r"
  by (auto simp: read_full_eq_Inr_iff)

lemma consumes_readVarInt:
  assumes "\<And>v. consumes n (g v)"
  shows "consumes (Suc n) (\<lambda>r. ebind (readVarInt r) (\<lambda>(v, r). g v r))"
proof -
  have "Suc (length r') \<le> length r" if "readVarInt r = Inr (v, r')" for r v r'
    using that by (cases r)
      (auto simp: readVarInt_def ebind_eq_Inr_iff dest!: read_full_length split: if_splits)
  with assms show ?thesis
    by (fastforce simp: consumes_def ebind_eq_Inr_iff)
qed

lemma consumes_repeat: "consumes 0 f \<Longrightarrow> consumes 0 (repeat_skip n f)"
proof (induction n)
  case (Suc n)
  from consumes_ebind [OF Suc.prems Suc.IH [OF Suc.prems]] show ?case by simp
qed (simp add: consumes_def)

lemma consumes_mono: "consumes n f \<Longrightarrow> m \<le> n \<Longrightarrow> consumes m f"
  by (force simp: consumes_def)

lemma consumes_skip_input: "consumes 0 skip_input"
  unfolding skip_input_def
  by (rule consumes_mono [OF consumes_ebind [OF consumes_copyN_any
        consumes_readVarInt [OF consumes_ebind [OF consumes_copyN_any consumes_copyN_any]]]]) simp

lemma consumes_skip_output: "consumes 0 skip_output"
  unfolding skip_output_def
  by (rule consumes_mono [OF consumes_ebind [OF consumes_copyN_any
        consumes_readVarInt [OF consumes_copyN_any]]]) simp

lemma consumes_skipTransaction: "consumes 10 skipTransaction"
  using consumes_ebind [OF consumes_copyN [of 4]
      consumes_readVarInt [OF consumes_ebind [OF consumes_repeat [OF consumes_skip_input]
          consumes_readVarInt [OF consumes_ebind [OF consumes_repeat [OF consumes_skip_output]
              consumes_copyN [of 4]]]]]]
  unfolding skipTransaction_def by (simp add: case_prod_unfold)

lemma consumes_skip_branch: "consumes 5 skip_branch"
  using consumes_readVarInt [OF consumes_ebind [OF consumes_copyN_any consumes_copyN [of 4]]]
  unfolding skip_branch_def by (simp add: case_prod_unfold)

lemma consumes_skipAuxPow: "consumes 132 skipAuxPow"
  using consumes_ebind [OF consumes_skipTransaction consumes_ebind [OF consumes_copyN [of 32]
      consumes_ebind [OF consumes_skip_branch consumes_ebind [OF consumes_skip_branch
        consumes_copyN [of 80]]]]]
  unfolding skipAuxPow_def by simp

section \<open>Properties\<close>

text \<open>Variable-length integers round-trip in front of any rest of the stream.\<close>

theorem varint_roundtrip:
  "readVarInt (writeVarInt v @ rest) = Inr (v, rest)"
  by (rule varint.dec_enc) simp

text \<open>C37: skipping the serialisation of a well-formed AuxPoW section leaves the reader exactly
  at the byte behind it, so the next header is read aligned.\<close>

theorem auxpow_skip_aligned:
  assumes "wf_auxpow ap"
  shows "skipAuxPow (serializeAuxPow ap @ rest) = Inr rest"
  using assms by (rule auxpow_skip.skip_enc)

theorem auxpow_skip_aligned_witness:
  "skipAuxPow (serializeAuxPow \<lparr>CoinbaseTx = Some \<lparr>txVersion = 1, Inputs = [\<lparr>PreviousOutput =
        \<lparr>opHash = replicate 32 0, opIndex = 0xffffffff\<rparr>, ScriptSig = [1, 2, 3],
        txSequence = 0xffffffff\<rparr>], Outputs = [\<lparr>outValue = 50, ScriptPubKey = [0x6a]\<rparr>], LockTime = 0\<rparr>,
      BlockHash = replicate 32 9, MerkleBranch = [replicate 32 4], MerkleIndex = 0,
      ChainMerkleBranch = [], ChainIndex = 0, ParentBlockHeader = None\<rparr> @ [1, 2]) = Inr [1, 2]"
  by (rule auxpow_skip_aligned) (simp add: wf_auxpow_def wf_tx_def wf_input_def wf_output_def wf_branch_def)

text \<open>The AuxPoW section that \<open>Serialize\<close> writes for a block without an \<open>AuxPow\<close> is not one
  the program's own reader can skip: it fails or swallows at least 127 bytes of what follows.\<close>

theorem minimal_auxpow_misaligned:
  assumes "bAuxPow b = None"
  shows "case skipAuxPow (serializeBody b) of
      Inr rest \<Rightarrow> length rest + 127 \<le>
        length (writeLen (Transactions b) @ concat (map serializeTx (Transactions b)))
    | Inl e \<Rightarrow> True"
proof -
  have "length minimalAuxPow = 5" by (simp add: minimalAuxPow_def)
  then show ?thesis
    using assms consumes_skipAuxPow unfolding consumes_def
    by (fastforce simp: serializeBody_def split: sum.splits)
qed

theorem minimal_auxpow_misaligned_witness:
  "\<exists>e. skipAuxPow (serializeBody \<lparr>bVersion = 0x620104, bPrevBlock = replicate 32 1,
      bMerkleRoot = replicate 32 2, bTimestamp = 1700000000, bBits = 0x1a05e69f, bNonce = 5,
      bAuxPow = None, Transactions = []\<rparr>) = Inl e"
  using minimal_auxpow_misaligned [of "\<lparr>bVersion = 0x620104, bPrevBlock = replicate 32 1,
      bMerkleRoot = replicate 32 2, bTimestamp = 1700000000, bBits = 0x1a05e69f, bNonce = 5,
      bAuxPow = None, Transactions = []\<rparr>"]
  by (auto simp: writeLen_def split: sum.splits)

end
