(* ===== verification/P2PMessages.thy ===== *)
theory P2PMessages
  imports WireFormat
begin

text \<open>
  The message layer of \<open>src/p2p.go\<close>: a peer link with its byte stream, framing
  (\<open>writeMessage\<close>, \<open>readMessage\<close>, \<open>disconnect\<close>) and the payload parsers for \<open>inv\<close>,
  \<open>reject\<close>, \<open>headers\<close> counts and \<open>addr\<close>. The network is an inbox of bytes still to be
  delivered, what the socket does when they run out, and how many more bytes the socket
  takes before a write fails.
\<close>

section \<open>The peer link\<close>

datatype conn_end = EndTimeout | EndClosed

record Conn =
  inbox :: "byte list"
  connEnd :: conn_end
  outbox :: "byte list"
  room :: nat

record PeerLink =
  magic :: "byte list"
  conn :: "Conn option"
  peerAddr :: string
  knownPeers :: "string list"

datatype msg_error =
    NotConnected
  | WriteFailed
  | ReadTimeout
  | ReadClosed
  | BadMagic
  | MessageTooLarge u32
  | BadChecksum string

text \<open>\<open>disconnect\<close> also drops the first occurrence of the peer from \<open>knownPeers\<close>.\<close>

definition disconnect :: "PeerLink \<Rightarrow> PeerLink" where
  "disconnect l =
     (let addr = peerAddr l;
          l' = (if conn l \<noteq> None then l\<lparr>conn := None, peerAddr := ''''\<rparr> else l)
      in if addr \<noteq> '''' then l'\<lparr>knownPeers := remove1 addr (knownPeers l')\<rparr> else l')"

section \<open>Framing\<close>

definition string_bytes :: "string \<Rightarrow> byte list" where
  "string_bytes s = map of_char s"

definition bytes_string :: "byte list \<Rightarrow> string" where
  "bytes_string bs = map (\<lambda>b. char_of (unat b)) bs"

definition messageHeader :: "byte list \<Rightarrow> string \<Rightarrow> byte list \<Rightarrow> byte list" where
  "messageHeader mg command payload =
     (let cmd = take 12 (string_bytes command) in
      mg @ cmd @ replicate (12 - length cmd) 0 @
      put_u32 (of_nat (length payload)) @ take 4 (sha256 (sha256 payload)))"

text \<open>
  \<open>conn.Write(bs)\<close>: the socket takes \<open>room\<close> more bytes. A write that does not fit puts
  out the bytes that fit, reports an error, and every later write of a byte fails too.
\<close>

definition conn_write :: "byte list \<Rightarrow> Conn \<Rightarrow> bool \<times> Conn" where
  "conn_write bs c =
     (if length bs \<le> room c
      then (True, c\<lparr>outbox := outbox c @ bs, room := room c - length bs\<rparr>)
      else (False, c\<lparr>outbox := outbox c @ take (room c) bs, room := 0\<rparr>))"

text \<open>\<open>if _, err := p.conn.Write(bs); err != nil { p.disconnect(); return err }\<close>\<close>

definition link_write :: "byte list \<Rightarrow> PeerLink \<Rightarrow> (msg_error + unit) \<times> PeerLink" where
  "link_write bs l =
     (case conn l of
        None \<Rightarrow> (Inl NotConnected, l)
      | Some c \<Rightarrow>
          (case conn_write bs c of
             (True, c') \<Rightarrow> (Inr (), l\<lparr>conn := Some c'\<rparr>)
           | (False, c') \<Rightarrow> (Inl WriteFailed, disconnect (l\<lparr>conn := Some c'\<rparr>))))"

definition writeMessage :: "string \<Rightarrow> byte list \<Rightarrow> PeerLink \<Rightarrow> (msg_error + unit) \<times> PeerLink" where
  "writeMessage command payload l =
     (case link_write (messageHeader (magic l) command payload) l of
        (Inl e, l) \<Rightarrow> (Inl e, l)
      | (Inr _, l) \<Rightarrow> if 0 < length payload then link_write payload l else (Inr (), l))"

text \<open>
  \<open>io.ReadFull(p.conn, buf)\<close>: whatever arrived is consumed, also when it was not enough.
  A timeout keeps the connection, any other read error drops it.
\<close>

definition conn_read :: "nat \<Rightarrow> Conn \<Rightarrow> (msg_error + byte list) \<times> Conn" where
  "conn_read n c =
     (if n \<le> length (inbox c)
      then (Inr (take n (inbox c)), c\<lparr>inbox := drop n (inbox c)\<rparr>)
      else (Inl (case connEnd c of EndTimeout \<Rightarrow> ReadTimeout | EndClosed \<Rightarrow> ReadClosed),
            c\<lparr>inbox := []\<rparr>))"

definition link_read :: "nat \<Rightarrow> PeerLink \<Rightarrow> (msg_error + byte list) \<times> PeerLink" where
  "link_read n l =
     (case conn l of
        None \<Rightarrow> (Inl NotConnected, l)
      | Some c \<Rightarrow>
          (case conn_read n c of
             (Inr bs, c') \<Rightarrow> (Inr bs, l\<lparr>conn := Some c'\<rparr>)
           | (Inl e, c') \<Rightarrow>
               (Inl e, if e = ReadTimeout then l\<lparr>conn := Some c'\<rparr>
                       else disconnect (l\<lparr>conn := Some c'\<rparr>))))"

definition maxMessageLength :: u32 where
  "maxMessageLength = 32 * 1024 * 1024"

definition readMessage :: "PeerLink \<Rightarrow> (msg_error + (string \<times> byte list)) \<times> PeerLink" where
  "readMessage l =
     (case link_read 24 l of
        (Inl e, l) \<Rightarrow> (Inl e, l)
      | (Inr hdr, l) \<Rightarrow>
          if take 4 hdr \<noteq> magic l then (Inl BadMagic, disconnect l)
          else
            (let command = bytes_string (takeWhile (\<lambda>b. b \<noteq> 0) (take 12 (drop 4 hdr)));
                 len = get_u32 (take 4 (drop 16 hdr))
             in if maxMessageLength < len then (Inl (MessageTooLarge len), l)
                else
                  (case (if len = 0 then (Inr [], l) else link_read (unat len) l) of
                     (Inl e, l) \<Rightarrow> (Inl e, l)
                   | (Inr payload, l) \<Rightarrow>
                       if drop 20 hdr \<noteq> take 4 (sha256 (sha256 payload))
                       then (Inl (BadChecksum command), disconnect l)
                       else (Inr (command, payload), l))))"

lemma disconnect_simps [simp]:
  "magic (disconnect l) = magic l" "conn (disconnect l) = None"
  by (simp_all add: disconnect_def Let_def)

lemma length_messageHeader [simp]: "length mg = 4 \<Longrightarrow> length (messageHeader mg cmd p) = 24"
  by (simp add: messageHeader_def Let_def string_bytes_def)

lemma unat_of_char_byte [simp]: "unat (of_char c :: byte) = of_char c"
proof -
  have "unat (of_nat (of_char c) :: byte) = of_char c mod 256"
    by (rule unat_of_nat_byte)
  then show ?thesis by (simp only: of_nat_of_char of_char_mod_256)
qed

lemma bytes_string_bytes [simp]: "bytes_string (string_bytes s) = s"
  by (induction s) (simp_all add: bytes_string_def string_bytes_def)

lemma takeWhile_pad: "(\<forall>b \<in> set bs. b \<noteq> 0) \<Longrightarrow> takeWhile (\<lambda>b. b \<noteq> 0) (bs @ replicate n (0 :: byte)) = bs"
  by (induction bs) (auto simp: takeWhile_replicate)

lemma link_read_append:
  assumes "conn l = Some c" "inbox c = bs @ rest" "n = length bs"
  shows "link_read n l = (Inr bs, l\<lparr>conn := Some (c\<lparr>inbox := rest\<rparr>)\<rparr>)"
  using assms by (simp add: link_read_def conn_read_def)

text \<open>A command that survives framing: at most 12 characters, none of them NUL.\<close>

definition frameable :: "byte list \<Rightarrow> string \<Rightarrow> byte list \<Rightarrow> bool" where
  "frameable mg command payload \<longleftrightarrow>
     length mg = 4 \<and> length command \<le> 12 \<and> (\<forall>b \<in> set (string_bytes command). b \<noteq> 0) \<and>
     length payload \<le> 32 * 1024 * 1024"

lemma header_fields:
  assumes "frameable mg command payload"
  defines "hdr \<equiv> messageHeader mg command payload"
  shows "take 4 hdr = mg"
    "bytes_string (takeWhile (\<lambda>b. b \<noteq> 0) (take 12 (drop 4 hdr))) = command"
    "get_u32 (take 4 (drop 16 hdr)) = of_nat (length payload)"
    "drop 20 hdr = take 4 (sha256 (sha256 payload))"
proof -
  let ?cmd = "string_bytes command"
  from assms(1) have len: "length mg = 4" "length ?cmd \<le> 12" "\<forall>b \<in> set ?cmd. b \<noteq> 0"
    by (simp_all add: frameable_def string_bytes_def)
  have hdr: "hdr = mg @ (?cmd @ replicate (12 - length ?cmd) 0) @
      put_u32 (of_nat (length payload)) @ take 4 (sha256 (sha256 payload))"
    using len by (simp add: hdr_def messageHeader_def Let_def)
  from hdr len show "take 4 hdr = mg"
    "get_u32 (take 4 (drop 16 hdr)) = of_nat (length payload)"
    "drop 20 hdr = take 4 (sha256 (sha256 payload))" by simp_all
  from hdr len have "take 12 (drop 4 hdr) = ?cmd @ replicate (12 - length ?cmd) 0" by simp
  with takeWhile_pad [OF len(3)]
  show "bytes_string (takeWhile (\<lambda>b. b \<noteq> 0) (take 12 (drop 4 hdr))) = command"
    by simp
qed

lemma readMessage_frame:
  assumes ok: "frameable (magic l) command payload"
    and c: "conn l = Some c" "inbox c = messageHeader (magic l) command payload @ payload @ rest"
  shows "readMessage l = (Inr (command, payload), l\<lparr>conn := Some (c\<lparr>inbox := rest\<rparr>)\<rparr>)"
proof -
  let ?hdr = "messageHeader (magic l) command payload"
  let ?l1 = "l\<lparr>conn := Some (c\<lparr>inbox := payload @ rest\<rparr>)\<rparr>"
  let ?l2 = "l\<lparr>conn := Some (c\<lparr>inbox := rest\<rparr>)\<rparr>"
  from ok have len: "length payload \<le> 33554432" "length ?hdr = 24"
    by (simp_all add: frameable_def)
  have r1: "link_read 24 l = (Inr ?hdr, ?l1)"
    using link_read_append [OF c] len by simp
  have n: "unat (of_nat (length payload) :: u32) = length payload"
    using len by (simp add: unat_of_nat)
  then have small: "\<not> maxMessageLength < of_nat (length payload)"
    using len by (simp add: word_less_nat_alt maxMessageLength_def)
  have r2: "(if (of_nat (length payload) :: u32) = 0 then (Inr [], ?l1)
      else link_read (unat (of_nat (length payload) :: u32)) ?l1) = (Inr payload, ?l2)"
  proof (cases "payload = []")
    case False
    then have "(of_nat (length payload) :: u32) \<noteq> 0" using n by (metis length_0_conv unat_eq_zero)
    then show ?thesis using link_read_append [of ?l1 _ payload rest] n by simp
  qed simp
  show ?thesis
    unfolding readMessage_def r1 using header_fields [OF ok] small r2
    by (simp add: Let_def)
qed


text \<open>
  The two writes together: the message goes out whole when the socket takes it; otherwise
  the link is dropped.
\<close>

lemma writeMessage_room:
  assumes "conn l = Some c" "length (messageHeader (magic l) command payload @ payload) \<le> room c"
  shows "writeMessage command payload l = (Inr (), l\<lparr>conn := Some (c\<lparr>
      outbox := outbox c @ messageHeader (magic l) command payload @ payload,
      room := room c - length (messageHeader (magic l) command payload @ payload)\<rparr>)\<rparr>)"
  using assms by (cases payload) (simp_all add: writeMessage_def link_write_def conn_write_def)

lemma disconnect_conn_update [simp]:
  "conn l = Some c \<Longrightarrow> disconnect (l\<lparr>conn := Some c'\<rparr>) = disconnect l"
  by (simp add: disconnect_def Let_def)

lemma writeMessage_cases:
  obtains "conn l = None" "writeMessage command payload l = (Inl NotConnected, l)"
  | c where "conn l = Some c" "\<not> length (messageHeader (magic l) command payload @ payload) \<le> room c"
      "writeMessage command payload l = (Inl WriteFailed, disconnect l)"
  | c where "conn l = Some c" "length (messageHeader (magic l) command payload @ payload) \<le> room c"
      "writeMessage command payload l = (Inr (), l\<lparr>conn := Some (c\<lparr>
        outbox := outbox c @ messageHeader (magic l) command payload @ payload,
        room := room c - length (messageHeader (magic l) command payload @ payload)\<rparr>)\<rparr>)"
proof (cases "conn l")
  case None
  then show ?thesis using that(1) by (simp add: writeMessage_def link_write_def)
next
  case (Some c)
  show ?thesis
  proof (cases "length (messageHeader (magic l) command payload @ payload) \<le> room c")
    case True
    show ?thesis by (rule that(3) [OF Some True writeMessage_room [OF Some True]])
  next
    case False
    have "writeMessage command payload l = (Inl WriteFailed, disconnect l)"
      using Some False
      by (cases payload) (auto simp: writeMessage_def link_write_def conn_write_def disconnect_def Let_def)
    with Some False show ?thesis by (rule that(2))
  qed
qed

text \<open>Reading what the other side wrote: the link as a codec of messages.\<close>

lemma readMessage_writeMessage:
  assumes "frameable (magic l) command payload" "magic m = magic l"
    and "writeMessage command payload l = (Inr (), l')" "conn l = Some c" "outbox c = []"
    and "conn l' = Some c'" "conn m = Some d" "inbox d = outbox c' @ rest"
  shows "fst (readMessage m) = Inr (command, payload)"
proof -
  have "outbox c' = messageHeader (magic l) command payload @ payload"
    by (rule writeMessage_cases [of l command payload]) (use assms(3-6) in auto)
  with assms show ?thesis
    by (simp add: readMessage_frame [where c = d and rest = rest])
qed

section \<open>inv and headers\<close>

datatype inv_error = InvBadExpected | InvIO io_error

primrec inv_loop :: "nat \<Rightarrow> byte list \<Rightarrow> byte list \<Rightarrow> io_error + bool" where
  "inv_loop 0 expected r = Inr False"
| "inv_loop (Suc n) expected r =
     ebind (read_full 4 r) (\<lambda>(t, r).
     ebind (read_full 32 r) (\<lambda>(hash, r).
       if get_u32 t = 2 \<or> get_u32 t = 3 \<or> get_u32 t = 4 then
         (if hash = expected then Inr True else inv_loop n expected r)
       else inv_loop n expected r))"

text \<open>\<open>(count, containsExpectedHash, err)\<close>; the count is converted to a signed \<open>int\<close>.\<close>

definition parseInvForBlock :: "byte list \<Rightarrow> byte list \<Rightarrow> int \<times> bool \<times> inv_error option" where
  "parseInvForBlock payload expectedHash =
     (if length expectedHash \<noteq> 32 then (0, False, Some InvBadExpected)
      else case readVarInt payload of
        Inl e \<Rightarrow> (0, False, Some (InvIO e))
      | Inr (count, r) \<Rightarrow>
          (case inv_loop (unat count) expectedHash r of
             Inl e \<Rightarrow> (sint count, False, Some (InvIO e))
           | Inr b \<Rightarrow> (sint count, b, None)))"

definition parseHeadersCount :: "byte list \<Rightarrow> io_error + int" where
  "parseHeadersCount payload = ebind (readVarInt payload) (\<lambda>(n, r). Inr (sint n))"

definition inv_entry :: "u32 \<times> byte list \<Rightarrow> byte list" where
  "inv_entry e = put_u32 (fst e) @ snd e"

definition inv_hits :: "byte list \<Rightarrow> u32 \<times> byte list \<Rightarrow> bool" where
  "inv_hits expected e \<longleftrightarrow> fst e \<in> {2, 3, 4} \<and> snd e = expected"

lemma inv_loop_entries:
  "(\<forall>e \<in> set es. length (snd e) = 32) \<Longrightarrow>
   inv_loop (length es) expected (concat (map inv_entry es) @ r) = Inr (\<exists>e \<in> set es. inv_hits expected e)"
  by (induction es) (auto simp: inv_entry_def inv_hits_def)

section \<open>reject\<close>

text \<open>\<open>parseRejectPayload\<close>: \<open>(msgType, code, reason, hash, err)\<close>, with the fields read so far.\<close>

record RejectInfo =
  rejType :: string
  rejCode :: byte
  rejReason :: string
  rejHash :: "byte list option"
  rejErr :: "str_error option"

definition parseRejectPayload :: "byte list \<Rightarrow> RejectInfo" where
  "parseRejectPayload payload =
     (case readVarStr payload of
        Inl e \<Rightarrow> \<lparr>rejType = '''', rejCode = 0, rejReason = '''', rejHash = None, rejErr = Some e\<rparr>
      | Inr (msgTypeB, r) \<Rightarrow>
          let msgType = bytes_string msgTypeB in
          (case read_full 1 r of
             Inl e \<Rightarrow> \<lparr>rejType = msgType, rejCode = 0, rejReason = '''', rejHash = None,
                        rejErr = Some (StrIO e)\<rparr>
           | Inr (codeB, r) \<Rightarrow>
               (case readVarStr r of
                  Inl e \<Rightarrow> \<lparr>rejType = msgType, rejCode = codeB ! 0, rejReason = '''',
                             rejHash = None, rejErr = Some e\<rparr>
                | Inr (reasonB, r) \<Rightarrow>
                    \<lparr>rejType = msgType, rejCode = codeB ! 0, rejReason = bytes_string reasonB,
                     rejHash =
                       (if msgType = ''block'' \<or> msgType = ''tx'' then
                          (case read_full 32 r of Inr (hash, _) \<Rightarrow> Some hash | Inl _ \<Rightarrow> None)
                        else None),
                     rejErr = None\<rparr>)))"

text \<open>\<open>writeVarInt\<close> of the length followed by the bytes: the writer's form of a var-string.\<close>

definition var_str :: "byte list \<Rightarrow> byte list" where
  "var_str bs = writeLen bs @ bs"

lemma readVarStr_var_str:
  "length bs \<le> 1048576 \<Longrightarrow> readVarStr (var_str bs @ r) = Inr (bs, r)"
  by (simp add: readVarStr_def var_str_def unat_of_nat_u64 word_less_nat_alt)

interpretation var_str: codec var_str readVarStr "\<lambda>bs. length bs \<le> 1048576"
  by unfold_locales (rule readVarStr_var_str)

lemma readString_var_str:
  "length bs \<le> 256 \<Longrightarrow> readString (var_str bs @ r) = Inr (bs, r)"
  by (simp add: readString_def var_str_def unat_of_nat_u64 word_less_nat_alt)

interpretation short_str: codec var_str readString "\<lambda>bs. length bs \<le> 256"
  by unfold_locales (rule readString_var_str)

lemma parseRejectPayload_enc:
  assumes "length ty \<le> 1048576" "length reason \<le> 1048576" "length hash = 32"
  shows "parseRejectPayload (var_str (string_bytes ty) @ [code] @ var_str (string_bytes reason) @ hash) =
    \<lparr>rejType = ty, rejCode = code, rejReason = reason,
     rejHash = (if ty = ''block'' \<or> ty = ''tx'' then Some hash else None), rejErr = None\<rparr>"
proof -
  have "read_full 32 hash = Inr (hash, [])" using assms read_full_exact [of hash] by simp
  moreover have "length (string_bytes s) = length s" for s by (simp add: string_bytes_def)
  moreover have "read_full 1 (code # xs) = Inr ([code], xs)" for xs by (simp add: read_full_def)
  ultimately show ?thesis
    using assms by (simp add: parseRejectPayload_def readVarStr_var_str Let_def)
qed

section \<open>Properties\<close>

definition sampleLink :: "byte list \<Rightarrow> PeerLink" where
  "sampleLink bs = \<lparr>magic = [0xc0, 0xc0, 0xc0, 0xc0],
     conn = Some \<lparr>inbox = bs, connEnd = EndTimeout, outbox = [], room = 100\<rparr>,
     peerAddr = ''198.51.100.7:22556'', knownPeers = [''198.51.100.7:22556'']\<rparr>"

text \<open>C40: a message one side writes is the message the other side reads, whatever follows it
  in the stream, when both use the same network magic.\<close>

theorem message_roundtrip:
  assumes "frameable (magic l) command payload" "magic m = magic l"
    and "writeMessage command payload l = (Inr (), l')" "conn l = Some c" "outbox c = []"
    and "conn l' = Some c'" "conn m = Some d" "inbox d = outbox c' @ rest"
  shows "fst (readMessage m) = Inr (command, payload)"
  by (rule readMessage_writeMessage) (fact assms)+

theorem message_roundtrip_witness:
  "fst (readMessage (sampleLink (messageHeader [0xc0, 0xc0, 0xc0, 0xc0] ''ping'' [1, 2, 3] @ [1, 2, 3])))
    = Inr (''ping'', [1, 2, 3])"
  by (rule message_roundtrip [where l = "sampleLink []" and rest = "[]" and
        c = "\<lparr>inbox = [], connEnd = EndTimeout, outbox = [], room = 100\<rparr>" and
        c' = "\<lparr>inbox = [], connEnd = EndTimeout, outbox = messageHeader [0xc0, 0xc0, 0xc0, 0xc0]
          ''ping'' [1, 2, 3] @ [1, 2, 3], room = 73\<rparr>"])
    (simp_all add: sampleLink_def writeMessage_def link_write_def conn_write_def frameable_def
      string_bytes_def, simp_all)

text \<open>Reading a message drops the connection on every error except a timeout and an
  oversized length field, and never on success.\<close>

theorem read_error_disconnects:
  assumes "conn l = Some c"
  shows "case readMessage l of
      (Inr msg, l') \<Rightarrow> conn l' \<noteq> None
    | (Inl e, l') \<Rightarrow> conn l' = None \<longleftrightarrow> e \<noteq> ReadTimeout \<and> (\<forall>n. e \<noteq> MessageTooLarge n)"
  using assms
  by (auto simp: readMessage_def link_read_def conn_read_def Let_def
      split: if_splits conn_end.splits option.splits)

theorem read_error_disconnects_witness:
  "case readMessage (sampleLink [1, 2, 3]) of
      (Inr msg, l') \<Rightarrow> conn l' \<noteq> None
    | (Inl e, l') \<Rightarrow> conn l' = None \<longleftrightarrow> e \<noteq> ReadTimeout \<and> (\<forall>n. e \<noteq> MessageTooLarge n)"
  by (rule read_error_disconnects) (simp add: sampleLink_def)

text \<open>A read deadline that expires inside a frame header loses the bytes already received
  while the connection stays open, so the stream is no longer aligned on messages.\<close>

theorem timeout_loses_partial_header:
  assumes "conn l = Some c" "connEnd c = EndTimeout" "length (inbox c) < 24"
  shows "readMessage l = (Inl ReadTimeout, l\<lparr>conn := Some (c\<lparr>inbox := []\<rparr>)\<rparr>)"
  using assms by (simp add: readMessage_def link_read_def conn_read_def)

theorem timeout_loses_partial_header_witness:
  "\<exists>l'. readMessage (sampleLink [0xc0, 0xc0]) = (Inl ReadTimeout, l') \<and> conn l' \<noteq> None"
  using timeout_loses_partial_header [of "sampleLink [0xc0, 0xc0]"
      "\<lparr>inbox = [0xc0, 0xc0], connEnd = EndTimeout, outbox = [], room = 100\<rparr>"]
  by (simp add: sampleLink_def)

text \<open>An \<open>inv\<close> payload is recognised exactly when one of its block entries (types 2, 3, 4)
  carries the expected hash, and its entry count is reported.\<close>

theorem inv_recognises_block:
  assumes "length expected = 32" "\<forall>e \<in> set es. length (snd e) = 32" "length es < 2 ^ 63"
  shows "parseInvForBlock (writeLen es @ concat (map inv_entry es)) expected =
    (int (length es), (\<exists>e \<in> set es. inv_hits expected e), None)"
proof -
  have "inv_loop (length es) expected (concat (map inv_entry es)) = Inr (\<exists>e \<in> set es. inv_hits expected e)"
    using inv_loop_entries [OF assms(2), of expected "[]"] by simp
  with assms show ?thesis
    by (simp add: parseInvForBlock_def unat_of_nat_u64 sint_of_nat_u64)
qed

theorem inv_recognises_block_witness:
  "parseInvForBlock (writeLen [(1 :: u32, replicate 32 (8 :: byte)), (2, replicate 32 9)] @
      concat (map inv_entry [(1, replicate 32 8), (2, replicate 32 9)])) (replicate 32 9) =
    (int (length [(1 :: u32, replicate 32 (8 :: byte)), (2, replicate 32 9)]),
     (\<exists>e \<in> set [(1, replicate 32 8), (2, replicate 32 9)]. inv_hits (replicate 32 9) e), None)"
  by (rule inv_recognises_block) simp_all

end
