(* ===== verification/HeaderSync.thy ===== *)
theory HeaderSync
  imports P2PMessages CompactTarget "HOL-Library.AList"
begin

text \<open>
  Header synchronisation of \<open>src/p2p.go\<close>: the header-chain part of \<open>P2PClient\<close> (best
  header, locator ring, tip history, start checkpoint), \<open>setNetwork\<close>, the checkpoints,
  \<open>sendGetHeaders\<close>, \<open>processHeaders\<close> and the request loop over a peer link. The clock is a
  parameter: a deadline is the number of loop tests that still fall before it. The Go map
  \<open>tipHistory\<close> is an association list with distinct keys.
\<close>

section \<open>State\<close>

record CheckpointEntry =
  cpHeight :: int
  cpHash :: string

record HeaderChain =
  network :: string
  port :: nat
  netMagic :: "byte list"
  genesisHashWire :: "byte list"
  genesisTimestamp :: u32
  checkpoints :: "(string \<times> CheckpointEntry) list"
  headerRefreshMs :: int
  bestHeader :: "BlockHeader option"
  bestHeight :: int
  lastNonMinDifficultyBits :: u32
  tipParentTimestamp :: u32
  locatorHashes :: "byte list list"
  lastHeadersAppliedAt :: "int option"
  tipHistory :: "(int \<times> string) list"
  startLocatorHash :: "byte list"
  startHeight :: int
  hasStartCheckpoint :: bool
  lastHeadersReq :: "int option"

definition dogeMainnetMagic :: "byte list" where "dogeMainnetMagic = [0xc0, 0xc0, 0xc0, 0xc0]"
definition dogeTestnetMagic :: "byte list" where "dogeTestnetMagic = [0xfc, 0xc1, 0xb7, 0xdc]"

text \<open>\<open>init\<close>: \<open>hex.DecodeString\<close> with its error ignored, copied into 32 zero bytes.\<close>

definition hex_wire :: "string \<Rightarrow> byte list" where
  "hex_wire s = (case hexDecode s of Inr b \<Rightarrow> take 32 (b @ replicate 32 0) | Inl e \<Rightarrow> replicate 32 0)"

definition dogeGenesisHashWire :: "byte list" where
  "dogeGenesisHashWire = hex_wire ''9156352c1818b32e90c9e792efd6a11a82fe7956a630f03bbee236cedae3911a''"

definition dogeTestnetGenesisWire :: "byte list" where
  "dogeTestnetGenesisWire = hex_wire ''9e555073d0c4f36456db8951f449704d544d2826d9aa60636b40374626780abb''"

definition dogeMainnetCheckpoints :: "(string \<times> CheckpointEntry) list" where
  "dogeMainnetCheckpoints =
    [(''0'', \<lparr>cpHeight = 0, cpHash = ''9156352c1818b32e90c9e792efd6a11a82fe7956a630f03bbee236cedae3911a''\<rparr>),
     (''3043797'', \<lparr>cpHeight = 3043797, cpHash = ''a8fecc11d4f4e0b55aaf984095380a48a8414fa22041a94be5360bac2f877bdf6''\<rparr>),
     (''5526282'', \<lparr>cpHeight = 5526282, cpHash = ''42309cb45a5d4d5d1fe14894732a8e6da2071269fc8611bc2d01e0edad824205''\<rparr>),
     (''6024440'', \<lparr>cpHeight = 6024440, cpHash = ''8b487d1378c7662b1da34f849e91989837b50c2ee26fc5b154512b7ccf1e6a9c''\<rparr>)]"

definition dogeTestnetCheckpoints :: "(string \<times> CheckpointEntry) list" where
  "dogeTestnetCheckpoints =
    [(''0'', \<lparr>cpHeight = 0, cpHash = ''bb0a78264637406b6360aad926284d544d7049f45189db5664f3c4d07350559e''\<rparr>),
     (''38150909'', \<lparr>cpHeight = 38150909, cpHash = ''c428bfe503bea0fccf67a48518346359dd7bc476d52731448c65bd61b129f02f''\<rparr>),
     (''41626399'', \<lparr>cpHeight = 41626399, cpHash = ''bce071da382f2064d2c03745e2c259a5fb7666daa8ecfa38f0ac5e6e7b3704c5''\<rparr>),
     (''41634434'', \<lparr>cpHeight = 41634434, cpHash = ''c1f08e545ca9a50b53efa86f2950731a1f792c8a435468968d0dbb9f50f4eb0d''\<rparr>),
     (''42799352'', \<lparr>cpHeight = 42799352, cpHash = ''c5d342d702b80d2bc31471dac662f8646de1c51cfbbf0b8afade12fdddbdefac''\<rparr>)]"

definition setNetwork :: "string \<Rightarrow> HeaderChain \<Rightarrow> HeaderChain" where
  "setNetwork net c =
     (if net = ''testnet''
      then c\<lparr>network := net, netMagic := dogeTestnetMagic, port := 44556,
             genesisHashWire := dogeTestnetGenesisWire, checkpoints := dogeTestnetCheckpoints,
             headerRefreshMs := 500, genesisTimestamp := 1393214782\<rparr>
      else c\<lparr>network := net, netMagic := dogeMainnetMagic, port := 22556,
             genesisHashWire := dogeGenesisHashWire, checkpoints := dogeMainnetCheckpoints,
             headerRefreshMs := 15000, genesisTimestamp := 1386325540\<rparr>)"

text \<open>The header part of a fresh \<open>P2PClient\<close>: zero values, then \<open>setNetwork\<close>.\<close>

definition newHeaderChain :: "string \<Rightarrow> HeaderChain" where
  "newHeaderChain net = setNetwork net
     \<lparr>network = '''', port = 0, netMagic = [], genesisHashWire = replicate 32 0, genesisTimestamp = 0,
      checkpoints = [], headerRefreshMs = 0, bestHeader = None, bestHeight = 0,
      lastNonMinDifficultyBits = 0, tipParentTimestamp = 0, locatorHashes = [],
      lastHeadersAppliedAt = None, tipHistory = [], startLocatorHash = replicate 32 0,
      startHeight = 0, hasStartCheckpoint = False, lastHeadersReq = None\<rparr>"

datatype checkpoint_error = BadCheckpointHash hex32_error | UnknownCheckpoint string

definition SetStartCheckpoint ::
  "string \<Rightarrow> int \<Rightarrow> HeaderChain \<Rightarrow> (checkpoint_error + unit) \<times> HeaderChain" where
  "SetStartCheckpoint hashHex height c =
     (if hashHex = ''''
      then (Inr (), c\<lparr>hasStartCheckpoint := False, startLocatorHash := replicate 32 0, startHeight := 0,
                      bestHeader := None, bestHeight := 0, locatorHashes := [],
                      tipParentTimestamp := 0, lastNonMinDifficultyBits := 0\<rparr>)
      else case hexTo32Bytes hashHex of
        Inl e \<Rightarrow> (Inl (BadCheckpointHash e), c)
      | Inr h \<Rightarrow> (Inr (), c\<lparr>startLocatorHash := h, startHeight := height, hasStartCheckpoint := True\<rparr>))"

definition SetStartCheckpointByID ::
  "string \<Rightarrow> HeaderChain \<Rightarrow> (checkpoint_error + unit) \<times> HeaderChain" where
  "SetStartCheckpointByID i c =
     (case map_of (checkpoints c) i of
        None \<Rightarrow> (Inl (UnknownCheckpoint i), c)
      | Some cp \<Rightarrow> SetStartCheckpoint (cpHash cp) (cpHeight cp) c)"

definition GetBlockHashAtHeight :: "HeaderChain \<Rightarrow> int \<Rightarrow> string" where
  "GetBlockHashAtHeight c h = (case map_of (tipHistory c) h of None \<Rightarrow> '''' | Some s \<Rightarrow> s)"

definition SeedLastNonMinDifficultyBits :: "u32 \<Rightarrow> HeaderChain \<Rightarrow> HeaderChain" where
  "SeedLastNonMinDifficultyBits bits c = (if bits \<noteq> 0 then c\<lparr>lastNonMinDifficultyBits := bits\<rparr> else c)"

section \<open>The locator\<close>

primrec prependLocatorHashesFromBatch :: "byte list list \<Rightarrow> byte list list \<Rightarrow> byte list list" where
  "prependLocatorHashesFromBatch [] ring = ring"
| "prependLocatorHashesFromBatch (h # batch) ring =
     prependLocatorHashesFromBatch batch
       (let ring = h # ring in if 24 < length ring then take 24 ring else ring)"

definition maxLocatorHashes :: nat where "maxLocatorHashes = 16"

text \<open>The closure \<open>add\<close> of \<open>sendGetHeaders\<close>; the set \<open>seen\<close> is the set of \<open>loc\<close>.\<close>

definition loc_add :: "byte list list \<Rightarrow> byte list \<Rightarrow> byte list list" where
  "loc_add loc h = (if h \<in> set loc then loc else loc @ [h])"

fun loc_fill :: "byte list list \<Rightarrow> byte list list \<Rightarrow> byte list list" where
  "loc_fill loc [] = loc"
| "loc_fill loc (h # hs) =
     (if length loc < maxLocatorHashes then loc_fill (loc_add loc h) hs else loc)"

definition locator :: "HeaderChain \<Rightarrow> byte list list" where
  "locator c =
     (let loc = (if locatorHashes c \<noteq> [] then loc_fill [] (locatorHashes c)
                 else case bestHeader c of Some h \<Rightarrow> loc_add [] (hHash h) | None \<Rightarrow> []);
          loc = (if hasStartCheckpoint c \<and> length loc < maxLocatorHashes
                 then loc_add loc (startLocatorHash c) else loc)
      in if loc = [] then loc_add loc (replicate 32 0) else loc)"

definition getheaders_payload :: "HeaderChain \<Rightarrow> byte list" where
  "getheaders_payload c =
     put_u32 70015 @ writeLen (locator c) @ concat (locator c) @ replicate 32 0"

definition sendGetHeaders :: "HeaderChain \<Rightarrow> PeerLink \<Rightarrow> (msg_error + unit) \<times> PeerLink" where
  "sendGetHeaders c l = writeMessage ''getheaders'' (getheaders_payload c) l"

section \<open>A headers message\<close>

definition versionAuxPow :: u32 where "versionAuxPow = 0x100"
definition maxHeadersPerMessage :: int where "maxHeadersPerMessage = 2000"

definition blockHashChain :: "byte list \<Rightarrow> byte list" where
  "blockHashChain header = sha256 (sha256 header)"

text \<open>The header of 80 bytes at a height, with its chain hash.\<close>

definition parse_header :: "int \<Rightarrow> byte list \<Rightarrow> BlockHeader" where
  "parse_header height b =
     \<lparr>hVersion = get_u32 (take 4 b), hPrevBlock = take 32 (drop 4 b), hMerkleRoot = take 32 (drop 36 b),
      hTimestamp = get_u32 (take 4 (drop 68 b)), hBits = get_u32 (take 4 (drop 72 b)),
      hNonce = get_u32 (take 4 (drop 76 b)), hHeight = height, hHash = blockHashChain b\<rparr>"

datatype sync_error =
    HeadersCount io_error
  | HeaderBytes io_error
  | SkipAuxPow int io_error
  | TxnCount io_error
  | NonContinuous int "byte list" "byte list"
  | Link msg_error
  | TimeoutWaiting
  | TimeoutSyncing

text \<open>\<open>tipHistory[h] = hash\<close>, then prune below \<open>h - 500\<close> once there are more than 500 entries.\<close>

definition record_tip :: "int \<Rightarrow> string \<Rightarrow> (int \<times> string) list \<Rightarrow> (int \<times> string) list" where
  "record_tip h hash hist =
     (let hist = AList.update h hash hist in
      if 500 < length hist then filter (\<lambda>(k, v). \<not> k < h - 500) hist else hist)"

record LoopState =
  lsHeight :: int
  lsLast :: "BlockHeader option"
  lsCarry :: u32
  lsBatch :: "byte list list"
  lsTipParent :: u32
  lsExpected :: "byte list"
  lsParentTS :: u32
  lsHistory :: "(int \<times> string) list"

definition accept_header :: "BlockHeader \<Rightarrow> LoopState \<Rightarrow> LoopState" where
  "accept_header h s =
     \<lparr>lsHeight = hHeight h, lsLast = Some h,
      lsCarry = (if hBits h \<noteq> dogecoinPowLimitCompact then hBits h else lsCarry s),
      lsBatch = lsBatch s @ [hHash h], lsTipParent = lsParentTS s, lsExpected = hHash h,
      lsParentTS = hTimestamp h,
      lsHistory = record_tip (hHeight h) (HashToDisplayHex (hHash h)) (lsHistory s)\<rparr>"

text \<open>One header from the reader: its 80 bytes, an AuxPoW section when flagged, a count.\<close>

definition read_header :: "int \<Rightarrow> byte list \<Rightarrow> sync_error + (BlockHeader \<times> byte list)" where
  "read_header height r =
     ebind (emap_err HeaderBytes (read_full 80 r)) (\<lambda>(b, r).
     ebind (if get_u32 (take 4 b) AND versionAuxPow \<noteq> 0
            then emap_err (SkipAuxPow (height + 1)) (skipAuxPow r) else Inr r) (\<lambda>r.
     ebind (emap_err TxnCount (readVarInt r)) (\<lambda>(n, r).
     Inr (parse_header (height + 1) b, r))))"

primrec headers_loop :: "nat \<Rightarrow> byte list \<Rightarrow> LoopState \<Rightarrow> sync_error option \<times> LoopState" where
  "headers_loop 0 r s = (None, s)"
| "headers_loop (Suc n) r s =
     (case read_header (lsHeight s) r of
        Inl e \<Rightarrow> (Some e, s)
      | Inr (h, r) \<Rightarrow>
          if hPrevBlock h \<noteq> lsExpected s
          then (Some (NonContinuous (hHeight h) (hPrevBlock h) (lsExpected s)), s)
          else headers_loop n r (accept_header h s))"

definition loop_init :: "HeaderChain \<Rightarrow> LoopState" where
  "loop_init c =
     \<lparr>lsHeight = (if bestHeader c = None \<and> hasStartCheckpoint c then startHeight c else bestHeight c),
      lsLast = None, lsCarry = lastNonMinDifficultyBits c, lsBatch = [], lsTipParent = 0,
      lsExpected = (case bestHeader c of Some h \<Rightarrow> hHash h
                    | None \<Rightarrow> if hasStartCheckpoint c then startLocatorHash c else genesisHashWire c),
      lsParentTS = (case bestHeader c of Some h \<Rightarrow> hTimestamp h
                    | None \<Rightarrow> if hasStartCheckpoint c then 0 else genesisTimestamp c),
      lsHistory = tipHistory c\<rparr>"

definition processHeaders ::
  "int \<Rightarrow> byte list \<Rightarrow> HeaderChain \<Rightarrow> (sync_error + int) \<times> HeaderChain" where
  "processHeaders now payload c =
     (case readVarInt payload of
        Inl e \<Rightarrow> (Inl (HeadersCount e), c)
      | Inr (count, r) \<Rightarrow>
          if count = 0 then (Inr 0, c)
          else
            (case headers_loop (unat count) r (loop_init c) of
               (Some e, s) \<Rightarrow> (Inl e, c\<lparr>tipHistory := lsHistory s\<rparr>)
             | (None, s) \<Rightarrow>
                 (Inr (sint count),
                  (case lsLast s of
                     None \<Rightarrow> c\<lparr>tipHistory := lsHistory s\<rparr>
                   | Some h \<Rightarrow>
                       c\<lparr>tipHistory := lsHistory s, bestHeader := Some h, bestHeight := hHeight h,
                         lastNonMinDifficultyBits := lsCarry s, tipParentTimestamp := lsTipParent s,
                         lastHeadersAppliedAt := Some now,
                         locatorHashes := prependLocatorHashesFromBatch (lsBatch s) (locatorHashes c)\<rparr>))))"

section \<open>Requesting headers from the peer\<close>

text \<open>The inner loop: messages until a \<open>headers\<close> message; what is left of the deadline.\<close>

fun await_headers ::
  "int \<Rightarrow> nat \<Rightarrow> PeerLink \<Rightarrow> HeaderChain \<Rightarrow> (sync_error + (int \<times> nat)) \<times> PeerLink \<times> HeaderChain" where
  "await_headers now 0 l c = (Inl TimeoutWaiting, l, c)"
| "await_headers now (Suc n) l c =
     (case readMessage l of
        (Inl e, l) \<Rightarrow> (Inl (Link e), l, c)
      | (Inr (cmd, payload), l) \<Rightarrow>
          if cmd = ''headers'' then
            (case processHeaders now payload c of
               (Inl e, c) \<Rightarrow> (Inl e, l, c)
             | (Inr count, c) \<Rightarrow> (Inr (count, n), l, c))
          else if cmd = ''ping'' then
            (case writeMessage ''pong'' payload l of
               (Inl e, l) \<Rightarrow> (Inl (Link e), l, c)
             | (Inr _, l) \<Rightarrow> await_headers now n l c)
          else await_headers now n l c)"

declare await_headers.simps(2) [simp del]

lemma await_headers_left:
  "await_headers now n l c = (Inr (count, k), l', c') \<Longrightarrow> k < n"
proof (induction n arbitrary: l c)
  case (Suc n)
  from Suc.prems obtain cmd payload l1 where rm: "readMessage l = (Inr (cmd, payload), l1)"
    by (auto simp: await_headers.simps(2) split: prod.splits sum.splits)
  consider "cmd = ''headers''" | "cmd = ''ping''" | "cmd \<noteq> ''headers''" "cmd \<noteq> ''ping''" by blast
  then show ?case
  proof cases
    case 1
    with Suc.prems rm show ?thesis
      by (auto simp: await_headers.simps(2) split: prod.splits sum.splits)
  next
    case 2
    with Suc.prems rm obtain l2 where "await_headers now n l2 c = (Inr (count, k), l', c')"
      by (auto simp: await_headers.simps(2) split: prod.splits sum.splits)
    then show ?thesis using Suc.IH by (simp add: less_SucI)
  next
    case 3
    with Suc.prems rm Suc.IH show ?thesis by (simp add: await_headers.simps(2) less_SucI)
  qed
qed simp

function request_loop ::
  "int \<Rightarrow> nat \<Rightarrow> PeerLink \<Rightarrow> HeaderChain \<Rightarrow> (sync_error + unit) \<times> PeerLink \<times> HeaderChain" where
  "request_loop now n l c =
     (if n = 0 then (Inl TimeoutSyncing, l, c)
      else case sendGetHeaders c l of
        (Inl e, l) \<Rightarrow> (Inl (Link e), l, c)
      | (Inr _, l) \<Rightarrow>
          (case await_headers now (n - 1) l c of
             (Inl e, l, c) \<Rightarrow> (Inl e, l, c)
           | (Inr (count, k), l, c) \<Rightarrow>
               if count < maxHeadersPerMessage then (Inr (), l, c) else request_loop now k l c))"
  by pat_completeness auto
termination
  by (relation "measure (\<lambda>(now, n, l, c). n)") (auto dest!: await_headers_left [OF sym])

declare request_loop.simps [simp del]

definition requestHeaders ::
  "int \<Rightarrow> nat \<Rightarrow> PeerLink \<Rightarrow> HeaderChain \<Rightarrow> (sync_error + unit) \<times> PeerLink \<times> HeaderChain" where
  "requestHeaders now ticks l c = request_loop now ticks l (c\<lparr>lastHeadersReq := Some now\<rparr>)"

section \<open>Linked headers\<close>

text \<open>
  Headers that continue a chain whose tip has hash \<open>prev\<close> and height \<open>height\<close>: each refers
  to the double SHA-256 of its predecessor's 80 bytes and is one higher.
\<close>

primrec links :: "byte list \<Rightarrow> int \<Rightarrow> BlockHeader list \<Rightarrow> bool" where
  "links prev height [] = True"
| "links prev height (h # hs) =
     (hPrevBlock h = prev \<and> hHeight h = height + 1 \<and> wf_header h \<and>
      hHash h = sha256 (sha256 (serializeBlockHeader h)) \<and> links (hHash h) (height + 1) hs)"

definition tip_hash :: "HeaderChain \<Rightarrow> byte list" where
  "tip_hash c = lsExpected (loop_init c)"

definition tip_height :: "HeaderChain \<Rightarrow> int" where
  "tip_height c = lsHeight (loop_init c)"

lemma links_append:
  "links p k (xs @ ys) \<longleftrightarrow> links p k xs \<and>
    links (if xs = [] then p else hHash (last xs)) (k + int (length xs)) ys"
  by (induction xs arbitrary: p k) (auto simp: add.assoc)

lemma links_last: "links p k hs \<Longrightarrow> hs \<noteq> [] \<Longrightarrow>
   hHeight (last hs) = k + int (length hs) \<and> length (hHash (last hs)) = 32"
  by (induction hs arbitrary: p k) auto

lemma links_hash_length: "links p k hs \<Longrightarrow> h \<in> set hs \<Longrightarrow> length (hHash h) = 32"
  by (induction hs arbitrary: p k) auto

lemma serialize_parse_header:
  assumes "length b = 80"
  shows "serializeBlockHeader (parse_header k b) = b" "wf_header (parse_header k b)"
proof -
  have cut: "drop k b = take n (drop k b) @ drop (k + n) b" for k n
    by (metis add.commute append_take_drop_id drop_drop)
  have "b = take 4 b @ drop 4 b" by simp
  also have "drop 4 b = take 32 (drop 4 b) @ drop 36 b" using cut [of 4 32] by simp
  also have "drop 36 b = take 32 (drop 36 b) @ drop 68 b" using cut [of 36 32] by simp
  also have "drop 68 b = take 4 (drop 68 b) @ drop 72 b" using cut [of 68 4] by simp
  also have "drop 72 b = take 4 (drop 72 b) @ drop 76 b" using cut [of 72 4] by simp
  also have "drop 76 b = take 4 (drop 76 b)" using assms by simp
  finally have split: "b = take 4 b @ take 32 (drop 4 b) @ take 32 (drop 36 b) @ take 4 (drop 68 b) @
      take 4 (drop 72 b) @ take 4 (drop 76 b)" .
  have "put_u32 (get_u32 (take 4 (drop k b))) = take 4 (drop k b)" if "k + 4 \<le> 80" for k
    using that assms by (simp add: put_get_u32)
  from this [of 0] this [of 68] this [of 72] this [of 76] split
  show "serializeBlockHeader (parse_header k b) = b"
    by (simp add: serializeBlockHeader_def parse_header_def)
  show "wf_header (parse_header k b)"
    using assms by (simp add: wf_header_def parse_header_def)
qed

lemma parse_serialize_header:
  assumes "wf_header h"
  shows "parse_header k (serializeBlockHeader h) =
    h\<lparr>hHeight := k, hHash := sha256 (sha256 (serializeBlockHeader h))\<rparr>"
proof -
  have "length (hPrevBlock h) = 32" "length (hMerkleRoot h) = 32"
    using assms by (simp_all add: wf_header_def)
  then show ?thesis
    by (simp add: parse_header_def serializeBlockHeader_def blockHashChain_def)
qed

lemma read_header_sound:
  assumes "read_header k r = Inr (h, r')"
  shows "links (hPrevBlock h) k [h]"
proof -
  from assms have "80 \<le> length r" "h = parse_header (k + 1) (take 80 r)"
    by (auto simp: read_header_def ebind_eq_Inr_iff read_full_eq_Inr_iff)
  then obtain b where b: "length b = 80" "h = parse_header (k + 1) b"
    by (metis length_take min.absorb2)
  have "hHash h = sha256 (sha256 b)" "hHeight h = k + 1"
    by (simp_all add: b parse_header_def blockHashChain_def)
  with serialize_parse_header [OF b(1), of "k + 1"] show ?thesis by (simp add: b(2))
qed

lemma accept_header_simps [simp]:
  "lsExpected (accept_header h s) = hHash h" "lsHeight (accept_header h s) = hHeight h"
  by (simp_all add: accept_header_def)

lemma headers_loop_sound:
  assumes "headers_loop n r s = (err, s')"
  shows "\<exists>hs. links (lsExpected s) (lsHeight s) hs \<and> s' = fold accept_header hs s \<and>
    (if err = None then length hs = n else length hs < n)"
  using assms
proof (induction n arbitrary: r s)
  case 0
  then show ?case by (auto intro: exI [of _ "[]"])
next
  case (Suc n)
  show ?case
  proof (cases "\<exists>h r'. read_header (lsHeight s) r = Inr (h, r') \<and> hPrevBlock h = lsExpected s")
    case True
    then obtain h r' where h: "read_header (lsHeight s) r = Inr (h, r')" "hPrevBlock h = lsExpected s"
      by blast
    with Suc.prems have "headers_loop n r' (accept_header h s) = (err, s')" by simp
    from Suc.IH [OF this] obtain hs where
      "links (lsExpected (accept_header h s)) (lsHeight (accept_header h s)) hs"
      "s' = fold accept_header hs (accept_header h s)" "if err = None then length hs = n else length hs < n"
      by blast
    with read_header_sound [OF h(1)] h(2) show ?thesis
      by (intro exI [of _ "h # hs"]) (auto split: if_splits)
  next
    case False
    with Suc.prems have "err \<noteq> None \<and> s' = s"
      by (auto split: sum.splits prod.splits if_splits)
    then show ?thesis by (intro exI [of _ "[]"]) simp
  qed
qed

text \<open>A header as peers send it: 80 bytes, its AuxPoW section when flagged, the count.\<close>

definition wire_header :: "BlockHeader \<times> AuxPow \<times> u64 \<Rightarrow> byte list" where
  "wire_header w =
     (case w of (h, ap, txns) \<Rightarrow>
        serializeBlockHeader h @
        (if hVersion h AND versionAuxPow \<noteq> 0 then serializeAuxPow ap else []) @ writeVarInt txns)"

definition wire_ok :: "BlockHeader \<times> AuxPow \<times> u64 \<Rightarrow> bool" where
  "wire_ok w = (case w of (h, ap, txns) \<Rightarrow> hVersion h AND versionAuxPow \<noteq> 0 \<longrightarrow> wf_auxpow ap)"

lemma read_header_wire:
  assumes "links p k [h]" "wire_ok (h, ap, txns)"
  shows "read_header k (wire_header (h, ap, txns) @ r) = Inr (h, r)"
proof -
  have wf: "wf_header h" using assms(1) by simp
  have v: "get_u32 (take 4 (serializeBlockHeader h)) = hVersion h"
    by (simp add: serializeBlockHeader_def)
  have h: "parse_header (k + 1) (serializeBlockHeader h) = h"
    using assms(1) by (simp add: parse_serialize_header)
  have "read_full 80 (serializeBlockHeader h @ x) = Inr (serializeBlockHeader h, x)" for x
    using wf by simp
  with assms(2) h v show ?thesis
    by (simp add: read_header_def wire_header_def wire_ok_def auxpow_skip.skip_enc)
qed

lemma headers_loop_complete:
  "links (lsExpected s) (lsHeight s) (map fst ws) \<Longrightarrow> list_all wire_ok ws \<Longrightarrow>
   headers_loop (length ws) (concat (map wire_header ws) @ r) s =
     (None, fold accept_header (map fst ws) s)"
proof (induction ws arbitrary: s)
  case (Cons w ws)
  obtain h ap txns where w: "w = (h, ap, txns)" by (cases w) auto
  with Cons.prems have "links (lsExpected s) (lsHeight s) [h]" "wire_ok (h, ap, txns)" by simp_all
  from read_header_wire [OF this] have rd: "read_header (lsHeight s)
      (wire_header w @ concat (map wire_header ws) @ r) = Inr (h, concat (map wire_header ws) @ r)"
    by (simp add: w)
  have "links (lsExpected (accept_header h s)) (lsHeight (accept_header h s)) (map fst ws)"
    "hPrevBlock h = lsExpected s"
    using Cons.prems(1) unfolding w by auto
  with Cons.IH [of "accept_header h s"] Cons.prems(2) rd show ?case by (simp add: w)
qed simp

lemma fold_accept:
  "lsLast (fold accept_header hs s) = (if hs = [] then lsLast s else Some (last hs)) \<and>
   lsBatch (fold accept_header hs s) = lsBatch s @ map hHash hs"
  by (induction hs arbitrary: s) (simp_all add: accept_header_def)

lemma prependLocatorHashesFromBatch_take:
  "length ring \<le> 24 \<Longrightarrow> prependLocatorHashesFromBatch batch ring = take 24 (rev batch @ ring)"
proof (induction batch arbitrary: ring)
  case (Cons h batch)
  have step: "(let ring' = h # ring in if 24 < length ring' then take 24 ring' else ring') = take 24 (h # ring)"
    by (simp add: Let_def)
  have "take n (xs @ take 24 ys) = take n (xs @ ys)" if "n \<le> 24" for n and xs ys :: "byte list list"
    using that by (simp add: take_append min_def)
  then have "take 24 (rev batch @ take 24 (h # ring)) = take 24 (rev batch @ h # ring)" by blast
  with Cons.IH [of "take 24 (h # ring)"] show ?case by (simp add: step)
qed simp

section \<open>Keeping the tip\<close>

text \<open>\<open>c'\<close> continues the chain of \<open>c\<close> by linked headers.\<close>

definition extends :: "HeaderChain \<Rightarrow> HeaderChain \<Rightarrow> bool" where
  "extends c c' \<longleftrightarrow>
     (\<exists>hs. links (tip_hash c) (tip_height c) hs \<and>
       bestHeader c' = (if hs = [] then bestHeader c else Some (last hs)) \<and>
       bestHeight c' = (if hs = [] then bestHeight c else hHeight (last hs)) \<and>
       hasStartCheckpoint c' = hasStartCheckpoint c \<and> startLocatorHash c' = startLocatorHash c \<and>
       startHeight c' = startHeight c \<and> genesisHashWire c' = genesisHashWire c)"

lemma extends_tip:
  assumes "links (tip_hash c) (tip_height c) hs"
    "bestHeader c' = (if hs = [] then bestHeader c else Some (last hs))"
    "bestHeight c' = (if hs = [] then bestHeight c else hHeight (last hs))"
    "hasStartCheckpoint c' = hasStartCheckpoint c" "startLocatorHash c' = startLocatorHash c"
    "startHeight c' = startHeight c" "genesisHashWire c' = genesisHashWire c"
  shows "tip_hash c' = (if hs = [] then tip_hash c else hHash (last hs)) \<and>
    tip_height c' = tip_height c + int (length hs)"
  using assms links_last [OF assms(1)]
  by (cases "hs = []"; cases "bestHeader c") (simp_all add: tip_hash_def tip_height_def loop_init_def)

lemma extends_refl: "extends c c"
  unfolding extends_def by (intro exI [of _ "[]"]) simp

lemma extends_trans:
  assumes "extends a b" "extends b c"
  shows "extends a c"
proof -
  from assms(1) obtain xs where x: "links (tip_hash a) (tip_height a) xs"
    "bestHeader b = (if xs = [] then bestHeader a else Some (last xs))"
    "bestHeight b = (if xs = [] then bestHeight a else hHeight (last xs))"
    "hasStartCheckpoint b = hasStartCheckpoint a" "startLocatorHash b = startLocatorHash a"
    "startHeight b = startHeight a" "genesisHashWire b = genesisHashWire a"
    by (auto simp: extends_def)
  from assms(2) obtain ys where y: "links (tip_hash b) (tip_height b) ys"
    "bestHeader c = (if ys = [] then bestHeader b else Some (last ys))"
    "bestHeight c = (if ys = [] then bestHeight b else hHeight (last ys))"
    "hasStartCheckpoint c = hasStartCheckpoint b" "startLocatorHash c = startLocatorHash b"
    "startHeight c = startHeight b" "genesisHashWire c = genesisHashWire b"
    by (auto simp: extends_def)
  have "links (tip_hash a) (tip_height a) (xs @ ys)"
    using x(1) y(1) extends_tip [OF x] by (simp add: links_append)
  then show ?thesis
    unfolding extends_def using x y by (intro exI [of _ "xs @ ys"]) auto
qed

lemma loop_init_history [simp]: "lsHistory (loop_init c) = tipHistory c" "lsLast (loop_init c) = None"
  "lsBatch (loop_init c) = []"
  by (simp_all add: loop_init_def)

text \<open>The two ways \<open>processHeaders\<close> ends: the tip is untouched, or a linked batch is applied.\<close>

lemma processHeaders_cases:
  assumes "processHeaders now payload c = (res, c')"
  obtains (same) hist where "c' = c\<lparr>tipHistory := hist\<rparr>" "(\<exists>e. res = Inl e) \<or> (res = Inr 0 \<and> c' = c)"
  | (applied) hs s where "hs \<noteq> []" "links (tip_hash c) (tip_height c) hs"
      "s = fold accept_header hs (loop_init c)" "res = Inr (sint (of_nat (length hs) :: u64))"
      "c' = c\<lparr>tipHistory := lsHistory s, bestHeader := Some (last hs), bestHeight := hHeight (last hs),
         lastNonMinDifficultyBits := lsCarry s, tipParentTimestamp := lsTipParent s,
         lastHeadersAppliedAt := Some now,
         locatorHashes := prependLocatorHashesFromBatch (map hHash hs) (locatorHashes c)\<rparr>"
proof (cases "readVarInt payload")
  case (Inl e)
  with assms show thesis by (intro same [of "tipHistory c"]) (auto simp: processHeaders_def)
next
  case (Inr cr)
  obtain count r where cr: "cr = (count, r)" by (cases cr)
  show thesis
  proof (cases "count = 0")
    case True
    with assms Inr cr show thesis by (intro same [of "tipHistory c"]) (auto simp: processHeaders_def)
  next
    case False
    obtain err s where run: "headers_loop (unat count) r (loop_init c) = (err, s)" by fastforce
    from headers_loop_sound [OF run] obtain hs where
      hs: "links (tip_hash c) (tip_height c) hs" "s = fold accept_header hs (loop_init c)"
        "if err = None then length hs = unat count else length hs < unat count"
      by (auto simp: tip_hash_def tip_height_def)
    show thesis
    proof (cases err)
      case None
      with hs have len: "length hs = unat count" by simp
      then have ne: "hs \<noteq> []" using False by (auto simp: unat_eq_zero)
      have "count = of_nat (length hs)" by (simp add: len)
      with assms Inr cr False run None fold_accept [of hs "loop_init c"] ne show thesis
        by (intro applied [OF ne hs(1,2)]) (simp_all add: processHeaders_def flip: hs(2))
    next
      case (Some e)
      with assms Inr cr False run show thesis
        by (intro same [of "lsHistory s"]) (auto simp: processHeaders_def)
    qed
  qed
qed

lemma processHeaders_extends: "processHeaders now payload c = (res, c') \<Longrightarrow> extends c c'"
proof (erule processHeaders_cases)
  fix hist assume "c' = c\<lparr>tipHistory := hist\<rparr>"
  then show "extends c c'" unfolding extends_def by (intro exI [of _ "[]"]) simp
next
  fix hs s
  assume "hs \<noteq> []" "links (tip_hash c) (tip_height c) hs"
    "c' = c\<lparr>tipHistory := lsHistory s, bestHeader := Some (last hs), bestHeight := hHeight (last hs),
         lastNonMinDifficultyBits := lsCarry s, tipParentTimestamp := lsTipParent s,
         lastHeadersAppliedAt := Some now,
         locatorHashes := prependLocatorHashesFromBatch (map hHash hs) (locatorHashes c)\<rparr>"
  then show "extends c c'" unfolding extends_def by (intro exI [of _ hs]) simp
qed

section \<open>The chain state invariant\<close>

definition chain_inv :: "HeaderChain \<Rightarrow> bool" where
  "chain_inv c \<longleftrightarrow>
     (case bestHeader c of
        None \<Rightarrow> locatorHashes c = []
      | Some h \<Rightarrow> bestHeight c = hHeight h \<and> length (hHash h) = 32 \<and>
          locatorHashes c \<noteq> [] \<and> hd (locatorHashes c) = hHash h) \<and>
     length (locatorHashes c) \<le> 24 \<and> (\<forall>h \<in> set (locatorHashes c). length h = 32) \<and>
     length (startLocatorHash c) = 32"

lemma processHeaders_inv:
  assumes "processHeaders now payload c = (res, c')" "chain_inv c"
  shows "chain_inv c'"
  using assms(1)
proof (cases rule: processHeaders_cases)
  case (same hist)
  with assms(2) show ?thesis by (simp add: chain_inv_def cong: option.case_cong)
next
  case (applied hs s)
  then obtain xs x where hs: "hs = xs @ [x]" by (meson rev_exhaust)
  have ring: "length (locatorHashes c) \<le> 24" "\<forall>h \<in> set (locatorHashes c). length h = 32"
    "length (startLocatorHash c) = 32" using assms(2) by (simp_all add: chain_inv_def)
  have "locatorHashes c' = take 24 (hHash x # rev (map hHash xs) @ locatorHashes c)"
    using applied by (simp add: prependLocatorHashesFromBatch_take [OF ring(1)] hs)
  moreover have "\<forall>h \<in> set (hHash x # rev (map hHash xs) @ locatorHashes c). length h = 32"
    using links_hash_length [OF applied(2)] ring(2) by (auto simp: hs)
  then have "\<forall>h \<in> set (take 24 (hHash x # rev (map hHash xs) @ locatorHashes c)). length h = 32"
    by (meson in_set_takeD)
  ultimately show ?thesis using applied ring(3) links_last [OF applied(2,1)] by (simp add: chain_inv_def hs)
qed

text \<open>What holds of \<open>processHeaders\<close> in every state it meets holds of the whole request loop.\<close>

locale headers_effect =
  fixes R :: "HeaderChain \<Rightarrow> HeaderChain \<Rightarrow> bool"
  assumes refl: "R c c" and trans: "R a b \<Longrightarrow> R b c \<Longrightarrow> R a c"
    and step: "processHeaders now payload c = (res, c') \<Longrightarrow> R c c'"
    and clock: "R c (c\<lparr>lastHeadersReq := t\<rparr>)"
begin

lemma await_headers_effect: "await_headers now n l c = (res, l', c') \<Longrightarrow> R c c'"
proof (induction n arbitrary: l c)
  case (Suc n)
  obtain rd l1 where rm: "readMessage l = (rd, l1)" by fastforce
  show ?case
  proof (cases rd)
    case (Inl e)
    with Suc.prems rm refl show ?thesis by (simp add: await_headers.simps(2))
  next
    case (Inr cp)
    obtain cmd payload where cp: "cp = (cmd, payload)" by (cases cp)
    consider "cmd = ''headers''" | "cmd = ''ping''" | "cmd \<noteq> ''headers''" "cmd \<noteq> ''ping''" by blast
    then show ?thesis
    proof cases
      case 1
      obtain r2 c2 where "processHeaders now payload c = (r2, c2)" by fastforce
      with Suc.prems rm Inr cp 1 step [OF this] show ?thesis
        by (auto simp: await_headers.simps(2) split: sum.splits)
    next
      case 2
      obtain w l2 where "writeMessage ''pong'' payload l1 = (w, l2)" by fastforce
      with Suc rm Inr cp 2 refl show ?thesis
        by (auto simp: await_headers.simps(2) split: sum.splits)
    next
      case 3
      with Suc rm Inr cp show ?thesis by (simp add: await_headers.simps(2))
    qed
  qed
qed (use refl in simp)

lemma request_loop_effect: "request_loop now n l c = (res, l', c') \<Longrightarrow> R c c'"
proof (induction n arbitrary: l c rule: less_induct)
  case (less n)
  show ?case
  proof (cases "n = 0")
    case True
    with less.prems refl show ?thesis by (simp add: request_loop.simps)
  next
    case False
    obtain s l1 where send: "sendGetHeaders c l = (s, l1)" by fastforce
    show ?thesis
    proof (cases s)
      case (Inl e)
      with less.prems send False refl show ?thesis by (simp add: request_loop.simps [of now n])
    next
      case (Inr u)
      obtain aw l2 c2 where aw: "await_headers now (n - 1) l1 c = (aw, l2, c2)"
        by (metis prod_cases3)
      note R = await_headers_effect [OF aw]
      show ?thesis
      proof (cases aw)
        case (Inl e)
        with less.prems send Inr False R aw show ?thesis by (simp add: request_loop.simps [of now n])
      next
        case aw2: (Inr ck)
        obtain count k where ck: "ck = (count, k)" by (cases ck)
        show ?thesis
        proof (cases "count < maxHeadersPerMessage")
          case True
          with less.prems send Inr False R aw aw2 ck show ?thesis
            by (simp add: request_loop.simps [of now n])
        next
          case cont: False
          with less.prems send Inr False aw aw2 ck have "request_loop now k l2 c2 = (res, l', c')"
            by (simp add: request_loop.simps [of now n])
          moreover have "k < n" using await_headers_left [of now "n - 1" l1 c count k l2 c2] aw aw2 ck by simp
          ultimately have "R c2 c'" using less.IH by blast
          with R show ?thesis by (rule trans)
        qed
      qed
    qed
  qed
qed

end

interpretation ext: headers_effect extends
proof unfold_locales
  show "extends c c" for c by (rule extends_refl)
  show "extends a b \<Longrightarrow> extends b c \<Longrightarrow> extends a c" for a b c by (rule extends_trans)
  show "processHeaders now payload c = (res, c') \<Longrightarrow> extends c c'" for now payload c res c'
    by (rule processHeaders_extends)
  show "extends c (c\<lparr>lastHeadersReq := t\<rparr>)" for c t
    unfolding extends_def by (intro exI [of _ "[]"]) simp
qed

interpretation keep: headers_effect "\<lambda>c c'. chain_inv c \<longrightarrow> chain_inv c'"
proof unfold_locales
  show "processHeaders now payload c = (res, c') \<Longrightarrow> chain_inv c \<longrightarrow> chain_inv c'" for now payload c res c'
    using processHeaders_inv by blast
  show "chain_inv c \<longrightarrow> chain_inv (c\<lparr>lastHeadersReq := t\<rparr>)" for c t
    by (simp add: chain_inv_def split: option.split)
qed simp_all

text \<open>The operations that change the header chain.\<close>

inductive chain_step :: "HeaderChain \<Rightarrow> HeaderChain \<Rightarrow> bool" where
  request: "requestHeaders now ticks l c = (res, l', c') \<Longrightarrow> chain_step c c'"
| checkpoint: "SetStartCheckpoint hashHex height c = (res, c') \<Longrightarrow> chain_step c c'"
| checkpoint_id: "SetStartCheckpointByID i c = (res, c') \<Longrightarrow> chain_step c c'"
| seed: "chain_step c (SeedLastNonMinDifficultyBits bits c)"
| switch: "chain_step c (setNetwork net c)"

lemma SetStartCheckpoint_inv:
  "SetStartCheckpoint hashHex height c = (res, c') \<Longrightarrow> chain_inv c \<Longrightarrow> chain_inv c'"
  by (auto simp: SetStartCheckpoint_def chain_inv_def hexTo32Bytes_Inr_iff
      split: if_splits sum.splits option.splits)

lemma requestHeaders_inv:
  assumes "requestHeaders now ticks l c = (res, l', c')" "chain_inv c"
  shows "chain_inv c'"
  using keep.request_loop_effect [OF assms(1) [unfolded requestHeaders_def]] keep.clock [of c] assms(2)
  by blast

lemma chain_step_inv: "chain_step c c' \<Longrightarrow> chain_inv c \<Longrightarrow> chain_inv c'"
proof (induction rule: chain_step.induct)
  case (checkpoint_id i c res c')
  then show ?case
    by (auto simp: SetStartCheckpointByID_def dest: SetStartCheckpoint_inv split: option.splits)
qed (auto dest: requestHeaders_inv SetStartCheckpoint_inv
    simp: SeedLastNonMinDifficultyBits_def setNetwork_def chain_inv_def cong: option.case_cong)

lemma newHeaderChain_inv: "chain_inv (newHeaderChain net)"
  by (simp add: newHeaderChain_def setNetwork_def chain_inv_def)

section \<open>The tip history\<close>

lemma update_new: "k \<notin> fst ` set al \<Longrightarrow> AList.update k v al = al @ [(k, v)]"
  by (induction al) auto

lemma record_tip_new:
  "k \<notin> fst ` set hist \<Longrightarrow> record_tip k v hist =
    (if 500 < Suc (length hist) then filter (\<lambda>(k', v). \<not> k' < k - 500) (hist @ [(k, v)])
     else hist @ [(k, v)])"
  by (simp add: record_tip_def update_new)

lemma filter_upt_ge: "filter (\<lambda>k. a \<le> k) [m..<n] = [max m a..<n]"
  by (induction n) auto

lemma record_tip_run:
  fixes f :: "nat \<Rightarrow> string"
  shows "foldl (\<lambda>hist k. record_tip (h + int k) (f k) hist) [] [0..<n] =
    map (\<lambda>k. (h + int k, f k)) [n - 501..<n]"
proof (induction n)
  case (Suc n)
  let ?g = "\<lambda>k. (h + int k, f k)"
  have new: "h + int n \<notin> fst ` set (map ?g [n - 501..<n])" by auto
  have app: "map ?g [n - 501..<n] @ [?g n] = map ?g [n - 501..<Suc n]" by simp
  have keep: "filter (\<lambda>(k, v). \<not> k < h + int n - 500) (map ?g [m..<Suc n]) = map ?g [max m (n - 500)..<Suc n]"
    if "m \<le> n" for m
  proof -
    have "filter (\<lambda>k. n - 500 \<le> k) [m..<Suc n] = [max m (n - 500)..<Suc n]"
      by (rule filter_upt_ge)
    moreover have "(\<lambda>(k, v). \<not> k < h + int n - 500) \<circ> ?g = (\<lambda>k. n - 500 \<le> k)"
      by (auto simp: fun_eq_iff)
    ultimately show ?thesis by (simp add: filter_map del: upt_Suc)
  qed
  have len: "length (map ?g [n - 501..<n]) = n - (n - 501)" by simp
  have "foldl (\<lambda>hist k. record_tip (h + int k) (f k) hist) [] [0..<Suc n] =
      record_tip (h + int n) (f n) (map ?g [n - 501..<n])"
    using Suc by simp
  also have "\<dots> = (if 500 < Suc (n - (n - 501)) then map ?g [max (n - 501) (n - 500)..<Suc n]
      else map ?g [n - 501..<Suc n])"
    unfolding record_tip_new [OF new] len app by (simp only: keep [of "n - 501"] diff_le_self)
  also have "\<dots> = map ?g [Suc n - 501..<Suc n]"
    by (cases "500 \<le> n") (simp_all add: max_def del: upt_Suc)
  finally show ?case .
qed simp

section \<open>The locator message\<close>

lemma loc_add_inv: "distinct loc \<Longrightarrow> distinct (loc_add loc h) \<and> set (loc_add loc h) = insert h (set loc) \<and>
    length (loc_add loc h) \<le> Suc (length loc) \<and> (loc \<noteq> [] \<longrightarrow> hd (loc_add loc h) = hd loc)"
  by (auto simp: loc_add_def)

lemma loc_fill_inv:
  "distinct loc \<Longrightarrow> length loc \<le> maxLocatorHashes \<Longrightarrow>
   distinct (loc_fill loc hs) \<and> length (loc_fill loc hs) \<le> maxLocatorHashes \<and>
   set (loc_fill loc hs) \<subseteq> set loc \<union> set hs \<and> (loc \<noteq> [] \<longrightarrow> hd (loc_fill loc hs) = hd loc \<and> loc_fill loc hs \<noteq> [])"
proof (induction loc hs rule: loc_fill.induct)
  case (2 loc h hs)
  show ?case
  proof (cases "length loc < maxLocatorHashes")
    case True
    note a = loc_add_inv [OF 2(2), of h]
    have "loc_add loc h \<noteq> []" by (auto simp: loc_add_def)
    with 2(1) [OF True] a True show ?thesis by auto
  qed (use 2 in auto)
qed simp

lemma loc_fill_hd: "loc_fill [] (h # hs) \<noteq> [] \<and> hd (loc_fill [] (h # hs)) = h"
  using loc_fill_inv [of "[h]" hs] by (simp add: loc_add_def maxLocatorHashes_def)

lemma locator_inv:
  assumes "chain_inv c"
  shows "locator c \<noteq> [] \<and> distinct (locator c) \<and> length (locator c) \<le> 16 \<and>
    (\<forall>h \<in> set (locator c). length h = 32) \<and>
    (\<forall>h. bestHeader c = Some h \<longrightarrow> hd (locator c) = hHash h)"
proof -
  define a where "a = (if locatorHashes c \<noteq> [] then loc_fill [] (locatorHashes c)
     else case bestHeader c of Some h \<Rightarrow> loc_add [] (hHash h) | None \<Rightarrow> [])"
  have a: "distinct a" "length a \<le> 16" "\<forall>h \<in> set a. length h = 32"
    "\<forall>h. bestHeader c = Some h \<longrightarrow> a \<noteq> [] \<and> hd a = hHash h"
  proof -
    show "distinct a" "length a \<le> 16" "\<forall>h \<in> set a. length h = 32"
      using assms loc_fill_inv [of "[]" "locatorHashes c"]
      by (auto simp: a_def chain_inv_def maxLocatorHashes_def loc_add_def split: option.splits)
    show "\<forall>h. bestHeader c = Some h \<longrightarrow> a \<noteq> [] \<and> hd a = hHash h"
    proof (intro allI impI)
      fix h assume "bestHeader c = Some h"
      with assms obtain hs where "locatorHashes c = hHash h # hs"
        by (auto simp: chain_inv_def) (metis list.collapse)
      then show "a \<noteq> [] \<and> hd a = hHash h"
        using loc_fill_hd [of "hHash h" hs] by (simp add: a_def del: loc_fill.simps)
    qed
  qed
  define b where "b = (if hasStartCheckpoint c \<and> length a < maxLocatorHashes
     then loc_add a (startLocatorHash c) else a)"
  have b: "distinct b" "length b \<le> 16" "\<forall>h \<in> set b. length h = 32"
    "\<forall>h. bestHeader c = Some h \<longrightarrow> b \<noteq> [] \<and> hd b = hHash h"
    using a assms loc_add_inv [OF a(1), of "startLocatorHash c"]
    by (auto simp: b_def maxLocatorHashes_def chain_inv_def loc_add_def split: if_splits)
  have "locator c = (if b = [] then [replicate 32 0] else b)"
    by (simp add: locator_def a_def b_def loc_add_def Let_def)
  with b show ?thesis by auto
qed

section \<open>Properties\<close>

text \<open>C5: whatever the peer sends and however the request ends, the header chain only moves along
  linked headers: the new tip is reached from the old one (or from the start checkpoint or
  genesis) by headers that each name the double SHA-256 of their predecessor, with
  consecutive heights.\<close>

theorem sync_follows_links:
  assumes "requestHeaders now ticks l c = (res, l', c')"
  shows "extends c c'"
  using ext.request_loop_effect [OF assms [unfolded requestHeaders_def]] ext.clock ext.trans by blast

definition offline :: PeerLink where
  "offline = \<lparr>magic = [0xc0, 0xc0, 0xc0, 0xc0], conn = None, peerAddr = '''', knownPeers = []\<rparr>"

theorem sync_follows_links_witness:
  "extends (newHeaderChain ''mainnet'') ((newHeaderChain ''mainnet'')\<lparr>lastHeadersReq := Some 5\<rparr>)"
  by (rule sync_follows_links [of 5 3 offline _ "Inl (Link NotConnected)" offline])
    (simp add: requestHeaders_def request_loop.simps sendGetHeaders_def writeMessage_def
        link_write_def offline_def)

text \<open>C35: a \<open>headers\<close> message that continues the known tip is accepted, AuxPoW sections included: the
  last header becomes the tip and the locator ring holds the newest hashes first.\<close>

theorem headers_batch_accepted:
  assumes "links (tip_hash c) (tip_height c) (map fst ws)" "list_all wire_ok ws" "ws \<noteq> []"
    and "length ws < 2 ^ 63" "chain_inv c"
  shows "\<exists>c'. processHeaders now (writeLen ws @ concat (map wire_header ws)) c = (Inr (int (length ws)), c') \<and>
    bestHeader c' = Some (fst (last ws)) \<and> bestHeight c' = tip_height c + int (length ws) \<and>
    locatorHashes c' = take 24 (rev (map (hHash \<circ> fst) ws) @ locatorHashes c)"
proof -
  let ?hs = "map fst ws" and ?s = "fold accept_header (map fst ws) (loop_init c)"
  have "headers_loop (length ws) (concat (map wire_header ws) @ []) (loop_init c) = (None, ?s)"
    by (rule headers_loop_complete) (use assms in \<open>simp_all add: tip_hash_def tip_height_def\<close>)
  moreover have "unat (of_nat (length ws) :: u64) = length ws" using assms(4) by (simp add: unat_of_nat)
  then have "(of_nat (length ws) :: u64) \<noteq> 0" using assms(3) by (metis length_0_conv unat_0)
  moreover have "length (locatorHashes c) \<le> 24" using assms(5) by (simp add: chain_inv_def)
  ultimately show ?thesis
    using assms fold_accept [of ?hs "loop_init c"] links_last [OF assms(1)]
    by (simp add: processHeaders_def unat_of_nat_u64 sint_of_nat_u64 prependLocatorHashesFromBatch_take last_map)
qed

definition sampleNext :: "HeaderChain \<Rightarrow> BlockHeader" where
  "sampleNext c =
     (let h = sampleTip\<lparr>hPrevBlock := tip_hash c, hHeight := tip_height c + 1\<rparr>
      in h\<lparr>hHash := sha256 (sha256 (serializeBlockHeader h))\<rparr>)"

lemma sampleNext_links:
  "length (tip_hash c) = 32 \<Longrightarrow> links (tip_hash c) (tip_height c) [sampleNext c]"
  by (simp add: sampleNext_def Let_def sampleTip_def wf_header_def serializeBlockHeader_def)

lemma tip_hash_new: "tip_hash (newHeaderChain ''mainnet'') = dogeGenesisHashWire"
  by (simp add: tip_hash_def loop_init_def newHeaderChain_def setNetwork_def)

lemma length_hex_wire [simp]: "length (hex_wire s) = 32"
  by (auto simp: hex_wire_def split: sum.split)

lemma sampleNext_new:
  "links (tip_hash (newHeaderChain ''mainnet'')) (tip_height (newHeaderChain ''mainnet''))
     [sampleNext (newHeaderChain ''mainnet'')]"
  by (rule sampleNext_links) (simp add: tip_hash_new dogeGenesisHashWire_def)

definition plainAux :: AuxPow where
  "plainAux = \<lparr>CoinbaseTx = None, BlockHash = replicate 32 0, MerkleBranch = [], MerkleIndex = 0,
     ChainMerkleBranch = [], ChainIndex = 0, ParentBlockHeader = None\<rparr>"

lemma plainAux_ok: "wire_ok (h, plainAux, n)"
  by (simp add: wire_ok_def plainAux_def wf_auxpow_def wf_branch_def)

theorem headers_batch_accepted_witness:
  "\<exists>c'. processHeaders 7 (writeLen [(sampleNext (newHeaderChain ''mainnet''), plainAux, 0 :: u64)] @
      concat (map wire_header [(sampleNext (newHeaderChain ''mainnet''), plainAux, 0)]))
      (newHeaderChain ''mainnet'') = (Inr 1, c') \<and>
    bestHeader c' = Some (sampleNext (newHeaderChain ''mainnet''))"
  using headers_batch_accepted [of "newHeaderChain ''mainnet''"
      "[(sampleNext (newHeaderChain ''mainnet''), plainAux, 0 :: u64)]" 7]
    newHeaderChain_inv sampleNext_new plainAux_ok by auto

text \<open>A rejected \<open>headers\<close> message leaves the tip, its height, the locator and the difficulty
  state as they were; only the tip history may differ.\<close>

theorem rejected_headers_keep_tip:
  assumes "processHeaders now payload c = (Inl e, c')"
  shows "c' = c\<lparr>tipHistory := tipHistory c'\<rparr>"
  using assms by (cases rule: processHeaders_cases) auto

theorem rejected_headers_keep_tip_witness:
  "\<exists>e c'. processHeaders 7 [1, 2, 3] (newHeaderChain ''mainnet'') = (Inl e, c') \<and>
     c' = (newHeaderChain ''mainnet'')\<lparr>tipHistory := tipHistory c'\<rparr>"
proof -
  have "processHeaders 7 [1, 2, 3] (newHeaderChain ''mainnet'') =
      (Inl (HeaderBytes UnexpectedEOF), newHeaderChain ''mainnet'')"
    by (simp add: processHeaders_def readVarInt_def read_header_def read_full_def)
  from rejected_headers_keep_tip [OF this] this show ?thesis by blast
qed

text \<open>The headers of a message that precede the one that fails to link are already recorded in
  the tip history, from which the payment monitor confirms blocks, although the tip never
  reached their height.\<close>

theorem rejected_headers_recorded:
  assumes "links (tip_hash c) (tip_height c) [h]" "wire_ok (h, ap, txns)" "wire_ok (g, ap', txns')"
    and "wf_header g" "hPrevBlock g \<noteq> hHash h" "tipHistory c = []"
  shows "\<exists>e c'. processHeaders now (writeVarInt 2 @ wire_header (h, ap, txns) @ wire_header (g, ap', txns')) c
      = (Inl e, c') \<and> bestHeight c' = bestHeight c \<and>
    GetBlockHashAtHeight c' (tip_height c + 1) = HashToDisplayHex (hHash h)"
proof -
  let ?s = "loop_init c"
  define g' where "g' = g\<lparr>hHeight := hHeight h + 1, hHash := sha256 (sha256 (serializeBlockHeader g))\<rparr>"
  have g': "serializeBlockHeader g' = serializeBlockHeader g" "wire_ok (g', ap', txns')"
    "wire_header (g', ap', txns') = wire_header (g, ap', txns')" "hPrevBlock g' = hPrevBlock g"
    using assms(3) by (simp_all add: g'_def serializeBlockHeader_def wire_ok_def wire_header_def)
  have "links (hPrevBlock g') (hHeight h) [g']"
    using assms(4) g'(1) by (simp add: g'_def wf_header_def)
  from read_header_wire [OF this g'(2), of "[]"]
  have rg: "read_header (hHeight h) (wire_header (g, ap', txns')) = Inr (g', [])" by (simp add: g'(3))
  have rh: "read_header (lsHeight ?s) (wire_header (h, ap, txns) @ wire_header (g, ap', txns')) =
      Inr (h, wire_header (g, ap', txns'))"
    by (rule read_header_wire) (use assms(1,2) in \<open>simp_all add: tip_height_def\<close>)
  have h: "hPrevBlock h = lsExpected ?s" "hHeight h = tip_height c + 1"
    using assms(1) by (simp_all add: tip_hash_def)
  have "headers_loop 2 (wire_header (h, ap, txns) @ wire_header (g, ap', txns')) ?s =
      (Some (NonContinuous (hHeight g') (hPrevBlock g') (hHash h)), accept_header h ?s)"
    using rg rh h assms(5) g'(4) by (simp add: numeral_2_eq_2)
  then show ?thesis
    using h(2) assms(6)
    by (simp add: processHeaders_def accept_header_def record_tip_def GetBlockHashAtHeight_def)
qed

definition sampleBroken :: "HeaderChain \<Rightarrow> BlockHeader" where
  "sampleBroken c = sampleTip\<lparr>hPrevBlock := map ((+) 1) (hHash (sampleNext c))\<rparr>"

theorem rejected_headers_recorded_witness:
  "\<exists>e c'. processHeaders 7 (writeVarInt 2 @
      wire_header (sampleNext (newHeaderChain ''mainnet''), plainAux, 0) @
      wire_header (sampleBroken (newHeaderChain ''mainnet''), plainAux, 0)) (newHeaderChain ''mainnet'') =
      (Inl e, c') \<and> bestHeight c' = bestHeight (newHeaderChain ''mainnet'') \<and>
    GetBlockHashAtHeight c' (tip_height (newHeaderChain ''mainnet'') + 1) =
      HashToDisplayHex (hHash (sampleNext (newHeaderChain ''mainnet'')))"
proof (rule rejected_headers_recorded)
  let ?h = "hHash (sampleNext (newHeaderChain ''mainnet''))"
  have len: "length ?h = 32" by (simp add: sampleNext_def Let_def)
  then have "map ((+) 1) ?h ! 0 \<noteq> ?h ! 0" by simp
  then show "hPrevBlock (sampleBroken (newHeaderChain ''mainnet'')) \<noteq> ?h"
    by (auto simp: sampleBroken_def)
  show "wf_header (sampleBroken (newHeaderChain ''mainnet''))"
    using len by (simp add: sampleBroken_def wf_header_def sampleTip_def)
qed (rule sampleNext_new, rule plainAux_ok, rule plainAux_ok,
    simp add: newHeaderChain_def setNetwork_def)

text \<open>Recording consecutive heights keeps the newest 501 of them, one more than the 500 the
  comments promise.\<close>

theorem tip_history_size:
  "length (foldl (\<lambda>hist k. record_tip (h + int k) (f k) hist) [] [0..<n]) = min n 501"
  unfolding record_tip_run by simp

text \<open>In every state the operations reach from a new client, the tip's height and hash agree with
  the best header, the locator ring starts with the tip's hash and has at most 24 entries.\<close>

theorem chain_state_invariant:
  assumes "chain_step\<^sup>*\<^sup>* (newHeaderChain net) c"
  shows "chain_inv c"
  using assms by (induction rule: rtranclp_induct) (auto intro: newHeaderChain_inv chain_step_inv)

theorem chain_state_invariant_witness:
  "chain_inv (SeedLastNonMinDifficultyBits 5 (newHeaderChain ''testnet''))"
  by (rule chain_state_invariant) (blast intro: chain_step.seed)

text \<open>A \<open>getheaders\<close> message always carries between 1 and 16 distinct block hashes, the tip's
  first, and its payload decodes to that count.\<close>

theorem getheaders_locator:
  assumes "chain_inv c"
  shows "1 \<le> length (locator c) \<and> length (locator c) \<le> 16 \<and> distinct (locator c) \<and>
    (\<forall>h. bestHeader c = Some h \<longrightarrow> hd (locator c) = hHash h) \<and>
    readVarInt (drop 4 (getheaders_payload c)) =
      Inr (of_nat (length (locator c)), concat (locator c) @ replicate 32 0) \<and>
    length (concat (locator c)) = 32 * length (locator c)"
  using locator_inv [OF assms]
  by (auto simp: getheaders_payload_def length_concat_32 Suc_le_eq)

theorem getheaders_locator_witness:
  "length (locator (newHeaderChain ''mainnet'')) \<le> 16 \<and> distinct (locator (newHeaderChain ''mainnet''))"
  using getheaders_locator [OF newHeaderChain_inv, of "''mainnet''"] by blast

text \<open>The mainnet checkpoints are stored in wire order but reversed once more when they are set:
  starting from checkpoint 0 expects the byte-reversed genesis hash, and the hash of
  checkpoint 3043797 does not even decode, so that it is refused.\<close>

theorem mainnet_checkpoints_reversed:
  "tip_hash (snd (SetStartCheckpointByID ''0'' (newHeaderChain ''mainnet''))) = rev dogeGenesisHashWire \<and>
   rev dogeGenesisHashWire \<noteq> dogeGenesisHashWire \<and>
   SetStartCheckpointByID ''3043797'' (newHeaderChain ''mainnet'') =
     (Inl (BadCheckpointHash (HexError OddHexLength)), newHeaderChain ''mainnet'')"
proof -
  let ?g = "''9156352c1818b32e90c9e792efd6a11a82fe7956a630f03bbee236cedae3911a''"
  have g: "hexDecode ?g = Inr dogeGenesisHashWire" "length dogeGenesisHashWire = 32"
    by (simp_all add: dogeGenesisHashWire_def hex_wire_def hex_val_def)
  then have "hexTo32Bytes ?g = Inr (rev dogeGenesisHashWire)" by (simp add: hexTo32Bytes_Inr_iff)
  then have zero: "tip_hash (snd (SetStartCheckpointByID ''0'' (newHeaderChain ''mainnet''))) =
      rev dogeGenesisHashWire"
    by (simp add: SetStartCheckpointByID_def SetStartCheckpoint_def newHeaderChain_def setNetwork_def
        dogeMainnetCheckpoints_def tip_hash_def loop_init_def)
  have "rev dogeGenesisHashWire \<noteq> dogeGenesisHashWire"
    by (simp add: dogeGenesisHashWire_def hex_wire_def hex_val_def)
  moreover have "hexDecode ''a8fecc11d4f4e0b55aaf984095380a48a8414fa22041a94be5360bac2f877bdf6'' = Inl OddHexLength"
    by (simp add: hex_val_def)
  then have "SetStartCheckpointByID ''3043797'' (newHeaderChain ''mainnet'') =
     (Inl (BadCheckpointHash (HexError OddHexLength)), newHeaderChain ''mainnet'')"
    by (simp add: SetStartCheckpointByID_def SetStartCheckpoint_def newHeaderChain_def setNetwork_def
        dogeMainnetCheckpoints_def hexTo32Bytes_def)
  ultimately show ?thesis using zero by blast
qed

end
