(* ===== verification/PaymentMonitor.thy ===== *)
theory PaymentMonitor
  imports HeaderSync
begin

text \<open>
  \<open>src/payment_monitor_p2p.go\<close>: tracking submitted blocks and deciding, from the P2P tip
  history, which of them the chain accepted. The client it reads is the \<open>HeaderChain\<close> of
  \<open>HeaderSync\<close>; the clock is a parameter; amounts are \<open>int64\<close> koinu, modelled as \<open>int\<close>. The
  ticker goroutine is the iteration of \<open>CheckForPayments\<close>.
\<close>

section \<open>State and operations\<close>

record MinedBlockInfo =
  mbHeight :: int
  mbHash :: string
  mbSubmitTime :: int
  mbChecked :: bool
  mbConfirmed :: bool
  mbPaymentSeen :: bool

record P2PPayment =
  payHeight :: int
  payHash :: string
  payValue :: int
  payTime :: int
  payConfirmed :: bool

record P2PPaymentMonitor =
  payoutAddress :: string
  pmNetwork :: string
  submittedBlocks :: "MinedBlockInfo list"
  payments :: "P2PPayment list"
  lastCheckHeight :: int
  stopped :: bool

record P2PMonitorStats =
  TotalSubmitted :: nat
  Confirmed :: nat
  Orphaned :: nat
  Pending :: nat
  TotalPaid :: int
  PaymentCount :: nat
  LastCheckHeight :: int
  RecentPayments :: "P2PPayment list"

definition NewP2PPaymentMonitor :: "string \<Rightarrow> string \<Rightarrow> P2PPaymentMonitor" where
  "NewP2PPaymentMonitor addr net =
     \<lparr>payoutAddress = addr, pmNetwork = net, submittedBlocks = [], payments = [],
      lastCheckHeight = 0, stopped = False\<rparr>"

definition StopMonitor :: "P2PPaymentMonitor \<Rightarrow> P2PPaymentMonitor" where
  "StopMonitor pm = (if stopped pm then pm else pm\<lparr>stopped := True\<rparr>)"

definition push_submitted :: "MinedBlockInfo \<Rightarrow> P2PPaymentMonitor \<Rightarrow> P2PPaymentMonitor" where
  "push_submitted b pm =
     (let xs = submittedBlocks pm @ [b]
      in pm\<lparr>submittedBlocks := (if 100 < length xs then drop (length xs - 100) xs else xs)\<rparr>)"

definition TrackSubmittedBlock :: "int \<Rightarrow> int \<Rightarrow> string \<Rightarrow> P2PPaymentMonitor \<Rightarrow> P2PPaymentMonitor" where
  "TrackSubmittedBlock now height hash pm =
     push_submitted \<lparr>mbHeight = height, mbHash = hash, mbSubmitTime = now, mbChecked = False,
       mbConfirmed = False, mbPaymentSeen = False\<rparr> pm"

text \<open>One iteration of the checking loop: the block as updated and the payment it adds, if any.\<close>

definition check_block ::
  "HeaderChain \<Rightarrow> int \<Rightarrow> MinedBlockInfo \<Rightarrow> MinedBlockInfo \<times> P2PPayment list" where
  "check_block client tipHeight b =
     (if mbChecked b then (b, [])
      else if tipHeight < mbHeight b + 2 then (b, [])
      else
        let networkHash = GetBlockHashAtHeight client (mbHeight b) in
        if networkHash = '''' then (b, [])
        else if networkHash = mbHash b
        then (b\<lparr>mbChecked := True, mbConfirmed := True, mbPaymentSeen := True\<rparr>,
              [\<lparr>payHeight = mbHeight b, payHash = mbHash b, payValue = BlockRewardForHeight (mbHeight b),
                payTime = mbSubmitTime b, payConfirmed = True\<rparr>])
        else (b\<lparr>mbChecked := True, mbConfirmed := False\<rparr>, []))"

definition CheckForPayments :: "HeaderChain option \<Rightarrow> P2PPaymentMonitor \<Rightarrow> P2PPaymentMonitor" where
  "CheckForPayments client pm =
     (case client of
        None \<Rightarrow> pm
      | Some c \<Rightarrow>
          (case bestHeader c of
             None \<Rightarrow> pm
           | Some tip \<Rightarrow>
               let r = map (check_block c (hHeight tip)) (submittedBlocks pm) in
               pm\<lparr>submittedBlocks := map fst r, payments := payments pm @ concat (map snd r),
                  lastCheckHeight := hHeight tip\<rparr>))"

definition getRecentPayments :: "nat \<Rightarrow> P2PPaymentMonitor \<Rightarrow> P2PPayment list" where
  "getRecentPayments n pm =
     (if length (payments pm) \<le> n then payments pm
      else drop (length (payments pm) - n) (payments pm))"

text \<open>The counting loop over the submitted blocks: (confirmed, orphaned, pending).\<close>

primrec count_blocks :: "MinedBlockInfo list \<Rightarrow> nat \<times> nat \<times> nat \<Rightarrow> nat \<times> nat \<times> nat" where
  "count_blocks [] n = n"
| "count_blocks (b # bs) n =
     (case n of (confirmed, orphaned, pending) \<Rightarrow>
        count_blocks bs
          (if mbChecked b
           then (if mbConfirmed b then (confirmed + 1, orphaned, pending)
                 else (confirmed, orphaned + 1, pending))
           else (confirmed, orphaned, pending + 1)))"

definition GetMonitorStats :: "P2PPaymentMonitor \<Rightarrow> P2PMonitorStats" where
  "GetMonitorStats pm =
     (let (confirmed, orphaned, pending) = count_blocks (submittedBlocks pm) (0, 0, 0)
      in \<lparr>TotalSubmitted = length (submittedBlocks pm), Confirmed = confirmed, Orphaned = orphaned,
          Pending = pending, TotalPaid = fold (\<lambda>p acc. acc + payValue p) (payments pm) 0,
          PaymentCount = length (payments pm), LastCheckHeight = lastCheckHeight pm,
          RecentPayments = getRecentPayments 10 pm\<rparr>)"

text \<open>
  The monitoring goroutine: an initial check, then one check per tick until the stop channel
  is closed. The list gives the client's state at each tick; \<open>None\<close> is the stop.
\<close>

fun monitor_ticks :: "HeaderChain option list \<Rightarrow> P2PPaymentMonitor \<Rightarrow> P2PPaymentMonitor" where
  "monitor_ticks [] pm = pm"
| "monitor_ticks (c # cs) pm = (if stopped pm then pm else monitor_ticks cs (CheckForPayments c pm))"

definition StartMonitoring ::
  "HeaderChain option \<Rightarrow> HeaderChain option list \<Rightarrow> P2PPaymentMonitor \<Rightarrow> P2PPaymentMonitor" where
  "StartMonitoring first ticks pm = monitor_ticks ticks (CheckForPayments first pm)"

section \<open>The bounded list of submitted blocks\<close>

interpretation submitted: bounded_log push_submitted submittedBlocks 100
  by unfold_locales (auto simp: push_submitted_def takelast_def Let_def)

section \<open>Invariant\<close>

definition block_ok :: "MinedBlockInfo \<Rightarrow> bool" where
  "block_ok b \<longleftrightarrow> (mbConfirmed b \<longrightarrow> mbChecked b) \<and> mbPaymentSeen b = mbConfirmed b"

definition payment_ok :: "P2PPayment \<Rightarrow> bool" where
  "payment_ok p \<longleftrightarrow> payConfirmed p \<and> payValue p = BlockRewardForHeight (payHeight p)"

definition monitor_inv :: "P2PPaymentMonitor \<Rightarrow> bool" where
  "monitor_inv pm \<longleftrightarrow> length (submittedBlocks pm) \<le> 100 \<and> list_all block_ok (submittedBlocks pm) \<and>
     list_all payment_ok (payments pm) \<and>
     (\<forall>b \<in> set (submittedBlocks pm). mbConfirmed b \<longrightarrow>
        (\<exists>p \<in> set (payments pm). payHeight p = mbHeight b \<and> payHash p = mbHash b))"

text \<open>What the outside does to a monitor, in any order.\<close>

inductive monitor_step :: "P2PPaymentMonitor \<Rightarrow> P2PPaymentMonitor \<Rightarrow> bool" where
  track: "monitor_step pm (TrackSubmittedBlock now height hash pm)"
| check: "monitor_step pm (CheckForPayments client pm)"
| stop: "monitor_step pm (StopMonitor pm)"

lemma check_block_cases:
  "check_block c t b = (b', ps) \<Longrightarrow>
   (b' = b \<and> ps = []) \<or>
   (\<not> mbChecked b \<and> mbHeight b + 2 \<le> t \<and> GetBlockHashAtHeight c (mbHeight b) \<noteq> '''' \<and> mbChecked b' \<and>
    mbHeight b' = mbHeight b \<and> mbHash b' = mbHash b \<and>
    mbConfirmed b' = (GetBlockHashAtHeight c (mbHeight b) = mbHash b) \<and>
    (if mbConfirmed b' then mbPaymentSeen b' \<and> ps = [\<lparr>payHeight = mbHeight b, payHash = mbHash b,
        payValue = BlockRewardForHeight (mbHeight b), payTime = mbSubmitTime b, payConfirmed = True\<rparr>]
     else mbPaymentSeen b' = mbPaymentSeen b \<and> ps = []))"
  by (auto simp: check_block_def Let_def split: if_splits)

lemma check_block_ok: "block_ok b \<Longrightarrow> check_block c t b = (b', ps) \<Longrightarrow>
   block_ok b' \<and> list_all payment_ok ps \<and>
   (mbConfirmed b' \<longrightarrow> (mbConfirmed b \<and> b' = b) \<or> (\<exists>p \<in> set ps. payHeight p = mbHeight b' \<and> payHash p = mbHash b'))"
  using check_block_cases [of c t b b' ps]
  by (auto simp: block_ok_def payment_ok_def split: if_splits)

lemma CheckForPayments_inv:
  assumes "monitor_inv pm"
  shows "monitor_inv (CheckForPayments client pm)"
proof (cases "\<exists>c tip. client = Some c \<and> bestHeader c = Some tip")
  case True
  then obtain c tip where c: "client = Some c" "bestHeader c = Some tip" by blast
  define r where "r = map (check_block c (hHeight tip)) (submittedBlocks pm)"
  have pm': "CheckForPayments client pm = pm\<lparr>submittedBlocks := map fst r,
      payments := payments pm @ concat (map snd r), lastCheckHeight := hHeight tip\<rparr>"
    by (simp add: CheckForPayments_def c r_def Let_def)
  have ok: "block_ok b' \<and> list_all payment_ok ps \<and> (mbConfirmed b' \<longrightarrow>
      (\<exists>p \<in> set (payments pm @ concat (map snd r)). payHeight p = mbHeight b' \<and> payHash p = mbHash b'))"
    if r: "(b', ps) \<in> set r" for b' ps
  proof -
    from r obtain b where b: "b \<in> set (submittedBlocks pm)" "check_block c (hHeight tip) b = (b', ps)"
      by (auto simp: r_def)
    then have "block_ok b" using assms by (simp add: monitor_inv_def list_all_iff)
    note k = check_block_ok [OF this b(2)]
    moreover have "set ps \<subseteq> set (concat (map snd r))" using r by force
    moreover have "mbConfirmed b \<Longrightarrow> \<exists>p \<in> set (payments pm). payHeight p = mbHeight b \<and> payHash p = mbHash b"
      using assms b(1) by (simp add: monitor_inv_def)
    ultimately show ?thesis by auto
  qed
  have len: "length r = length (submittedBlocks pm)" by (simp add: r_def)
  have blocks: "b' \<in> set (map fst r) \<Longrightarrow> \<exists>ps. (b', ps) \<in> set r" for b' by force
  have pays: "ps \<in> set (map snd r) \<Longrightarrow> \<exists>b'. (b', ps) \<in> set r" for ps by force
  have "list_all payment_ok (concat (map snd r))"
    using ok pays by (simp only: list_all_iff set_concat) blast
  moreover have "list_all block_ok (map fst r)"
    using ok blocks by (simp only: list_all_iff) blast
  moreover have "\<forall>b \<in> set (map fst r). mbConfirmed b \<longrightarrow>
      (\<exists>p \<in> set (payments pm @ concat (map snd r)). payHeight p = mbHeight b \<and> payHash p = mbHash b)"
    using ok blocks by blast
  ultimately show ?thesis
    using assms len by (simp add: pm' monitor_inv_def)
next
  case False
  then have "CheckForPayments client pm = pm"
    by (auto simp: CheckForPayments_def split: option.splits)
  with assms show ?thesis by simp
qed

lemma TrackSubmittedBlock_inv:
  assumes "monitor_inv pm"
  shows "monitor_inv (TrackSubmittedBlock now height hash pm)"
proof -
  let ?b = "\<lparr>mbHeight = height, mbHash = hash, mbSubmitTime = now, mbChecked = False,
       mbConfirmed = False, mbPaymentSeen = False\<rparr>"
  have "set (submittedBlocks (push_submitted ?b pm)) \<subseteq> set (submittedBlocks pm) \<union> {?b}"
    by (auto simp: push_submitted_def Let_def dest: in_set_dropD split: if_splits)
  moreover have "payments (push_submitted ?b pm) = payments pm"
    by (simp add: push_submitted_def Let_def)
  moreover have "length (submittedBlocks (push_submitted ?b pm)) \<le> 100"
    by (rule submitted.items_push_length)
  moreover have "block_ok ?b" by (simp add: block_ok_def)
  ultimately show ?thesis using assms
    by (fastforce simp: monitor_inv_def TrackSubmittedBlock_def list_all_iff)
qed

lemma monitor_step_inv: "monitor_step pm pm' \<Longrightarrow> monitor_inv pm \<Longrightarrow> monitor_inv pm'"
proof (induction rule: monitor_step.induct)
  case (stop pm)
  then show ?case by (simp add: StopMonitor_def monitor_inv_def)
qed (rule TrackSubmittedBlock_inv CheckForPayments_inv, assumption)+

lemma new_monitor_inv: "monitor_inv (NewP2PPaymentMonitor addr net)"
  by (simp add: NewP2PPaymentMonitor_def monitor_inv_def)

lemma count_blocks_sum:
  "count_blocks bs (a, b, c) = (a', b', c') \<Longrightarrow> a' + b' + c' = a + b + c + length bs"
  by (induction bs arbitrary: a b c) (auto split: if_splits)

lemma count_blocks_filter:
  "count_blocks bs (a, b, c) =
    (a + length (filter (\<lambda>x. mbChecked x \<and> mbConfirmed x) bs),
     b + length (filter (\<lambda>x. mbChecked x \<and> \<not> mbConfirmed x) bs),
     c + length (filter (\<lambda>x. \<not> mbChecked x) bs))"
  by (induction bs arbitrary: a b c) auto

lemma fold_sum_payments: "fold (\<lambda>p acc. acc + payValue p) ps (a :: int) = a + sum_list (map payValue ps)"
  by (induction ps arbitrary: a) auto

lemma sum_list_const: "(\<And>x. x \<in> set xs \<Longrightarrow> f x = (c :: int)) \<Longrightarrow> sum_list (map f xs) = c * int (length xs)"
  by (induction xs) (auto simp: algebra_simps)

section \<open>Properties\<close>

text \<open>C39: in every history of tracking, checking and stopping, a monitor keeps at most 100
  blocks, none confirmed but unchecked, each confirmed block with its payment, and every payment
  with the block reward.\<close>

theorem monitor_invariant:
  assumes "monitor_step\<^sup>*\<^sup>* (NewP2PPaymentMonitor addr net) pm"
  shows "monitor_inv pm"
  using assms by (induction rule: rtranclp_induct) (rule new_monitor_inv, rule monitor_step_inv)

theorem monitor_invariant_witness:
  "monitor_inv (TrackSubmittedBlock 5 100 ''aa'' (NewP2PPaymentMonitor ''D'' ''mainnet''))"
  by (rule monitor_invariant) (blast intro: monitor_step.track)

text \<open>A check resolves exactly the unresolved blocks that are at least two below the tip and
  whose height the tip history covers: as confirmed when the recorded hash is the block's, as
  orphaned otherwise; all other blocks are left as they are.\<close>

theorem check_decides_by_history:
  assumes "bestHeader c = Some tip" "b \<in> set (submittedBlocks pm)"
  shows "\<exists>b' \<in> set (submittedBlocks (CheckForPayments (Some c) pm)).
    (if \<not> mbChecked b \<and> mbHeight b + 2 \<le> hHeight tip \<and> GetBlockHashAtHeight c (mbHeight b) \<noteq> ''''
     then mbChecked b' \<and> mbHeight b' = mbHeight b \<and> mbHash b' = mbHash b \<and>
       (mbConfirmed b' \<longleftrightarrow> GetBlockHashAtHeight c (mbHeight b) = mbHash b)
     else b' = b)"
proof -
  let ?b' = "fst (check_block c (hHeight tip) b)"
  have "?b' \<in> set (submittedBlocks (CheckForPayments (Some c) pm))"
    using assms by (simp add: CheckForPayments_def)
  then show ?thesis
    by (rule rev_bexI) (auto simp: check_block_def Let_def)
qed

definition sampleMonitor :: P2PPaymentMonitor where
  "sampleMonitor = TrackSubmittedBlock 5 100 ''aa'' (NewP2PPaymentMonitor ''D'' ''mainnet'')"

definition sampleChain :: HeaderChain where
  "sampleChain = (newHeaderChain ''mainnet'')\<lparr>bestHeader := Some sampleTip, tipHistory := [(100, ''aa'')]\<rparr>"

theorem check_decides_by_history_witness:
  "\<exists>b' \<in> set (submittedBlocks (CheckForPayments (Some sampleChain) sampleMonitor)).
    mbChecked b' \<and> mbConfirmed b'"
  using check_decides_by_history [of sampleChain sampleTip "hd (submittedBlocks sampleMonitor)" sampleMonitor]
  by (auto simp: sampleChain_def sampleMonitor_def TrackSubmittedBlock_def push_submitted_def
      NewP2PPaymentMonitor_def GetBlockHashAtHeight_def sampleTip_def)

text \<open>Checking twice against the same chain is the same as checking once, so no payment is
  ever counted twice.\<close>

theorem check_idempotent:
  "CheckForPayments c (CheckForPayments c pm) = CheckForPayments c pm"
proof -
  have "check_block h t (fst (check_block h t b)) = (fst (check_block h t b), [])" for h t b
    by (auto simp: check_block_def Let_def)
  then have "map (check_block h t) (map fst (map (check_block h t) bs)) =
      map (\<lambda>b. (fst (check_block h t b), [])) bs" for h t bs by simp
  then show ?thesis
    by (auto simp: CheckForPayments_def Let_def comp_def split: option.split)
qed

text \<open>The statistics add up: every submitted block is confirmed, orphaned or pending, and the
  total paid is the reward of 10000 coins for each payment.\<close>

theorem monitor_stats_consistent:
  assumes "monitor_inv pm"
  shows "Confirmed (GetMonitorStats pm) + Orphaned (GetMonitorStats pm) + Pending (GetMonitorStats pm) =
      TotalSubmitted (GetMonitorStats pm) \<and>
    TotalPaid (GetMonitorStats pm) = 1000000000000 * int (PaymentCount (GetMonitorStats pm)) \<and>
    length (RecentPayments (GetMonitorStats pm)) = min 10 (PaymentCount (GetMonitorStats pm))"
proof -
  obtain a b c where n: "count_blocks (submittedBlocks pm) (0, 0, 0) = (a, b, c)"
    by (metis prod_cases3)
  have "payValue p = 1000000000000" if "p \<in> set (payments pm)" for p
    using assms that by (auto simp: monitor_inv_def payment_ok_def list_all_iff BlockRewardForHeight_def)
  then have "sum_list (map payValue (payments pm)) = 1000000000000 * int (length (payments pm))"
    by (rule sum_list_const)
  with n count_blocks_sum [OF n] show ?thesis
    by (simp add: GetMonitorStats_def fold_sum_payments getRecentPayments_def)
qed

theorem monitor_stats_consistent_witness:
  "Confirmed (GetMonitorStats (NewP2PPaymentMonitor ''D'' ''mainnet'')) + Orphaned (GetMonitorStats
      (NewP2PPaymentMonitor ''D'' ''mainnet'')) + Pending (GetMonitorStats (NewP2PPaymentMonitor ''D'' ''mainnet'')) =
    TotalSubmitted (GetMonitorStats (NewP2PPaymentMonitor ''D'' ''mainnet''))"
  using monitor_stats_consistent [of "NewP2PPaymentMonitor ''D'' ''mainnet''"]
  by (simp add: monitor_inv_def NewP2PPaymentMonitor_def)

end
