(* ===== verification/Base58Address.thy ===== *)
theory Base58Address
  imports Sha256
begin

text \<open>
  \<open>src/address.go\<close>: Base58Check decoding of payout addresses and the P2PKH script they
  stand for. Strings are byte strings; ranging over a Go string yields runes, and every
  byte outside ASCII gives a rune that is not in the alphabet, so an error in both
  readings. The reference encoder \<open>base58Encode\<close>, which the program does not contain, states what
  the decoder has to invert.
\<close>

section \<open>Decoding\<close>

definition base58Alphabet :: string where
  "base58Alphabet = ''123456789ABCDEFGHJKLMNPQRSTUVWXYZabcdefghijkmnopqrstuvwxyz''"

definition mainnetP2PKHPrefix :: byte where "mainnetP2PKHPrefix = 0x1e"
definition testnetP2PKHPrefix :: byte where "testnetP2PKHPrefix = 0x71"

datatype addr_error =
    InvalidBase58Char char
  | AddressTooShort
  | InvalidChecksum
  | InvalidAddressLength
  | PayloadTooShort
  | UnsupportedAddressType byte
  | NoScript

text \<open>The inner search loop: the first index of the character, from position \<open>i\<close> on.\<close>

fun index_from :: "nat \<Rightarrow> string \<Rightarrow> char \<Rightarrow> nat option" where
  "index_from i [] ch = None"
| "index_from i (c # cs) ch = (if c = ch then Some i else index_from (Suc i) cs ch)"

fun base58_number :: "nat \<Rightarrow> string \<Rightarrow> addr_error + nat" where
  "base58_number acc [] = Inr acc"
| "base58_number acc (ch # s) =
     (case index_from 0 base58Alphabet ch of
        None \<Rightarrow> Inl (InvalidBase58Char ch)
      | Some idx \<Rightarrow> base58_number (acc * 58 + idx) s)"

definition base58Decode :: "string \<Rightarrow> addr_error + byte list" where
  "base58Decode s =
     ebind (base58_number 0 s) (\<lambda>n.
       let leadingZeros = length (takeWhile (\<lambda>c. c = CHR ''1'') s)
       in Inr (replicate leadingZeros 0 @ big_bytes n))"

definition base58DecodeCheck :: "string \<Rightarrow> addr_error + byte list" where
  "base58DecodeCheck s =
     ebind (base58Decode s) (\<lambda>decoded.
       if length decoded < 5 then Inl AddressTooShort
       else
         let payload = take (length decoded - 4) decoded;
             checksum = drop (length decoded - 4) decoded;
             hash = sha256 (sha256 payload)
         in if hash ! 0 \<noteq> checksum ! 0 \<or> hash ! 1 \<noteq> checksum ! 1 \<or>
               hash ! 2 \<noteq> checksum ! 2 \<or> hash ! 3 \<noteq> checksum ! 3
            then Inl InvalidChecksum
            else Inr payload)"

definition CreateP2PKHScript :: "byte list \<Rightarrow> byte list option" where
  "CreateP2PKHScript hash160 =
     (if length hash160 \<noteq> 20 then None
      else Some ([0x76, 0xA9, 0x14] @ hash160 @ [0x88, 0xAC]))"

definition DecodeDogecoinAddress :: "string \<Rightarrow> addr_error + byte list" where
  "DecodeDogecoinAddress address =
     (if length address < 26 \<or> 35 < length address then Inl InvalidAddressLength
      else ebind (base58DecodeCheck address) (\<lambda>decoded.
        if length decoded < 21 then Inl PayloadTooShort
        else
          let version = decoded ! 0;
              hash160 = take 20 (drop 1 decoded)
          in if version \<noteq> mainnetP2PKHPrefix \<and> version \<noteq> testnetP2PKHPrefix
             then Inl (UnsupportedAddressType version)
             else case CreateP2PKHScript hash160 of
               None \<Rightarrow> Inl NoScript
             | Some script \<Rightarrow> Inr script))"

datatype hash160_error = Hash160Hex hex_error | Hash160Length nat

definition HexToHash160 :: "string \<Rightarrow> hash160_error + byte list" where
  "HexToHash160 hexStr =
     (case hexDecode hexStr of
        Inl e \<Rightarrow> Inl (Hash160Hex e)
      | Inr bytes \<Rightarrow>
          if length bytes \<noteq> 20 then Inl (Hash160Length (length bytes)) else Inr bytes)"

section \<open>The reference encoder\<close>

fun digits58 :: "nat \<Rightarrow> nat list" where
  "digits58 n = (if n = 0 then [] else digits58 (n div 58) @ [n mod 58])"

declare digits58.simps [simp del]

definition base58Encode :: "byte list \<Rightarrow> string" where
  "base58Encode bs =
     replicate (length (takeWhile (\<lambda>b. b = 0) bs)) CHR ''1'' @
     map (\<lambda>d. base58Alphabet ! d) (digits58 (be_nat bs))"

definition base58EncodeCheck :: "byte list \<Rightarrow> string" where
  "base58EncodeCheck payload = base58Encode (payload @ take 4 (sha256 (sha256 payload)))"

lemma all_lt_58: "(\<forall>n < (58::nat). P n) \<longleftrightarrow> (\<forall>n \<in> set [0..<58]. P n)"
  by auto

lemma index_from_alphabet [simp]: "n < 58 \<Longrightarrow> index_from 0 base58Alphabet (base58Alphabet ! n) = Some n"
proof -
  have "\<forall>n < 58. index_from 0 base58Alphabet (base58Alphabet ! n) = Some n"
    unfolding all_lt_58 by (simp add: upt_rec base58Alphabet_def)
  then show "n < 58 \<Longrightarrow> index_from 0 base58Alphabet (base58Alphabet ! n) = Some n" by blast
qed

lemma base58_number_append:
  "base58_number acc (s @ t) = ebind (base58_number acc s) (\<lambda>n. base58_number n t)"
  by (induction acc s rule: base58_number.induct) (simp_all split: option.split)

lemma digits58_0 [simp]: "digits58 0 = []"
  by (simp add: digits58.simps)

lemma digits58_pos: "0 < n \<Longrightarrow> digits58 n = digits58 (n div 58) @ [n mod 58]"
  by (simp add: digits58.simps [of n])

lemma base58_number_digits:
  "base58_number 0 (map (\<lambda>d. base58Alphabet ! d) (digits58 n)) = Inr n"
proof (induction n rule: digits58.induct)
  case (1 n)
  show ?case
  proof (cases "n = 0")
    case False
    with 1 show ?thesis by (simp add: digits58_pos base58_number_append)
  qed simp
qed

lemma base58_number_ones: "base58_number 0 (replicate k CHR ''1'' @ s) = base58_number 0 s"
  by (induction k) (simp_all add: base58Alphabet_def)

lemma digits58_lt: "d \<in> set (digits58 n) \<Longrightarrow> d < 58"
proof (induction n rule: digits58.induct)
  case (1 n)
  then show ?case by (cases "n = 0") (auto simp: digits58_pos)
qed

lemma hd_digits58: "0 < n \<Longrightarrow> digits58 n \<noteq> [] \<and> hd (digits58 n) \<noteq> 0"
proof (induction n rule: digits58.induct)
  case (1 n)
  show ?case
  proof (cases "n div 58 = 0")
    case True
    with 1(2) show ?thesis by (simp add: digits58_pos [of n])
  next
    case False
    with 1 have "digits58 (n div 58) \<noteq> []" "hd (digits58 (n div 58)) \<noteq> 0" by simp_all
    with 1(2) show ?thesis by (simp add: digits58_pos [of n])
  qed
qed

lemma length_digits58_le: "n < 58 ^ k \<Longrightarrow> length (digits58 n) \<le> k"
proof (induction k arbitrary: n)
  case (Suc k)
  then have "n div 58 < 58 ^ k" by (simp add: div_less_iff_less_mult mult.commute)
  from Suc.IH [OF this] show ?case by (cases "n = 0") (simp_all add: digits58_pos)
qed simp

lemma length_digits58_gt: "58 ^ k \<le> n \<Longrightarrow> k < length (digits58 n)"
proof (induction k arbitrary: n)
  case 0
  then show ?case by (simp add: digits58_pos)
next
  case (Suc k)
  then have "58 * 58 ^ k div 58 \<le> n div 58" by (intro div_le_mono) simp
  then have "58 ^ k \<le> n div 58" by simp
  moreover have "0 < n" using Suc.prems by (metis not_gr_zero power_not_zero le_zero_eq zero_neq_numeral)
  ultimately show ?case using Suc.IH [of "n div 58"] by (simp add: digits58_pos)
qed

lemma alphabet_one: "d < 58 \<Longrightarrow> base58Alphabet ! d = CHR ''1'' \<longleftrightarrow> d = 0"
proof -
  assume "d < 58"
  have "base58Alphabet ! 0 = CHR ''1''" by (simp add: base58Alphabet_def)
  with index_from_alphabet [OF \<open>d < 58\<close>] index_from_alphabet [of 0] show ?thesis by auto
qed

lemma ones_of_digits:
  "takeWhile (\<lambda>c. c = CHR ''1'') (map (\<lambda>d. base58Alphabet ! d) (digits58 n)) = []"
proof (cases "n = 0")
  case False
  then obtain d ds where "digits58 n = d # ds" "d \<noteq> 0"
    using hd_digits58 [of n] by (cases "digits58 n") auto
  moreover from this(1) have "d < 58" using digits58_lt [of d n] by simp
  ultimately show ?thesis by (simp add: alphabet_one)
qed simp

lemma big_bytes_be_nat: "big_bytes (be_nat bs) = dropWhile (\<lambda>b. b = 0) bs"
proof -
  define z cs where "z = length (takeWhile (\<lambda>b. b = 0) bs)" and "cs = dropWhile (\<lambda>b. b = 0) bs"
  have "takeWhile (\<lambda>b. b = 0) bs = replicate z 0"
    unfolding z_def by (metis (mono_tags, lifting) replicate_length_same set_takeWhileD)
  then have bs: "bs = replicate z 0 @ cs"
    unfolding cs_def by (metis takeWhile_dropWhile_id)
  have "length (big_bytes (be_nat cs)) = length cs"
  proof (cases cs)
    case (Cons c ds)
    then have "c \<noteq> 0" unfolding cs_def by (simp add: dropWhile_eq_Cons_conv)
    then have "1 \<le> unat c" by (simp add: word_unat_eq_iff)
    then have "256 ^ length ds * 1 \<le> 256 ^ length ds * unat c" by (rule mult_le_mono2)
    then have "256 ^ length ds \<le> be_nat cs"
      using Cons by (simp only: be_nat_def rev.simps le_nat_append length_rev le_nat.simps
          mult_0_right add_0_right mult_1_right trans_le_add2)
    moreover have "be_nat cs < 256 ^ Suc (length ds)"
      using be_nat_bound [of cs] Cons by simp
    ultimately show ?thesis
      using length_big_bytes_le_iff [of "be_nat cs" "length ds"]
        length_big_bytes_le_iff [of "be_nat cs" "Suc (length ds)"] Cons by simp
  qed (simp add: be_nat_def)
  then have "big_bytes (be_nat cs) = cs"
    by (metis be_nat_big_bytes be_nat_def le_nat_inj length_rev rev_rev_ident)
  then show ?thesis by (metis bs be_nat_replicate_append cs_def)
qed

lemma takeWhile_replicate_append:
  "takeWhile (\<lambda>c. c = x) (replicate k x @ ys) = replicate k x @ takeWhile (\<lambda>c. c = x) ys"
  by (induction k) simp_all

lemma takeWhile_zeros: "takeWhile (\<lambda>b. b = 0) bs = replicate (length (takeWhile (\<lambda>b. b = 0) bs)) 0"
  by (metis (mono_tags, lifting) replicate_length_same set_takeWhileD)

lemma base58Decode_Encode: "base58Decode (base58Encode bs) = Inr bs"
proof -
  have "replicate (length (takeWhile (\<lambda>b. b = 0) bs)) 0 @ dropWhile (\<lambda>b. b = 0) bs = bs"
    by (metis takeWhile_dropWhile_id takeWhile_zeros)
  then show ?thesis
    by (simp add: base58Decode_def base58Encode_def base58_number_ones base58_number_digits
        takeWhile_replicate_append ones_of_digits big_bytes_be_nat)
qed

lemma base58DecodeCheck_EncodeCheck:
  assumes "payload \<noteq> []"
  shows "base58DecodeCheck (base58EncodeCheck payload) = Inr payload"
proof -
  have "0 < length payload" using assms by simp
  then show ?thesis
    by (simp add: base58DecodeCheck_def base58EncodeCheck_def base58Decode_Encode)
qed

text \<open>An address of version byte and 20-byte hash has between 26 and 35 characters.\<close>

lemma length_address:
  assumes "length bs = 25" "1 \<le> unat (bs ! 0)"
  shows "26 \<le> length (base58Encode bs)" "length (base58Encode bs) \<le> 35"
proof -
  from assms(1) obtain b cs where bs: "bs = b # cs" "length cs = 24" by (cases bs) auto
  with assms(2) have b: "1 \<le> unat b" "b \<noteq> 0" by (auto simp: word_unat_eq_iff)
  have "256 ^ 24 * 1 \<le> 256 ^ 24 * unat b" using b(1) by (rule mult_le_mono2)
  then have "256 ^ 24 \<le> be_nat bs" using bs by (simp add: be_nat_def le_nat_append)
  then have "58 ^ 25 \<le> be_nat bs" by simp
  then show "26 \<le> length (base58Encode bs)"
    using length_digits58_gt [of 25 "be_nat bs"] by (simp add: base58Encode_def)
  have "be_nat bs < 58 ^ 35" using be_nat_bound [of bs] assms(1) by simp
  then show "length (base58Encode bs) \<le> 35"
    using length_digits58_le [of "be_nat bs" 35] bs b by (simp add: base58Encode_def)
qed

lemma DecodeDogecoinAddress_encode:
  assumes "version = mainnetP2PKHPrefix \<or> version = testnetP2PKHPrefix" "length hash160 = 20"
  shows "DecodeDogecoinAddress (base58EncodeCheck (version # hash160)) =
    Inr ([0x76, 0xA9, 0x14] @ hash160 @ [0x88, 0xAC])"
proof -
  let ?bs = "(version # hash160) @ take 4 (sha256 (sha256 (version # hash160)))"
  have "length ?bs = 25" "1 \<le> unat (?bs ! 0)"
    using assms by (auto simp: mainnetP2PKHPrefix_def testnetP2PKHPrefix_def)
  note len = length_address [OF this, folded base58EncodeCheck_def]
  from assms show ?thesis
    unfolding DecodeDogecoinAddress_def using len
    by (simp add: base58DecodeCheck_EncodeCheck CreateP2PKHScript_def)
qed

section \<open>Properties\<close>

text \<open>The decoder inverts Base58 on every byte string, leading zero bytes included.\<close>

theorem base58_roundtrip: "base58Decode (base58Encode bs) = Inr bs"
  by (rule base58Decode_Encode)

text \<open>The address of a main- or test-network public key hash decodes to the P2PKH script
  that pays to that hash.\<close>

theorem address_pays_to_hash:
  assumes "version \<in> {mainnetP2PKHPrefix, testnetP2PKHPrefix}" "length hash160 = 20"
  shows "DecodeDogecoinAddress (base58EncodeCheck (version # hash160)) =
    Inr ([0x76, 0xA9, 0x14] @ hash160 @ [0x88, 0xAC])"
  using assms by (intro DecodeDogecoinAddress_encode) auto

theorem address_pays_to_hash_witness:
  "DecodeDogecoinAddress (base58EncodeCheck (0x1e # replicate 20 7)) =
    Inr ([0x76, 0xA9, 0x14] @ replicate 20 7 @ [0x88, 0xAC])"
  by (rule address_pays_to_hash) (simp_all add: mainnetP2PKHPrefix_def)

text \<open>An address is only accepted with a valid checksum and a P2PKH version byte, and its
  script then pays to bytes 1 to 20 of the payload; payload bytes behind them are ignored.\<close>

theorem address_accepted_sound:
  assumes "DecodeDogecoinAddress a = Inr script"
  shows "\<exists>version hash160 extra.
    base58Decode a = Inr ((version # hash160 @ extra) @
      take 4 (sha256 (sha256 (version # hash160 @ extra)))) \<and>
    version \<in> {mainnetP2PKHPrefix, testnetP2PKHPrefix} \<and> length hash160 = 20 \<and>
    CreateP2PKHScript hash160 = Some script"
proof -
  from assms obtain d where check: "base58DecodeCheck a = Inr d" and d: "21 \<le> length d"
    and v: "d ! 0 \<in> {mainnetP2PKHPrefix, testnetP2PKHPrefix}"
    and s: "CreateP2PKHScript (take 20 (drop 1 d)) = Some script"
    by (auto simp: DecodeDogecoinAddress_def ebind_eq_Inr_iff Let_def split: if_splits option.splits)
  have split: "d = d ! 0 # take 20 (drop 1 d) @ drop 21 d"
    using d by (cases d) (simp_all add: append_take_drop_id)
  from check have "\<exists>e. base58Decode a = Inr e \<and> 5 \<le> length e \<and> d = take (length e - 4) e \<and>
      take 4 (sha256 (sha256 d)) = drop (length e - 4) e"
  proof -
    have four: "take 4 h = c" if "length h = 32" "length c = 4"
      "h ! 0 = c ! 0" "h ! 1 = c ! 1" "h ! 2 = c ! 2" "h ! 3 = c ! 3" for h c :: "byte list"
      using that by (intro nth_equalityI) (auto simp: less_Suc_eq numeral_eq_Suc)
    from check show ?thesis
      unfolding base58DecodeCheck_def ebind_eq_Inr_iff Let_def
      by (auto intro!: four split: if_splits)
  qed
  then have "base58Decode a = Inr (d @ take 4 (sha256 (sha256 d)))" by auto
  with split v s d show ?thesis by (metis length_drop length_take min_def diff_le_mono
        CreateP2PKHScript_def option.distinct(1))
qed

theorem address_accepted_sound_witness:
  "\<exists>version hash160 extra.
    base58Decode (base58EncodeCheck (0x71 # replicate 20 7)) = Inr ((version # hash160 @ extra) @
      take 4 (sha256 (sha256 (version # hash160 @ extra)))) \<and>
    version \<in> {mainnetP2PKHPrefix, testnetP2PKHPrefix} \<and> length hash160 = 20 \<and>
    CreateP2PKHScript hash160 = Some ([0x76, 0xA9, 0x14] @ replicate 20 7 @ [0x88, 0xAC])"
  by (rule address_accepted_sound, rule DecodeDogecoinAddress_encode)
    (simp_all add: testnetP2PKHPrefix_def)

end
