(* ===== verification/MinerConfig.thy ===== *)
theory MinerConfig
  imports PaymentMonitor GpuMining Base58Address GoText
begin

text \<open>
  The \<open>Miner\<close> of \<open>src/main.go\<close> outside its mining loop: the configuration and how
  \<open>UpdateConfig\<close> normalises it, start and stop, the bounded logs, the saved chain tip, and the
  block assembly (\<open>createEmptyBlock\<close>), verification (\<open>verifyBlockPoW\<close>) and submission
  (\<open>submitBlock\<close>). The number of cores, the outcome of the RPC connection test and of the
  network calls are parameters. Log texts are kept without their emoji; JSON files are the values
  they hold. \<open>config\<close> is never nil, since both constructors set it.
\<close>

unbundle bit_operations_syntax

section \<open>Configuration\<close>

record MinerConfig =
  RPCURL :: string
  RPCUser :: string
  RPCPass :: string
  PayoutAddr :: string
  PayoutAddrMainnet :: string
  PayoutAddrTestnet :: string
  cfgNetwork :: string
  ConnectionMode :: string
  P2PCheckpoint :: string
  P2PPeerOverride :: string
  P2PPeerOverrideMainnet :: string
  P2PPeerOverrideTestnet :: string
  DeviceType :: string
  cfgThreadCount :: int
  cfgMaxHashes :: u64
  MiningIntensity :: string
  cfgNonceSearchMode :: string
  cfgNonceStartMode :: string
  cfgUseStride :: bool
  cfgDebugLogging :: bool

definition or_default :: "string \<Rightarrow> string \<Rightarrow> string" where
  "or_default s d = (if s = '''' then d else s)"

text \<open>The first block of \<open>UpdateConfig\<close>: mode, network and the active payout address.\<close>

definition normalize_network :: "MinerConfig \<Rightarrow> MinerConfig" where
  "normalize_network c =
     (let c = c\<lparr>ConnectionMode := or_default (ConnectionMode c) ''rpc''\<rparr>;
          c = c\<lparr>cfgNetwork := or_default (cfgNetwork c) ''mainnet''\<rparr>
      in c\<lparr>PayoutAddr := (if cfgNetwork c = ''testnet'' then PayoutAddrTestnet c
                           else PayoutAddrMainnet c)\<rparr>)"

definition peerOverride :: "MinerConfig \<Rightarrow> string" where
  "peerOverride c =
     (if cfgNetwork c = ''testnet'' \<and> P2PPeerOverrideTestnet c \<noteq> '''' then P2PPeerOverrideTestnet c
      else if cfgNetwork c = ''mainnet'' \<and> P2PPeerOverrideMainnet c \<noteq> '''' then P2PPeerOverrideMainnet c
      else P2PPeerOverride c)"

text \<open>Defaults and caps, then the adjustment of the hash limit to the intensity.\<close>

definition default_settings :: "int \<Rightarrow> string \<Rightarrow> MinerConfig \<Rightarrow> MinerConfig" where
  "default_settings numCPU currentDevice c =
     (let c = c\<lparr>DeviceType := or_default (DeviceType c) currentDevice\<rparr>;
          c = (if cfgThreadCount c \<le> 0
               then c\<lparr>cfgThreadCount := (if DeviceType c = ''gpu'' then numCPU else 1)\<rparr> else c);
          c = (if 64 < cfgThreadCount c then c\<lparr>cfgThreadCount := 64\<rparr> else c);
          c = (if cfgMaxHashes c = 0 then c\<lparr>cfgMaxHashes := 100000\<rparr> else c);
          c = (if 1000000 < cfgMaxHashes c then c\<lparr>cfgMaxHashes := 1000000\<rparr> else c);
          c = c\<lparr>MiningIntensity := or_default (MiningIntensity c) ''medium''\<rparr>;
          c = c\<lparr>cfgNonceSearchMode := or_default (cfgNonceSearchMode c) ''sequential''\<rparr>
      in c\<lparr>cfgNonceStartMode := or_default (cfgNonceStartMode c) ''calculated''\<rparr>)"

definition intensity_hashes :: "string \<Rightarrow> u64 \<Rightarrow> u64" where
  "intensity_hashes intensity n =
     (if intensity = ''low'' then (if 50000 < n then 50000 else n)
      else if intensity = ''medium'' then (if n < 50000 then 100000 else n)
      else if intensity = ''high'' then (if n < 100000 then 500000 else n)
      else if intensity = ''extreme'' then (if n < 500000 then 1000000 else n)
      else n)"

definition apply_intensity :: "MinerConfig \<Rightarrow> MinerConfig" where
  "apply_intensity c = c\<lparr>cfgMaxHashes := intensity_hashes (MiningIntensity c) (cfgMaxHashes c)\<rparr>"

text \<open>\<open>loadConfigFromFile\<close> after parsing.\<close>

definition migrate_config :: "MinerConfig \<Rightarrow> MinerConfig" where
  "migrate_config c =
     (let c = c\<lparr>cfgNetwork := or_default (cfgNetwork c) ''mainnet''\<rparr>;
          c = (if PayoutAddrMainnet c = '''' \<and> PayoutAddr c \<noteq> ''''
               then c\<lparr>PayoutAddrMainnet := PayoutAddr c\<rparr> else c)
      in c\<lparr>PayoutAddr := (if cfgNetwork c = ''testnet'' then PayoutAddrTestnet c
                           else PayoutAddrMainnet c)\<rparr>)"

section \<open>The miner\<close>

text \<open>
  \<open>mHeaderFetcher\<close> is nil or tells whether its stop channel is closed, \<open>mStopped\<close> the same of the
  miner's own, \<open>mOptimizerStopped\<close> of the optimizer's; a miner without an optimizer counts as stopped there.
\<close>

record RPCCredentials =
  rpcUrl :: string
  rpcUser :: string
  rpcPass :: string

record Miner =
  mConfig :: MinerConfig
  mMiner :: ScryptMiner
  mGpuMiner :: GPUMiner
  mRpcClient :: "RPCCredentials option"
  mP2pClient :: "HeaderChain option"
  mPeerOverride :: string
  mHeaderFetcher :: "bool option"
  mPaymentMonitor :: "P2PPaymentMonitor option"
  mStatus :: string
  mLogMessages :: "string list"
  mEnableHashLogging :: bool
  mStopped :: bool
  mExtraNonce :: u32
  mOptimizerStopped :: bool

definition add_log :: "string \<Rightarrow> Miner \<Rightarrow> Miner" where
  "add_log message m =
     (let xs = mLogMessages m @ [message]
      in m\<lparr>mLogMessages := (if 100 < length xs then drop (length xs - 100) xs else xs)\<rparr>)"

definition broadcastLogMessage :: "string \<Rightarrow> Miner \<Rightarrow> Miner" where
  "broadcastLogMessage message m =
     add_log (if 500 < length message then take 500 message @ ''... (truncated)'' else message) m"

definition hash_log_message :: "u64 \<Rightarrow> int \<Rightarrow> string option" where
  "hash_log_message hashes height =
     (if 1000 \<le> hashes \<or> hashes mod 1000 = 0 then
        Some (''Mining Block #'' @ Itoa height @ '': Attempted '' @ itoa_nat (unat hashes) @
          '' hashes - Trying to guess winning hash...'')
      else if hashes mod 100 = 0 then
        Some (''Mining: '' @ itoa_nat (unat hashes) @ '' hashes attempted on Block #'' @ Itoa height)
      else None)"

definition logHashAttempts :: "u64 \<Rightarrow> int \<Rightarrow> Miner \<Rightarrow> Miner" where
  "logHashAttempts hashes height m =
     (if \<not> mEnableHashLogging m then m
      else case hash_log_message hashes height of None \<Rightarrow> m | Some msg \<Rightarrow> broadcastLogMessage msg m)"

definition SetHashLogging :: "bool \<Rightarrow> Miner \<Rightarrow> Miner" where
  "SetHashLogging enabled m = m\<lparr>mEnableHashLogging := enabled\<rparr>"

text \<open>
  \<open>Stop\<close>: the stop channel is closed and made anew at the end. The header fetcher closes its own stop
  channel, which nothing makes anew: where it is closed already the call panics on the way. Then it
  waits for the mining loops (\<open>m.wg.Wait()\<close>): \<open>loopsEnd\<close> says whether all of them end once they are told
  to. Where one does not, because its round never returns, neither does \<open>Stop\<close>: header fetcher and
  optimizer are stopped by then, and the status has not changed.
\<close>

datatype stop_halt = StopPanics go_panic | LoopsRunOn

definition StopMiner :: "bool \<Rightarrow> Miner \<Rightarrow> (stop_halt + unit) \<times> Miner" where
  "StopMiner loopsEnd m =
     (let m = m\<lparr>mStopped := True\<rparr> in
      if mHeaderFetcher m = Some True then (Inl (StopPanics CloseOfClosedChannel), m)
      else
        let m = m\<lparr>mHeaderFetcher := map_option (\<lambda>_. True) (mHeaderFetcher m)\<rparr>;
            m = m\<lparr>mOptimizerStopped := True\<rparr>
        in if \<not> loopsEnd then (Inl LoopsRunOn, m)
           else (Inr (), broadcastLogMessage ''Mining stopped'' (m\<lparr>mStopped := False, mStatus := ''stopped''\<rparr>)))"

datatype start_error = PayoutRequired | RpcConnectionFailed | RpcNotConfigured

definition start_payout :: "MinerConfig \<Rightarrow> string" where
  "start_payout c =
     (let payout = PayoutAddr c;
          payout = (if cfgNetwork c = ''testnet'' \<and> PayoutAddrTestnet c \<noteq> '''' then PayoutAddrTestnet c
                    else payout)
      in if cfgNetwork c = ''mainnet'' \<and> PayoutAddrMainnet c \<noteq> '''' then PayoutAddrMainnet c else payout)"

text \<open>\<open>Start\<close>; \<open>rpcOk\<close> is what the connection test of new credentials says.\<close>

definition start_connection :: "bool \<Rightarrow> Miner \<Rightarrow> start_error + Miner" where
  "start_connection rpcOk m =
     (let c = mConfig m in
      if ConnectionMode c \<noteq> ''p2p'' then
        (if mRpcClient m = None then
           (if RPCURL c \<noteq> '''' \<and> RPCUser c \<noteq> '''' \<and> RPCPass c \<noteq> '''' then
              (if \<not> rpcOk then Inl RpcConnectionFailed
               else Inr (m\<lparr>mRpcClient := Some \<lparr>rpcUrl = RPCURL c, rpcUser = RPCUser c, rpcPass = RPCPass c\<rparr>,
                           mHeaderFetcher := Some False\<rparr>))
            else Inl RpcNotConfigured)
         else Inr m)
      else Inr (m\<lparr>mHeaderFetcher := None\<rparr>))"

definition StartMiner :: "bool \<Rightarrow> Miner \<Rightarrow> start_error + Miner" where
  "StartMiner rpcOk m =
     (if TrimSpace (start_payout (mConfig m)) = '''' then Inl PayoutRequired
      else ebind (start_connection rpcOk m) (\<lambda>m.
        let m = m\<lparr>mStopped := False, mStatus := ''running''\<rparr>;
            m = broadcastLogMessage ''Mining started - Ready to guess winning hashes!'' m;
            m = broadcastLogMessage ''GPU/CPU Auto-detection enabled - mining with optimal device'' m
        in Inr (broadcastLogMessage ''Miner initialized and running'' m)))"

datatype update_error = ConnectionTestFailed

text \<open>
  \<open>UpdateConfig\<close>: the new connection first, then stop, then \<open>apply_config\<close>: settings, a new payment
  monitor when network or payout address change, and the new clients and miner settings.
\<close>

definition apply_config :: "int \<Rightarrow> MinerConfig \<Rightarrow> Miner \<Rightarrow> Miner" where
  "apply_config numCPU config m =
     (let p2p = ConnectionMode config = ''p2p'';
          config = apply_intensity (default_settings numCPU (DeviceType (mConfig m)) config);
          changed = cfgNetwork (mConfig m) \<noteq> cfgNetwork config \<or> PayoutAddr (mConfig m) \<noteq> PayoutAddr config;
          m = (if changed
               then m\<lparr>mPaymentMonitor := Some (NewP2PPaymentMonitor (PayoutAddr config) (cfgNetwork config))\<rparr>
               else m)
      in m\<lparr>mConfig := config,
           mRpcClient := (if p2p then None
              else Some \<lparr>rpcUrl = RPCURL config, rpcUser = RPCUser config, rpcPass = RPCPass config\<rparr>),
           mP2pClient := (if p2p then Some (newHeaderChain (cfgNetwork config)) else None),
           mPeerOverride := (if p2p then TrimSpace (peerOverride config) else ''''),
           mHeaderFetcher := (if p2p then None else Some False),
           mMiner := SetNonceStrategy (cfgNonceSearchMode config) (cfgNonceStartMode config)
             (cfgUseStride config)
             ((mMiner m)\<lparr>MaxHashes := cfgMaxHashes config, ThreadCount := cfgThreadCount config,
                DebugLogging := cfgDebugLogging config\<rparr>),
           mGpuMiner := gpu_SetNonceStrategy (cfgNonceSearchMode config) (cfgNonceStartMode config)
             (cfgUseStride config) (NewGPUMiner numCPU (cfgMaxHashes config) (cfgThreadCount config))\<rparr>)"

text \<open>The mode of the new connection: everything but \<open>p2p\<close> is \<open>rpc\<close>.\<close>

definition connection_config :: "MinerConfig \<Rightarrow> MinerConfig" where
  "connection_config c =
     (let c = normalize_network c in if ConnectionMode c = ''p2p'' then c else c\<lparr>ConnectionMode := ''rpc''\<rparr>)"

definition UpdateConfig ::
  "int \<Rightarrow> bool \<Rightarrow> bool \<Rightarrow> MinerConfig \<Rightarrow> Miner \<Rightarrow> (stop_halt + (update_error + unit)) \<times> Miner" where
  "UpdateConfig numCPU rpcOk loopsEnd config m =
     (let config = connection_config config
      in if ConnectionMode config \<noteq> ''p2p'' \<and> \<not> rpcOk then (Inr (Inl ConnectionTestFailed), m)
      else
        case (if mStatus m = ''running'' then StopMiner loopsEnd m else (Inr (), m)) of
          (Inl h, m) \<Rightarrow> (Inl h, m)
        | (Inr u, m) \<Rightarrow> (Inr (Inr ()), apply_config numCPU config m))"

section \<open>Construction\<close>

text \<open>\<open>newMinerP2POnly\<close>; \<open>gpu\<close> is whether the detection found a GPU.\<close>

definition p2p_defaults :: "bool \<Rightarrow> MinerConfig \<Rightarrow> MinerConfig" where
  "p2p_defaults gpu c =
     (let c = c\<lparr>ConnectionMode := ''p2p'', DeviceType := (if gpu then ''gpu'' else ''cpu'')\<rparr>;
          c = (if cfgThreadCount c \<le> 0 then c\<lparr>cfgThreadCount := 1\<rparr> else c);
          c = (if cfgMaxHashes c = 0 then c\<lparr>cfgMaxHashes := 100000\<rparr> else c);
          c = c\<lparr>MiningIntensity := or_default (MiningIntensity c) ''medium''\<rparr>;
          c = c\<lparr>cfgNonceSearchMode := or_default (cfgNonceSearchMode c) ''sequential''\<rparr>;
          c = c\<lparr>cfgNonceStartMode := or_default (cfgNonceStartMode c) ''calculated''\<rparr>
      in c\<lparr>cfgNetwork := or_default (cfgNetwork c) ''mainnet''\<rparr>)"

definition miner_of_config :: "int \<Rightarrow> MinerConfig \<Rightarrow> Miner" where
  "miner_of_config numCPU c =
     \<lparr>mConfig = c,
      mMiner = SetNonceStrategy (cfgNonceSearchMode c) (cfgNonceStartMode c) (cfgUseStride c)
        ((NewScryptMinerWithConfig (cfgMaxHashes c) (cfgThreadCount c))\<lparr>DebugLogging := cfgDebugLogging c\<rparr>),
      mGpuMiner = gpu_SetNonceStrategy (cfgNonceSearchMode c) (cfgNonceStartMode c) (cfgUseStride c)
        (NewGPUMiner numCPU (cfgMaxHashes c) (cfgThreadCount c)),
      mRpcClient = None, mP2pClient = None, mPeerOverride = '''', mHeaderFetcher = None,
      mPaymentMonitor = Some (NewP2PPaymentMonitor (PayoutAddr c) (cfgNetwork c)), mStatus = ''stopped'',
      mLogMessages = [], mEnableHashLogging = False, mStopped = False, mExtraNonce = 1,
      mOptimizerStopped = False\<rparr>"

definition newMinerP2POnly :: "int \<Rightarrow> bool \<Rightarrow> MinerConfig \<Rightarrow> Miner" where
  "newMinerP2POnly numCPU gpu config =
     (let c = p2p_defaults gpu config
      in (miner_of_config numCPU c)\<lparr>mP2pClient := Some (newHeaderChain (cfgNetwork c)),
           mPeerOverride := TrimSpace (peerOverride c)\<rparr>)"

definition initial_config :: "bool \<Rightarrow> RPCCredentials \<Rightarrow> string \<Rightarrow> MinerConfig" where
  "initial_config gpu creds payoutAddr =
     \<lparr>RPCURL = rpcUrl creds, RPCUser = rpcUser creds, RPCPass = rpcPass creds, PayoutAddr = payoutAddr,
      PayoutAddrMainnet = '''', PayoutAddrTestnet = '''', cfgNetwork = ''mainnet'',
      ConnectionMode = ''rpc'', P2PCheckpoint = '''', P2PPeerOverride = '''',
      P2PPeerOverrideMainnet = '''', P2PPeerOverrideTestnet = '''',
      DeviceType = (if gpu then ''gpu'' else ''cpu''), cfgThreadCount = 1, cfgMaxHashes = 100000,
      MiningIntensity = ''medium'', cfgNonceSearchMode = ''sequential'',
      cfgNonceStartMode = ''calculated'', cfgUseStride = False, cfgDebugLogging = False\<rparr>"

definition NewMiner ::
  "int \<Rightarrow> bool \<Rightarrow> bool \<Rightarrow> RPCCredentials \<Rightarrow> string \<Rightarrow> update_error + Miner" where
  "NewMiner numCPU gpu rpcOk creds payoutAddr =
     (if \<not> rpcOk then Inl ConnectionTestFailed
      else Inr ((miner_of_config numCPU (initial_config gpu creds payoutAddr))
             \<lparr>mRpcClient := Some creds, mHeaderFetcher := Some False\<rparr>))"

section \<open>The captured log\<close>

definition push_line :: "string \<Rightarrow> string list \<Rightarrow> string list" where
  "push_line line xs =
     (let xs = xs @ [line] in if 400 < length xs then drop (length xs - 400) xs else xs)"

text \<open>\<open>bufio.ScanLines\<close>: split at newlines, drop one trailing carriage return, no final empty line.\<close>

fun scan_lines :: "string \<Rightarrow> string \<Rightarrow> string list" where
  "scan_lines acc [] = (if acc = [] then [] else [rev acc])"
| "scan_lines acc (c # cs) = (if c = CHR 0x0A then rev acc # scan_lines [] cs else scan_lines (c # acc) cs)"

definition drop_cr :: "string \<Rightarrow> string" where
  "drop_cr s = (if s \<noteq> [] \<and> last s = CHR 0x0D then butlast s else s)"

text \<open>The scanner gives up at a line of \<open>64 K\<close>, its largest token.\<close>

definition log_write :: "string \<Rightarrow> string list \<Rightarrow> string list" where
  "log_write p xs =
     fold push_line
       (filter (\<lambda>l. l \<noteq> '''') (map drop_cr (takeWhile (\<lambda>l. length l < 65536) (scan_lines [] p)))) xs"

section \<open>The saved chain tip\<close>

record SavedTip =
  stHeight :: int
  stHash :: string
  stLastNonMinBits :: u32

text \<open>The tip files: one for testnet and one for every other network.\<close>

type_synonym tip_files = "bool \<Rightarrow> SavedTip option"

definition tip_file :: "string \<Rightarrow> bool" where
  "tip_file net = (net = ''testnet'')"

definition loadSavedTip :: "tip_files \<Rightarrow> string \<Rightarrow> SavedTip option" where
  "loadSavedTip files net =
     (case files (tip_file (or_default net ''mainnet'')) of
        None \<Rightarrow> None
      | Some t \<Rightarrow> if stHeight t < 0 \<or> length (stHash t) \<noteq> 64 then None else Some t)"

definition clearSavedTip :: "string \<Rightarrow> tip_files \<Rightarrow> tip_files" where
  "clearSavedTip net files = files(tip_file (or_default net ''mainnet'') := None)"

definition saveTip :: "int \<Rightarrow> string \<Rightarrow> string \<Rightarrow> u32 \<Rightarrow> tip_files \<Rightarrow> tip_files" where
  "saveTip height hashHex net bits files =
     (let net = or_default net ''mainnet'' in
      case loadSavedTip files net of
        Some t \<Rightarrow>
          if stHeight t = height \<and> stHash t = hashHex then files
          else files(tip_file net \<mapsto> \<lparr>stHeight = height, stHash = hashHex, stLastNonMinBits = bits\<rparr>)
      | None \<Rightarrow> files(tip_file net \<mapsto> \<lparr>stHeight = height, stHash = hashHex, stLastNonMinBits = bits\<rparr>))"

section \<open>Assembling a block\<close>

text \<open>BIP34: the height as a minimal little-endian script number, then its length byte in front.\<close>

function height_bytes :: "int \<Rightarrow> byte list" where
  "height_bytes h = (if 0 < h then of_int h # height_bytes (h div 256) else [])"
  by pat_completeness auto
termination by (relation "measure nat") auto

declare height_bytes.simps [simp del]

definition height_push :: "int \<Rightarrow> byte list" where
  "height_push h =
     (let hb = height_bytes h;
          hb = (if hb \<noteq> [] \<and> last hb AND 0x80 \<noteq> 0 then hb @ [0] else hb);
          hb = (if hb = [] then [0] else hb)
      in of_nat (length hb) # hb)"

definition next_extra_nonce :: "u32 \<Rightarrow> u32" where
  "next_extra_nonce n = (if n + 1 = 0 then 1 else n + 1)"

definition default_payout_script :: "byte list" where
  "default_payout_script = [0x76, 0xA9, 0x14] @ replicate 20 0 @ [0x88, 0xAC]"

definition network_payout :: "MinerConfig \<Rightarrow> string" where
  "network_payout c =
     (if cfgNetwork c = ''testnet'' \<and> PayoutAddrTestnet c \<noteq> '''' then PayoutAddrTestnet c
      else if cfgNetwork c = ''mainnet'' \<and> PayoutAddrMainnet c \<noteq> '''' then PayoutAddrMainnet c
      else PayoutAddr c)"

definition payout_script :: "MinerConfig \<Rightarrow> byte list" where
  "payout_script c =
     (let addr = network_payout c in
      if addr \<noteq> '''' then
        (case DecodeDogecoinAddress addr of Inl e \<Rightarrow> default_payout_script | Inr script \<Rightarrow> script)
      else default_payout_script)"

definition coinbase_tx :: "BlockTemplate \<Rightarrow> u32 \<Rightarrow> byte list \<Rightarrow> Transaction" where
  "coinbase_tx t extraNonce script =
     \<lparr>txVersion = 1,
      Inputs = [\<lparr>PreviousOutput = \<lparr>opHash = replicate 32 0, opIndex = 0xFFFFFFFF\<rparr>,
                 ScriptSig = height_push (tHeight t) @ put_u32 extraNonce @ tCoinbaseScript t,
                 txSequence = 0xFFFFFFFF\<rparr>],
      Outputs = [\<lparr>outValue = of_int (tCoinbaseValue t), ScriptPubKey = script\<rparr>],
      LockTime = 0\<rparr>"

datatype block_error = BadPrevHash hex32_error | BitsNotEightChars | BadBitsHex hex_error | BitsNotFourBytes

definition createEmptyBlock :: "BlockTemplate \<Rightarrow> Miner \<Rightarrow> (block_error + Block) \<times> Miner" where
  "createEmptyBlock t m =
     (case hexTo32Bytes (tPreviousBlockHash t) of
        Inl e \<Rightarrow> (Inl (BadPrevHash e), m)
      | Inr prevBlock \<Rightarrow>
          if length (tBits t) \<noteq> 8 then (Inl BitsNotEightChars, m)
          else case hexDecode (tBits t) of
            Inl e \<Rightarrow> (Inl (BadBitsHex e), m)
          | Inr bitsBytes \<Rightarrow>
              if length bitsBytes \<noteq> 4 then (Inl BitsNotFourBytes, m)
              else
                let tx = coinbase_tx t (mExtraNonce m) (payout_script (mConfig m))
                in (Inr \<lparr>bVersion = tVersion t, bPrevBlock = prevBlock, bMerkleRoot = GetHash tx,
                         bTimestamp = of_int (tCurTime t), bBits = get_u32 bitsBytes, bNonce = 0,
                         bAuxPow = None, Transactions = [tx]\<rparr>,
                    m\<lparr>mExtraNonce := next_extra_nonce (mExtraNonce m)\<rparr>))"

section \<open>Verifying and submitting\<close>

datatype verify_error = HeaderLength nat | InvalidBits

definition verifyBlockPoW ::
  "scrypt_key \<Rightarrow> ScryptMiner \<Rightarrow> Block \<Rightarrow> go_panic + (string \<times> bool \<times> verify_error option)" where
  "verifyBlockPoW key sm block =
     (let header = SerializeHeader block in
      if length header \<noteq> 80 then Inr ('''', False, Some (HeaderLength (length header)))
      else ebind (scryptHash key sm header) (\<lambda>hashLE.
        let target = BitsToTarget (bBits block);
            shown = HashToDisplayHex (reverseBytesInPlace hashLE) in
        if target = 0 then Inr (shown, False, Some InvalidBits)
        else ebind (target_le_bytes target) (\<lambda>targetLE.
          Inr (shown, hashMeetsTargetLE hashLE targetLE, None))))"

datatype submit_error =
    NoTransactions
  | NoCoinbaseOutputs
  | PayoutScriptTooShort
  | PowError verify_error
  | PowBelowTarget string
  | BroadcastFailed
  | RpcUnavailable
  | RpcSubmitFailed

text \<open>
  \<open>submitBlock\<close>: what it sends (the serialised block, over P2P or RPC) and whether that works,
  which is decided by \<open>broadcast\<close> and \<open>rpcOk\<close>. \<open>broadcast = None\<close> is a \<open>BroadcastBlock\<close> that never
  returns, and then neither does \<open>submitBlock\<close>.
\<close>

definition submitBlock ::
  "scrypt_key \<Rightarrow> bool option \<Rightarrow> bool \<Rightarrow> Block \<Rightarrow> u32 \<Rightarrow> Miner \<Rightarrow>
     (go_panic + ((submit_error + string) \<times> Miner)) option" where
  "submitBlock key broadcast rpcOk block nonce m =
     (let b = block\<lparr>bNonce := nonce\<rparr> in
      case Transactions b of
        [] \<Rightarrow> Some (Inr (Inl NoTransactions, m))
      | tx # _ \<Rightarrow>
          (case Outputs tx of
             [] \<Rightarrow> Some (Inr (Inl NoCoinbaseOutputs, m))
           | out # _ \<Rightarrow>
               if length (ScriptPubKey out) < 5 then Some (Inr (Inl PayoutScriptTooShort, m))
               else if ConnectionMode (mConfig m) = ''p2p'' then
                 (case verifyBlockPoW key (mMiner m) b of
                    Inl p \<Rightarrow> Some (Inl p)
                  | Inr (shown, meets, err) \<Rightarrow>
                      (case err of
                         Some e \<Rightarrow> Some (Inr (Inl (PowError e), m))
                       | None \<Rightarrow>
                           if \<not> meets then Some (Inr (Inl (PowBelowTarget shown), m))
                           else
                             let m = (if mP2pClient m = None
                                      then m\<lparr>mP2pClient := Some (newHeaderChain
                                        (or_default (cfgNetwork (mConfig m)) ''mainnet''))\<rparr> else m)
                             in (case broadcast of
                                   None \<Rightarrow> None
                                 | Some ok \<Rightarrow> if ok then Some (Inr (Inr (SerializeBlock b), m))
                                              else Some (Inr (Inl BroadcastFailed, m)))))
               else if mRpcClient m = None then Some (Inr (Inl RpcUnavailable, m))
               else if rpcOk then Some (Inr (Inr (SerializeBlock b), m))
               else Some (Inr (Inl RpcSubmitFailed, m))))"

definition expectedSecondsPerBlockAt :: "rat \<Rightarrow> rat \<Rightarrow> rat" where
  "expectedSecondsPerBlockAt difficulty hashrateHps =
     (if difficulty \<le> 0 \<or> hashrateHps \<le> 0 then 0 else 4294967296 * difficulty / hashrateHps)"

interpretation miner_log: bounded_log add_log mLogMessages 100
  by unfold_locales (auto simp: add_log_def takelast_def Let_def)

interpretation captured_log: bounded_log push_line id 400
  by unfold_locales (auto simp: push_line_def takelast_def Let_def)

section \<open>Configuration bounds\<close>

definition intensity_range :: "string \<Rightarrow> u64 \<Rightarrow> bool" where
  "intensity_range intensity n \<longleftrightarrow>
     (intensity = ''low'' \<longrightarrow> n \<le> 50000) \<and> (intensity = ''medium'' \<longrightarrow> 50000 \<le> n) \<and>
     (intensity = ''high'' \<longrightarrow> 100000 \<le> n) \<and> (intensity = ''extreme'' \<longrightarrow> 500000 \<le> n)"

lemma intensity_hashes_range:
  assumes "0 < n" "n \<le> 1000000"
  shows "intensity_range i (intensity_hashes i n)" "0 < intensity_hashes i n" "intensity_hashes i n \<le> 1000000"
proof -
  have "\<not> n < 50000 \<longleftrightarrow> 50000 \<le> n" "\<not> n < 100000 \<longleftrightarrow> 100000 \<le> n" "\<not> n < 500000 \<longleftrightarrow> 500000 \<le> n"
    by (simp_all add: not_less)
  then show "intensity_range i (intensity_hashes i n)"
    by (auto simp: intensity_range_def intensity_hashes_def not_less)
  show "0 < intensity_hashes i n" "intensity_hashes i n \<le> 1000000"
    using assms by (auto simp: intensity_hashes_def)
qed

lemma default_settings_bounds:
  assumes "1 \<le> numCPU"
  shows "1 \<le> cfgThreadCount (default_settings numCPU d c)" "cfgThreadCount (default_settings numCPU d c) \<le> 64"
    "0 < cfgMaxHashes (default_settings numCPU d c)" "cfgMaxHashes (default_settings numCPU d c) \<le> 1000000"
  using assms by (auto simp: default_settings_def Let_def word_neq_0_conv not_less)

lemma default_settings_keeps [simp]:
  "cfgNetwork (default_settings numCPU d c) = cfgNetwork c"
  "PayoutAddr (default_settings numCPU d c) = PayoutAddr c"
  "ConnectionMode (default_settings numCPU d c) = ConnectionMode c"
  "cfgNetwork (apply_intensity c) = cfgNetwork c" "PayoutAddr (apply_intensity c) = PayoutAddr c"
  "cfgThreadCount (apply_intensity c) = cfgThreadCount c" "MiningIntensity (apply_intensity c) = MiningIntensity c"
  "cfgMaxHashes (apply_intensity c) = intensity_hashes (MiningIntensity c) (cfgMaxHashes c)"
  by (simp_all add: default_settings_def apply_intensity_def Let_def)

section \<open>The coinbase height\<close>

lemma height_bytes_nonpos [simp]: "h \<le> 0 \<Longrightarrow> height_bytes h = []"
  by (simp add: height_bytes.simps)

lemma height_bytes_pos: "0 < h \<Longrightarrow> height_bytes h = of_int h # height_bytes (h div 256)"
  by (simp add: height_bytes.simps [of h])

lemma unat_of_int_byte: "0 \<le> h \<Longrightarrow> unat (of_int h :: byte) = nat h mod 256"
  by (metis int_nat_eq of_int_of_nat_eq unat_of_nat_byte)

lemma le_nat_height_bytes: "0 \<le> h \<Longrightarrow> le_nat (height_bytes h) = nat h"
proof (induction h rule: height_bytes.induct)
  case (1 h)
  show ?case
  proof (cases "0 < h")
    case True
    then have "le_nat (height_bytes (h div 256)) = nat (h div 256)"
      using "1.IH" by (simp add: pos_imp_zdiv_nonneg_iff)
    moreover have "nat (h div 256) = nat h div 256" using True by (simp add: nat_div_distrib)
    ultimately show ?thesis using True by (simp add: height_bytes_pos unat_of_int_byte)
  qed (use 1 in simp)
qed

lemma length_height_bytes: "h < 256 ^ k \<Longrightarrow> length (height_bytes h) \<le> k"
proof (induction k arbitrary: h)
  case (Suc k)
  show ?case
  proof (cases "0 < h")
    case True
    have "h div 256 * 256 \<le> h" by simp
    then have "h div 256 < 256 ^ k" using Suc.prems by simp
    from Suc.IH [OF this] True show ?thesis by (simp add: height_bytes_pos)
  qed simp
qed simp

text \<open>Reading a script number push back: length byte, then a nonnegative little-endian number.\<close>

definition script_number :: "byte list \<Rightarrow> nat option" where
  "script_number s =
     (case s of
        [] \<Rightarrow> None
      | n # r \<Rightarrow>
          let bs = take (unat n) r in
          if length bs = unat n \<and> bs \<noteq> [] \<and> \<not> (0x80 \<le> last bs) then Some (le_nat bs) else None)"

lemma and_0x80: "(b :: byte) AND 0x80 \<noteq> 0 \<longleftrightarrow> 0x80 \<le> b"
proof -
  have "(0x80 :: byte) = 2 ^ 7" by simp
  then have "b AND 0x80 \<noteq> 0 \<longleftrightarrow> bit b 7" by (metis and_exp_eq_0_iff_not_bit)
  also have "bit b 7 \<longleftrightarrow> bit (unat b) 7" by (simp add: bit_unsigned_iff)
  also have "\<dots> \<longleftrightarrow> odd (unat b div 2 ^ 7)" by (simp only: bit_iff_odd)
  also have "\<dots> \<longleftrightarrow> 128 \<le> unat b"
  proof (cases "unat b < 128")
    case False
    then have "unat b div 128 = 1" using unat_byte_lt [of b] by (intro div_nat_eqI) simp_all
    with False show ?thesis by simp
  qed simp
  finally show ?thesis by (simp add: word_le_nat_alt)
qed

lemma height_push_number:
  assumes "0 \<le> h" "h < 256 ^ 8"
  shows "script_number (height_push h @ rest) = Some (nat h)" "length (height_push h) \<le> 10"
proof -
  define hb where "hb = height_bytes h"
  define hb1 where "hb1 = (if hb \<noteq> [] \<and> last hb AND 0x80 \<noteq> 0 then hb @ [0] else hb)"
  define hb2 where "hb2 = (if hb1 = [] then [0] else hb1)"
  have push: "height_push h = of_nat (length hb2) # hb2"
    by (simp add: height_push_def hb_def hb1_def hb2_def Let_def)
  have "length hb \<le> 8" using length_height_bytes [of h 8] assms(2) by (simp add: hb_def)
  then have len: "length hb2 \<le> 9" by (simp add: hb1_def hb2_def)
  have val: "le_nat hb2 = nat h"
    using le_nat_height_bytes [OF assms(1)] by (auto simp: hb2_def hb1_def hb_def le_nat_append)
  have "hb2 \<noteq> []" "\<not> 0x80 \<le> last hb2"
    by (auto simp: hb2_def hb1_def and_0x80)
  with len val show "script_number (height_push h @ rest) = Some (nat h)"
    by (simp add: push script_number_def)
  show "length (height_push h) \<le> 10" using len by (simp add: push)
qed

lemma next_extra_nonce_nonzero: "next_extra_nonce n \<noteq> 0"
  by (simp add: next_extra_nonce_def)

section \<open>Verification\<close>

lemma wf_header_length: "wf_block b \<Longrightarrow> length (SerializeHeader b) = 80"
  by simp

lemma verifyBlockPoW_wf:
  assumes "wf_block b" "key_ok key sm" "BitsToTarget (bBits b) < 2 ^ 256"
  shows "\<exists>h. pow_hash key sm b = Some h \<and> length h = 32 \<and>
    verifyBlockPoW key sm b = Inr (hexEncode h, BitsToTarget (bBits b) \<noteq> 0 \<and> le_nat h \<le> BitsToTarget (bBits b),
      if BitsToTarget (bBits b) = 0 then Some InvalidBits else None)"
proof -
  obtain h where h: "pow_hash key sm b = Some h" "length h = 32"
    using assms(2) unfolding key_ok_def pow_hash_def by blast
  then have sh: "scryptHash key sm (SerializeHeader b) = Inr h"
    using assms(1) by (simp add: scryptHash_def pow_hash_def)
  from assms(3) have "BitsToTarget (bBits b) < 256 ^ 32" by simp
  then obtain t where t: "target_le_bytes (BitsToTarget (bBits b)) = Inr t"
    using target_le_bytes_Inr by blast
  have disp: "HashToDisplayHex (rev h) = hexEncode h" using h(2) by (simp add: HashToDisplayHex_def)
  show ?thesis
    using h sh t assms(1) disp
    by (simp add: verifyBlockPoW_def Let_def meets_target_le_bytes [OF t])
qed

lemma connection_config_payout:
  "PayoutAddr (connection_config c) =
     (if cfgNetwork (connection_config c) = ''testnet'' then PayoutAddrTestnet c else PayoutAddrMainnet c)"
  "PayoutAddrTestnet (connection_config c) = PayoutAddrTestnet c" "PayoutAddrMainnet (connection_config c) = PayoutAddrMainnet c"
  by (simp_all add: connection_config_def normalize_network_def Let_def)

lemma apply_config_fields:
  "mConfig (apply_config numCPU c m) = apply_intensity (default_settings numCPU (DeviceType (mConfig m)) c)"
  "MaxHashes (mMiner (apply_config numCPU c m)) = cfgMaxHashes (mConfig (apply_config numCPU c m))"
  "ThreadCount (mMiner (apply_config numCPU c m)) = cfgThreadCount (mConfig (apply_config numCPU c m))"
  "mStatus (apply_config numCPU c m) = mStatus m" "mStopped (apply_config numCPU c m) = mStopped m"
  by (simp_all add: apply_config_def Let_def SetNonceStrategy_def)

lemma UpdateConfig_ok:
  assumes "UpdateConfig numCPU rpcOk loopsEnd config m = (Inr (Inr u), m')"
  obtains m1 where "m' = apply_config numCPU (connection_config config) m1"
    and "(if mStatus m = ''running'' then StopMiner loopsEnd m else (Inr (), m)) = (Inr (), m1)"
proof -
  from assms have "\<exists>m1. m' = apply_config numCPU (connection_config config) m1 \<and>
      (if mStatus m = ''running'' then StopMiner loopsEnd m else (Inr (), m)) = (Inr (), m1)"
    by (auto simp: UpdateConfig_def Let_def split: if_splits sum.splits prod.splits)
  then show ?thesis using that by blast
qed

lemma apply_config_bounds:
  assumes "1 \<le> numCPU"
  shows "1 \<le> cfgThreadCount (mConfig (apply_config numCPU c m)) \<and> cfgThreadCount (mConfig (apply_config numCPU c m)) \<le> 64 \<and>
    0 < cfgMaxHashes (mConfig (apply_config numCPU c m)) \<and> cfgMaxHashes (mConfig (apply_config numCPU c m)) \<le> 1000000 \<and>
    intensity_range (MiningIntensity (mConfig (apply_config numCPU c m))) (cfgMaxHashes (mConfig (apply_config numCPU c m)))"
proof -
  note b = default_settings_bounds [OF assms, of "DeviceType (mConfig m)" c]
  show ?thesis
    using b intensity_hashes_range [OF b(3,4), of "MiningIntensity (default_settings numCPU (DeviceType (mConfig m)) c)"]
    by (simp add: apply_config_fields)
qed

section \<open>Properties\<close>

text \<open>An accepted configuration is within bounds: 1 to 64 threads, 1 to one million hashes, the
  hash limit in the range of its intensity, the payout address that of the configured network;
  and the CPU miner gets exactly these settings.\<close>

theorem update_config_bounds:
  assumes "UpdateConfig numCPU rpcOk loopsEnd config m = (Inr (Inr ()), m')" "1 \<le> numCPU"
  shows "1 \<le> cfgThreadCount (mConfig m') \<and> cfgThreadCount (mConfig m') \<le> 64 \<and>
    0 < cfgMaxHashes (mConfig m') \<and> cfgMaxHashes (mConfig m') \<le> 1000000 \<and>
    intensity_range (MiningIntensity (mConfig m')) (cfgMaxHashes (mConfig m')) \<and>
    PayoutAddr (mConfig m') = (if cfgNetwork (mConfig m') = ''testnet'' then PayoutAddrTestnet config
                               else PayoutAddrMainnet config) \<and>
    MaxHashes (mMiner m') = cfgMaxHashes (mConfig m') \<and> ThreadCount (mMiner m') = cfgThreadCount (mConfig m')"
proof -
  from assms(1) obtain m1 where m': "m' = apply_config numCPU (connection_config config) m1" by (rule UpdateConfig_ok)
  have "PayoutAddr (mConfig m') = PayoutAddr (connection_config config) \<and>
      cfgNetwork (mConfig m') = cfgNetwork (connection_config config)"
    using default_settings_bounds [OF assms(2)] by (simp add: m' apply_config_fields)
  then show ?thesis
    using apply_config_bounds [OF assms(2), of "connection_config config" m1] connection_config_payout(1) [of config]
    by (simp add: m' apply_config_fields)
qed

definition sampleConfig :: MinerConfig where
  "sampleConfig = (initial_config False \<lparr>rpcUrl = ''u'', rpcUser = ''a'', rpcPass = ''b''\<rparr> ''D'')
     \<lparr>ConnectionMode := ''p2p'', PayoutAddrMainnet := ''D'', cfgThreadCount := 500, cfgMaxHashes := 20\<rparr>"

definition sampleMiner :: Miner where
  "sampleMiner = newMinerP2POnly 8 False sampleConfig"

theorem update_config_bounds_witness:
  "cfgThreadCount (mConfig (snd (UpdateConfig 8 False True sampleConfig sampleMiner))) \<le> 64"
proof -
  have "ConnectionMode (connection_config sampleConfig) = ''p2p''"
    by (simp add: sampleConfig_def connection_config_def normalize_network_def or_default_def Let_def initial_config_def)
  moreover have "mStatus sampleMiner = ''stopped''"
    by (simp add: sampleMiner_def newMinerP2POnly_def miner_of_config_def Let_def)
  ultimately have "UpdateConfig 8 False True sampleConfig sampleMiner =
      (Inr (Inr ()), snd (UpdateConfig 8 False True sampleConfig sampleMiner))"
    by (simp add: UpdateConfig_def)
  from update_config_bounds [OF this] show ?thesis by simp
qed

text \<open>The coinbase script starts with the height as a script number (BIP34): a length byte and a
  minimal nonnegative little-endian number that decodes to the height, for every height that
  fits 63 bits.\<close>

theorem coinbase_height_decodes:
  assumes "0 \<le> tHeight t" "tHeight t < 2 ^ 63"
  shows "script_number (ScriptSig (hd (Inputs (coinbase_tx t extraNonce script)))) = Some (nat (tHeight t))"
  using height_push_number(1) [OF assms(1)] assms(2) by (simp add: coinbase_tx_def)

definition sampleTemplate :: BlockTemplate where
  "sampleTemplate = \<lparr>tVersion = 0x620104, tPreviousBlockHash = HashToDisplayHex (replicate 32 7),
     tCoinbaseValue = 1000000000000, tCoinbaseScript = [0], tTarget = '''', tBits = hexEncode (put_u32 0x1a05e69f),
     tHeight = 5000001, tDifficulty = 1, tMintime = 0, tCurTime = 1700000050\<rparr>"

theorem coinbase_height_decodes_witness:
  "script_number (ScriptSig (hd (Inputs (coinbase_tx sampleTemplate 1 [])))) = Some (nat (tHeight sampleTemplate))"
  by (rule coinbase_height_decodes) (simp_all add: sampleTemplate_def)

lemma createEmptyBlock_spec:
  assumes "createEmptyBlock t m = (Inr b, m')"
  shows "wf_block b \<and> (\<exists>tx. Transactions b = [tx] \<and> bMerkleRoot b = sha256 (sha256 (serializeTx tx)) \<and>
      map outValue (Outputs tx) = [of_int (tCoinbaseValue t)] \<and>
      map ScriptPubKey (Outputs tx) = [payout_script (mConfig m)]) \<and>
    hexTo32Bytes (tPreviousBlockHash t) = Inr (bPrevBlock b) \<and> hexDecode (tBits t) = Inr (put_u32 (bBits b)) \<and>
    bVersion b = tVersion t \<and> mExtraNonce m' \<noteq> 0 \<and> mExtraNonce m' \<noteq> mExtraNonce m"
  using assms
  by (auto simp: createEmptyBlock_def wf_block_def hexTo32Bytes_Inr_iff coinbase_tx_def GetHash_def
      put_get_u32 next_extra_nonce_def Let_def split: sum.splits if_splits)

text \<open>The blocks that successive assemblies from these templates give, each with its template. A
  template that is refused gives none and leaves the extra nonce alone.\<close>

fun assemble_blocks :: "BlockTemplate list \<Rightarrow> Miner \<Rightarrow> (BlockTemplate \<times> Block) list" where
  "assemble_blocks [] m = []"
| "assemble_blocks (t # ts) m =
     (case createEmptyBlock t m of
        (Inr b, m') \<Rightarrow> (t, b) # assemble_blocks ts m'
      | (Inl e, m') \<Rightarrow> assemble_blocks ts m')"

definition assembled_from :: "Miner \<Rightarrow> nat \<Rightarrow> BlockTemplate \<times> Block \<Rightarrow> bool" where
  "assembled_from m k tb \<longleftrightarrow>
     (case tb of (t, b) \<Rightarrow> Transactions b = [coinbase_tx t ((next_extra_nonce ^^ k) (mExtraNonce m)) (payout_script (mConfig m))] \<and>
        (\<exists>m0 m1. mConfig m0 = mConfig m \<and> createEmptyBlock t m0 = (Inr b, m1)))"

lemma createEmptyBlock_transaction:
  assumes "createEmptyBlock t m = (r, m')"
  shows "mConfig m' = mConfig m"
    and "r = Inr b \<Longrightarrow> Transactions b = [coinbase_tx t (mExtraNonce m) (payout_script (mConfig m))] \<and>
      mExtraNonce m' = next_extra_nonce (mExtraNonce m)"
    and "r = Inl e \<Longrightarrow> m' = m"
  using assms by (auto simp: createEmptyBlock_def Let_def split: sum.splits if_splits)

lemma assemble_blocks_from:
  "length (assemble_blocks ts m) \<le> length ts \<and> fst ` set (assemble_blocks ts m) \<subseteq> set ts \<and>
   (\<forall>k < length (assemble_blocks ts m). assembled_from m k (assemble_blocks ts m ! k))"
proof (induction ts arbitrary: m)
  case (Cons t ts)
  obtain r m' where c: "createEmptyBlock t m = (r, m')" by fastforce
  note tr = createEmptyBlock_transaction [OF c]
  show ?case
  proof (cases r)
    case (Inl e)
    with c tr(3) Cons.IH [of m] show ?thesis by auto
  next
    case (Inr b)
    note b = tr(2) [OF Inr] and cfg = tr(1)
    have "assembled_from m k (((t, b) # assemble_blocks ts m') ! k)"
      if "k < Suc (length (assemble_blocks ts m'))" for k
    proof (cases k)
      case 0
      with b c Inr show ?thesis by (auto simp: assembled_from_def)
    next
      case (Suc k')
      have "(next_extra_nonce ^^ k') (next_extra_nonce x) = (next_extra_nonce ^^ Suc k') x" for x
        by (simp only: funpow_Suc_right comp_apply)
      moreover have "assembled_from m' k' (assemble_blocks ts m' ! k')" using Cons.IH [of m'] that Suc by simp
      ultimately show ?thesis using b cfg Suc by (simp add: assembled_from_def)
    qed
    with Cons.IH [of m'] c Inr show ?thesis by auto
  qed
qed simp

text \<open>The extra nonce runs through all nonzero 32-bit numbers before it comes back.\<close>

lemma unat_next_extra_nonce: "unat (next_extra_nonce n) = (if unat n = 2 ^ 32 - 1 then 1 else unat n + 1)"
proof (cases "n + 1 = 0")
  case True
  then have "n = - 1" by (simp add: eq_neg_iff_add_eq_0)
  moreover have "unat (- 1 :: u32) = 2 ^ 32 - 1" by (simp add: unsigned_minus_1_eq_mask mask_eq_exp_minus_1)
  ultimately show ?thesis by (simp add: next_extra_nonce_def)
next
  case False
  then have "unat (n + 1) = unat n + 1" using unatSuc [of n] by (simp add: add.commute)
  moreover have "unat (n + 1) < 2 ^ 32" using unat_u32_lt [of "n + 1"] by simp
  ultimately have "unat n \<noteq> 2 ^ 32 - 1" "unat (n + 1) = unat n + 1" by linarith+
  then show ?thesis using False by (simp add: next_extra_nonce_def)
qed

lemma extra_nonce_cycle:
  assumes "n \<noteq> 0"
  shows "unat ((next_extra_nonce ^^ k) n) = (unat n - 1 + k) mod (2 ^ 32 - 1) + 1"
proof (induction k)
  case 0
  have "unat n \<noteq> 0" using assms by (simp add: unat_eq_0)
  moreover have "unat n < 2 ^ 32" using unat_u32_lt [of n] by simp
  ultimately have "unat n - 1 < 2 ^ 32 - 1 \<and> 0 < unat n" by linarith
  then show ?case by (simp add: mod_less)
next
  case (Suc k)
  define a where "a = unat n - 1 + k"
  have "(2 ^ 32 - 1 :: nat) > 0" by simp
  have "unat ((next_extra_nonce ^^ Suc k) n) =
      (if a mod (2 ^ 32 - 1) + 1 = 2 ^ 32 - 1 then 1 else a mod (2 ^ 32 - 1) + 2)"
    using Suc by (simp add: unat_next_extra_nonce a_def)
  also have "\<dots> = Suc a mod (2 ^ 32 - 1) + 1" by (simp add: mod_Suc)
  finally show ?case by (simp add: a_def)
qed

lemma extra_nonces_distinct_pos:
  assumes "n \<noteq> 0" "i < j" "j < i + (2 ^ 32 - 1)"
  shows "(next_extra_nonce ^^ i) n \<noteq> (next_extra_nonce ^^ j) n"
proof
  define a where "a = unat n - 1 + i"
  assume "(next_extra_nonce ^^ i) n = (next_extra_nonce ^^ j) n"
  then have "(unat n - 1 + i) mod (2 ^ 32 - 1) = (unat n - 1 + j) mod (2 ^ 32 - 1)"
    using extra_nonce_cycle [OF assms(1)] by (metis add_right_cancel)
  moreover have "unat n - 1 + j = a + (j - i)" using assms(2) by (simp add: a_def)
  ultimately have "(2 ^ 32 - 1) dvd (j - i)"
    by (metis a_def add_diff_cancel_left' le_add1 mod_eq_dvd_iff_nat)
  with assms(2,3) show False by (auto dest: dvd_imp_le)
qed

lemma extra_nonces_distinct:
  assumes "i < j" "j < 2 ^ 32 - 1"
  shows "(next_extra_nonce ^^ i) n \<noteq> (next_extra_nonce ^^ j) n"
proof (cases "n = 0")
  case False
  from extra_nonces_distinct_pos [OF this assms(1)] assms(2) show ?thesis by simp
next
  case True
  have s: "(next_extra_nonce ^^ Suc k) n = (next_extra_nonce ^^ k) 1" for k
    using True by (simp only: funpow_Suc_right comp_apply) (simp add: next_extra_nonce_def)
  obtain j' where j: "j = Suc j'" using assms(1) by (cases j) auto
  show ?thesis
  proof (cases i)
    case 0
    have "unat ((next_extra_nonce ^^ j') 1) \<noteq> 0" using extra_nonce_cycle [of 1 j'] by simp
    then show ?thesis using 0 j s True by (metis funpow_0 unat_0)
  next
    case (Suc i')
    with extra_nonces_distinct_pos [of 1 i' j'] assms j s show ?thesis by simp
  qed
qed

text \<open>A coinbase serialisation determines its extra nonce.\<close>

lemma length_height_push_lt:
  assumes "h < 2 ^ 63"
  shows "\<exists>hb. height_push h = of_nat (length hb) # hb \<and> length hb < 256"
proof -
  have "length (height_bytes h) \<le> 8" using length_height_bytes [of h 8] assms by simp
  then show ?thesis by (auto simp: height_push_def Let_def)
qed

lemma height_push_append_eq:
  assumes "h < 2 ^ 63" "h' < 2 ^ 63" "height_push h @ xs = height_push h' @ ys"
  shows "xs = ys"
proof -
  obtain a where a: "height_push h = of_nat (length a) # a" "length a < 256" using length_height_push_lt [OF assms(1)] by blast
  obtain b where b: "height_push h' = of_nat (length b) # b" "length b < 256" using length_height_push_lt [OF assms(2)] by blast
  from assms(3) a b have "(of_nat (length a) :: byte) = of_nat (length b)" "a @ xs = b @ ys" by simp_all
  moreover from this(1) have "length a = length b" using a(2) b(2) unat_of_nat_byte [of "length a"] unat_of_nat_byte [of "length b"]
    by (metis mod_less)
  ultimately show ?thesis by simp
qed

lemma put_u32_append_eq: "put_u32 a @ xs = put_u32 b @ ys \<Longrightarrow> a = b"
proof -
  assume "put_u32 a @ xs = put_u32 b @ ys"
  then have "put_u32 a = put_u32 b" by (simp add: append_eq_append_conv)
  then show "a = b" by (metis get_put_u32)
qed

lemma writeLen_append_eq: "writeLen xs @ r = writeLen ys @ r' \<Longrightarrow> r = r'"
  by (metis Pair_inject readVarInt_writeLen sum.inject(2))

lemma coinbase_tx_inj:
  assumes "serializeTx (coinbase_tx t e s) = serializeTx (coinbase_tx t' e' s')" "tHeight t < 2 ^ 63" "tHeight t' < 2 ^ 63"
  shows "e = e'"
proof -
  let ?sig = "\<lambda>t e. height_push (tHeight t) @ put_u32 e @ tCoinbaseScript t"
  let ?rest = "\<lambda>t s. put_u32 0xFFFFFFFF @ writeLen (Outputs (coinbase_tx t e s)) @
    concat (map serializeOutput (Outputs (coinbase_tx t e s))) @ put_u32 0"
  have eq: "serializeTx (coinbase_tx u f z) = (put_u32 1 @ writeLen [()] @ replicate 32 0 @ put_u32 0xFFFFFFFF) @
      writeLen (?sig u f) @ ?sig u f @ put_u32 0xFFFFFFFF @ writeLen (Outputs (coinbase_tx u f z)) @
      concat (map serializeOutput (Outputs (coinbase_tx u f z))) @ put_u32 0" for u f z
    by (simp add: serializeTx_def coinbase_tx_def serializeInput_def writeLen_def)
  from assms(1) have "writeLen (?sig t e) @ ?sig t e @ put_u32 0xFFFFFFFF @ writeLen (Outputs (coinbase_tx t e s)) @
      concat (map serializeOutput (Outputs (coinbase_tx t e s))) @ put_u32 0 =
    writeLen (?sig t' e') @ ?sig t' e' @ put_u32 0xFFFFFFFF @ writeLen (Outputs (coinbase_tx t' e' s')) @
      concat (map serializeOutput (Outputs (coinbase_tx t' e' s'))) @ put_u32 0"
    unfolding eq same_append_eq .
  from writeLen_append_eq [OF this] show "e = e'"
    unfolding append_assoc by (rule put_u32_append_eq [OF height_push_append_eq [OF assms(2,3)]])
qed

text \<open>C28: no two of the blocks a miner assembles, up to \<open>2^32 - 1\<close> templates in a row, have the same
  coinbase transaction, even for the same height: it carries the height, as a script number in front (BIP34), and
  the running extra nonce. Each block has this one transaction, spending the null outpoint, its double SHA-256 as
  merkle root, the template's previous hash, bits and value, and the payout script of the configuration.\<close>

theorem assembled_blocks:
  assumes "length ts < 2 ^ 32" "\<forall>t \<in> set ts. 0 \<le> tHeight t \<and> tHeight t < 2 ^ 63"
  shows "distinct (map (\<lambda>(t, b). map serializeTx (Transactions b)) (assemble_blocks ts m)) \<and>
    (\<forall>(t, b) \<in> set (assemble_blocks ts m). wf_block b \<and>
      (\<exists>tx inp. Transactions b = [tx] \<and> bMerkleRoot b = sha256 (sha256 (serializeTx tx)) \<and>
        Inputs tx = [inp] \<and> PreviousOutput inp = \<lparr>opHash = replicate 32 0, opIndex = 0xFFFFFFFF\<rparr> \<and>
        script_number (ScriptSig inp) = Some (nat (tHeight t)) \<and>
        map outValue (Outputs tx) = [of_int (tCoinbaseValue t)] \<and>
        map ScriptPubKey (Outputs tx) = [payout_script (mConfig m)]) \<and>
      hexTo32Bytes (tPreviousBlockHash t) = Inr (bPrevBlock b) \<and> hexDecode (tBits t) = Inr (put_u32 (bBits b)))"
proof -
  let ?bs = "assemble_blocks ts m" and ?e = "\<lambda>k. (next_extra_nonce ^^ k) (mExtraNonce m)"
  let ?f = "\<lambda>(t, b). map serializeTx (Transactions b)"
  have from': "assembled_from m k (?bs ! k)" "tHeight (fst (?bs ! k)) < 2 ^ 63" if "k < length ?bs" for k
    using assemble_blocks_from [of ts m] assms(2) that by (force dest: nth_mem)+
  have neq: "?f (?bs ! i) \<noteq> ?f (?bs ! k)" if "i < k" "k < length ?bs" for i k
  proof
    assume "?f (?bs ! i) = ?f (?bs ! k)"
    with from' [of i] from' [of k] that have "?e i = ?e k"
      by (auto simp: assembled_from_def split: prod.splits dest: coinbase_tx_inj)
    moreover have "k < 2 ^ 32 - 1" using that assemble_blocks_from [of ts m] assms(1) by simp
    ultimately show False using extra_nonces_distinct [OF that(1)] by blast
  qed
  then have "distinct (map ?f ?bs)" by (force simp: distinct_conv_nth nat_neq_iff)
  moreover have "wf_block b \<and>
      (\<exists>tx inp. Transactions b = [tx] \<and> bMerkleRoot b = sha256 (sha256 (serializeTx tx)) \<and>
        Inputs tx = [inp] \<and> PreviousOutput inp = \<lparr>opHash = replicate 32 0, opIndex = 0xFFFFFFFF\<rparr> \<and>
        script_number (ScriptSig inp) = Some (nat (tHeight t)) \<and>
        map outValue (Outputs tx) = [of_int (tCoinbaseValue t)] \<and>
        map ScriptPubKey (Outputs tx) = [payout_script (mConfig m)]) \<and>
      hexTo32Bytes (tPreviousBlockHash t) = Inr (bPrevBlock b) \<and> hexDecode (tBits t) = Inr (put_u32 (bBits b))"
    if "(t, b) \<in> set ?bs" for t b
  proof -
    from that obtain k where k: "k < length ?bs" "?bs ! k = (t, b)" by (auto simp: in_set_conv_nth)
    from from'(1) [OF k(1)] k(2) obtain m0 m1 where tx: "Transactions b = [coinbase_tx t (?e k) (payout_script (mConfig m))]"
      and c: "createEmptyBlock t m0 = (Inr b, m1)" by (auto simp: assembled_from_def)
    have "t \<in> set ts" using that assemble_blocks_from [of ts m] by force
    then have "0 \<le> tHeight t" "tHeight t < 256 ^ 8" using assms(2) by fastforce+
    then have "script_number (height_push (tHeight t) @ r) = Some (nat (tHeight t))" for r
      by (rule height_push_number(1))
    with createEmptyBlock_spec [OF c] tx show ?thesis by (auto simp: coinbase_tx_def)
  qed
  ultimately show ?thesis by blast
qed

lemma sampleTemplate_block: "\<exists>b m'. createEmptyBlock sampleTemplate m = (Inr b, m')"
proof -
  have "length (HashToDisplayHex (replicate 32 (7 :: byte))) = 64" by (simp add: HashToDisplayHex_def)
  then show ?thesis by (simp add: createEmptyBlock_def sampleTemplate_def Let_def)
qed

theorem assembled_blocks_witness:
  "distinct (map (\<lambda>(t, b). map serializeTx (Transactions b)) (assemble_blocks [sampleTemplate, sampleTemplate] sampleMiner)) \<and>
    length (assemble_blocks [sampleTemplate, sampleTemplate] sampleMiner) = 2"
proof
  show "distinct (map (\<lambda>(t, b). map serializeTx (Transactions b)) (assemble_blocks [sampleTemplate, sampleTemplate] sampleMiner))"
    by (rule assembled_blocks [THEN conjunct1]) (simp_all add: sampleTemplate_def)
  show "length (assemble_blocks [sampleTemplate, sampleTemplate] sampleMiner) = 2"
    using sampleTemplate_block [of sampleMiner] sampleTemplate_block [of "snd (createEmptyBlock sampleTemplate sampleMiner)"]
    by auto
qed

text \<open>\<open>verifyBlockPoW\<close> accepts a block exactly when its proof-of-work hash is at most the
  target of its bits. The hash it reports as display order is reversed twice: it is the
  little-endian byte order of the hash.\<close>

theorem verify_block_pow:
  assumes "wf_block b" "key_ok key sm" "BitsToTarget (bBits b) < 2 ^ 256" "0 < BitsToTarget (bBits b)"
  shows "\<exists>h. pow_hash key sm b = Some h \<and>
    verifyBlockPoW key sm b = Inr (hexEncode h, le_nat h \<le> BitsToTarget (bBits b), None)"
  using verifyBlockPoW_wf [OF assms(1-3)] assms(4) by auto

theorem verify_block_pow_witness:
  "\<exists>h. pow_hash sampleKey NewScryptMiner sampleBlock = Some h \<and>
    verifyBlockPoW sampleKey NewScryptMiner sampleBlock =
      Inr (hexEncode h, le_nat h \<le> BitsToTarget (bBits sampleBlock), None)"
  by (rule verify_block_pow) (simp_all add: sample_ok, simp_all add: sampleBlock_def BitsToTarget_nat Let_def)

lemma length_payout_script: "length (payout_script c) = 25"
proof -
  have "length s = 25" if "DecodeDogecoinAddress a = Inr s" for a s
    using that by (auto simp: DecodeDogecoinAddress_def CreateP2PKHScript_def ebind_eq_Inr_iff Let_def
        split: if_splits option.splits)
  then show ?thesis
    by (auto simp: payout_script_def default_payout_script_def Let_def split: sum.split)
qed

lemma createEmptyBlock_total:
  assumes "hexTo32Bytes (tPreviousBlockHash t) = Inr p" "hexDecode (tBits t) = Inr b" "length b = 4"
  obtains blk m' where "createEmptyBlock t m = (Inr blk, m')"
  using assms length_hexDecode [OF assms(2)] by (auto simp: createEmptyBlock_def Let_def)

text \<open>What \<open>submitBlock\<close> answers in P2P mode for an assembled block.\<close>

lemma submitBlock_p2p_result:
  assumes "ConnectionMode (mConfig m) = ''p2p''" "wf_block b" "key_ok key (mMiner m)" "BitsToTarget (bBits b) < 2 ^ 256"
    and "Transactions b = [tx]" "map (length \<circ> ScriptPubKey) (Outputs tx) = [25]"
  shows "\<exists>h m'. pow_hash key (mMiner m) (b\<lparr>bNonce := n\<rparr>) = Some h \<and> length h = 32 \<and>
    submitBlock key bOk rOk b n m =
      (if BitsToTarget (bBits b) = 0 then Some (Inr (Inl (PowError InvalidBits), m'))
       else if \<not> le_nat h \<le> BitsToTarget (bBits b) then Some (Inr (Inl (PowBelowTarget (hexEncode h)), m'))
       else map_option (\<lambda>ok. Inr (if ok then Inr (SerializeBlock (b\<lparr>bNonce := n\<rparr>)) else Inl BroadcastFailed, m')) bOk)"
proof -
  have "wf_block (b\<lparr>bNonce := n\<rparr>)" "BitsToTarget (bBits (b\<lparr>bNonce := n\<rparr>)) < 2 ^ 256"
    using assms(2,4) by simp_all
  from verifyBlockPoW_wf [OF this(1) assms(3) this(2)] obtain h where
    h: "pow_hash key (mMiner m) (b\<lparr>bNonce := n\<rparr>) = Some h" "length h = 32"
    "verifyBlockPoW key (mMiner m) (b\<lparr>bNonce := n\<rparr>) =
      Inr (hexEncode h, BitsToTarget (bBits b) \<noteq> 0 \<and> le_nat h \<le> BitsToTarget (bBits b),
        if BitsToTarget (bBits b) = 0 then Some InvalidBits else None)" by auto
  from assms(6) obtain out where "Outputs tx = [out]" "length (ScriptPubKey out) = 25" by auto
  with assms(1,5) h show ?thesis
    by (cases bOk) (auto simp: submitBlock_def Let_def)
qed

lemma submitBlock_p2p_sound:
  assumes "submitBlock key broadcast rpcOk block nonce m = Some (Inr (Inr hex, m'))"
    and "ConnectionMode (mConfig m) = ''p2p''"
    and "wf_block block" "key_ok key (mMiner m)" "BitsToTarget (bBits block) < 2 ^ 256"
  shows "hex = SerializeBlock (block\<lparr>bNonce := nonce\<rparr>) \<and>
    (\<exists>h. pow_hash key (mMiner m) (block\<lparr>bNonce := nonce\<rparr>) = Some h \<and> le_nat h \<le> BitsToTarget (bBits block))"
proof -
  have wf: "wf_block (block\<lparr>bNonce := nonce\<rparr>)" using assms(3) by simp
  have "BitsToTarget (bBits (block\<lparr>bNonce := nonce\<rparr>)) < 2 ^ 256" using assms(5) by simp
  from verifyBlockPoW_wf [OF wf assms(4) this] obtain h where
    h: "pow_hash key (mMiner m) (block\<lparr>bNonce := nonce\<rparr>) = Some h"
    "verifyBlockPoW key (mMiner m) (block\<lparr>bNonce := nonce\<rparr>) =
      Inr (hexEncode h, BitsToTarget (bBits block) \<noteq> 0 \<and> le_nat h \<le> BitsToTarget (bBits block),
        if BitsToTarget (bBits block) = 0 then Some InvalidBits else None)" by auto
  from assms(1,2) h show ?thesis
    by (auto simp: submitBlock_def Let_def split: list.splits if_splits option.splits)
qed

text \<open>In P2P mode nothing is broadcast unless the header that is sent has a proof-of-work hash
  within the target of its own bits, and what is sent is the serialisation of that block.\<close>

theorem p2p_submission_verified:
  assumes "submitBlock key broadcast rpcOk block nonce m = Some (Inr (Inr hex, m'))"
    and "ConnectionMode (mConfig m) = ''p2p''"
    and "wf_block block" "key_ok key (mMiner m)" "BitsToTarget (bBits block) < 2 ^ 256"
  shows "hex = SerializeBlock (block\<lparr>bNonce := nonce\<rparr>) \<and>
    (\<exists>h. pow_hash key (mMiner m) (block\<lparr>bNonce := nonce\<rparr>) = Some h \<and> le_nat h \<le> BitsToTarget (bBits block))"
  using assms by (rule submitBlock_p2p_sound)

definition easyBlock :: Block where
  "easyBlock = sampleBlock\<lparr>bBits := 0x207fffff, Transactions := [coinbase_tx sampleTemplate 1 (replicate 25 1)]\<rparr>"

theorem p2p_submission_verified_witness:
  "\<exists>h. pow_hash zeroKey (mMiner sampleMiner) (easyBlock\<lparr>bNonce := 5\<rparr>) = Some h \<and>
    le_nat h \<le> BitsToTarget (bBits easyBlock)"
proof -
  have wf: "wf_block easyBlock" by (simp add: wf_block_def easyBlock_def sampleBlock_def)
  have key: "key_ok zeroKey (mMiner sampleMiner)" by (simp add: key_ok_def zeroKey_def)
  have bits: "BitsToTarget (bBits easyBlock) < 2 ^ 256" "0 < BitsToTarget (bBits easyBlock)"
    by (simp_all add: easyBlock_def BitsToTarget_nat Let_def)
  have mode: "ConnectionMode (mConfig sampleMiner) = ''p2p''" "mP2pClient sampleMiner \<noteq> None"
    by (simp_all add: sampleMiner_def newMinerP2POnly_def miner_of_config_def p2p_defaults_def Let_def)
  have "pow_hash zeroKey (mMiner sampleMiner) (easyBlock\<lparr>bNonce := 5\<rparr>) = Some (replicate 32 0)"
    by (simp add: pow_hash_def zeroKey_def)
  with verifyBlockPoW_wf [of "easyBlock\<lparr>bNonce := 5\<rparr>" zeroKey "mMiner sampleMiner"] wf key bits
  have "verifyBlockPoW zeroKey (mMiner sampleMiner) (easyBlock\<lparr>bNonce := 5\<rparr>) =
      Inr (hexEncode (replicate 32 0), True, None)" by simp
  moreover have "Transactions (easyBlock\<lparr>bNonce := 5\<rparr>) = [coinbase_tx sampleTemplate 1 (replicate 25 1)]"
    by (simp add: easyBlock_def)
  moreover have "Outputs (coinbase_tx sampleTemplate 1 (replicate 25 1)) =
      [\<lparr>outValue = of_int (tCoinbaseValue sampleTemplate), ScriptPubKey = replicate 25 1\<rparr>]"
    by (simp add: coinbase_tx_def)
  ultimately have "submitBlock zeroKey (Some True) False easyBlock 5 sampleMiner =
      Some (Inr (Inr (SerializeBlock (easyBlock\<lparr>bNonce := 5\<rparr>)), sampleMiner))"
    using mode by (simp add: submitBlock_def Let_def)
  from p2p_submission_verified [OF this mode(1) wf key bits(1)] show ?thesis by blast
qed

text \<open>A valid tip that is saved is loaded back with its height and hash, and does not disturb the
  other network's file; the last non-minimum bits are only written when height or hash change.\<close>

theorem saved_tip_roundtrip:
  assumes "0 \<le> height" "length hash = 64"
  shows "\<exists>t. loadSavedTip (saveTip height hash net bits files) net = Some t \<and>
    stHeight t = height \<and> stHash t = hash \<and>
    (stLastNonMinBits t = bits \<or> loadSavedTip files net = Some t) \<and>
    (tip_file (or_default other ''mainnet'') \<noteq> tip_file (or_default net ''mainnet'') \<longrightarrow>
      loadSavedTip (saveTip height hash net bits files) other = loadSavedTip files other)"
proof -
  have dd: "or_default (or_default net ''mainnet'') ''mainnet'' = or_default net ''mainnet''"
    by (simp add: or_default_def)
  show ?thesis
  proof (cases "\<exists>t. loadSavedTip files net = Some t \<and> stHeight t = height \<and> stHash t = hash")
    case True
    then obtain t where t: "loadSavedTip files net = Some t" "stHeight t = height" "stHash t = hash" by blast
    then have "loadSavedTip files (or_default net ''mainnet'') = Some t" by (simp add: loadSavedTip_def dd)
    with t have "saveTip height hash net bits files = files" by (simp add: saveTip_def Let_def)
    with t show ?thesis by simp
  next
    case False
    then have "\<not> (\<exists>t. loadSavedTip files (or_default net ''mainnet'') = Some t \<and> stHeight t = height \<and> stHash t = hash)"
      by (simp add: loadSavedTip_def dd)
    then have "saveTip height hash net bits files = files(tip_file (or_default net ''mainnet'') \<mapsto>
        \<lparr>stHeight = height, stHash = hash, stLastNonMinBits = bits\<rparr>)"
      by (auto simp: saveTip_def Let_def split: option.split)
    with assms show ?thesis by (simp add: loadSavedTip_def)
  qed
qed

theorem saved_tip_roundtrip_witness:
  "\<exists>t. loadSavedTip (saveTip 77 (replicate 64 CHR ''a'') ''testnet'' 5 (\<lambda>_. None)) ''testnet'' = Some t \<and>
    stHeight t = 77"
  using saved_tip_roundtrip [of 77 "replicate 64 CHR ''a''" "''testnet''" 5 "\<lambda>_. None"] by auto

text \<open>The captured log never exceeds 400 lines and after a write ends with the newest of the
  lines written.\<close>

theorem captured_log_bounded:
  assumes "length xs \<le> 400"
  shows "log_write p xs = takelast 400 (xs @
      filter (\<lambda>l. l \<noteq> '''') (map drop_cr (takeWhile (\<lambda>l. length l < 65536) (scan_lines [] p)))) \<and>
    length (log_write p xs) \<le> 400"
  using captured_log.items_pushes [of xs] captured_log.pushes_bounded [of xs] assms
  by (simp add: log_write_def)

theorem captured_log_bounded_witness: "length (log_write ''one line'' []) \<le> 400"
proof -
  have "length ([] :: string list) \<le> 400" by simp
  from captured_log_bounded [OF this, of "''one line''"] show ?thesis by blast
qed

end
