(* ===== verification/AutoOptimizer.thy ===== *)
theory AutoOptimizer
  imports MinerConfig
begin

text \<open>
  \<open>src/miner_optimizer.go\<close>: the goroutine that watches the hash rate and changes threads, hash
  limit and intensity of the running miner. Hash rates are exact rationals in place of floating
  point numbers; the clock, the number of cores and the GPU detection are arguments.
\<close>

section \<open>Profiles\<close>

record OptimizationProfile =
  opThreadCount :: int
  opMaxHashes :: u64
  opMiningIntensity :: string
  opDeviceType :: string
  opUseStride :: bool
  opHashRateEstimate :: rat
  opTimestamp :: int
  opReason :: string

record MinerOptimizer =
  currentProfile :: OptimizationProfile
  hashRateHistory :: "rat list"
  lastOptimizeTime :: "int option"

definition NewMinerOptimizer :: MinerOptimizer where
  "NewMinerOptimizer =
     \<lparr>currentProfile = \<lparr>opThreadCount = 0, opMaxHashes = 0, opMiningIntensity = '''', opDeviceType = '''',
        opUseStride = False, opHashRateEstimate = 0, opTimestamp = 0, opReason = ''''\<rparr>,
      hashRateHistory = [], lastOptimizeTime = None\<rparr>"

definition optimal_threads :: "int \<Rightarrow> int" where
  "optimal_threads cpuCores =
     (if 8 < cpuCores then cpuCores
      else if 4 < cpuCores then cpuCores * 3 div 4
      else if cpuCores div 2 = 0 then 1 else cpuCores div 2)"

definition optimal_intensity :: "int \<Rightarrow> string \<times> u64" where
  "optimal_intensity cpuCores =
     (if 16 \<le> cpuCores then (''extreme'', 1000000)
      else if 8 \<le> cpuCores then (''high'', 500000)
      else if 4 \<le> cpuCores then (''medium'', 100000)
      else (''low'', 50000))"

definition detectSystemCapabilities :: "int \<Rightarrow> int \<Rightarrow> bool \<Rightarrow> MinerOptimizer \<Rightarrow> MinerOptimizer" where
  "detectSystemCapabilities now cpuCores gpu opt =
     opt\<lparr>currentProfile :=
       \<lparr>opThreadCount = optimal_threads cpuCores, opMaxHashes = snd (optimal_intensity cpuCores),
        opMiningIntensity = fst (optimal_intensity cpuCores),
        opDeviceType = (if gpu then ''gpu'' else ''cpu''), opUseStride = False,
        opHashRateEstimate = 0, opTimestamp = now,
        opReason = ''System detection: '' @ Itoa cpuCores @ '' CPU cores''\<rparr>\<rparr>"

section \<open>Recommendations\<close>

definition suggestAdjustment :: "int \<Rightarrow> OptimizationProfile \<Rightarrow> OptimizationProfile option" where
  "suggestAdjustment now p =
     (if 1 < opThreadCount p then
        Some (p\<lparr>opThreadCount := opThreadCount p - 1, opHashRateEstimate := 0, opTimestamp := now,
               opReason := ''Hash rate declining - reduced threads from '' @ Itoa (opThreadCount p) @
                 '' to '' @ Itoa (opThreadCount p - 1)\<rparr>)
      else None)"

definition increase :: "int \<Rightarrow> string \<Rightarrow> u64 \<Rightarrow> OptimizationProfile \<Rightarrow> OptimizationProfile" where
  "increase now intensity hashes p =
     p\<lparr>opMaxHashes := hashes, opMiningIntensity := intensity, opHashRateEstimate := 0, opTimestamp := now,
       opReason := ''Performance excellent - increased intensity from '' @ opMiningIntensity p @
         '' to '' @ intensity\<rparr>"

definition suggestIntensityIncrease :: "int \<Rightarrow> OptimizationProfile \<Rightarrow> OptimizationProfile option" where
  "suggestIntensityIncrease now p =
     (if opMiningIntensity p = ''low'' then Some (increase now ''medium'' 100000 p)
      else if opMiningIntensity p = ''medium'' then Some (increase now ''high'' 500000 p)
      else if opMiningIntensity p = ''high'' then Some (increase now ''extreme'' 1000000 p)
      else None)"

definition suggestSwitchToGPU :: "int \<Rightarrow> OptimizationProfile \<Rightarrow> OptimizationProfile" where
  "suggestSwitchToGPU now p =
     p\<lparr>opDeviceType := ''gpu'', opHashRateEstimate := 0, opTimestamp := now,
       opReason := ''Switching to GPU for significantly faster Scrypt hashing''\<rparr>"

definition average :: "rat list \<Rightarrow> rat" where
  "average hs = sum_list hs / of_nat (length hs)"

definition recent_average :: "rat list \<Rightarrow> rat" where
  "recent_average hs = (if 5 < length hs then sum_list (drop (length hs - 3) hs) / 3 else average hs)"

definition analyzePerformance ::
  "int \<Rightarrow> rat list \<Rightarrow> OptimizationProfile \<Rightarrow> OptimizationProfile option" where
  "analyzePerformance now history p =
     (if length history < 3 then None
      else if recent_average history < average history * (8 / 10) then suggestAdjustment now p
      else if 500000 < average history \<and> 5 < length history then suggestIntensityIncrease now p
      else None)"

section \<open>Applying a profile\<close>

definition applyProfile ::
  "int \<Rightarrow> OptimizationProfile \<Rightarrow> MinerOptimizer \<times> Miner \<Rightarrow> MinerOptimizer \<times> Miner" where
  "applyProfile now p s =
     (let (opt, m) = s;
          m = m\<lparr>mConfig := (mConfig m)\<lparr>cfgThreadCount := opThreadCount p, cfgMaxHashes := opMaxHashes p,
                  MiningIntensity := opMiningIntensity p, cfgUseStride := opUseStride p\<rparr>,
                mMiner := (mMiner m)\<lparr>ThreadCount := opThreadCount p, MaxHashes := opMaxHashes p,
                  DebugLogging := False, UseStride := opUseStride p\<rparr>\<rparr>
      in (opt\<lparr>currentProfile := p, lastOptimizeTime := Some now\<rparr>,
          broadcastLogMessage (''Auto-optimizer: '' @ opReason p) m))"

definition push_rate :: "rat \<Rightarrow> rat list \<Rightarrow> rat list" where
  "push_rate rate hs = (let hs = hs @ [rate] in if 10 < length hs then tl hs else hs)"

text \<open>\<open>optimizeConfiguration\<close> at a tick of the clock, with the hash rate of the statistics.\<close>

definition recommendation :: "int \<Rightarrow> rat \<Rightarrow> MinerOptimizer \<times> Miner \<Rightarrow> OptimizationProfile option" where
  "recommendation now rate s =
     (if mStatus (snd s) \<noteq> ''running'' \<or> rate < 100 then None
      else analyzePerformance now (push_rate rate (hashRateHistory (fst s))) (currentProfile (fst s)))"

definition optimizeConfiguration :: "int \<Rightarrow> rat \<Rightarrow> MinerOptimizer \<times> Miner \<Rightarrow> MinerOptimizer \<times> Miner" where
  "optimizeConfiguration now rate s =
     (if mStatus (snd s) \<noteq> ''running'' \<or> rate < 100 then s
      else
        let (opt, m) = s;
            opt = opt\<lparr>hashRateHistory := push_rate rate (hashRateHistory opt)\<rparr>
        in case analyzePerformance now (hashRateHistory opt) (currentProfile opt) of
             None \<Rightarrow> (opt, m)
           | Some p \<Rightarrow> applyProfile now p (opt, m))"

text \<open>
  The goroutine: detection, then \<open>select\<close> between the stop channel and the ticker, whose first
  tick comes two minutes later. When the stop channel is closed already, the first \<open>select\<close>
  returns. \<open>ticks\<close> are the ticks taken before the channel is closed.
\<close>

definition StartOptimizer ::
  "int \<Rightarrow> int \<Rightarrow> bool \<Rightarrow> (int \<times> rat) list \<Rightarrow> MinerOptimizer \<times> Miner \<Rightarrow> MinerOptimizer \<times> Miner" where
  "StartOptimizer now cpuCores gpu ticks s =
     (let s = (detectSystemCapabilities now cpuCores gpu (fst s), snd s) in
      if mOptimizerStopped (snd s) then s
      else fold (\<lambda>(t, rate). optimizeConfiguration t rate) ticks s)"

definition GetCurrentHashRate :: "MinerOptimizer \<Rightarrow> rat" where
  "GetCurrentHashRate opt = (if hashRateHistory opt = [] then 0 else last (hashRateHistory opt))"

section \<open>What a tick does to the miner\<close>

lemma applyProfile_simps [simp]:
  "currentProfile (fst (applyProfile now p s)) = p"
  "hashRateHistory (fst (applyProfile now p s)) = hashRateHistory (fst s)"
  "mConfig (snd (applyProfile now p s)) = (mConfig (snd s))\<lparr>cfgThreadCount := opThreadCount p,
     cfgMaxHashes := opMaxHashes p, MiningIntensity := opMiningIntensity p, cfgUseStride := opUseStride p\<rparr>"
  "mMiner (snd (applyProfile now p s)) = (mMiner (snd s))\<lparr>ThreadCount := opThreadCount p,
     MaxHashes := opMaxHashes p, DebugLogging := False, UseStride := opUseStride p\<rparr>"
  "mStatus (snd (applyProfile now p s)) = mStatus (snd s)"
  by (cases s; simp add: applyProfile_def broadcastLogMessage_def add_log_def Let_def)+

lemma optimizeConfiguration_cases:
  obtains (idle) "recommendation now rate s = None" "snd (optimizeConfiguration now rate s) = snd s"
      "currentProfile (fst (optimizeConfiguration now rate s)) = currentProfile (fst s)"
    | (tuned) p where "recommendation now rate s = Some p"
      "optimizeConfiguration now rate s = applyProfile now p
         ((fst s)\<lparr>hashRateHistory := push_rate rate (hashRateHistory (fst s))\<rparr>, snd s)"
proof (cases "recommendation now rate s")
  case None
  then show ?thesis
    by (intro idle) (auto simp: optimizeConfiguration_def recommendation_def split: prod.splits)
next
  case (Some p)
  then show ?thesis
    by (intro tuned) (auto simp: optimizeConfiguration_def recommendation_def split: prod.splits if_splits)
qed

section \<open>The abstract tuner\<close>

text \<open>
  What the tuner promises, without rates, records and strings: it lowers the number of threads
  by one or raises the intensity by one level, and nothing else.
\<close>

datatype intensity_level = Low | Medium | High | Extreme

primrec level_rank :: "intensity_level \<Rightarrow> nat" where
  "level_rank Low = 0" | "level_rank Medium = 1" | "level_rank High = 2" | "level_rank Extreme = 3"

lemma level_rank_inj: "level_rank a = level_rank b \<Longrightarrow> a = b"
  by (cases a; cases b) simp_all

instantiation intensity_level :: linorder
begin

definition less_eq_intensity_level :: "intensity_level \<Rightarrow> intensity_level \<Rightarrow> bool" where
  "a \<le> b \<longleftrightarrow> level_rank a \<le> level_rank b"

definition less_intensity_level :: "intensity_level \<Rightarrow> intensity_level \<Rightarrow> bool" where
  "a < b \<longleftrightarrow> level_rank a < level_rank b"

instance
  by standard (auto simp: less_eq_intensity_level_def less_intensity_level_def intro: level_rank_inj)

end

primrec level_name :: "intensity_level \<Rightarrow> string" where
  "level_name Low = ''low''" | "level_name Medium = ''medium''" | "level_name High = ''high''"
| "level_name Extreme = ''extreme''"

primrec level_hashes :: "intensity_level \<Rightarrow> u64" where
  "level_hashes Low = 50000" | "level_hashes Medium = 100000" | "level_hashes High = 500000"
| "level_hashes Extreme = 1000000"

inductive tuning :: "nat \<times> intensity_level \<Rightarrow> nat \<times> intensity_level \<Rightarrow> bool" where
  cool: "tuning (Suc (Suc n), l) (Suc n, l)"
| push: "level_rank l' = Suc (level_rank l) \<Longrightarrow> tuning (n, l) (n, l')"

inductive_cases tuningE: "tuning a b"

definition tuning_rank :: "nat \<times> intensity_level \<Rightarrow> nat" where
  "tuning_rank a = fst a + (3 - level_rank (snd a))"

lemma level_rank_le: "level_rank l \<le> 3"
  by (cases l) simp_all

lemma tuning_rank_less: "tuning a b \<Longrightarrow> tuning_rank b < tuning_rank a"
proof (erule tuningE)
  fix l l' n
  assume "a = (n, l)" "b = (n, l')" "level_rank l' = Suc (level_rank l)"
  with level_rank_le [of l'] show ?thesis by (simp add: tuning_rank_def)
qed (simp add: tuning_rank_def)

lemma tuning_bounds: "tuning a b \<Longrightarrow> 1 \<le> fst a \<Longrightarrow> 1 \<le> fst b \<and> fst b \<le> fst a \<and> snd a \<le> snd b"
  by (erule tuningE) (auto simp: less_eq_intensity_level_def)

text \<open>The abstraction of a profile: threads, and the level with its hash limit.\<close>

definition abs_profile :: "OptimizationProfile \<Rightarrow> nat \<times> intensity_level \<Rightarrow> bool" where
  "abs_profile p a \<longleftrightarrow> opThreadCount p = int (fst a) \<and> 1 \<le> fst a \<and>
     opMiningIntensity p = level_name (snd a) \<and> opMaxHashes p = level_hashes (snd a) \<and> \<not> opUseStride p"

definition recommends :: "int \<Rightarrow> OptimizationProfile \<Rightarrow> OptimizationProfile \<Rightarrow> bool" where
  "recommends now p q \<longleftrightarrow> suggestAdjustment now p = Some q \<or> suggestIntensityIncrease now p = Some q"

lemma analyze_recommends: "analyzePerformance now hs p = Some q \<Longrightarrow> recommends now p q"
  by (auto simp: analyzePerformance_def recommends_def split: if_splits)

lemma recommends_tuning:
  assumes "recommends now p q" "abs_profile p a"
  shows "\<exists>b. abs_profile q b \<and> tuning a b"
proof -
  obtain n l where a: "a = (n, l)" by (cases a)
  from assms(1) consider "suggestAdjustment now p = Some q" | "suggestIntensityIncrease now p = Some q"
    by (auto simp: recommends_def)
  then show ?thesis
  proof cases
    case 1
    with assms(2) a have "abs_profile q (n - 1, l)" "2 \<le> n"
      by (auto simp: suggestAdjustment_def abs_profile_def split: if_splits)
    moreover from this obtain k where "n = Suc (Suc k)" by (metis add_2_eq_Suc le_Suc_ex)
    ultimately show ?thesis using a cool by auto
  next
    case 2
    have up: "tuning (n, Low) (n, Medium)" "tuning (n, Medium) (n, High)" "tuning (n, High) (n, Extreme)"
      by (simp_all add: push)
    from 2 assms(2) a consider "l = Low" "abs_profile q (n, Medium)"
      | "l = Medium" "abs_profile q (n, High)" | "l = High" "abs_profile q (n, Extreme)"
      by (cases l) (auto simp: suggestIntensityIncrease_def abs_profile_def increase_def)
    then show ?thesis using up a by cases blast+
  qed
qed

section \<open>Properties\<close>

definition tuned_by :: "OptimizationProfile \<Rightarrow> Miner \<Rightarrow> Miner \<Rightarrow> bool" where
  "tuned_by p m m' \<longleftrightarrow>
     mConfig m' = (mConfig m)\<lparr>cfgThreadCount := opThreadCount p, cfgMaxHashes := opMaxHashes p,
       MiningIntensity := opMiningIntensity p, cfgUseStride := opUseStride p\<rparr> \<and>
     mMiner m' = (mMiner m)\<lparr>ThreadCount := opThreadCount p, MaxHashes := opMaxHashes p,
       DebugLogging := False, UseStride := opUseStride p\<rparr>"

lemma recommendation_recommends:
  "recommendation now rate s = Some q \<Longrightarrow> recommends now (currentProfile (fst s)) q"
  by (auto simp: recommendation_def dest: analyze_recommends split: if_splits)

lemma tick_refines:
  assumes "abs_profile (currentProfile (fst s)) a"
  obtains b where "abs_profile (currentProfile (fst (optimizeConfiguration now rate s))) b"
    and "if recommendation now rate s = None then b = a \<and> snd (optimizeConfiguration now rate s) = snd s
         else tuning a b \<and>
           tuned_by (currentProfile (fst (optimizeConfiguration now rate s))) (snd s)
             (snd (optimizeConfiguration now rate s))"
proof (cases rule: optimizeConfiguration_cases [of now rate s])
  case idle
  then show ?thesis using that [of a] assms by simp
next
  case (tuned p)
  from recommends_tuning [OF recommendation_recommends [OF tuned(1)] assms]
  obtain b where "abs_profile p b" "tuning a b" by blast
  then show ?thesis using that [of b] tuned by (simp add: tuned_by_def)
qed

text \<open>C19: each tick of the optimizer implements one step of the abstract tuner or none: it lowers the
  threads by one (never below one) or raises the intensity by one level with that level's hash
  limit, writes exactly this to the configuration and the CPU miner, and otherwise leaves the
  miner alone.\<close>

theorem optimizer_refines_tuner:
  assumes "abs_profile (currentProfile opt) a"
  shows "\<exists>b. abs_profile (currentProfile (fst (optimizeConfiguration now rate (opt, m)))) b \<and>
    (b = a \<and> snd (optimizeConfiguration now rate (opt, m)) = m \<or>
     tuning a b \<and> tuned_by (currentProfile (fst (optimizeConfiguration now rate (opt, m)))) m
       (snd (optimizeConfiguration now rate (opt, m))))"
proof -
  let ?s = "(opt, m)"
  obtain b where b: "abs_profile (currentProfile (fst (optimizeConfiguration now rate ?s))) b"
    "if recommendation now rate ?s = None then b = a \<and> snd (optimizeConfiguration now rate ?s) = snd ?s
     else tuning a b \<and> tuned_by (currentProfile (fst (optimizeConfiguration now rate ?s))) (snd ?s)
       (snd (optimizeConfiguration now rate ?s))"
    by (rule tick_refines [of ?s a now rate]) (use assms in simp, blast)
  then show ?thesis by (intro exI [of _ b]) (simp split: if_splits)
qed

lemma detect_abs:
  assumes "1 \<le> cores"
  obtains a where "abs_profile (currentProfile (detectSystemCapabilities now cores gpu opt)) a"
    and "int (fst a) \<le> cores"
proof
  let ?l = "if 16 \<le> cores then Extreme else if 8 \<le> cores then High else if 4 \<le> cores then Medium else Low"
  have "1 \<le> optimal_threads cores" "optimal_threads cores \<le> cores"
    using assms by (auto simp: optimal_threads_def)
  then show "abs_profile (currentProfile (detectSystemCapabilities now cores gpu opt))
      (nat (optimal_threads cores), ?l)" "int (fst (nat (optimal_threads cores), ?l)) \<le> cores"
    by (auto simp: detectSystemCapabilities_def abs_profile_def optimal_intensity_def)
qed

theorem optimizer_refines_tuner_witness:
  "\<exists>b. abs_profile (currentProfile (fst (optimizeConfiguration 9 700000
      (detectSystemCapabilities 0 8 False NewMinerOptimizer, sampleMiner)))) b"
proof -
  obtain a where "abs_profile (currentProfile (detectSystemCapabilities 0 8 False NewMinerOptimizer)) a"
    by (rule detect_abs [of 8]) simp_all
  from optimizer_refines_tuner [OF this] show ?thesis by blast
qed

text \<open>The number of ticks that change the profile.\<close>

primrec adjustments :: "(int \<times> rat) list \<Rightarrow> MinerOptimizer \<times> Miner \<Rightarrow> nat" where
  "adjustments [] s = 0"
| "adjustments (tk # tks) s =
     (if recommendation (fst tk) (snd tk) s = None then 0 else 1) +
     adjustments tks (optimizeConfiguration (fst tk) (snd tk) s)"

lemma adjustments_rank:
  "abs_profile (currentProfile (fst s)) a \<Longrightarrow> adjustments ticks s < tuning_rank a"
proof (induction ticks arbitrary: s a)
  case Nil
  then show ?case by (simp add: abs_profile_def tuning_rank_def)
next
  case (Cons tk ticks)
  from Cons.prems obtain b where "abs_profile (currentProfile (fst (optimizeConfiguration (fst tk) (snd tk) s))) b"
    and "if recommendation (fst tk) (snd tk) s = None then b = a else tuning a b"
    by (rule tick_refines [of s a "fst tk" "snd tk"]) (auto split: if_splits)
  with Cons.IH [of "optimizeConfiguration (fst tk) (snd tk) s" b] tuning_rank_less [of a b]
  show ?case by (auto split: if_splits)
qed

text \<open>The optimizer settles: however the hash rate develops and however long it runs, it changes
  the settings at most \<open>cores + 2\<close> times, since threads only go down and intensity only up.\<close>

theorem optimizer_settles:
  assumes "1 \<le> cores"
  shows "adjustments ticks (detectSystemCapabilities now cores gpu opt, m) \<le> nat cores + 2"
proof -
  from assms obtain a where a: "abs_profile (currentProfile (detectSystemCapabilities now cores gpu opt)) a"
    "int (fst a) \<le> cores" by (rule detect_abs)
  then have "adjustments ticks (detectSystemCapabilities now cores gpu opt, m) < tuning_rank a"
    by (intro adjustments_rank) simp
  with a(2) show ?thesis by (simp add: tuning_rank_def)
qed

theorem optimizer_settles_witness:
  "adjustments (replicate 1000 (0, 700000)) (detectSystemCapabilities 0 4 True NewMinerOptimizer, sampleMiner) \<le> 6"
  using optimizer_settles [of 4 "replicate 1000 (0, 700000)" 0 True NewMinerOptimizer sampleMiner] by simp

definition range_tuned :: "int \<Rightarrow> Miner \<Rightarrow> Miner \<Rightarrow> bool" where
  "range_tuned cores m m' \<longleftrightarrow>
     \<not> cfgUseStride (mConfig m') \<and> \<not> UseStride (mMiner m') \<and>
     1 \<le> ThreadCount (mMiner m') \<and> ThreadCount (mMiner m') \<le> cores \<and>
     cfgThreadCount (mConfig m') = ThreadCount (mMiner m') \<and>
     cfgMaxHashes (mConfig m') = MaxHashes (mMiner m') \<and> MaxHashes (mMiner m') \<le> 1000000 \<and>
     DeviceType (mConfig m') = DeviceType (mConfig m)"

lemma tuned_by_range:
  "tuned_by p m m' \<Longrightarrow> abs_profile p a \<Longrightarrow> int (fst a) \<le> cores \<Longrightarrow> range_tuned cores m m'"
  by (cases "snd a") (auto simp: tuned_by_def range_tuned_def abs_profile_def)

lemma ticks_range:
  assumes "abs_profile (currentProfile (fst s)) a" "int (fst a) \<le> cores"
    and "s' = fold (\<lambda>(t, rate). optimizeConfiguration t rate) ticks s"
  shows "snd s' = snd s \<or> range_tuned cores (snd s) (snd s')"
  using assms
proof (induction ticks arbitrary: s a)
  case (Cons tk ticks)
  obtain t rate where tk: "tk = (t, rate)" by (cases tk)
  let ?s = "optimizeConfiguration t rate s"
  obtain b where b: "abs_profile (currentProfile (fst ?s)) b"
    "if recommendation t rate s = None then b = a \<and> snd ?s = snd s
     else tuning a b \<and> tuned_by (currentProfile (fst ?s)) (snd s) (snd ?s)"
    by (rule tick_refines [OF Cons.prems(1)])
  then have le: "int (fst b) \<le> cores"
    using Cons.prems(1,2) tuning_bounds [of a b] by (auto simp: abs_profile_def split: if_splits)
  have one: "snd ?s = snd s \<or> range_tuned cores (snd s) (snd ?s)"
    using b(2) tuned_by_range [OF _ b(1) le] by (auto split: if_splits)
  have "snd s' = snd ?s \<or> range_tuned cores (snd ?s) (snd s')"
    by (rule Cons.IH [OF b(1) le]) (use Cons.prems(3) tk in simp)
  with one show ?case by (auto simp: range_tuned_def)
qed simp

text \<open>Whatever the optimizer does, the miner is either untouched or runs with 1 to \<open>cores\<close>
  threads, a hash limit of at most a million, the user's device, and range distribution: the
  optimizer always switches the stride distribution off.\<close>

theorem optimizer_disables_stride:
  assumes "1 \<le> cores" "StartOptimizer now cores gpu ticks (opt, m) = (opt', m')"
  shows "m' = m \<or> range_tuned cores m m'"
proof -
  let ?s = "(detectSystemCapabilities now cores gpu opt, m)"
  from assms(1) obtain a where a: "abs_profile (currentProfile (fst ?s)) a" "int (fst a) \<le> cores"
    by (rule detect_abs [of cores now gpu opt]) simp
  show ?thesis
  proof (cases "mOptimizerStopped m")
    case False
    then have "(opt', m') = fold (\<lambda>(t, rate). optimizeConfiguration t rate) ticks ?s"
      using assms(2) [symmetric] by (simp add: StartOptimizer_def)
    from ticks_range [OF a this] show ?thesis by simp
  qed (use assms(2) in \<open>simp add: StartOptimizer_def\<close>)
qed

theorem optimizer_disables_stride_witness:
  "\<exists>opt' m'. StartOptimizer 0 4 False [(120, 50)] (NewMinerOptimizer, sampleMiner) = (opt', m') \<and>
    (m' = sampleMiner \<or> range_tuned 4 sampleMiner m')"
  using optimizer_disables_stride [of 4 0 False "[(120, 50)]" NewMinerOptimizer sampleMiner]
  by (metis surj_pair zero_less_numeral int_one_le_iff_zero_less)

lemma sum_list_bounds:
  fixes x :: rat
  shows "(\<And>y. y \<in> set ys \<Longrightarrow> y \<le> x) \<Longrightarrow> sum_list ys \<le> of_nat (length ys) * x"
    and "(\<And>y. y \<in> set ys \<Longrightarrow> x \<le> y) \<Longrightarrow> of_nat (length ys) * x \<le> sum_list ys"
  by (induction ys) (simp_all add: algebra_simps add_mono)

lemma sorted_recent_average:
  assumes "sorted hs"
  shows "average hs \<le> recent_average hs"
proof (cases "5 < length hs")
  case True
  define ys zs x where "ys = take (length hs - 3) hs" and "zs = drop (length hs - 3) hs" and "x = hd zs"
  have hs: "hs = ys @ zs" and len: "length zs = 3" "length ys = length hs - 3"
    using True by (simp_all add: ys_def zs_def)
  have zs: "zs = x # tl zs" using len(1) by (cases zs) (simp_all add: x_def)
  have "x \<in> set zs" using zs by (metis list.set_intros(1))
  then have y: "\<And>y. y \<in> set ys \<Longrightarrow> y \<le> x" using assms by (auto simp: hs sorted_append)
  have "sorted (x # tl zs)" using assms hs zs by (metis sorted_append)
  then have z: "\<And>y. y \<in> set zs \<Longrightarrow> x \<le> y" using zs by (metis set_ConsD order_refl sorted_simps(2))
  have "3 * sum_list ys \<le> of_nat (length ys) * (3 * x)" using sum_list_bounds(1) [OF y] by simp
  also have "\<dots> \<le> of_nat (length ys) * sum_list zs"
    by (intro mult_left_mono) (use sum_list_bounds(2) [of zs x, OF z] len(1) in simp_all)
  finally have "3 * (sum_list ys + sum_list zs) \<le> of_nat (length hs) * sum_list zs"
    using True len by (simp add: of_nat_diff algebra_simps)
  with True show ?thesis
    by (simp add: average_def recent_average_def field_simps hs flip: zs_def) (simp add: zs_def [symmetric] len mult.commute)
qed (simp add: recent_average_def)

text \<open>A hash rate that never falls never costs a thread: for every non-decreasing history the
  recommendation, if there is one, keeps the number of threads.\<close>

theorem rising_rates_keep_threads:
  assumes "sorted history" "\<forall>h \<in> set history. 0 \<le> h" "analyzePerformance now history p = Some q"
  shows "opThreadCount q = opThreadCount p"
proof -
  have "0 \<le> average history" using assms(2) by (simp add: average_def sum_list_nonneg)
  then have "average history * (8 / 10) \<le> average history" by simp
  with sorted_recent_average [OF assms(1)] have "\<not> recent_average history < average history * (8 / 10)"
    by linarith
  with assms(3) show ?thesis
    by (auto simp: analyzePerformance_def suggestIntensityIncrease_def increase_def split: if_splits)
qed

theorem rising_rates_keep_threads_witness:
  "\<exists>q. analyzePerformance 0 (replicate 6 600000)
      (currentProfile (detectSystemCapabilities 0 4 False NewMinerOptimizer)) = Some q \<and> opThreadCount q = 2"
proof -
  let ?p = "currentProfile (detectSystemCapabilities 0 4 False NewMinerOptimizer)"
  have "analyzePerformance 0 (replicate 6 600000) ?p = Some (increase 0 ''high'' 500000 ?p)"
    by (simp add: analyzePerformance_def average_def recent_average_def eval_nat_numeral
        detectSystemCapabilities_def suggestIntensityIncrease_def optimal_intensity_def)
  with rising_rates_keep_threads [OF _ _ this] show ?thesis
    by (simp add: detectSystemCapabilities_def optimal_threads_def)
qed

lemma log_keeps_optimizer [simp]:
  "mOptimizerStopped (broadcastLogMessage msg m) = mOptimizerStopped m"
  "mConfig (broadcastLogMessage msg m) = mConfig m" "mStatus (broadcastLogMessage msg m) = mStatus m"
  by (simp_all add: broadcastLogMessage_def add_log_def Let_def)

lemma connection_keeps_optimizer:
  "start_connection rpcOk m = Inr m' \<Longrightarrow> mOptimizerStopped m' = mOptimizerStopped m"
  by (auto simp: start_connection_def Let_def split: if_splits)

lemma start_keeps_optimizer:
  assumes "StartMiner rpcOk m = Inr m'"
  shows "mOptimizerStopped m' = mOptimizerStopped m"
proof -
  from assms obtain m1 where m1: "start_connection rpcOk m = Inr m1"
    "m' = broadcastLogMessage ''Miner initialized and running'' (broadcastLogMessage
       ''GPU/CPU Auto-detection enabled - mining with optimal device'' (broadcastLogMessage
       ''Mining started - Ready to guess winning hashes!'' (m1\<lparr>mStopped := False, mStatus := ''running''\<rparr>)))"
    by (simp only: StartMiner_def ebind_eq_Inr_iff Let_def sum.simps split: if_splits) blast
  from m1(2) have "mOptimizerStopped m' = mOptimizerStopped m1" by simp
  with connection_keeps_optimizer [OF m1(1)] show ?thesis by simp
qed

text \<open>After the miner has been stopped once, starting it again starts an optimizer that never acts:
  its stop channel stays closed, so no tick changes the miner any more.\<close>

theorem restart_disables_optimizer:
  assumes "StopMiner loopsEnd m = (Inr u, m1)" "StartMiner rpcOk m1 = Inr m'"
  shows "snd (StartOptimizer now cores gpu ticks (opt, m')) = m'"
proof -
  have "mOptimizerStopped m1" using assms(1) by (auto simp: StopMiner_def Let_def split: if_splits)
  with start_keeps_optimizer [OF assms(2)] show ?thesis by (simp add: StartOptimizer_def)
qed

theorem restart_disables_optimizer_witness:
  "\<exists>m'. StartMiner False (snd (StopMiner True sampleMiner)) = Inr m' \<and>
    snd (StartOptimizer 0 8 False [(120, 700000)] (NewMinerOptimizer, m')) = m'"
proof -
  have "StopMiner True sampleMiner = (Inr (), snd (StopMiner True sampleMiner))"
    by (simp add: StopMiner_def sampleMiner_def newMinerP2POnly_def miner_of_config_def Let_def)
  moreover have "\<exists>m'. StartMiner False (snd (StopMiner True sampleMiner)) = Inr m'"
    by (simp add: StartMiner_def StopMiner_def start_payout_def start_connection_def sampleMiner_def
        sampleConfig_def newMinerP2POnly_def p2p_defaults_def initial_config_def miner_of_config_def
        or_default_def Let_def TrimSpace_def is_space_def)
  ultimately show ?thesis using restart_disables_optimizer by blast
qed

end
