(* ===== verification/MiningRound.thy ===== *)
theory MiningRound
  imports AutoOptimizer
begin

text \<open>
  \<open>miningLoop\<close> of \<open>src/main.go\<close>: choosing where to start the header sync, the initial sync
  with its recovery, and one round of mining from the template to the record of the submission.
  The background goroutines move the client's tip while a round runs, so every read of the
  cached tip is an input of the round. Durations are milliseconds. The rounds are those of a
  running miner; configuration changes stop the loop first.
\<close>

section \<open>Where the sync starts\<close>

definition start_from_saved :: "MinerConfig \<Rightarrow> SavedTip \<Rightarrow> HeaderChain \<Rightarrow> HeaderChain" where
  "start_from_saved cfg t c =
     (let c = (if cfgNetwork cfg = ''testnet'' \<and> stHeight t = 38150909
               then snd (SetStartCheckpointByID ''38150909'' c)
               else if cfgNetwork cfg = ''testnet'' \<and> stHeight t = 42799352
               then snd (SetStartCheckpointByID ''42799352'' c)
               else if stHeight t = 0 then snd (SetStartCheckpointByID ''0'' c)
               else snd (SetStartCheckpoint (stHash t) (stHeight t) c))
      in SeedLastNonMinDifficultyBits (stLastNonMinBits t) c)"

text \<open>\<open>force\<close> is the global \<open>p2pForceGenesisNext\<close>.\<close>

definition start_sync ::
  "MinerConfig \<Rightarrow> bool \<times> tip_files \<times> HeaderChain \<Rightarrow> bool \<times> tip_files \<times> HeaderChain" where
  "start_sync cfg s =
     (case s of (force, files, c) \<Rightarrow>
        if force
        then (False, clearSavedTip (cfgNetwork cfg) files, snd (SetStartCheckpoint '''' 0 c))
        else if P2PCheckpoint cfg \<noteq> ''''
        then (False, files, snd (SetStartCheckpointByID (P2PCheckpoint cfg) c))
        else case loadSavedTip files (cfgNetwork cfg) of
               Some t \<Rightarrow> (False, files, start_from_saved cfg t c)
             | None \<Rightarrow> (False, files, c))"

section \<open>The initial sync\<close>

record tip_error =
  errText :: string
  errIsEOF :: bool

definition connection_lost :: "tip_error \<Rightarrow> bool" where
  "connection_lost e \<longleftrightarrow> errIsEOF e \<or> str_contains (errText e) ''connection reset'' \<or>
     str_contains (errText e) ''connection refused'' \<or> str_contains (errText e) ''forcibly closed''"

definition does_not_link :: "tip_error \<Rightarrow> bool" where
  "does_not_link e \<longleftrightarrow> str_contains (errText e) ''non-continuous headers'' \<or>
     str_contains (errText e) ''does not link''"

definition ClearSyncState :: "HeaderChain \<Rightarrow> HeaderChain" where
  "ClearSyncState c =
     c\<lparr>bestHeader := None, bestHeight := 0, lastNonMinDifficultyBits := 0, tipParentTimestamp := 0,
       locatorHashes := [], lastHeadersAppliedAt := None\<rparr>"

definition recover_chain ::
  "MinerConfig \<Rightarrow> bool \<times> tip_files \<times> HeaderChain \<Rightarrow> bool \<times> tip_files \<times> HeaderChain" where
  "recover_chain cfg s =
     (case s of (force, files, c) \<Rightarrow>
        let c = ClearSyncState c; files = clearSavedTip (cfgNetwork cfg) files in
        if P2PCheckpoint cfg \<noteq> '''' \<and> P2PCheckpoint cfg \<noteq> ''0''
        then (force, files, snd (SetStartCheckpointByID (P2PCheckpoint cfg) c))
        else (True, files, snd (SetStartCheckpoint '''' 0 c)))"

text \<open>
  \<open>getTip\<close> is what \<open>GetTipHeader\<close> does at each attempt: the new client state and perhaps an
  error. A lost connection is retried while attempts are left; \<open>n\<close> are left after this one.
\<close>

fun initial_sync ::
  "MinerConfig \<Rightarrow> (nat \<Rightarrow> HeaderChain \<Rightarrow> tip_error option \<times> HeaderChain) \<Rightarrow> nat \<Rightarrow>
     bool \<times> tip_files \<times> HeaderChain \<Rightarrow> tip_error option \<times> (bool \<times> tip_files \<times> HeaderChain)" where
  "initial_sync cfg getTip n (force, files, c) =
     (case getTip n c of
        (None, c) \<Rightarrow> (None, (force, files, c))
      | (Some e, c) \<Rightarrow>
          if connection_lost e \<and> 0 < n then initial_sync cfg getTip (n - 1) (force, files, c)
          else (Some e, if does_not_link e then recover_chain cfg (force, files, c) else (force, files, c)))"

declare initial_sync.simps [simp del]

text \<open>One pass through the initialisation: is the client ready to mine after it?\<close>

definition p2p_init ::
  "MinerConfig \<Rightarrow> (nat \<Rightarrow> HeaderChain \<Rightarrow> tip_error option \<times> HeaderChain) \<Rightarrow>
     bool \<times> tip_files \<times> HeaderChain \<Rightarrow> bool \<times> (bool \<times> tip_files \<times> HeaderChain)" where
  "p2p_init cfg getTip s =
     (case initial_sync cfg getTip 2 (start_sync cfg s) of (e, s) \<Rightarrow> (e = None, s))"

text \<open>
  The P2P part at the head of an iteration: a missing client is made for the configured network, and
  a client that is not initialised yet gets the peer override and the initial sync. \<open>inited\<close> is
  \<open>p2pInitialized\<close>; the result tells whether the iteration goes on.
\<close>

definition ensure_client :: "bool \<Rightarrow> Miner \<Rightarrow> bool \<times> Miner" where
  "ensure_client inited m =
     (if mP2pClient m = None
      then (False, m\<lparr>mP2pClient := Some (newHeaderChain (or_default (cfgNetwork (mConfig m)) ''mainnet''))\<rparr>)
      else (inited, m))"

definition apply_override :: "Miner \<Rightarrow> Miner" where
  "apply_override m =
     (let addr = peerOverride (mConfig m) in if addr \<noteq> '''' then m\<lparr>mPeerOverride := TrimSpace addr\<rparr> else m)"

definition prepare_p2p ::
  "(nat \<Rightarrow> HeaderChain \<Rightarrow> tip_error option \<times> HeaderChain) \<Rightarrow> bool \<Rightarrow> Miner \<Rightarrow> bool \<times> tip_files \<Rightarrow>
     bool \<times> Miner \<times> (bool \<times> tip_files)" where
  "prepare_p2p getTip inited m fs =
     (case ensure_client inited m of (inited, m) \<Rightarrow>
        if inited then (True, m, fs)
        else
          let m = apply_override m in
          case p2p_init (mConfig m) getTip (fst fs, snd fs, the (mP2pClient m)) of
            (ok, force, files, c) \<Rightarrow> (ok, m\<lparr>mP2pClient := Some c\<rparr>, (force, files)))"

lemma ensure_client_Some: "\<exists>c. mP2pClient (snd (ensure_client inited m)) = Some c"
  by (simp add: ensure_client_def)

lemma prepare_keeps:
  assumes "prepare_p2p getTip inited m fs = (ok, m', fs')"
  shows "mConfig m' = mConfig m" "\<exists>c. mP2pClient m' = Some c" "mPaymentMonitor m' = mPaymentMonitor m"
  using assms by (auto simp: prepare_p2p_def ensure_client_def apply_override_def Let_def split: prod.splits if_splits)

section \<open>Statistics and records\<close>

record BlockInfo =
  biHeight :: int
  biDifficulty :: rat
  biTarget :: string
  biHashesAttempted :: u64

record MiningStats =
  msHashRate :: rat
  msTotalHashes :: u64
  msBlocksFound :: u64
  msBlocksAccepted :: u64
  msBlocksStale :: u64
  msCurrentBlock :: "BlockInfo option"
  msBlockAttemptSeconds :: rat

record SubmittedBlock =
  sbHeight :: int
  sbHash :: string
  sbNonce :: u32
  sbSubmitTime :: int
  sbIsStale :: bool
  sbBroadcastOk :: bool
  sbPeerCount :: nat
  sbError :: "submit_error option"

record RoundState =
  rsMiner :: Miner
  rsFiles :: tip_files
  rsStats :: MiningStats
  rsBlocks :: "SubmittedBlock list"
  rsCap :: u64
  rsStable :: nat
  rsLastAdjust :: "int option"
  rsHashCounter :: u64

text \<open>
  Where a round in P2P mode asks the client to refresh its headers (\<open>RefreshHeadersIfStale\<close>): before the template is
  built, when the template is not on the tip any more, when a solution is discarded, and after a block was relayed.
\<close>

datatype refresh_point = BeforeTemplate | StaleTemplate | DiscardedSolve | AfterRelay

text \<open>
  What a round meets: the tips it reads, the clock, the miners' inputs, the network's answers. A
  refresh returns where \<open>reRefresh\<close> says so; \<open>reBroadcast\<close> is what \<open>BroadcastBlock\<close> returns, if it returns.
\<close>

record RoundEnv =
  reNow :: int
  reClient :: HeaderChain
  reAlignTip :: "BlockHeader option"
  reAfterTip :: "BlockHeader option"
  reValidateTip :: "BlockHeader option"
  reStaleTip :: "BlockHeader option"
  reRpcTip :: "BlockHeader option"
  reRpcTemplate :: "BlockTemplate option"
  reRpcDifficulty :: "rat option"
  reUnixNano :: u64
  reStartNonce :: u32
  reSchedule :: "nat list"
  reOpenCL :: "OpenCLContext option"
  reGpuRound :: "nat \<Rightarrow> MineOutcome"
  reCpuInner :: "nat \<Rightarrow> MineOutcome"
  reCpuOuter :: "nat \<Rightarrow> MineOutcome"
  reAttemptMs :: nat
  reHeadersAgeMs :: int
  reNowMs :: int
  reRefresh :: "refresh_point \<Rightarrow> bool"
  reBroadcast :: "bool option"
  reRpcOk :: bool
  reBroadcastPeers :: nat

definition tipHashDisplayHex :: "BlockHeader option \<Rightarrow> string" where
  "tipHashDisplayHex tip = (case tip of None \<Rightarrow> '''' | Some h \<Rightarrow> HashToDisplayHex (hHash h))"

abbreviation p2p_mode :: "RoundState \<Rightarrow> bool" where
  "p2p_mode s \<equiv> ConnectionMode (mConfig (rsMiner s)) = ''p2p''"

abbreviation p2p_testnet :: "RoundState \<Rightarrow> bool" where
  "p2p_testnet s \<equiv> p2p_mode s \<and> cfgNetwork (mConfig (rsMiner s)) = ''testnet''"

section \<open>From the tip to a block\<close>

definition save_tip_step :: "RoundEnv \<Rightarrow> RoundState \<Rightarrow> RoundState" where
  "save_tip_step env s =
     (case bestHeader (reClient env) of
        Some tip \<Rightarrow>
          if p2p_mode s
          then s\<lparr>rsFiles := saveTip (hHeight tip) (hexEncode (reverseBytesInPlace (hHash tip)))
                   (cfgNetwork (mConfig (rsMiner s))) (lastNonMinDifficultyBits (reClient env)) (rsFiles s)\<rparr>
          else s
      | None \<Rightarrow> s)"

definition round_template :: "RoundEnv \<Rightarrow> RoundState \<Rightarrow> BlockTemplate option" where
  "round_template env s =
     (let net = cfgNetwork (mConfig (rsMiner s)) in
      if p2p_mode s then
        (let c = reClient env; bits = lastNonMinDifficultyBits c in
         if bestHeader c = None then None
         else case BuildTemplateFromHeader (bestHeader c) net (if bits \<noteq> 0 then Some bits else None)
                     (tipParentTimestamp c) (reNow env) of
                Inl e \<Rightarrow> None
              | Inr t \<Rightarrow> Some t)
      else if mRpcClient (rsMiner s) = None then None
      else case (case reRpcTip env of
                   None \<Rightarrow> Inl NilTip
                 | Some h \<Rightarrow> BuildTemplateFromHeader (Some h) net None 0 (reNow env)) of
             Inr t \<Rightarrow> Some t
           | Inl e \<Rightarrow> reRpcTemplate env)"

text \<open>The alignment check that makes a testnet round start over.\<close>

definition template_stale :: "RoundEnv \<Rightarrow> RoundState \<Rightarrow> BlockTemplate \<Rightarrow> bool" where
  "template_stale env s t \<longleftrightarrow> p2p_testnet s \<and>
     (case reAlignTip env of
        None \<Rightarrow> False
      | Some tip \<Rightarrow> tHeight t \<noteq> hHeight tip + 1 \<or> tipHashDisplayHex (Some tip) \<noteq> tPreviousBlockHash t)"

definition update_current :: "RoundEnv \<Rightarrow> BlockTemplate \<Rightarrow> RoundState \<Rightarrow> RoundState" where
  "update_current env t s =
     (let cb = (case msCurrentBlock (rsStats s) of
                  None \<Rightarrow> \<lparr>biHeight = 0, biDifficulty = 0, biTarget = '''', biHashesAttempted = 0\<rparr>
                | Some b \<Rightarrow> b);
          cb = (if biHeight cb \<noteq> tHeight t then cb\<lparr>biHashesAttempted := 0\<rparr> else cb);
          cb = cb\<lparr>biHeight := tHeight t\<rparr>;
          cb = (if 0 < tDifficulty t then cb\<lparr>biDifficulty := tDifficulty t\<rparr>
                else if ConnectionMode (mConfig (rsMiner s)) = ''rpc'' \<and> mRpcClient (rsMiner s) \<noteq> None
                then (case reRpcDifficulty env of None \<Rightarrow> cb | Some d \<Rightarrow> cb\<lparr>biDifficulty := d\<rparr>)
                else cb)
      in s\<lparr>rsStats := (rsStats s)\<lparr>msCurrentBlock := Some (cb\<lparr>biTarget := tTarget t\<rparr>)\<rparr>\<rparr>)"

section \<open>Mining\<close>

definition set_round_max :: "u64 \<Rightarrow> Miner \<Rightarrow> Miner" where
  "set_round_max n m =
     m\<lparr>mMiner := (mMiner m)\<lparr>MaxHashesThisRound := n\<rparr>,
       mGpuMiner := (mGpuMiner m)\<lparr>gMaxHashesThisRound := n\<rparr>\<rparr>"

definition round_limits :: "RoundState \<Rightarrow> Miner" where
  "round_limits s =
     (if p2p_testnet s then set_round_max (rsCap s) (rsMiner s)
      else if p2p_mode s \<and> cfgNetwork (mConfig (rsMiner s)) = ''mainnet''
      then set_round_max 350000 (rsMiner s)
      else rsMiner s)"

definition reset_limits :: "RoundState \<Rightarrow> RoundState" where
  "reset_limits s =
     (if p2p_mode s \<and> cfgNetwork (mConfig (rsMiner s)) \<in> {''testnet'', ''mainnet''}
      then s\<lparr>rsMiner := set_round_max 0 (rsMiner s)\<rparr> else s)"

definition mine_block ::
  "scrypt_key \<Rightarrow> RoundEnv \<Rightarrow> Block \<Rightarrow> string \<Rightarrow> Miner \<Rightarrow> (go_panic + (MineOutcome \<times> Miner)) option" where
  "mine_block key env block target m =
     (if DeviceType (mConfig m) = ''gpu'' then
        (case gpu_MineBlock (reOpenCL env) (mGpuMiner m) block target (reGpuRound env) (reCpuInner env)
                (reCpuOuter env) of
           (out, g) \<Rightarrow> Some (Inr (out, m\<lparr>mGpuMiner := g\<rparr>)))
      else
        (case MineBlock key (mMiner m) block target (reUnixNano env) (reStartNonce env) (reSchedule env) of
           None \<Rightarrow> None
         | Some (Inl p) \<Rightarrow> Some (Inl p)
         | Some (Inr out) \<Rightarrow> Some (Inr (out, m))))"

section \<open>The dynamic cap of testnet rounds\<close>

definition next_cap :: "u64 \<Rightarrow> int \<Rightarrow> bool \<Rightarrow> nat \<Rightarrow> int \<Rightarrow> u64 \<Rightarrow> nat \<Rightarrow> u64 \<times> nat" where
  "next_cap cap tipAdvance stalled elapsedMs headersAgeMs hashes rounds =
     (if 4 \<le> tipAdvance then (cap * 65 div 100, 0)
      else if 1 \<le> tipAdvance then (cap * 80 div 100, 0)
      else if stalled \<and> 1500 \<le> elapsedMs then (cap * 90 div 100, 0)
      else if 1200 < headersAgeMs \<and> tipAdvance = 0 then (cap * 130 div 100, 0)
      else if tipAdvance = 0 \<and> cap \<le> hashes \<and> elapsedMs \<le> 500
      then (if 3 \<le> rounds + 1 then (cap * 115 div 100, 0) else (cap, rounds + 1))
      else (cap, 0))"

definition clamp_cap :: "u64 \<Rightarrow> u64" where
  "clamp_cap cap = (let cap = (if cap < 12000 then 12000 else cap) in if 40000 < cap then 40000 else cap)"

definition tip_advance :: "RoundEnv \<Rightarrow> BlockTemplate \<Rightarrow> int" where
  "tip_advance env t =
     (case reAfterTip env of
        None \<Rightarrow> 0
      | Some tip \<Rightarrow> let d = hHeight tip - (tHeight t - 1) in if d < 0 then 0 else d)"

definition adapt_cap :: "RoundEnv \<Rightarrow> BlockTemplate \<Rightarrow> u64 \<Rightarrow> RoundState \<Rightarrow> RoundState" where
  "adapt_cap env t hashes s =
     (if \<not> p2p_testnet s then s
      else
        let stalled = (rsCap s * 95 div 100 \<le> hashes \<and> hashes < rsCap s);
            due = (case rsLastAdjust s of None \<Rightarrow> True | Some a \<Rightarrow> 1000 \<le> reNowMs env - a);
            (cap, rounds) = (if due then next_cap (rsCap s) (tip_advance env t) stalled (reAttemptMs env)
                               (reHeadersAgeMs env) hashes (rsStable s) else (rsCap s, rsStable s))
        in s\<lparr>rsCap := clamp_cap cap, rsStable := rounds,
             rsLastAdjust := (if due then Some (reNowMs env) else rsLastAdjust s)\<rparr>)"

section \<open>Counting, checking and submitting\<close>

text \<open>The log line of a round, when hash logging is on.\<close>

definition log_hashes :: "BlockTemplate \<Rightarrow> u64 \<Rightarrow> RoundState \<Rightarrow> RoundState" where
  "log_hashes t hashes s =
     (if 0 < hashes \<and> mEnableHashLogging (rsMiner s) \<and> (100000 \<le> hashes \<or> rsHashCounter s mod 100 = 0)
      then s\<lparr>rsMiner := logHashAttempts hashes (tHeight t) (rsMiner s)\<rparr> else s)"

definition count_hashes :: "RoundEnv \<Rightarrow> u64 \<Rightarrow> RoundState \<Rightarrow> RoundState" where
  "count_hashes env hashes s =
     (let seconds = of_nat (reAttemptMs env) / 1000;
          st = (rsStats s)\<lparr>msBlockAttemptSeconds := seconds\<rparr>
      in if 0 < hashes \<and> 0 < seconds
         then s\<lparr>rsStats := st\<lparr>msTotalHashes := msTotalHashes st + hashes,
                msCurrentBlock := map_option (\<lambda>b. b\<lparr>biHashesAttempted := biHashesAttempted b + hashes\<rparr>)
                  (msCurrentBlock st),
                msHashRate := of_nat (unat hashes) / seconds\<rparr>, rsHashCounter := 0\<rparr>
         else s\<lparr>rsStats := st, rsHashCounter := rsHashCounter s + hashes\<rparr>)"

text \<open>The periodic update of the hash rate from hashes not counted yet.\<close>

definition tick_stats :: "rat \<Rightarrow> RoundState \<Rightarrow> RoundState" where
  "tick_stats elapsed s =
     (if 0 < elapsed
      then s\<lparr>rsStats := (if 0 < rsHashCounter s
               then (rsStats s)\<lparr>msHashRate := of_nat (unat (rsHashCounter s)) / elapsed\<rparr> else rsStats s),
             rsHashCounter := 0\<rparr>
      else s)"

definition template_target :: "BlockTemplate \<Rightarrow> nat option" where
  "template_target t =
     (case hexDecode (tTarget t) of
        Inl e \<Rightarrow> None
      | Inr b \<Rightarrow> Some (if be_nat b = 0 then 1 else be_nat b))"

definition validate_result :: "nat option \<Rightarrow> MineOutcome \<Rightarrow> go_panic + bool" where
  "validate_result target out =
     (case moHash out of
        None \<Rightarrow> Inr False
      | Some h \<Rightarrow>
          if \<not> moFound out \<or> h = [] then Inr False
          else case target of
            None \<Rightarrow> Inr True
          | Some n \<Rightarrow> ebind (target_le_bytes n) (\<lambda>le. Inr (hashMeetsTargetLE h le)))"

definition parent_moved :: "BlockHeader option \<Rightarrow> BlockTemplate \<Rightarrow> bool" where
  "parent_moved tip t \<longleftrightarrow> tip \<noteq> None \<and> tipHashDisplayHex tip \<noteq> tPreviousBlockHash t"

definition submit_error_text :: "string \<Rightarrow> submit_error \<Rightarrow> string" where
  "submit_error_text netErr e =
     (case e of
        NoTransactions \<Rightarrow> ''block has no transactions''
      | NoCoinbaseOutputs \<Rightarrow> ''coinbase transaction has no outputs''
      | PayoutScriptTooShort \<Rightarrow> ''coinbase payout script is invalid (too short)''
      | PowError v \<Rightarrow> (case v of HeaderLength n \<Rightarrow> ''header length '' @ Itoa (int n) @ '', want 80''
                       | InvalidBits \<Rightarrow> ''invalid bits in block'')
      | PowBelowTarget h \<Rightarrow> ''submitted block PoW invalid: hash '' @ h @ '' does not meet target''
      | BroadcastFailed \<Rightarrow> ''P2P block broadcast failed: '' @ netErr
      | RpcUnavailable \<Rightarrow> ''RPC client not available''
      | RpcSubmitFailed \<Rightarrow> ''block submission failed: '' @ netErr)"

definition push_block :: "SubmittedBlock \<Rightarrow> RoundState \<Rightarrow> RoundState" where
  "push_block b s =
     (let xs = rsBlocks s @ [b]
      in s\<lparr>rsBlocks := (if 100 < length xs then drop (length xs - 100) xs else xs)\<rparr>)"

definition round_log :: "string \<Rightarrow> RoundState \<Rightarrow> RoundState" where
  "round_log msg s = s\<lparr>rsMiner := broadcastLogMessage msg (rsMiner s)\<rparr>"

definition bump_stale :: "RoundState \<Rightarrow> RoundState" where
  "bump_stale s = s\<lparr>rsStats := (rsStats s)\<lparr>msBlocksStale := msBlocksStale (rsStats s) + 1\<rparr>\<rparr>"

definition bump_found :: "RoundState \<Rightarrow> RoundState" where
  "bump_found s =
     s\<lparr>rsStats := (rsStats s)\<lparr>msBlocksFound := msBlocksFound (rsStats s) + 1,
                              msBlocksAccepted := msBlocksAccepted (rsStats s) + 1\<rparr>\<rparr>"

definition stale_ahead :: "RoundEnv \<Rightarrow> BlockTemplate \<Rightarrow> int" where
  "stale_ahead env t = (case reStaleTip env of None \<Rightarrow> 0 | Some tip \<Rightarrow> hHeight tip - (tHeight t - 1))"

text \<open>Before the submission: is the parent no longer the tip?\<close>

definition round_stale :: "RoundEnv \<Rightarrow> BlockTemplate \<Rightarrow> RoundState \<Rightarrow> bool" where
  "round_stale env t s \<longleftrightarrow> p2p_mode s \<and> parent_moved (reStaleTip env) t"

definition before_submit :: "RoundEnv \<Rightarrow> BlockTemplate \<Rightarrow> RoundState \<Rightarrow> RoundState" where
  "before_submit env t s =
     (let s = round_log ''BLOCK FOUND! Check logs for details.'' s in
      if round_stale env t s
      then bump_stale (round_log (''Tip moved ('' @ Itoa (stale_ahead env t) @
             '' blocks ahead) - submitting anyway (often orphaned = no pay)'') s)
      else s)"

definition log_submission :: "string \<Rightarrow> submit_error + string \<Rightarrow> RoundState \<Rightarrow> RoundState" where
  "log_submission netErr res s =
     (case res of
        Inl e \<Rightarrow> round_log (''Error submitting block: '' @ submit_error_text netErr e) s
      | Inr hex \<Rightarrow> round_log ''Block relayed to P2P peer(s) (chain acceptance still unconfirmed).'' (bump_found s))"

definition submission_record ::
  "RoundEnv \<Rightarrow> BlockTemplate \<Rightarrow> u32 \<Rightarrow> byte list \<Rightarrow> submit_error + string \<Rightarrow> RoundState \<Rightarrow> SubmittedBlock" where
  "submission_record env t nonce hash res s =
     \<lparr>sbHeight = tHeight t, sbHash = HashToDisplayHex hash, sbNonce = nonce, sbSubmitTime = reNow env,
      sbIsStale = round_stale env t s, sbBroadcastOk = (case res of Inl e \<Rightarrow> False | Inr hex \<Rightarrow> True),
      sbPeerCount = (case res of Inl e \<Rightarrow> 0 | Inr hex \<Rightarrow> if p2p_mode s then reBroadcastPeers env + 1 else 0),
      sbError = (case res of Inl e \<Rightarrow> Some e | Inr hex \<Rightarrow> None)\<rparr>"

definition track_round :: "int \<Rightarrow> SubmittedBlock \<Rightarrow> RoundState \<Rightarrow> RoundState" where
  "track_round now b s =
     s\<lparr>rsMiner := (rsMiner s)\<lparr>mPaymentMonitor :=
         map_option (TrackSubmittedBlock now (sbHeight b) (sbHash b)) (mPaymentMonitor (rsMiner s))\<rparr>\<rparr>"

definition submit_found ::
  "scrypt_key \<Rightarrow> string \<Rightarrow> RoundEnv \<Rightarrow> BlockTemplate \<Rightarrow> Block \<Rightarrow> u32 \<Rightarrow> byte list \<Rightarrow> RoundState \<Rightarrow>
     (go_panic + ((submit_error + string) \<times> RoundState)) option" where
  "submit_found key netErr env t block nonce hash s0 =
     (let s = before_submit env t s0 in
      case submitBlock key (reBroadcast env) (reRpcOk env) block nonce (rsMiner s) of
        None \<Rightarrow> None
      | Some (Inl p) \<Rightarrow> Some (Inl p)
      | Some (Inr (res, m)) \<Rightarrow>
          let s = log_submission netErr res (s\<lparr>rsMiner := m\<rparr>);
              b = submission_record env t nonce hash res s
          in if p2p_mode s \<and> \<not> isl res \<and> \<not> reRefresh env AfterRelay then None
             else Some (Inr (res, track_round (reNow env) b (push_block b s))))"

section \<open>A round\<close>

text \<open>
  \<open>Hang\<close>: the miner, a refresh of the headers or the broadcast never returns; a block that was relayed
  before is then neither recorded nor watched for its payment. \<open>Crashed\<close>: a panic, recovered by \<open>miningLoop\<close>, which then ends
  with the status \<open>error\<close>. \<open>Retry\<close>: no block was mined. \<open>Unsolved\<close>: nothing to submit.
\<close>

datatype round_result =
    Hang
  | Crashed go_panic
  | Retry RoundState
  | Unsolved RoundState
  | Submitted RoundState Block u32 "submit_error + string"

definition finish_round ::
  "scrypt_key \<Rightarrow> string \<Rightarrow> RoundEnv \<Rightarrow> BlockTemplate \<Rightarrow> Block \<Rightarrow> MineOutcome \<Rightarrow> RoundState \<Rightarrow> round_result" where
  "finish_round key netErr env t block out s =
     (let s = count_hashes env (moHashCount out) (log_hashes t (moHashCount out) (reset_limits (adapt_cap env t (moHashCount out) s))) in
      case validate_result (template_target t) out of
        Inl p \<Rightarrow> Crashed p
      | Inr found \<Rightarrow>
          if \<not> found then Unsolved s
          else if p2p_testnet s \<and> parent_moved (reValidateTip env) t
          then (if \<not> reRefresh env DiscardedSolve then Hang
                else Unsolved (round_log (''Discarded orphan-risk block at h='' @ Itoa (tHeight t) @ '' - remining tip'') s))
          else case submit_found key netErr env t block (moNonce out) (the (moHash out)) s of
            None \<Rightarrow> Hang
          | Some (Inl p) \<Rightarrow> Crashed p
          | Some (Inr (res, s)) \<Rightarrow> Submitted s block (moNonce out) res)"

definition mining_round :: "scrypt_key \<Rightarrow> string \<Rightarrow> RoundEnv \<Rightarrow> RoundState \<Rightarrow> round_result" where
  "mining_round key netErr env s0 =
     (if p2p_mode s0 \<and> \<not> reRefresh env BeforeTemplate then Hang
      else let s = save_tip_step env s0 in
      case round_template env s of
        None \<Rightarrow> Retry s
      | Some t \<Rightarrow>
          if template_stale env s t then (if \<not> reRefresh env StaleTemplate then Hang else Retry s)
          else case createEmptyBlock t (rsMiner s) of
            (Inl e, m) \<Rightarrow> Retry (s\<lparr>rsMiner := m\<rparr>)
          | (Inr block, m) \<Rightarrow>
              let s = update_current env t (s\<lparr>rsMiner := m\<rparr>) in
              case mine_block key env block (tTarget t) (round_limits s) of
                None \<Rightarrow> Hang
              | Some (Inl p) \<Rightarrow> Crashed p
              | Some (Inr (out, m)) \<Rightarrow> finish_round key netErr env t block out (s\<lparr>rsMiner := m\<rparr>))"

section \<open>The cap\<close>

lemma clamp_cap_bounds: "12000 \<le> clamp_cap n \<and> clamp_cap n \<le> 40000"
  by (auto simp: clamp_cap_def Let_def not_less)

lemma clamp_cap_id [simp]: "12000 \<le> n \<Longrightarrow> n \<le> 40000 \<Longrightarrow> clamp_cap n = n"
  by (auto simp: clamp_cap_def Let_def not_less)

lemma clamp_cap_unat: "unat (clamp_cap n) = min 40000 (max 12000 (unat n))"
  by (auto simp: clamp_cap_def Let_def word_less_nat_alt)

lemma unat_percent:
  assumes "n \<le> (40000 :: u64)" "p < 1000"
  shows "unat (n * of_nat p div 100) = unat n * p div 100"
proof -
  have "unat n \<le> 40000" using assms(1) by (simp add: word_le_nat_alt)
  then have "unat n * p \<le> 40000 * 1000" using assms(2) by (intro mult_le_mono) simp_all
  then have "unat n * p < 2 ^ 64" by (rule le_less_trans) simp
  then have "unat (n * of_nat p) = unat n * p"
    using assms(2) by (simp add: unat_word_ariths unat_of_nat)
  then show ?thesis by (simp add: unat_div)
qed

lemma adapt_cap_simps [simp]:
  "rsMiner (adapt_cap env t h s) = rsMiner s" "rsStats (adapt_cap env t h s) = rsStats s"
  "rsBlocks (adapt_cap env t h s) = rsBlocks s" "rsFiles (adapt_cap env t h s) = rsFiles s"
  "rsHashCounter (adapt_cap env t h s) = rsHashCounter s"
  by (simp_all add: adapt_cap_def Let_def split: prod.split)

definition cap_ok :: "RoundState \<Rightarrow> bool" where
  "cap_ok s \<longleftrightarrow> 12000 \<le> rsCap s \<and> rsCap s \<le> 40000 \<and> rsStable s < 3"

lemma next_cap_stable: "n < 3 \<Longrightarrow> snd (next_cap c a st el ag h n) < 3"
  by (auto simp: next_cap_def)

lemma adapt_cap_ok: "cap_ok s \<Longrightarrow> cap_ok (adapt_cap env t h s)"
  using clamp_cap_bounds
  by (auto simp: cap_ok_def adapt_cap_def Let_def split: prod.split)
     (metis next_cap_stable snd_conv)

text \<open>The number of hashes per testnet round stays between 12000 and 40000. When the tip moved
  during the round and an adjustment is due, the cap is cut, by 35 percent for four blocks or more
  and by 20 otherwise, and it never falls below 12000.\<close>

theorem testnet_cap_adapts:
  assumes "cap_ok s" "p2p_testnet s"
  shows "cap_ok (adapt_cap env t hashes s) \<and>
    (1 \<le> tip_advance env t \<and> (\<forall>a. rsLastAdjust s = Some a \<longrightarrow> 1000 \<le> reNowMs env - a) \<longrightarrow>
      unat (rsCap (adapt_cap env t hashes s)) =
        max 12000 (unat (rsCap s) * (if 4 \<le> tip_advance env t then 65 else 80) div 100))"
proof -
  have c: "rsCap s \<le> 40000" "unat (rsCap s) \<le> 40000"
    using assms(1) by (auto simp: cap_ok_def word_le_nat_alt)
  have p: "unat (rsCap s * 65 div 100) = unat (rsCap s) * 65 div 100"
    "unat (rsCap s * 80 div 100) = unat (rsCap s) * 80 div 100"
    using unat_percent [OF c(1), of 65] unat_percent [OF c(1), of 80] by simp_all
  have le: "unat (rsCap s) * 65 div 100 \<le> 40000" "unat (rsCap s) * 80 div 100 \<le> 40000"
    using c(2) by simp_all
  have "unat (rsCap (adapt_cap env t hashes s)) =
      max 12000 (unat (rsCap s) * (if 4 \<le> tip_advance env t then 65 else 80) div 100)"
    if "1 \<le> tip_advance env t" "\<forall>a. rsLastAdjust s = Some a \<longrightarrow> 1000 \<le> reNowMs env - a"
    using that assms(2) le by (auto simp: adapt_cap_def next_cap_def clamp_cap_unat p Let_def split: option.split)
  with adapt_cap_ok [OF assms(1)] show ?thesis by blast
qed

section \<open>What the parts of a round leave alone\<close>

lemma set_round_max_simps [simp]:
  "mConfig (set_round_max n m) = mConfig m" "mPaymentMonitor (set_round_max n m) = mPaymentMonitor m"
  "mStatus (set_round_max n m) = mStatus m" "mRpcClient (set_round_max n m) = mRpcClient m"
  "mMiner (set_round_max n m) = (mMiner m)\<lparr>MaxHashesThisRound := n\<rparr>"
  "mGpuMiner (set_round_max n m) = (mGpuMiner m)\<lparr>gMaxHashesThisRound := n\<rparr>"
  by (simp_all add: set_round_max_def)

lemma round_limits_simps [simp]:
  "mConfig (round_limits s) = mConfig (rsMiner s)" "mPaymentMonitor (round_limits s) = mPaymentMonitor (rsMiner s)"
  "mRpcClient (round_limits s) = mRpcClient (rsMiner s)"
  by (simp_all add: round_limits_def)

lemma log_simps [simp]:
  "mPaymentMonitor (broadcastLogMessage msg m) = mPaymentMonitor m"
  "mMiner (broadcastLogMessage msg m) = mMiner m" "mGpuMiner (broadcastLogMessage msg m) = mGpuMiner m"
  "mP2pClient (broadcastLogMessage msg m) = mP2pClient m" "mRpcClient (broadcastLogMessage msg m) = mRpcClient m"
  "mExtraNonce (broadcastLogMessage msg m) = mExtraNonce m"
  by (simp_all add: broadcastLogMessage_def add_log_def Let_def)

lemma round_log_simps [simp]:
  "rsMiner (round_log msg s) = broadcastLogMessage msg (rsMiner s)" "rsStats (round_log msg s) = rsStats s"
  "rsBlocks (round_log msg s) = rsBlocks s" "rsCap (round_log msg s) = rsCap s"
  "rsStable (round_log msg s) = rsStable s"
  by (simp_all add: round_log_def)

lemma save_tip_step_simps [simp]:
  "rsMiner (save_tip_step env s) = rsMiner s" "rsStats (save_tip_step env s) = rsStats s"
  "rsBlocks (save_tip_step env s) = rsBlocks s" "rsCap (save_tip_step env s) = rsCap s"
  "rsStable (save_tip_step env s) = rsStable s"
  by (simp_all add: save_tip_step_def split: option.split)

lemma update_current_simps [simp]:
  "rsMiner (update_current env t s) = rsMiner s" "rsBlocks (update_current env t s) = rsBlocks s"
  "rsCap (update_current env t s) = rsCap s" "rsStable (update_current env t s) = rsStable s"
  "msBlocksFound (rsStats (update_current env t s)) = msBlocksFound (rsStats s)"
  "msBlocksAccepted (rsStats (update_current env t s)) = msBlocksAccepted (rsStats s)"
  by (simp_all add: update_current_def Let_def)

lemma log_hashes_simps [simp]:
  "mConfig (rsMiner (log_hashes t n s)) = mConfig (rsMiner s)" "mMiner (rsMiner (log_hashes t n s)) = mMiner (rsMiner s)"
  "mGpuMiner (rsMiner (log_hashes t n s)) = mGpuMiner (rsMiner s)"
  "mPaymentMonitor (rsMiner (log_hashes t n s)) = mPaymentMonitor (rsMiner s)"
  "rsBlocks (log_hashes t n s) = rsBlocks s" "rsCap (log_hashes t n s) = rsCap s"
  "rsStable (log_hashes t n s) = rsStable s" "rsStats (log_hashes t n s) = rsStats s"
  by (simp_all add: log_hashes_def logHashAttempts_def broadcastLogMessage_def add_log_def Let_def split: option.split)

lemma count_hashes_simps [simp]:
  "rsMiner (count_hashes env n s) = rsMiner s" "rsBlocks (count_hashes env n s) = rsBlocks s"
  "rsCap (count_hashes env n s) = rsCap s" "rsStable (count_hashes env n s) = rsStable s"
  "msBlocksFound (rsStats (count_hashes env n s)) = msBlocksFound (rsStats s)"
  "msBlocksAccepted (rsStats (count_hashes env n s)) = msBlocksAccepted (rsStats s)"
  by (simp_all add: count_hashes_def Let_def)

lemma tick_stats_simps [simp]:
  "rsMiner (tick_stats e s) = rsMiner s" "rsBlocks (tick_stats e s) = rsBlocks s"
  "rsCap (tick_stats e s) = rsCap s" "rsStable (tick_stats e s) = rsStable s"
  "msBlocksFound (rsStats (tick_stats e s)) = msBlocksFound (rsStats s)"
  "msBlocksAccepted (rsStats (tick_stats e s)) = msBlocksAccepted (rsStats s)"
  by (simp_all add: tick_stats_def)

lemma reset_limits_simps [simp]:
  "rsStats (reset_limits s) = rsStats s" "rsBlocks (reset_limits s) = rsBlocks s"
  "rsCap (reset_limits s) = rsCap s" "rsStable (reset_limits s) = rsStable s"
  "mConfig (rsMiner (reset_limits s)) = mConfig (rsMiner s)"
  "mPaymentMonitor (rsMiner (reset_limits s)) = mPaymentMonitor (rsMiner s)"
  by (simp_all add: reset_limits_def)

lemma createEmptyBlock_frame:
  assumes "createEmptyBlock t m = (r, m')"
  shows "m' = m\<lparr>mExtraNonce := mExtraNonce m'\<rparr>"
  using assms by (auto simp: createEmptyBlock_def Let_def split: sum.splits if_splits)

lemma gpu_MineBlock_limit:
  "gMaxHashesThisRound (snd (gpu_MineBlock ocl g b tg f1 f2 f3)) = gMaxHashesThisRound g"
  by (auto simp: gpu_MineBlock_def gpu_Initialize_def Let_def split: sum.split option.split)

lemma mine_block_frame:
  assumes "mine_block key env b tg m = Some (Inr (out, m'))"
  shows "m' = m\<lparr>mGpuMiner := mGpuMiner m'\<rparr>"
    and "gMaxHashesThisRound (mGpuMiner m') = gMaxHashesThisRound (mGpuMiner m)"
  using assms gpu_MineBlock_limit [of "reOpenCL env" "mGpuMiner m" b tg "reGpuRound env" "reCpuInner env" "reCpuOuter env"]
  by (auto simp: mine_block_def split: prod.splits if_splits option.splits sum.splits)

lemma submitBlock_frame:
  assumes "submitBlock key bOk rOk b n m = Some (Inr (r, m'))"
  shows "m' = m\<lparr>mP2pClient := mP2pClient m'\<rparr>"
proof -
  have client: "(if mP2pClient m = None then m\<lparr>mP2pClient := x\<rparr> else m) =
      m\<lparr>mP2pClient := (if mP2pClient m = None then x else mP2pClient m)\<rparr>" for x by simp
  show ?thesis
    using assms unfolding submitBlock_def Let_def client
    by (auto split: list.splits if_splits option.splits sum.splits)
qed

section \<open>The invariant of the rounds\<close>

interpretation round_blocks: bounded_log push_block rsBlocks 100
  by unfold_locales (auto simp: push_block_def takelast_def Let_def)

definition record_ok :: "SubmittedBlock \<Rightarrow> bool" where
  "record_ok b \<longleftrightarrow> (sbBroadcastOk b \<longleftrightarrow> sbError b = None) \<and> (\<not> sbBroadcastOk b \<longrightarrow> sbPeerCount b = 0)"

definition limits_clear :: "Miner \<Rightarrow> bool" where
  "limits_clear m \<longleftrightarrow> MaxHashesThisRound (mMiner m) = 0 \<and> gMaxHashesThisRound (mGpuMiner m) = 0"

definition round_inv :: "RoundState \<Rightarrow> bool" where
  "round_inv s \<longleftrightarrow> cap_ok s \<and> length (rsBlocks s) \<le> 100 \<and> list_all record_ok (rsBlocks s) \<and>
     msBlocksFound (rsStats s) = msBlocksAccepted (rsStats s) \<and>
     limits_clear (rsMiner s) \<and> pred_option monitor_inv (mPaymentMonitor (rsMiner s))"

lemma limits_clear_log [simp]: "limits_clear (rsMiner (log_hashes t n s)) = limits_clear (rsMiner s)"
  by (simp add: limits_clear_def)

definition initial_round :: "Miner \<Rightarrow> tip_files \<Rightarrow> RoundState" where
  "initial_round m files =
     \<lparr>rsMiner = m, rsFiles = files,
      rsStats = \<lparr>msHashRate = 0, msTotalHashes = 0, msBlocksFound = 0, msBlocksAccepted = 0,
        msBlocksStale = 0, msCurrentBlock = None, msBlockAttemptSeconds = 0\<rparr>,
      rsBlocks = [], rsCap = 12000, rsStable = 0, rsLastAdjust = None, rsHashCounter = 0\<rparr>"

inductive round_step :: "scrypt_key \<Rightarrow> string \<Rightarrow> RoundState \<Rightarrow> RoundState \<Rightarrow> bool" for key netErr where
  retry: "mining_round key netErr env s = Retry s' \<Longrightarrow> round_step key netErr s s'"
| unsolved: "mining_round key netErr env s = Unsolved s' \<Longrightarrow> round_step key netErr s s'"
| submitted: "mining_round key netErr env s = Submitted s' b n r \<Longrightarrow> round_step key netErr s s'"
| ticked: "round_step key netErr s (tick_stats e s)"
| checked: "round_step key netErr s (s\<lparr>rsMiner := (rsMiner s)\<lparr>mPaymentMonitor :=
      map_option (CheckForPayments c) (mPaymentMonitor (rsMiner s))\<rparr>\<rparr>)"
| tuned: "round_step key netErr s (s\<lparr>rsMiner := snd (optimizeConfiguration now rate (opt, rsMiner s))\<rparr>)"

lemma bump_simps [simp]:
  "rsMiner (bump_stale s) = rsMiner s" "rsBlocks (bump_stale s) = rsBlocks s" "rsCap (bump_stale s) = rsCap s"
  "rsStable (bump_stale s) = rsStable s" "rsMiner (bump_found s) = rsMiner s"
  "rsBlocks (bump_found s) = rsBlocks s" "rsCap (bump_found s) = rsCap s" "rsStable (bump_found s) = rsStable s"
  "msBlocksFound (rsStats (bump_stale s)) = msBlocksFound (rsStats s)"
  "msBlocksAccepted (rsStats (bump_stale s)) = msBlocksAccepted (rsStats s)"
  "msBlocksFound (rsStats (bump_found s)) = msBlocksFound (rsStats s) + 1"
  "msBlocksAccepted (rsStats (bump_found s)) = msBlocksAccepted (rsStats s) + 1"
  by (simp_all add: bump_stale_def bump_found_def)

lemma log_submission_simps [simp]:
  "mConfig (rsMiner (log_submission netErr res s)) = mConfig (rsMiner s)"
  "mMiner (rsMiner (log_submission netErr res s)) = mMiner (rsMiner s)"
  "mGpuMiner (rsMiner (log_submission netErr res s)) = mGpuMiner (rsMiner s)"
  "mPaymentMonitor (rsMiner (log_submission netErr res s)) = mPaymentMonitor (rsMiner s)"
  "rsBlocks (log_submission netErr res s) = rsBlocks s" "rsCap (log_submission netErr res s) = rsCap s"
  "rsStable (log_submission netErr res s) = rsStable s"
  "msBlocksFound (rsStats (log_submission netErr res s)) - msBlocksAccepted (rsStats (log_submission netErr res s)) =
     msBlocksFound (rsStats s) - msBlocksAccepted (rsStats s)"
  by (cases res; simp add: log_submission_def)+

lemma track_round_simps [simp]:
  "mConfig (rsMiner (track_round now b s)) = mConfig (rsMiner s)"
  "mMiner (rsMiner (track_round now b s)) = mMiner (rsMiner s)"
  "mGpuMiner (rsMiner (track_round now b s)) = mGpuMiner (rsMiner s)"
  "mPaymentMonitor (rsMiner (track_round now b s)) =
     map_option (TrackSubmittedBlock now (sbHeight b) (sbHash b)) (mPaymentMonitor (rsMiner s))"
  "rsBlocks (track_round now b s) = rsBlocks s" "rsCap (track_round now b s) = rsCap s"
  "rsStable (track_round now b s) = rsStable s" "rsStats (track_round now b s) = rsStats s"
  by (simp_all add: track_round_def)

lemma push_block_simps [simp]:
  "rsMiner (push_block b s) = rsMiner s" "rsStats (push_block b s) = rsStats s"
  "rsCap (push_block b s) = rsCap s" "rsStable (push_block b s) = rsStable s"
  by (simp_all add: push_block_def Let_def)

lemma before_submit_simps [simp]:
  "mConfig (rsMiner (before_submit env t s)) = mConfig (rsMiner s)"
  "mMiner (rsMiner (before_submit env t s)) = mMiner (rsMiner s)"
  "mGpuMiner (rsMiner (before_submit env t s)) = mGpuMiner (rsMiner s)"
  "mPaymentMonitor (rsMiner (before_submit env t s)) = mPaymentMonitor (rsMiner s)"
  "rsBlocks (before_submit env t s) = rsBlocks s" "rsCap (before_submit env t s) = rsCap s"
  "rsStable (before_submit env t s) = rsStable s"
  "msBlocksFound (rsStats (before_submit env t s)) = msBlocksFound (rsStats s)"
  "msBlocksAccepted (rsStats (before_submit env t s)) = msBlocksAccepted (rsStats s)"
  by (simp_all add: before_submit_def Let_def)

lemma submit_found_cases:
  assumes "submit_found key netErr env t block n h s = Some (Inr (res, s'))"
  obtains m b where "submitBlock key (reBroadcast env) (reRpcOk env) block n (rsMiner (before_submit env t s)) = Some (Inr (res, m))"
    and "record_ok b" "sbBroadcastOk b = (\<exists>hex. res = Inr hex)" "sbHash b = HashToDisplayHex h"
    and "sbHeight b = tHeight t" "rsBlocks s' = takelast 100 (rsBlocks s @ [b])"
    and "mMiner (rsMiner s') = mMiner (rsMiner s)" "mGpuMiner (rsMiner s') = mGpuMiner (rsMiner s)"
    and "mConfig (rsMiner s') = mConfig (rsMiner s)"
    and "mPaymentMonitor (rsMiner s') =
      map_option (TrackSubmittedBlock (reNow env) (tHeight t) (HashToDisplayHex h)) (mPaymentMonitor (rsMiner s))"
    and "rsCap s' = rsCap s" "rsStable s' = rsStable s"
    and "msBlocksFound (rsStats s') - msBlocksAccepted (rsStats s') =
      msBlocksFound (rsStats s) - msBlocksAccepted (rsStats s)"
proof -
  from assms obtain m where m: "submitBlock key (reBroadcast env) (reRpcOk env) block n
      (rsMiner (before_submit env t s)) = Some (Inr (res, m))"
    and s': "s' = (let s1 = log_submission netErr res ((before_submit env t s)\<lparr>rsMiner := m\<rparr>);
      b = submission_record env t n h res s1 in track_round (reNow env) b (push_block b s1))"
    by (auto simp: submit_found_def Let_def split: option.splits sum.splits if_splits)
  have mm: "mConfig m = mConfig (rsMiner s)" "mMiner m = mMiner (rsMiner s)" "mGpuMiner m = mGpuMiner (rsMiner s)"
    "mPaymentMonitor m = mPaymentMonitor (rsMiner s)"
    by (subst submitBlock_frame [OF m], simp)+
  show ?thesis
    by (rule that [OF m, of "submission_record env t n h res
          (log_submission netErr res ((before_submit env t s)\<lparr>rsMiner := m\<rparr>))"]; cases res)
       (simp_all add: s' mm Let_def record_ok_def submission_record_def round_blocks.items_push)
qed

lemma mining_round_retry:
  assumes "mining_round key netErr env s = Retry s'"
  obtains x where "rsMiner s' = (rsMiner s)\<lparr>mExtraNonce := x\<rparr>" "rsStats s' = rsStats s"
    "rsBlocks s' = rsBlocks s" "rsCap s' = rsCap s" "rsStable s' = rsStable s"
proof -
  have no: "finish_round key netErr env t b out s1 \<noteq> Retry s2" for t b out s1 s2
    by (auto simp: finish_round_def Let_def split: sum.split prod.split option.split)
  from assms consider "s' = save_tip_step env s"
    | t e m where "createEmptyBlock t (rsMiner s) = (Inl e, m)" "s' = (save_tip_step env s)\<lparr>rsMiner := m\<rparr>"
    by (auto simp: mining_round_def Let_def no split: option.splits prod.splits sum.splits if_splits)
  then show ?thesis
  proof cases
    case 1
    then show ?thesis by (intro that [of "mExtraNonce (rsMiner s)"]) simp_all
  next
    case (2 t e m)
    from createEmptyBlock_frame [OF 2(1)] have "m = (rsMiner s)\<lparr>mExtraNonce := mExtraNonce m\<rparr>" .
    with 2(2) show ?thesis by (intro that [of "mExtraNonce m"]) simp_all
  qed
qed

definition mined_state :: "RoundEnv \<Rightarrow> BlockTemplate \<Rightarrow> Miner \<Rightarrow> RoundState \<Rightarrow> RoundState" where
  "mined_state env t m s = update_current env t ((save_tip_step env s)\<lparr>rsMiner := m\<rparr>)"

lemma mined_state_simps [simp]:
  "rsMiner (mined_state env t m s) = m" "rsBlocks (mined_state env t m s) = rsBlocks s"
  "rsCap (mined_state env t m s) = rsCap s" "rsStable (mined_state env t m s) = rsStable s"
  "msBlocksFound (rsStats (mined_state env t m s)) = msBlocksFound (rsStats s)"
  "msBlocksAccepted (rsStats (mined_state env t m s)) = msBlocksAccepted (rsStats s)"
  by (simp_all add: mined_state_def)

lemma mining_round_mined:
  assumes "mining_round key netErr env s = r" "r \<noteq> Hang" "\<And>p. r \<noteq> Crashed p" "\<And>s'. r \<noteq> Retry s'"
  obtains t block m1 out m2 where "round_template env (save_tip_step env s) = Some t"
    and "createEmptyBlock t (rsMiner s) = (Inr block, m1)"
    and "mine_block key env block (tTarget t) (round_limits (mined_state env t m1 s)) = Some (Inr (out, m2))"
    and "r = finish_round key netErr env t block out ((mined_state env t m1 s)\<lparr>rsMiner := m2\<rparr>)"
  using assms
  by (auto simp: mining_round_def mined_state_def Let_def split: option.splits prod.splits sum.splits if_splits)

lemma finish_round_cases:
  assumes "finish_round key netErr env t block out s = r" "\<And>p. r \<noteq> Crashed p" "r \<noteq> Hang"
  defines "s1 \<equiv> count_hashes env (moHashCount out) (log_hashes t (moHashCount out) (reset_limits (adapt_cap env t (moHashCount out) s)))"
  obtains (none) msg where "r = Unsolved s1 \<or> r = Unsolved (round_log msg s1)"
    | (found) res s' where "validate_result (template_target t) out = Inr True"
      "\<not> (p2p_testnet s1 \<and> parent_moved (reValidateTip env) t)"
      "submit_found key netErr env t block (moNonce out) (the (moHash out)) s1 = Some (Inr (res, s'))"
      "r = Submitted s' block (moNonce out) res"
  using assms(1-3) unfolding finish_round_def Let_def s1_def [symmetric]
  by (auto split: sum.splits if_splits prod.splits option.splits)

lemma mined_limits_clear:
  assumes "limits_clear (rsMiner s)" "createEmptyBlock t (rsMiner s) = (r, m1)"
    and "mine_block key env b tg (round_limits (mined_state env t m1 s)) = Some (Inr (out, m2))"
  shows "limits_clear (rsMiner (reset_limits (adapt_cap env t h ((mined_state env t m1 s)\<lparr>rsMiner := m2\<rparr>))))"
    and "mPaymentMonitor m2 = mPaymentMonitor (rsMiner s)" "mConfig m2 = mConfig (rsMiner s)"
proof -
  have m1: "mMiner m1 = mMiner (rsMiner s)" "mGpuMiner m1 = mGpuMiner (rsMiner s)" "mConfig m1 = mConfig (rsMiner s)"
    "mPaymentMonitor m1 = mPaymentMonitor (rsMiner s)"
    by (subst createEmptyBlock_frame [OF assms(2)], simp)+
  define m3 where "m3 = round_limits (mined_state env t m1 s)"
  note frame = mine_block_frame [OF assms(3), folded m3_def]
  obtain g where g: "m2 = m3\<lparr>mGpuMiner := g\<rparr>" using frame(1) by blast
  have m2: "mMiner m2 = mMiner m3" "mConfig m2 = mConfig m1" "mPaymentMonitor m2 = mPaymentMonitor m1"
    "gMaxHashesThisRound (mGpuMiner m2) = gMaxHashesThisRound (mGpuMiner m3)"
    using frame(2) by (simp_all add: g m3_def)
  show "mPaymentMonitor m2 = mPaymentMonitor (rsMiner s)" "mConfig m2 = mConfig (rsMiner s)"
    using m1 m2 by simp_all
  show "limits_clear (rsMiner (reset_limits (adapt_cap env t h ((mined_state env t m1 s)\<lparr>rsMiner := m2\<rparr>))))"
  proof (cases "ConnectionMode (mConfig m1) = ''p2p'' \<and> cfgNetwork (mConfig m1) \<in> {''testnet'', ''mainnet''}")
    case True
    then show ?thesis using m2(2) by (simp add: reset_limits_def limits_clear_def)
  next
    case False
    then have "m3 = m1" by (auto simp: m3_def round_limits_def)
    with False assms(1) m1 m2 show ?thesis by (auto simp: reset_limits_def limits_clear_def)
  qed
qed

lemma optimizer_frame:
  "mGpuMiner (snd (optimizeConfiguration now rate s)) = mGpuMiner (snd s)"
  "mPaymentMonitor (snd (optimizeConfiguration now rate s)) = mPaymentMonitor (snd s)"
  "MaxHashesThisRound (mMiner (snd (optimizeConfiguration now rate s))) = MaxHashesThisRound (mMiner (snd s))"
  by (cases s; cases rule: optimizeConfiguration_cases [of now rate s];
      simp add: applyProfile_def broadcastLogMessage_def add_log_def Let_def)+

lemma monitor_option_inv:
  assumes "pred_option monitor_inv p"
  shows "pred_option monitor_inv (map_option (TrackSubmittedBlock now k x) p)"
    and "pred_option monitor_inv (map_option (CheckForPayments c) p)"
  using assms monitor_step_inv [OF monitor_step.track] monitor_step_inv [OF monitor_step.check] by (cases p; simp)+

lemma finish_round_inv:
  assumes "finish_round key netErr env t block out s = r" "r = Unsolved s' \<or> r = Submitted s' b n res"
    and "cap_ok s" "length (rsBlocks s) \<le> 100" "list_all record_ok (rsBlocks s)"
    and "msBlocksFound (rsStats s) = msBlocksAccepted (rsStats s)" "pred_option monitor_inv (mPaymentMonitor (rsMiner s))"
    and "limits_clear (rsMiner (reset_limits (adapt_cap env t (moHashCount out) s)))"
  shows "round_inv s'"
proof -
  let ?s1 = "count_hashes env (moHashCount out) (log_hashes t (moHashCount out) (reset_limits (adapt_cap env t (moHashCount out) s)))"
  have s1: "round_inv ?s1"
    using assms(3-8) adapt_cap_ok [OF assms(3), of env t "moHashCount out"]
    by (simp add: round_inv_def cap_ok_def)
  have nc: "\<And>p. r \<noteq> Crashed p" "r \<noteq> Hang" using assms(2) by auto
  from assms(1) nc show ?thesis
  proof (cases rule: finish_round_cases)
    case (none msg)
    with assms(2) s1 show ?thesis by (auto simp: round_inv_def cap_ok_def limits_clear_def)
  next
    case (found res' s'')
    then have "s'' = s'" using assms(2) by auto
    from found(3) [unfolded this] show ?thesis
    proof (cases rule: submit_found_cases)
      case (1 m rec)
      have "list_all record_ok (takelast 100 (rsBlocks ?s1 @ [rec]))"
        using s1 1(2) set_mono_suffix [OF suffix_takelast, of 100 "rsBlocks ?s1 @ [rec]"]
        by (auto simp: round_inv_def list_all_iff)
      moreover have "pred_option monitor_inv (mPaymentMonitor (rsMiner s'))"
        using s1 1(10) by (simp add: round_inv_def monitor_option_inv(1))
      ultimately show ?thesis
        using s1 1 by (simp add: round_inv_def cap_ok_def limits_clear_def)
    qed
  qed
qed

lemma round_step_inv:
  assumes "round_step key netErr s s'" "round_inv s"
  shows "round_inv s'"
proof -
  have mined: "round_inv s'" if "mining_round key netErr env s = r" "r = Unsolved s' \<or> r = Submitted s' b n res"
    for env r b n res
  proof -
    from that(2) have "r \<noteq> Hang" "\<And>p. r \<noteq> Crashed p" "\<And>x. r \<noteq> Retry x" by auto
    with that(1) obtain t block m1 out m2 where
      c: "createEmptyBlock t (rsMiner s) = (Inr block, m1)"
      and m: "mine_block key env block (tTarget t) (round_limits (mined_state env t m1 s)) = Some (Inr (out, m2))"
      and r: "r = finish_round key netErr env t block out ((mined_state env t m1 s)\<lparr>rsMiner := m2\<rparr>)"
      by (rule mining_round_mined)
    have cl: "limits_clear (rsMiner s)" using assms(2) by (simp add: round_inv_def)
    show ?thesis
      by (rule finish_round_inv [OF r [symmetric] that(2)])
         (use assms(2) mined_limits_clear [OF cl c m] in \<open>auto simp: round_inv_def cap_ok_def\<close>)
  qed
  from assms(1) show ?thesis
  proof cases
    case (retry env)
    then show ?thesis
      by (rule mining_round_retry) (use assms(2) in \<open>simp add: round_inv_def cap_ok_def limits_clear_def\<close>)
  next
    case (unsolved env)
    then show ?thesis by (intro mined [of env]) auto
  next
    case (submitted env b n r)
    then show ?thesis by (intro mined [of env]) auto
  next
    case (ticked e)
    then show ?thesis using assms(2) by (simp add: round_inv_def cap_ok_def)
  next
    case (checked c)
    then show ?thesis using assms(2)
      by (simp add: round_inv_def cap_ok_def limits_clear_def monitor_option_inv(2))
  next
    case (tuned now rate opt)
    then show ?thesis using assms(2) by (simp add: round_inv_def cap_ok_def limits_clear_def optimizer_frame)
  qed
qed

text \<open>C4: in every history of rounds, statistics ticks, payment checks and tuning by the optimizer,
  at most 100 submissions are kept, each either broadcast or with its error, as many blocks count as
  found as accepted, the testnet cap stays in range, the round limits are cleared between rounds
  and the payment monitor keeps its invariant.\<close>

theorem rounds_invariant:
  assumes "(round_step key netErr)\<^sup>*\<^sup>* (initial_round m files) s"
    and "limits_clear m" "pred_option monitor_inv (mPaymentMonitor m)"
  shows "round_inv s"
  using assms(1)
proof (induction rule: rtranclp_induct)
  case base
  then show ?case using assms(2,3) by (simp add: round_inv_def initial_round_def cap_ok_def)
next
  case (step y z)
  then show ?case by (blast intro: round_step_inv)
qed

theorem rounds_invariant_witness:
  "round_inv (tick_stats 5 (initial_round sampleMiner (\<lambda>_. None)))"
proof (rule rounds_invariant)
  show "(round_step zeroKey '''')\<^sup>*\<^sup>* (initial_round sampleMiner (\<lambda>_. None))
      (tick_stats 5 (initial_round sampleMiner (\<lambda>_. None)))"
    by (blast intro: round_step.ticked)
  show "limits_clear sampleMiner" "pred_option monitor_inv (mPaymentMonitor sampleMiner)"
    by (simp_all add: limits_clear_def sampleMiner_def newMinerP2POnly_def miner_of_config_def Let_def
        SetNonceStrategy_def gpu_SetNonceStrategy_def NewScryptMinerWithConfig_def NewScryptMiner_def
        NewGPUMiner_def new_monitor_inv)
qed

definition sampleClient :: HeaderChain where
  "sampleClient = (newHeaderChain ''mainnet'')\<lparr>bestHeader := Some sampleTip, bestHeight := hHeight sampleTip\<rparr>"

definition sampleEnv :: RoundEnv where
  "sampleEnv =
     \<lparr>reNow = 1700000050, reClient = sampleClient, reAlignTip = Some sampleTip, reAfterTip = Some sampleTip,
      reValidateTip = Some sampleTip, reStaleTip = Some sampleTip, reRpcTip = None, reRpcTemplate = None,
      reRpcDifficulty = None, reUnixNano = 7, reStartNonce = 5, reSchedule = [], reOpenCL = None,
      reGpuRound = \<lambda>_. undefined, reCpuInner = \<lambda>_. undefined, reCpuOuter = \<lambda>_. undefined,
      reAttemptMs = 400, reHeadersAgeMs = 100, reNowMs = 5000, reRefresh = (\<lambda>_. True), reBroadcast = Some True, reRpcOk = False,
      reBroadcastPeers = 3\<rparr>"

definition sampleTestnet :: RoundState where
  "sampleTestnet = initial_round (sampleMiner\<lparr>mConfig := (mConfig sampleMiner)\<lparr>cfgNetwork := ''testnet''\<rparr>\<rparr>) (\<lambda>_. None)"

lemma sampleMiner_p2p [simp]:
  "ConnectionMode (mConfig sampleMiner) = ''p2p''" "cfgNetwork (mConfig sampleMiner) = ''mainnet''"
  "DeviceType (mConfig sampleMiner) = ''cpu''"
  by (simp_all add: sampleMiner_def newMinerP2POnly_def miner_of_config_def p2p_defaults_def sampleConfig_def
      initial_config_def or_default_def Let_def)

theorem testnet_cap_adapts_witness:
  "unat (rsCap (adapt_cap (sampleEnv\<lparr>reAfterTip := Some (sampleTip\<lparr>hHeight := 5000004\<rparr>)\<rparr>) sampleTemplate 9000
      (sampleTestnet\<lparr>rsCap := 40000\<rparr>))) = 26000"
proof -
  let ?s = "sampleTestnet\<lparr>rsCap := 40000\<rparr>"
  have "cap_ok ?s" "p2p_testnet ?s" "rsLastAdjust ?s = None"
    by (simp_all add: cap_ok_def sampleTestnet_def initial_round_def)
  moreover have "tip_advance (sampleEnv\<lparr>reAfterTip := Some (sampleTip\<lparr>hHeight := 5000004\<rparr>)\<rparr>) sampleTemplate = 4"
    by (simp add: tip_advance_def sampleTemplate_def)
  ultimately show ?thesis
    using testnet_cap_adapts [of ?s "sampleEnv\<lparr>reAfterTip := Some (sampleTip\<lparr>hHeight := 5000004\<rparr>)\<rparr>" sampleTemplate 9000]
    by simp
qed

section \<open>The template of a round\<close>

text \<open>The work a P2P round must show, and what its client must guarantee about the tip.\<close>

definition round_bits :: "RoundEnv \<Rightarrow> RoundState \<Rightarrow> u32" where
  "round_bits env s =
     (let c = reClient env; bits = lastNonMinDifficultyBits c in
      GetNextWorkRequiredExtended (bestHeader c) (reNow env) (cfgNetwork (mConfig (rsMiner s)))
        (if bits \<noteq> 0 then Some bits else None) (tipParentTimestamp c))"

definition good_tip :: "HeaderChain \<Rightarrow> BlockHeader \<Rightarrow> bool" where
  "good_tip c tip \<longleftrightarrow> bestHeader c = Some tip \<and> length (hHash tip) = 32 \<and>
     BitsToTarget (hBits tip) \<le> dogecoinPowLimitUint256 \<and>
     BitsToTarget (lastNonMinDifficultyBits c) \<le> dogecoinPowLimitUint256"

lemma p2p_round_template:
  assumes "p2p_mode s" "good_tip (reClient env) tip"
  obtains T b where "round_template env s = Some T" "tPreviousBlockHash T = HashToDisplayHex (hHash tip)"
    and "hexTo32Bytes (tPreviousBlockHash T) = Inr (hHash tip)" "tHeight T = hHeight tip + 1"
    and "hexDecode (tBits T) = Inr (put_u32 (round_bits env s))"
    and "template_target T = Some (max 1 (BitsToTarget (round_bits env s)))"
    and "hexDecode (tTarget T) = Inr b" "(if be_nat b = 0 then 1 else be_nat b) = max 1 (BitsToTarget (round_bits env s))"
    and "BitsToTarget (round_bits env s) \<le> dogecoinPowLimitUint256"
proof -
  let ?c = "reClient env" and ?net = "cfgNetwork (mConfig (rsMiner s))"
  let ?last = "if lastNonMinDifficultyBits ?c \<noteq> 0 then Some (lastNonMinDifficultyBits ?c) else None"
  have tip: "bestHeader ?c = Some tip" "length (hHash tip) = 32" and
    lim: "BitsToTarget (hBits tip) \<le> dogecoinPowLimitUint256"
    "\<And>b. ?last = Some b \<Longrightarrow> BitsToTarget b \<le> dogecoinPowLimitUint256"
    using assms(2) by (auto simp: good_tip_def split: if_splits)
  from template_of_tip [OF tip(2) lim, where lastNonMin = ?last and network = ?net and
      parentTime = "tipParentTimestamp ?c" and now = "reNow env"] obtain T b x where T:
    "BuildTemplateFromHeader (Some tip) ?net ?last (tipParentTimestamp ?c) (reNow env) = Inr T"
    "hexTo32Bytes (tPreviousBlockHash T) = Inr (hHash tip)" "hexDecode (tBits T) = Inr b"
    "get_u32 b = round_bits env s" "hexDecode (tTarget T) = Inr x" "be_nat x = BitsToTarget (round_bits env s)"
    "tHeight T = hHeight tip + 1"
    unfolding round_bits_def tip(1) Let_def by auto
  from T(1) have "tBits T = hexEncode (put_u32 (round_bits env s))" "tPreviousBlockHash T = HashToDisplayHex (hHash tip)"
    using tip by (auto simp: BuildTemplateFromHeader_def Let_def round_bits_def HashToDisplayHex_def)
  moreover have "BitsToTarget (round_bits env s) \<le> dogecoinPowLimitUint256"
    unfolding round_bits_def tip(1) Let_def by (rule next_work_le_limit) (use lim in auto)
  moreover have "round_template env s = Some T"
    using assms(1) T(1) tip(1) by (simp add: round_template_def Let_def)
  ultimately show ?thesis
    using T by (intro that [of T x]) (auto simp: template_target_def)
qed

lemma assembled_round_block:
  assumes "hexTo32Bytes (tPreviousBlockHash T) = Inr p" "hexDecode (tBits T) = Inr (put_u32 w)"
    and "createEmptyBlock T m = (Inr b, m')"
  shows "wf_block b" "bPrevBlock b = p" "bBits b = w"
    and "\<exists>tx. Transactions b = [tx] \<and> map (length \<circ> ScriptPubKey) (Outputs tx) = [25]"
proof -
  note spec = createEmptyBlock_spec [OF assms(3)]
  then show "wf_block b" "bPrevBlock b = p" using assms(1) by auto
  from spec assms(2) have "put_u32 (bBits b) = put_u32 w" by simp
  then show "bBits b = w" by (metis get_put_u32)
  from conjunct1 [OF conjunct2 [OF spec]] obtain tx where
    tx: "Transactions b = [tx]" "map ScriptPubKey (Outputs tx) = [payout_script (mConfig m)]"
    by (elim exE conjE)
  moreover from tx(2) obtain out where "Outputs tx = [out]" "ScriptPubKey out = payout_script (mConfig m)"
    by (cases "Outputs tx") auto
  ultimately show "\<exists>tx. Transactions b = [tx] \<and> map (length \<circ> ScriptPubKey) (Outputs tx) = [25]"
    by (intro exI [of _ tx]) (simp add: length_payout_script)
qed

lemma pow_hash_limit [simp]: "pow_hash key (m\<lparr>MaxHashesThisRound := n\<rparr>) b = pow_hash key m b"
  by (simp add: pow_hash_def)

lemma key_ok_limit [simp]: "key_ok key (m\<lparr>MaxHashesThisRound := n\<rparr>) = key_ok key m"
  by (simp add: key_ok_def)

lemma set_limit_again: "\<exists>k. (m\<lparr>MaxHashesThisRound := n\<rparr>) = m\<lparr>MaxHashesThisRound := k\<rparr>" "\<exists>k. m = m\<lparr>MaxHashesThisRound := k\<rparr>"
  by (blast, intro exI [of _ "MaxHashesThisRound m"]) simp

lemma round_limits_scrypt:
  "\<exists>k. mMiner (round_limits s) = (mMiner (rsMiner s))\<lparr>MaxHashesThisRound := k\<rparr>"
  unfolding round_limits_def by (auto intro: set_limit_again(2))

lemma reset_limits_scrypt:
  "\<exists>k. mMiner (rsMiner (reset_limits s)) = (mMiner (rsMiner s))\<lparr>MaxHashesThisRound := k\<rparr>"
  unfolding reset_limits_def by (auto intro: set_limit_again(2))

lemma mined_scrypt:
  assumes "createEmptyBlock t (rsMiner s) = (r, m1)"
    and "mine_block key env b tg (round_limits (mined_state env t m1 s)) = Some (Inr (out, m2))"
  obtains k where "mMiner (rsMiner (count_hashes env h (log_hashes t h (reset_limits (adapt_cap env t h
      ((mined_state env t m1 s)\<lparr>rsMiner := m2\<rparr>)))))) = (mMiner (rsMiner s))\<lparr>MaxHashesThisRound := k\<rparr>"
proof -
  have m1: "mMiner m1 = mMiner (rsMiner s)" by (subst createEmptyBlock_frame [OF assms(1)], simp)
  obtain g where g: "m2 = (round_limits (mined_state env t m1 s))\<lparr>mGpuMiner := g\<rparr>"
    using mine_block_frame(1) [OF assms(2)] by blast
  obtain k1 where k1: "mMiner (round_limits (mined_state env t m1 s)) = (mMiner (rsMiner s))\<lparr>MaxHashesThisRound := k1\<rparr>"
    using round_limits_scrypt [of "mined_state env t m1 s"] by (auto simp: m1)
  obtain k where "mMiner (rsMiner (reset_limits (adapt_cap env t h ((mined_state env t m1 s)\<lparr>rsMiner := m2\<rparr>)))) =
      (mMiner (rsMiner s))\<lparr>MaxHashesThisRound := k\<rparr>"
    using reset_limits_scrypt [of "adapt_cap env t h ((mined_state env t m1 s)\<lparr>rsMiner := m2\<rparr>)"]
    by (auto simp: g k1)
  then show ?thesis using that by simp
qed

text \<open>A relayed block of a finished round, from the state it is submitted in.\<close>

lemma finish_relays:
  assumes s1_def: "s1 = count_hashes env (moHashCount out) (log_hashes t (moHashCount out)
      (reset_limits (adapt_cap env t (moHashCount out) s2)))"
    and "finish_round key netErr env t block out s2 = Submitted s' b n (Inr hex)" "p2p_mode s"
    and "mConfig (rsMiner s1) = mConfig (rsMiner s)" "mMiner (rsMiner s1) = (mMiner (rsMiner s))\<lparr>MaxHashesThisRound := k\<rparr>"
    and "wf_block block" "key_ok key (mMiner (rsMiner s))" "BitsToTarget (bBits block) < 2 ^ 256"
  shows "b = block \<and> n = moNonce out \<and> hex = SerializeBlock (block\<lparr>bNonce := n\<rparr>) \<and>
    (\<exists>h. pow_hash key (mMiner (rsMiner s)) (block\<lparr>bNonce := n\<rparr>) = Some h \<and> le_nat h \<le> BitsToTarget (bBits block)) \<and>
    \<not> (p2p_testnet s \<and> parent_moved (reValidateTip env) t)"
proof -
  have "\<And>p. Submitted s' b n (Inr hex) \<noteq> Crashed p" "Submitted s' b n (Inr hex) \<noteq> Hang" by simp_all
  with assms(2) show ?thesis
  proof (cases rule: finish_round_cases)
    case (none msg)
    then show ?thesis by simp
  next
    case (found res s'')
    then have eq: "b = block" "n = moNonce out" "res = Inr hex" by simp_all
    from found(3) obtain m where sub: "submitBlock key (reBroadcast env) (reRpcOk env) block (moNonce out)
        (rsMiner (before_submit env t s1)) = Some (Inr (res, m))"
      unfolding s1_def by (rule submit_found_cases)
    from submitBlock_p2p_sound [OF sub [unfolded eq] _ assms(6)] found(2) assms(3-5,7,8)
    show ?thesis by (simp add: eq s1_def)
  qed
qed

text \<open>C2: whatever device and number of threads it mined with, a P2P round that reports a relayed
  block has relayed the serialisation of a block whose proof-of-work hash is within the target of
  its bits, whose bits are the work required on top of the tip it read, and whose parent is that
  tip; on testnet the parent is still the tip when the solution is checked.\<close>

theorem submitted_round_sound:
  assumes "mining_round key netErr env s = Submitted s' b n (Inr hex)" "p2p_mode s"
    and "good_tip (reClient env) tip" "key_ok key (mMiner (rsMiner s))"
  shows "hex = SerializeBlock (b\<lparr>bNonce := n\<rparr>) \<and> bPrevBlock b = hHash tip \<and> bBits b = round_bits env s \<and>
    (\<exists>h. pow_hash key (mMiner (rsMiner s)) (b\<lparr>bNonce := n\<rparr>) = Some h \<and> le_nat h \<le> BitsToTarget (bBits b)) \<and>
    BitsToTarget (bBits b) \<le> dogecoinPowLimitUint256 \<and>
    (\<forall>v. p2p_testnet s \<and> reValidateTip env = Some v \<and> length (hHash v) = 32 \<longrightarrow> hHash v = hHash tip)"
proof -
  have ne: "Submitted s' b n (Inr hex) \<noteq> Hang" "\<And>p. Submitted s' b n (Inr hex) \<noteq> Crashed p"
    "\<And>x. Submitted s' b n (Inr hex) \<noteq> Retry x" by simp_all
  from assms(1) ne obtain T block m1 out m2 where
    T: "round_template env (save_tip_step env s) = Some T" and c: "createEmptyBlock T (rsMiner s) = (Inr block, m1)"
    and mb: "mine_block key env block (tTarget T) (round_limits (mined_state env T m1 s)) = Some (Inr (out, m2))"
    and fin: "Submitted s' b n (Inr hex) = finish_round key netErr env T block out ((mined_state env T m1 s)\<lparr>rsMiner := m2\<rparr>)"
    by (rule mining_round_mined)
  have bits: "round_bits env (save_tip_step env s) = round_bits env s" by (simp add: round_bits_def)
  have "p2p_mode (save_tip_step env s)" using assms(2) by simp
  then obtain T' where T': "round_template env (save_tip_step env s) = Some T'"
    "tPreviousBlockHash T' = HashToDisplayHex (hHash tip)" "hexTo32Bytes (tPreviousBlockHash T') = Inr (hHash tip)"
    "hexDecode (tBits T') = Inr (put_u32 (round_bits env s))"
    "BitsToTarget (round_bits env s) \<le> dogecoinPowLimitUint256"
    by (rule p2p_round_template [OF _ assms(3), of "save_tip_step env s", unfolded bits])
  have TT: "T' = T" using T T'(1) by simp
  note blk = assembled_round_block [OF T'(3,4) [unfolded TT] c]
  let ?s1 = "count_hashes env (moHashCount out) (log_hashes T (moHashCount out) (reset_limits (adapt_cap env T (moHashCount out)
      ((mined_state env T m1 s)\<lparr>rsMiner := m2\<rparr>))))"
  obtain k where k: "mMiner (rsMiner ?s1) = (mMiner (rsMiner s))\<lparr>MaxHashesThisRound := k\<rparr>"
    by (rule mined_scrypt [OF c mb])
  have cfg: "mConfig (rsMiner ?s1) = mConfig (rsMiner s)"
  proof -
    have "mConfig m1 = mConfig (rsMiner s)" by (subst createEmptyBlock_frame [OF c], simp)
    moreover obtain g where "m2 = (round_limits (mined_state env T m1 s))\<lparr>mGpuMiner := g\<rparr>"
      using mine_block_frame(1) [OF mb] by blast
    ultimately show ?thesis by simp
  qed
  have lim: "BitsToTarget (bBits block) < 2 ^ 256" using T'(5) blk(3) by (simp add: dogecoinPowLimitUint256_def)
  note relay = finish_relays [OF refl fin [symmetric] assms(2) cfg k blk(1) assms(4) lim]
  moreover have "hHash v = hHash tip" if v: "p2p_testnet s" "reValidateTip env = Some v" "length (hHash v) = 32" for v
  proof -
    from relay v have "HashToDisplayHex (hHash v) = tPreviousBlockHash T"
      by (simp add: parent_moved_def tipHashDisplayHex_def)
    with T'(2) TT have "HashToDisplayHex (hHash v) = HashToDisplayHex (hHash tip)" by simp
    with v(3) assms(3) show ?thesis by (auto simp: good_tip_def intro: HashToDisplayHex_inj)
  qed
  ultimately show ?thesis using blk(2,3) T'(5) by auto
qed

text \<open>What a submission comes to in P2P mode: a broadcast or a refresh that never returns, or a result.\<close>

lemma submit_found_p2p:
  assumes "p2p_mode s" "mConfig m = mConfig (rsMiner s)"
    and "submitBlock key (reBroadcast env) (reRpcOk env) b n (rsMiner (before_submit env t s)) = Some (Inr (res, m))"
  shows "if \<not> isl res \<and> \<not> reRefresh env AfterRelay then submit_found key netErr env t b n h s = None
    else \<exists>s'. submit_found key netErr env t b n h s = Some (Inr (res, s'))"
  using assms by (simp add: submit_found_def Let_def)

lemma validate_meets:
  assumes "target < 256 ^ 32" "moFound out" "moHash out = Some d" "length d = 32"
  shows "validate_result (Some target) out = Inr (le_nat d \<le> target)"
proof -
  from assms(1) obtain t where t: "target_le_bytes target = Inr t" using target_le_bytes_Inr by blast
  have "d \<noteq> []" using assms(4) by auto
  with assms(2-4) t show ?thesis by (simp add: validate_result_def meets_target_le_bytes [OF t])
qed

text \<open>A mainnet P2P round of the single-threaded CPU miner, once its block is assembled.\<close>

lemma cpu_round_mines:
  assumes "p2p_mode s" "cfgNetwork (mConfig (rsMiner s)) = ''mainnet''" "DeviceType (mConfig (rsMiner s)) \<noteq> ''gpu''"
    and "\<not> 1 < ThreadCount (mMiner (rsMiner s))" "good_tip (reClient env) tip" "key_ok key (mMiner (rsMiner s))"
    and "reRefresh env BeforeTemplate"
  obtains T b tx out s2 where "wf_block b" "bPrevBlock b = hHash tip" "bBits b = round_bits env s"
    and "Transactions b = [tx]" "map (length \<circ> ScriptPubKey) (Outputs tx) = [25]"
    and "template_target T = Some (max 1 (BitsToTarget (round_bits env s)))"
    and "search_result key ((mMiner (rsMiner s))\<lparr>MaxHashesThisRound := 350000\<rparr>) b
      (max 1 (BitsToTarget (round_bits env s))) (reStartNonce env) out"
    and "mining_round key netErr env s = finish_round key netErr env T b out s2" "tHeight T = hHeight tip + 1"
    and "mConfig (rsMiner s2) = mConfig (rsMiner s)" "\<exists>k. mMiner (rsMiner s2) = (mMiner (rsMiner s))\<lparr>MaxHashesThisRound := k\<rparr>"
    and "mPaymentMonitor (rsMiner s2) = mPaymentMonitor (rsMiner s)"
proof -
  have bits: "round_bits env (save_tip_step env s) = round_bits env s" by (simp add: round_bits_def)
  have "p2p_mode (save_tip_step env s)" using assms(1) by simp
  then obtain T x where T: "round_template env (save_tip_step env s) = Some T"
    "hexTo32Bytes (tPreviousBlockHash T) = Inr (hHash tip)" "hexDecode (tBits T) = Inr (put_u32 (round_bits env s))"
    "template_target T = Some (max 1 (BitsToTarget (round_bits env s)))" "hexDecode (tTarget T) = Inr x"
    "(if be_nat x = 0 then 1 else be_nat x) = max 1 (BitsToTarget (round_bits env s))"
    "BitsToTarget (round_bits env s) \<le> dogecoinPowLimitUint256" "tHeight T = hHeight tip + 1"
    by (rule p2p_round_template [OF _ assms(5), of "save_tip_step env s", unfolded bits])
  have "length (put_u32 (round_bits env s)) = 4" by simp
  then obtain b m1 where c: "createEmptyBlock T (rsMiner s) = (Inr b, m1)"
    by (rule createEmptyBlock_total [OF T(2,3), of "rsMiner s"])
  note blk = assembled_round_block [OF T(2,3) c]
  from blk(4) obtain tx where tx: "Transactions b = [tx]" "map (length \<circ> ScriptPubKey) (Outputs tx) = [25]"
    by (elim exE conjE)
  let ?s = "mined_state env T m1 s" and ?m = "(mMiner (rsMiner s))\<lparr>MaxHashesThisRound := 350000\<rparr>"
  have m1: "mConfig m1 = mConfig (rsMiner s)" by (subst createEmptyBlock_frame [OF c], simp)
  have mm: "mMiner m1 = mMiner (rsMiner s)" by (subst createEmptyBlock_frame [OF c], simp)
  have mp: "mPaymentMonitor m1 = mPaymentMonitor (rsMiner s)" by (subst createEmptyBlock_frame [OF c], simp)
  have lim: "round_limits ?s = set_round_max 350000 m1" using assms(1,2) m1 by (simp add: round_limits_def)
  have "max 1 (BitsToTarget (round_bits env s)) < 2 ^ 256"
    using T(7) by (simp add: dogecoinPowLimitUint256_def)
  from mineWithStrategy_result [OF blk(1) _ this, of key ?m "reStartNonce env"] assms(6) obtain out where
    out: "mineWithStrategy key ?m b (max 1 (BitsToTarget (round_bits env s))) (reStartNonce env) = Inr out"
    "search_result key ?m b (max 1 (BitsToTarget (round_bits env s))) (reStartNonce env) out" by auto
  have "mine_block key env b (tTarget T) (round_limits ?s) = Some (Inr (out, set_round_max 350000 m1))"
    using assms(3,4) out(1) T(5,6) m1 mm by (simp add: lim mine_block_def MineBlock_def)
  moreover have "\<not> template_stale env (save_tip_step env s) T" using assms(2) by (simp add: template_stale_def)
  ultimately have run: "mining_round key netErr env s =
      finish_round key netErr env T b out (?s\<lparr>rsMiner := set_round_max 350000 m1\<rparr>)"
    using T(1) c assms(7) by (simp add: mining_round_def mined_state_def)
  show ?thesis
    by (rule that [OF blk(1-3) tx T(4) out(2) run T(8)]) (auto simp: m1 mm mp)
qed

text \<open>
  How a round ends that submits the block: it hangs when the broadcast never returns, and when the refresh after
  the relay never does; otherwise it has relayed the block, or no peer took it.
\<close>

definition relay_result :: "RoundEnv \<Rightarrow> Block \<Rightarrow> u32 \<Rightarrow> round_result \<Rightarrow> bool" where
  "relay_result env b n r \<longleftrightarrow>
     (case reBroadcast env of
        None \<Rightarrow> r = Hang
      | Some False \<Rightarrow> \<exists>s'. r = Submitted s' b n (Inl BroadcastFailed)
      | Some True \<Rightarrow>
          if \<not> reRefresh env AfterRelay then r = Hang
          else \<exists>s'. r = Submitted s' b n (Inr (SerializeBlock (b\<lparr>bNonce := n\<rparr>))))"

text \<open>A found solution is submitted exactly when its reversed bytes meet the target too.\<close>

lemma cpu_found_finish:
  assumes "p2p_mode s" "cfgNetwork (mConfig (rsMiner s)) = ''mainnet''" "key_ok key (mMiner (rsMiner s))"
    and "wf_block b" "Transactions b = [tx]" "map (length \<circ> ScriptPubKey) (Outputs tx) = [25]"
    and "template_target T = Some (max 1 (BitsToTarget (bBits b)))" "BitsToTarget (bBits b) < 2 ^ 256"
    and "moFound out" "moHash out = Some (rev h)" "pow_hash key (mMiner (rsMiner s)) (b\<lparr>bNonce := moNonce out\<rparr>) = Some h"
    and "length h = 32" "le_nat h \<le> max 1 (BitsToTarget (bBits b))" "mConfig (rsMiner s2) = mConfig (rsMiner s)"
    and scr: "\<exists>k. mMiner (rsMiner s2) = (mMiner (rsMiner s))\<lparr>MaxHashesThisRound := k\<rparr>"
  shows "if le_nat (rev h) \<le> max 1 (BitsToTarget (bBits b))
     then (if BitsToTarget (bBits b) = 0
           then \<exists>s'. finish_round key netErr env T b out s2 = Submitted s' b (moNonce out) (Inl (PowError InvalidBits))
           else relay_result env b (moNonce out) (finish_round key netErr env T b out s2))
     else \<exists>s'. finish_round key netErr env T b out s2 = Unsolved s'"
proof -
  let ?s1 = "count_hashes env (moHashCount out) (log_hashes T (moHashCount out) (reset_limits (adapt_cap env T (moHashCount out) s2)))"
  let ?t = "max 1 (BitsToTarget (bBits b))"
  let ?sub = "submit_found key netErr env T b (moNonce out) (the (moHash out)) ?s1"
  have val: "validate_result (template_target T) out = Inr (le_nat (rev h) \<le> ?t)"
    unfolding assms(7) by (rule validate_meets) (use assms(8-10,12) in auto)
  show ?thesis
  proof (cases "le_nat (rev h) \<le> ?t")
    case True
    obtain k where k: "mMiner (rsMiner (reset_limits (adapt_cap env T (moHashCount out) s2))) =
        (mMiner (rsMiner s))\<lparr>MaxHashesThisRound := k\<rparr>"
      using scr reset_limits_scrypt [of "adapt_cap env T (moHashCount out) s2"] by auto
    have mode: "ConnectionMode (mConfig (rsMiner (before_submit env T ?s1))) = ''p2p''" using assms(1,14) by simp
    have key: "key_ok key (mMiner (rsMiner (before_submit env T ?s1)))" using assms(3) k by simp
    from submitBlock_p2p_result [OF mode assms(4) key assms(8,5,6), of "moNonce out" "reBroadcast env" "reRpcOk env"]
    obtain m where sub: "submitBlock key (reBroadcast env) (reRpcOk env) b (moNonce out) (rsMiner (before_submit env T ?s1)) =
        (if BitsToTarget (bBits b) = 0 then Some (Inr (Inl (PowError InvalidBits), m))
         else map_option (\<lambda>ok. Inr (if ok then Inr (SerializeBlock (b\<lparr>bNonce := moNonce out\<rparr>)) else Inl BroadcastFailed, m))
           (reBroadcast env))"
      using assms(11,13) k by (auto split: if_splits)
    have fin: "finish_round key netErr env T b out s2 =
        (case ?sub of None \<Rightarrow> Hang | Some (Inl p) \<Rightarrow> Crashed p | Some (Inr (res, s)) \<Rightarrow> Submitted s b (moNonce out) res)"
      using val True assms(2,14) by (simp add: finish_round_def)
    have p2p: "p2p_mode ?s1" using assms(1,14) by simp
    have res: "if \<not> isl res \<and> \<not> reRefresh env AfterRelay then ?sub = None else \<exists>s'. ?sub = Some (Inr (res, s'))"
      if "submitBlock key (reBroadcast env) (reRpcOk env) b (moNonce out) (rsMiner (before_submit env T ?s1)) =
        Some (Inr (res, m))" for res
    proof (rule submit_found_p2p [OF p2p _ that])
      show "mConfig m = mConfig (rsMiner ?s1)" by (subst submitBlock_frame [OF that], simp)
    qed
    consider "BitsToTarget (bBits b) = 0" | "BitsToTarget (bBits b) \<noteq> 0" "reBroadcast env = None"
      | "BitsToTarget (bBits b) \<noteq> 0" "reBroadcast env = Some True"
      | "BitsToTarget (bBits b) \<noteq> 0" "reBroadcast env = Some False" by (cases "reBroadcast env") auto
    then show ?thesis
    proof cases
      case 1
      with sub res [of "Inl (PowError InvalidBits)"] fin True show ?thesis by auto
    next
      case 2
      with sub have "?sub = None" by (simp add: submit_found_def Let_def)
      with 2 fin True show ?thesis by (simp add: relay_result_def)
    next
      case 3
      with sub res [of "Inr (SerializeBlock (b\<lparr>bNonce := moNonce out\<rparr>))"] fin True show ?thesis
        by (auto simp: relay_result_def split: if_splits)
    next
      case 4
      with sub res [of "Inl BroadcastFailed"] fin True show ?thesis by (auto simp: relay_result_def)
    qed
  next
    case False
    with val show ?thesis by (simp add: finish_round_def Let_def)
  qed
qed

lemma cpu_round_result:
  assumes "p2p_mode s" "cfgNetwork (mConfig (rsMiner s)) = ''mainnet''" "DeviceType (mConfig (rsMiner s)) \<noteq> ''gpu''"
    and "\<not> 1 < ThreadCount (mMiner (rsMiner s))" "good_tip (reClient env) tip" "key_ok key (mMiner (rsMiner s))"
    and "reRefresh env BeforeTemplate"
  shows "\<exists>b out. wf_block b \<and> bPrevBlock b = hHash tip \<and> bBits b = round_bits env s \<and>
    search_result key ((mMiner (rsMiner s))\<lparr>MaxHashesThisRound := 350000\<rparr>) b
      (max 1 (BitsToTarget (bBits b))) (reStartNonce env) out \<and>
    (if \<exists>d. moHash out = Some d \<and> le_nat d \<le> max 1 (BitsToTarget (bBits b))
     then (if BitsToTarget (bBits b) = 0
           then \<exists>s'. mining_round key netErr env s = Submitted s' b (moNonce out) (Inl (PowError InvalidBits))
           else relay_result env b (moNonce out) (mining_round key netErr env s))
     else \<exists>s'. mining_round key netErr env s = Unsolved s')"
proof -
  obtain T b tx out s2 where b: "wf_block b" "bPrevBlock b = hHash tip" "bBits b = round_bits env s"
      "Transactions b = [tx]" "map (length \<circ> ScriptPubKey) (Outputs tx) = [25]"
    and tgt: "template_target T = Some (max 1 (BitsToTarget (round_bits env s)))"
    and sr: "search_result key ((mMiner (rsMiner s))\<lparr>MaxHashesThisRound := 350000\<rparr>) b
      (max 1 (BitsToTarget (round_bits env s))) (reStartNonce env) out"
    and run: "mining_round key netErr env s = finish_round key netErr env T b out s2"
    and cfg: "mConfig (rsMiner s2) = mConfig (rsMiner s)"
    and scr: "\<exists>k. mMiner (rsMiner s2) = (mMiner (rsMiner s))\<lparr>MaxHashesThisRound := k\<rparr>"
    by (rule cpu_round_mines [OF assms, of netErr])
  let ?t = "max 1 (BitsToTarget (round_bits env s))"
  have lim: "BitsToTarget (round_bits env s) < 2 ^ 256"
  proof -
    have "BitsToTarget (round_bits env s) \<le> dogecoinPowLimitUint256"
      using p2p_round_template [OF assms(1,5)] by blast
    then show ?thesis by (simp add: dogecoinPowLimitUint256_def)
  qed
  have "\<exists>s'. finish_round key netErr env T b out s2 = Unsolved s'" if "\<not> moFound out"
    using that sr by (simp add: finish_round_def validate_result_def search_result_def Let_def)
  moreover have "moHash out = None" if "\<not> moFound out" using that sr by (simp add: search_result_def)
  moreover have some: "\<exists>d. moHash out = Some d" if "moFound out" using that sr by (auto simp: search_result_def)
  moreover have "if le_nat d \<le> ?t
     then (if BitsToTarget (bBits b) = 0
           then \<exists>s'. finish_round key netErr env T b out s2 = Submitted s' b (moNonce out) (Inl (PowError InvalidBits))
           else relay_result env b (moNonce out) (finish_round key netErr env T b out s2))
     else \<exists>s'. finish_round key netErr env T b out s2 = Unsolved s'"
    if found: "moFound out" and d: "moHash out = Some d" for d
  proof -
    from found d sr obtain h where h: "pow_hash key (mMiner (rsMiner s)) (b\<lparr>bNonce := moNonce out\<rparr>) = Some h"
      "d = rev h" "nonce_hits key (mMiner (rsMiner s)) b ?t (moNonce out)"
      by (auto simp: search_result_def nonce_hits_def)
    then have hit: "length h = 32" "le_nat h \<le> ?t" by (auto simp: nonce_hits_def)
    from cpu_found_finish [OF assms(1,2,6) b(1,4,5), of T out h s2 netErr env] tgt lim found d h(1,2) hit cfg scr b(3)
    show ?thesis by simp
  qed
  ultimately have "if \<exists>d. moHash out = Some d \<and> le_nat d \<le> ?t
     then (if BitsToTarget (bBits b) = 0
           then \<exists>s'. mining_round key netErr env s = Submitted s' b (moNonce out) (Inl (PowError InvalidBits))
           else relay_result env b (moNonce out) (mining_round key netErr env s))
     else \<exists>s'. mining_round key netErr env s = Unsolved s'"
    unfolding run using some by (cases "moFound out") (auto split: if_splits)
  with b(1-3) sr show ?thesis by (intro exI [of _ b] exI [of _ out]) simp
qed


definition sampleRound :: RoundState where
  "sampleRound = initial_round sampleMiner (\<lambda>_. None)"

lemma sampleRound_simps [simp]: "rsMiner sampleRound = sampleMiner"
  by (simp add: sampleRound_def initial_round_def)

lemma sampleEnv_tip: "good_tip (reClient sampleEnv) sampleTip"
  using sampleTip_target by (simp add: good_tip_def sampleEnv_def sampleClient_def newHeaderChain_def setNetwork_def
      BitsToTarget_nat Let_def, simp add: sampleTip_def)

lemma sampleMiner_scrypt: "\<not> 1 < ThreadCount ((mMiner sampleMiner)\<lparr>ThreadCount := 1\<rparr>)" "key_ok zeroKey m"
  by (simp_all add: key_ok_def zeroKey_def)

definition singleRound :: RoundState where
  "singleRound = sampleRound\<lparr>rsMiner := sampleMiner\<lparr>mMiner := (mMiner sampleMiner)\<lparr>ThreadCount := 1\<rparr>\<rparr>\<rparr>"

lemma singleRound_monitor: "\<exists>pm. mPaymentMonitor (rsMiner singleRound) = Some pm"
  by (simp add: singleRound_def sampleMiner_def newMinerP2POnly_def miner_of_config_def Let_def)

lemma singleRound_ok:
  "p2p_mode singleRound" "cfgNetwork (mConfig (rsMiner singleRound)) = ''mainnet''"
  "DeviceType (mConfig (rsMiner singleRound)) \<noteq> ''gpu''" "\<not> 1 < ThreadCount (mMiner (rsMiner singleRound))"
  by (simp_all add: singleRound_def)

lemma sampleEnv_refresh [simp]: "reRefresh sampleEnv x" "reBroadcast sampleEnv = Some True"
  by (simp_all add: sampleEnv_def)

lemma singleRound_bits: "round_bits sampleEnv singleRound = hBits sampleTip" "BitsToTarget (hBits sampleTip) \<noteq> 0"
  by (simp_all add: round_bits_def singleRound_def sampleEnv_def sampleClient_def newHeaderChain_def setNetwork_def
      GetNextWorkRequiredExtended_def Let_def) (simp add: sampleTip_def BitsToTarget_nat Let_def)


text \<open>A key function under which every nonce meets the sample target, in both byte orders.\<close>

definition easy_key :: "scrypt_key \<Rightarrow> bool" where
  "easy_key key \<longleftrightarrow> (\<forall>m. key_ok key m) \<and>
     (\<forall>p N r q. \<exists>h. key p p N r q 32 = Some h \<and> length h = 32 \<and> le_nat h \<le> 256 ^ 17 \<and> le_nat (rev h) \<le> 256 ^ 17)"

lemma zeroKey_easy: "easy_key zeroKey"
  by (simp add: easy_key_def key_ok_def zeroKey_def le_nat_replicate_0)

lemma easy_key_found:
  assumes "search_result key m b t st out" "effectiveMaxHashes m \<noteq> 0" "easy_key key" "256 ^ 17 \<le> t"
  shows "\<exists>d. moHash out = Some d \<and> le_nat d \<le> t"
proof -
  have easy: "\<exists>h. pow_hash key m (b\<lparr>bNonce := n\<rparr>) = Some h \<and> length h = 32 \<and> le_nat h \<le> t \<and> le_nat (rev h) \<le> t" for n
    using assms(3,4) unfolding easy_key_def pow_hash_def by (meson order_trans)
  have hits: "nonce_hits key m b t n" for n
    using easy [of n] by (auto simp: nonce_hits_def)
  have "0 < unat (effectiveMaxHashes m)" using assms(2) by (simp add: unat_gt_0)
  with assms(1) hits have "moFound out" by (auto simp: search_result_def split: if_splits)
  with assms(1) easy [of "moNonce out"] show ?thesis by (auto simp: search_result_def)
qed

lemma sample_target: "256 ^ 17 \<le> max 1 (BitsToTarget (hBits sampleTip))"
  by (simp add: sampleTip_def BitsToTarget_nat Let_def)

lemma single_round_submits_key:
  assumes "easy_key key"
  obtains s' b n where "mining_round key netErr sampleEnv singleRound = Submitted s' b n (Inr (SerializeBlock (b\<lparr>bNonce := n\<rparr>)))"
proof -
  let ?m = "(mMiner (rsMiner singleRound))\<lparr>MaxHashesThisRound := 350000\<rparr>"
  have key: "key_ok key (mMiner (rsMiner singleRound))" using assms by (simp add: easy_key_def)
  obtain b out where o: "bBits b = round_bits sampleEnv singleRound"
    "search_result key ?m b (max 1 (BitsToTarget (bBits b))) (reStartNonce sampleEnv) out"
    and r: "if \<exists>d. moHash out = Some d \<and> le_nat d \<le> max 1 (BitsToTarget (bBits b))
     then (if BitsToTarget (bBits b) = 0
           then \<exists>s'. mining_round key netErr sampleEnv singleRound = Submitted s' b (moNonce out) (Inl (PowError InvalidBits))
           else relay_result sampleEnv b (moNonce out) (mining_round key netErr sampleEnv singleRound))
     else \<exists>s'. mining_round key netErr sampleEnv singleRound = Unsolved s'"
    using cpu_round_result [OF singleRound_ok sampleEnv_tip key sampleEnv_refresh(1), of netErr]
    by (elim exE conjE)
  have "effectiveMaxHashes ?m \<noteq> 0" by (simp add: effectiveMaxHashes_def)
  from easy_key_found [OF o(2) this assms] have "\<exists>d. moHash out = Some d \<and> le_nat d \<le> max 1 (BitsToTarget (bBits b))"
    using sample_target singleRound_bits(1) o(1) by simp
  moreover have "BitsToTarget (bBits b) \<noteq> 0" using singleRound_bits o(1) by simp
  ultimately obtain s' where "mining_round key netErr sampleEnv singleRound =
      Submitted s' b (moNonce out) (Inr (SerializeBlock (b\<lparr>bNonce := moNonce out\<rparr>)))"
    using r by (auto simp: relay_result_def)
  then show ?thesis by (rule that)
qed

lemma single_round_submits:
  obtains s' b n where "mining_round zeroKey netErr sampleEnv singleRound = Submitted s' b n (Inr (SerializeBlock (b\<lparr>bNonce := n\<rparr>)))"
  by (rule single_round_submits_key [OF zeroKey_easy])

theorem submitted_round_sound_witness:
  "\<exists>b n s' h. mining_round zeroKey '''' sampleEnv singleRound = Submitted s' b n (Inr (SerializeBlock (b\<lparr>bNonce := n\<rparr>))) \<and>
     bPrevBlock b = hHash sampleTip \<and> pow_hash zeroKey (mMiner (rsMiner singleRound)) (b\<lparr>bNonce := n\<rparr>) = Some h \<and>
     le_nat h \<le> BitsToTarget (bBits b)"
proof -
  obtain s' b n where r: "mining_round zeroKey '''' sampleEnv singleRound = Submitted s' b n (Inr (SerializeBlock (b\<lparr>bNonce := n\<rparr>)))"
    by (rule single_round_submits)
  show ?thesis
    using submitted_round_sound [OF r singleRound_ok(1) sampleEnv_tip sampleMiner_scrypt(2)] r by blast
qed

section \<open>Recovery from a chain that does not link\<close>

lemma initial_sync_unlinked:
  assumes "initial_sync cfg getTip n (force, files, c) = (Some e, s')" "does_not_link e"
  obtains c1 where "s' = recover_chain cfg (force, files, c1)"
proof -
  have "initial_sync cfg getTip n (force, files, c) = (Some e, s') \<Longrightarrow> \<exists>c1. s' = recover_chain cfg (force, files, c1)"
    using assms(2)
  proof (induction n arbitrary: c rule: less_induct)
    case (less n)
    from less.prems less.IH [of "n - 1"] show ?case
      by (subst (asm) (1) initial_sync.simps) (auto split: prod.splits option.splits if_splits)
  qed
  with assms(1) that show thesis by blast
qed

lemma start_sync_unforced:
  obtains files' c' where "start_sync cfg s = (False, files', c')"
proof -
  have "fst (start_sync cfg s) = False"
    by (cases s) (simp add: start_sync_def split: option.splits)
  with that show thesis by (cases "start_sync cfg s") simp
qed

lemma clearSavedTip_loads: "loadSavedTip (clearSavedTip net files) net = None"
  by (simp add: loadSavedTip_def clearSavedTip_def)

lemma locator_fresh:
  "locatorHashes c = [] \<Longrightarrow> bestHeader c = None \<Longrightarrow>
     locator c = [if hasStartCheckpoint c then startLocatorHash c else replicate 32 0]"
  by (simp add: locator_def loc_add_def maxLocatorHashes_def)

lemma checkpoint_keeps:
  "checkpoints (snd (SetStartCheckpoint h k c)) = checkpoints c"
  "checkpoints (snd (SetStartCheckpointByID i c)) = checkpoints c"
  by (auto simp: SetStartCheckpoint_def SetStartCheckpointByID_def split: option.splits sum.splits)

lemma checkpoint_fresh:
  assumes "bestHeader c = None" "locatorHashes c = []"
  shows "bestHeader (snd (SetStartCheckpointByID i c)) = None" "locatorHashes (snd (SetStartCheckpointByID i c)) = []"
  using assms
  by (auto simp: SetStartCheckpoint_def SetStartCheckpointByID_def split: option.splits sum.splits)

lemma checkpoint_chosen:
  "map_of (checkpoints c) i = Some cp \<Longrightarrow> cpHash cp \<noteq> '''' \<Longrightarrow> hexTo32Bytes (cpHash cp) = Inr h \<Longrightarrow>
     hasStartCheckpoint (snd (SetStartCheckpointByID i c)) \<and> startLocatorHash (snd (SetStartCheckpointByID i c)) = h \<and>
     startHeight (snd (SetStartCheckpointByID i c)) = cpHeight cp"
  by (simp add: SetStartCheckpointByID_def SetStartCheckpoint_def)

text \<open>C23: when the initial sync fails because the peer's headers do not link, the next pass
  starts over: no tip and no saved tip are left, the locator holds one hash, and the first header
  must build on the genesis block, or on the chosen checkpoint when the configuration names one
  the network knows.\<close>

theorem failed_validation_restarts:
  assumes "initial_sync cfg getTip 2 (start_sync cfg s) = (Some e, s')" "does_not_link e"
  shows "\<exists>files' c'. start_sync cfg s' = (False, files', c') \<and>
    loadSavedTip files' (cfgNetwork cfg) = None \<and> bestHeader c' = None \<and>
    (if P2PCheckpoint cfg = '''' \<or> P2PCheckpoint cfg = ''0''
     then lsExpected (loop_init c') = genesisHashWire c' \<and> locator c' = [replicate 32 0]
     else \<forall>cp h. map_of (checkpoints c') (P2PCheckpoint cfg) = Some cp \<and> cpHash cp \<noteq> '''' \<and>
       hexTo32Bytes (cpHash cp) = Inr h \<longrightarrow>
       lsExpected (loop_init c') = h \<and> lsHeight (loop_init c') = cpHeight cp \<and> locator c' = [h])"
proof -
  obtain files c where "start_sync cfg s = (False, files, c)" by (rule start_sync_unforced)
  then obtain c1 where s': "s' = recover_chain cfg (False, files, c1)"
    using assms by (auto elim: initial_sync_unlinked)
  let ?id = "P2PCheckpoint cfg"
  show ?thesis
  proof (cases "?id = '''' \<or> ?id = ''0''")
    case True
    then show ?thesis
      by (auto simp: s' recover_chain_def start_sync_def clearSavedTip_loads SetStartCheckpoint_def loop_init_def
          locator_fresh Let_def)
  next
    case False
    let ?c = "snd (SetStartCheckpointByID ?id (ClearSyncState c1))"
    let ?c' = "snd (SetStartCheckpointByID ?id ?c)"
    have fresh: "bestHeader ?c' = None" "locatorHashes ?c' = []"
      by (auto intro!: checkpoint_fresh simp: ClearSyncState_def)
    have "lsExpected (loop_init ?c') = h \<and> lsHeight (loop_init ?c') = cpHeight cp \<and> locator ?c' = [h]"
      if "map_of (checkpoints ?c') ?id = Some cp" "cpHash cp \<noteq> ''''" "hexTo32Bytes (cpHash cp) = Inr h" for cp h
      using checkpoint_chosen [of ?c ?id cp h] that fresh
      by (simp add: checkpoint_keeps loop_init_def locator_fresh)
    moreover have "start_sync cfg s' = (False, clearSavedTip (cfgNetwork cfg) files, ?c')"
      using False by (simp add: s' recover_chain_def start_sync_def Let_def)
    ultimately show ?thesis using False fresh clearSavedTip_loads [of "cfgNetwork cfg" files] by simp
  qed
qed

definition sampleUnlinked :: tip_error where
  "sampleUnlinked = \<lparr>errText = ''headers: does not link'', errIsEOF = False\<rparr>"

lemma sampleUnlinked_class: "does_not_link sampleUnlinked" "\<not> connection_lost sampleUnlinked"
  by code_simp+

theorem failed_validation_restarts_witness:
  "\<exists>files' c'. start_sync sampleConfig (snd (initial_sync sampleConfig (\<lambda>_ c. (Some sampleUnlinked, c)) 2
       (start_sync sampleConfig (False, \<lambda>_. None, sampleClient)))) = (False, files', c') \<and>
     lsExpected (loop_init c') = genesisHashWire c'"
proof -
  obtain files c where st: "start_sync sampleConfig (False, \<lambda>_. None, sampleClient) = (False, files, c)"
    by (rule start_sync_unforced)
  define s' where "s' = recover_chain sampleConfig (False, files, c)"
  have r: "initial_sync sampleConfig (\<lambda>_ c. (Some sampleUnlinked, c)) 2
       (start_sync sampleConfig (False, \<lambda>_. None, sampleClient)) = (Some sampleUnlinked, s')"
    by (simp add: st s'_def sampleUnlinked_class initial_sync.simps)
  have "P2PCheckpoint sampleConfig = ''''" by (simp add: sampleConfig_def initial_config_def)
  then show ?thesis
    using failed_validation_restarts [OF r sampleUnlinked_class(1)] by (auto simp: r)
qed

section \<open>The payment monitor's view of a relayed block\<close>

lemma cpu_round_tracks:
  assumes "p2p_mode s" "cfgNetwork (mConfig (rsMiner s)) = ''mainnet''" "DeviceType (mConfig (rsMiner s)) \<noteq> ''gpu''"
    and "\<not> 1 < ThreadCount (mMiner (rsMiner s))" "good_tip (reClient env) tip" "key_ok key (mMiner (rsMiner s))"
    and "mining_round key netErr env s = Submitted s' b n res"
  obtains h where "pow_hash key (mMiner (rsMiner s)) (b\<lparr>bNonce := n\<rparr>) = Some h" "length h = 32"
    and "mPaymentMonitor (rsMiner s') =
      map_option (TrackSubmittedBlock (reNow env) (hHeight tip + 1) (HashToDisplayHex (rev h))) (mPaymentMonitor (rsMiner s))"
proof -
  have refresh: "reRefresh env BeforeTemplate"
    using assms(1,7) by (cases "reRefresh env BeforeTemplate") (simp_all add: mining_round_def)
  obtain T b1 out s2 where sr: "search_result key ((mMiner (rsMiner s))\<lparr>MaxHashesThisRound := 350000\<rparr>) b1
      (max 1 (BitsToTarget (round_bits env s))) (reStartNonce env) out"
    and run: "mining_round key netErr env s = finish_round key netErr env T b1 out s2" "tHeight T = hHeight tip + 1"
      "mPaymentMonitor (rsMiner s2) = mPaymentMonitor (rsMiner s)"
    by (rule cpu_round_mines [OF assms(1-6) refresh, of netErr])
  have fin: "finish_round key netErr env T b1 out s2 = Submitted s' b n res" using assms(7) run(1) by simp
  have "\<And>p. Submitted s' b n res \<noteq> Crashed p" "Submitted s' b n res \<noteq> Hang" by simp_all
  with fin show thesis
  proof (cases rule: finish_round_cases)
    case (none msg)
    then show thesis by simp
  next
    case (found res' s'')
    then have eq: "b = b1" "n = moNonce out" "s'' = s'" by simp_all
    from found(1) have "moFound out" by (auto simp: validate_result_def split: option.splits if_splits)
    with sr obtain h where h: "pow_hash key (mMiner (rsMiner s)) (b\<lparr>bNonce := n\<rparr>) = Some h" "moHash out = Some (rev h)"
      "nonce_hits key (mMiner (rsMiner s)) b1 (max 1 (BitsToTarget (round_bits env s))) n"
      by (auto simp: search_result_def eq nonce_hits_def)
    then have len: "length h = 32" by (simp add: nonce_hits_def eq)
    from found(3) have "mPaymentMonitor (rsMiner s'') = map_option (TrackSubmittedBlock (reNow env) (tHeight T)
        (HashToDisplayHex (the (moHash out)))) (mPaymentMonitor (rsMiner s))"
      by (rule submit_found_cases) (simp add: run(3))
    with h(2) run(2) eq(3) show thesis by (intro that [OF h(1) len]) simp
  qed
qed

text \<open>A check that finds the newest of the tracked blocks gone from the chain.\<close>

lemma CheckForPayments_newest:
  assumes "bestHeader c = Some best"
    and "pm1 = TrackSubmittedBlock now k x pm" "pm2 = CheckForPayments (Some c) pm1"
    and "check_block c (hHeight best) \<lparr>mbHeight = k, mbHash = x, mbSubmitTime = now, mbChecked = False,
       mbConfirmed = False, mbPaymentSeen = False\<rparr> = (B, [])" "mbChecked B" "\<not> mbConfirmed B"
  shows "last (submittedBlocks pm2) = B \<and>
    Orphaned (GetMonitorStats pm2) =
      Suc (length (filter (\<lambda>b. mbChecked b \<and> \<not> mbConfirmed b) (butlast (submittedBlocks pm2)))) \<and>
    payments pm2 = payments pm1 @ concat (map (snd \<circ> check_block c (hHeight best)) (butlast (submittedBlocks pm1)))"
proof -
  let ?b = "\<lparr>mbHeight = k, mbHash = x, mbSubmitTime = now, mbChecked = False, mbConfirmed = False, mbPaymentSeen = False\<rparr>"
  have "submittedBlocks pm1 \<noteq> []" "last (submittedBlocks pm1) = ?b"
    by (simp_all add: assms(2) TrackSubmittedBlock_def submitted.items_push takelast_def submitted.pushed_last)
  then obtain xs where xs: "submittedBlocks pm1 = xs @ [?b]" by (metis append_butlast_last_id)
  have sb: "submittedBlocks pm2 = map (fst \<circ> check_block c (hHeight best)) xs @ [B]"
    and pay: "payments pm2 = payments pm1 @ concat (map (snd \<circ> check_block c (hHeight best)) xs)"
    using assms(1,4) xs by (simp_all add: assms(3) CheckForPayments_def Let_def)
  show ?thesis
    using assms(5,6) by (simp add: GetMonitorStats_def count_blocks_filter sb pay xs)
qed

lemma display_hex_nonempty: "length h = 32 \<Longrightarrow> HashToDisplayHex h \<noteq> ''''"
  by (simp add: HashToDisplayHex_def reverseBytesInPlace_rev flip: length_0_conv)

text \<open>C24: a mainnet block that the single-threaded CPU miner submitted in P2P mode and that made it into the chain is
  counted as orphaned. The payment monitor is given the scrypt hash of the block, while the tip history holds the
  double SHA-256 hashes by which blocks are named. So once the chain has passed the height of the block and holds
  that very block there, the next check marks it as checked and not confirmed, the statistics count it as orphaned,
  and no payment is recorded for it, provided that its two hashes are not the same bytes.\<close>

theorem own_block_counts_as_orphaned:
  assumes "p2p_mode s" "cfgNetwork (mConfig (rsMiner s)) = ''mainnet''" "DeviceType (mConfig (rsMiner s)) \<noteq> ''gpu''"
    and "\<not> 1 < ThreadCount (mMiner (rsMiner s))" "good_tip (reClient env) tip" "key_ok key (mMiner (rsMiner s))"
    and "mining_round key netErr env s = Submitted s' b n res"
    and "mPaymentMonitor (rsMiner s) = Some pm" "bestHeader c = Some best" "hHeight tip + 3 \<le> hHeight best"
    and "GetBlockHashAtHeight c (hHeight tip + 1) =
      HashToDisplayHex (blockHashChain (SerializeHeader (b\<lparr>bNonce := n\<rparr>)))"
    and "pow_hash key (mMiner (rsMiner s)) (b\<lparr>bNonce := n\<rparr>) \<noteq>
      Some (rev (blockHashChain (SerializeHeader (b\<lparr>bNonce := n\<rparr>))))"
  shows "\<exists>pm1 pm2 B. mPaymentMonitor (rsMiner s') = Some pm1 \<and> pm2 = CheckForPayments (Some c) pm1 \<and>
    B = last (submittedBlocks pm2) \<and> mbHeight B = hHeight tip + 1 \<and> mbChecked B \<and> \<not> mbConfirmed B \<and>
    Orphaned (GetMonitorStats pm2) =
      Suc (length (filter (\<lambda>b. mbChecked b \<and> \<not> mbConfirmed b) (butlast (submittedBlocks pm2)))) \<and>
    payments pm2 = payments pm1 @ concat (map (snd \<circ> check_block c (hHeight best)) (butlast (submittedBlocks pm1)))"
proof -
  obtain h where h: "pow_hash key (mMiner (rsMiner s)) (b\<lparr>bNonce := n\<rparr>) = Some h" "length h = 32"
    and pm: "mPaymentMonitor (rsMiner s') =
      Some (TrackSubmittedBlock (reNow env) (hHeight tip + 1) (HashToDisplayHex (rev h)) pm)"
    by (rule cpu_round_tracks [OF assms(1-7)]) (simp add: assms(8))
  let ?d = "blockHashChain (SerializeHeader (b\<lparr>bNonce := n\<rparr>))"
  have d: "length ?d = 32" by (simp add: blockHashChain_def)
  have "h \<noteq> rev ?d" using h(1) assms(12) by auto
  then have "HashToDisplayHex ?d \<noteq> HashToDisplayHex (rev h)"
    using HashToDisplayHex_inj [OF d, of "rev h"] h(2) by auto
  then obtain B where B: "check_block c (hHeight best) \<lparr>mbHeight = hHeight tip + 1, mbHash = HashToDisplayHex (rev h),
      mbSubmitTime = reNow env, mbChecked = False, mbConfirmed = False, mbPaymentSeen = False\<rparr> = (B, [])"
    "mbChecked B" "\<not> mbConfirmed B" "mbHeight B = hHeight tip + 1"
    using display_hex_nonempty [OF d] assms(10,11) by (simp add: check_block_def Let_def)
  from CheckForPayments_newest [OF assms(9) refl refl B(1-3), of pm] B pm show ?thesis by auto
qed

text \<open>A key function that gives no header its double SHA-256 hash with the bytes reversed.\<close>

definition splitKey :: scrypt_key where
  "splitKey p s N r q n =
     Some (if n = 32 \<and> blockHashChain p = replicate 32 0 then replicate 16 0 @ [1] @ replicate 15 0 else replicate n 0)"

lemma splitKey_easy: "easy_key splitKey"
proof -
  have "le_nat (replicate 16 0 @ [1] @ replicate 15 0) = 256 ^ 16" "le_nat (rev (replicate 16 0 @ [1] @ replicate 15 0)) = 256 ^ 15"
    by (simp_all add: le_nat_append le_nat_replicate_0)
  then show ?thesis
    by (auto simp: easy_key_def key_ok_def splitKey_def le_nat_replicate_0)
qed

lemma splitKey_differs: "pow_hash splitKey m b \<noteq> Some (rev (blockHashChain (SerializeHeader b)))"
proof (cases "blockHashChain (SerializeHeader b) = replicate 32 0")
  case True
  have "(replicate 16 0 @ [1] @ replicate 15 0) ! 16 \<noteq> rev (replicate 32 (0 :: byte)) ! 16" by (simp add: nth_append)
  then have "replicate 16 0 @ [1] @ replicate 15 0 \<noteq> rev (replicate 32 (0 :: byte))" by metis
  with True show ?thesis by (simp add: pow_hash_def splitKey_def)
next
  case False
  then have "rev (blockHashChain (SerializeHeader b)) \<noteq> replicate 32 0" by (metis rev_replicate rev_rev_ident)
  with False show ?thesis by (auto simp: pow_hash_def splitKey_def)
qed

theorem own_block_counts_as_orphaned_witness:
  "\<exists>s' b n c pm1 pm2. mining_round splitKey '''' sampleEnv singleRound = Submitted s' b n (Inr (SerializeBlock (b\<lparr>bNonce := n\<rparr>))) \<and>
     mPaymentMonitor (rsMiner s') = Some pm1 \<and> pm2 = CheckForPayments (Some c) pm1 \<and>
     mbChecked (last (submittedBlocks pm2)) \<and> \<not> mbConfirmed (last (submittedBlocks pm2)) \<and> 0 < Orphaned (GetMonitorStats pm2)"
proof -
  obtain s' b n where r: "mining_round splitKey '''' sampleEnv singleRound = Submitted s' b n (Inr (SerializeBlock (b\<lparr>bNonce := n\<rparr>)))"
    by (rule single_round_submits_key [OF splitKey_easy])
  define c where "c = sampleClient\<lparr>bestHeader := Some (sampleTip\<lparr>hHeight := hHeight sampleTip + 3\<rparr>),
    tipHistory := [(hHeight sampleTip + 1, HashToDisplayHex (blockHashChain (SerializeHeader (b\<lparr>bNonce := n\<rparr>))))]\<rparr>"
  have c: "bestHeader c = Some (sampleTip\<lparr>hHeight := hHeight sampleTip + 3\<rparr>)"
    "hHeight sampleTip + 3 \<le> hHeight (sampleTip\<lparr>hHeight := hHeight sampleTip + 3\<rparr>)"
    "GetBlockHashAtHeight c (hHeight sampleTip + 1) = HashToDisplayHex (blockHashChain (SerializeHeader (b\<lparr>bNonce := n\<rparr>)))"
    by (simp_all add: c_def GetBlockHashAtHeight_def)
  obtain pm0 where m: "mPaymentMonitor (rsMiner singleRound) = Some pm0" using singleRound_monitor by blast
  have key: "key_ok splitKey (mMiner (rsMiner singleRound))" using splitKey_easy by (simp add: easy_key_def)
  from own_block_counts_as_orphaned [OF singleRound_ok sampleEnv_tip key r m c splitKey_differs]
  obtain pm1 pm2 where "mPaymentMonitor (rsMiner s') = Some pm1" "pm2 = CheckForPayments (Some c) pm1"
    "mbChecked (last (submittedBlocks pm2))" "\<not> mbConfirmed (last (submittedBlocks pm2))" "0 < Orphaned (GetMonitorStats pm2)"
    by auto
  with r show ?thesis by blast
qed

end
