(* ===== verification/RpcNode.thy ===== *)
theory RpcNode
  imports CompactTarget GoText
begin

text \<open>
  The client of a node, \<open>src/rpc.go\<close>, and the header fetcher on top of it, \<open>src/headers.go\<close>: one
  JSON-RPC call, the calls made of it, reading a header in both forms a node may give it, and the
  map of headers that grows with the chain. The node is a parameter: a function from the requests
  made so far to what the next one meets. JSON documents are the values they encode; a number is the
  rational value of its \<open>float64\<close>, a field is looked up by its exact name.
\<close>

section \<open>JSON values\<close>

datatype json =
    JNull
  | JBool bool
  | JNumber rat
  | JString string
  | JArray "json list"
  | JObject "(string \<times> json) list"

definition json_field :: "(string \<times> json) list \<Rightarrow> string \<Rightarrow> json option" where
  "json_field fs k = map_of fs k"

definition trunc :: "rat \<Rightarrow> int" where
  "trunc r = (if 0 \<le> r then floor r else ceiling r)"

text \<open>
  \<open>int64(f)\<close>, \<open>int32(f)\<close> and \<open>uint32(f)\<close>: truncation where the result fits, otherwise what the
  amd64 instructions give, the least integer of their width. \<open>uint32\<close> goes through \<open>int64\<close>.
\<close>

definition float_int64 :: "rat \<Rightarrow> int" where
  "float_int64 r = (if in_int64 (trunc r) then trunc r else - (2 ^ 63))"

definition float_int32 :: "rat \<Rightarrow> u32" where
  "float_int32 r = (if - (2 ^ 31) \<le> trunc r \<and> trunc r < 2 ^ 31 then of_int (trunc r) else 2 ^ 31)"

definition float_uint32 :: "rat \<Rightarrow> u32" where
  "float_uint32 r = of_int (float_int64 r)"

section \<open>Calls\<close>

record RPCRequest =
  rqMethod :: string
  rqParams :: "json list"

datatype http_body = BodyUnreadable | BodyNotJson | Response json "(int \<times> string) option"
datatype http_reply = RequestInvalid | NoReply | Reply int http_body

type_synonym requests = "RPCRequest list"
type_synonym rpc_node = "requests \<Rightarrow> RPCRequest \<Rightarrow> http_reply"

datatype rpc_error =
    RequestFailed
  | SendFailed
  | BadStatus int
  | ReadFailed
  | ResponseFailed
  | NodeError int string
  | UnexpectedResult
  | TemplateFailed
  | BlockRejected string
  | HeaderCallFailed rpc_error
  | HeaderHexFailed hex_error
  | HeaderTooShort nat
  | HeaderResponseInvalid

definition Call :: "rpc_node \<Rightarrow> string \<Rightarrow> json list \<Rightarrow> requests \<Rightarrow> (rpc_error + json) \<times> requests" where
  "Call node method params h =
     (let rq = \<lparr>rqMethod = method, rqParams = params\<rparr> in
      ((case node h rq of
          RequestInvalid \<Rightarrow> Inl RequestFailed
        | NoReply \<Rightarrow> Inl SendFailed
        | Reply status body \<Rightarrow>
            if status \<noteq> 200 then Inl (BadStatus status)
            else case body of
              BodyUnreadable \<Rightarrow> Inl ReadFailed
            | BodyNotJson \<Rightarrow> Inl ResponseFailed
            | Response result err \<Rightarrow>
                (case err of Some (code, msg) \<Rightarrow> Inl (NodeError code msg) | None \<Rightarrow> Inr result)),
       rq # h))"

definition TestConnection :: "rpc_node \<Rightarrow> requests \<Rightarrow> (rpc_error + unit) \<times> requests" where
  "TestConnection node h = (case Call node ''getblockcount'' [] h of (r, h) \<Rightarrow> (ebind r (\<lambda>_. Inr ()), h))"

definition GetBlockCount :: "rpc_node \<Rightarrow> requests \<Rightarrow> (rpc_error + int) \<times> requests" where
  "GetBlockCount node h =
     (case Call node ''getblockcount'' [] h of
        (r, h) \<Rightarrow> (ebind r (\<lambda>v. case v of JNumber c \<Rightarrow> Inr (float_int64 c) | _ \<Rightarrow> Inl UnexpectedResult), h))"

definition GetBlockHash :: "rpc_node \<Rightarrow> int \<Rightarrow> requests \<Rightarrow> (rpc_error + string) \<times> requests" where
  "GetBlockHash node height h =
     (case Call node ''getblockhash'' [JNumber (of_int height)] h of
        (r, h) \<Rightarrow> (ebind r (\<lambda>v. case v of JString s \<Rightarrow> Inr s | _ \<Rightarrow> Inl UnexpectedResult), h))"

definition GetDifficulty :: "rpc_node \<Rightarrow> requests \<Rightarrow> (rpc_error + rat) \<times> requests" where
  "GetDifficulty node h =
     (case Call node ''getdifficulty'' [] h of
        (r, h) \<Rightarrow> (ebind r (\<lambda>v. case v of JNumber d \<Rightarrow> Inr d | _ \<Rightarrow> Inl UnexpectedResult), h))"

definition SubmitBlock :: "rpc_node \<Rightarrow> string \<Rightarrow> requests \<Rightarrow> (rpc_error + unit) \<times> requests" where
  "SubmitBlock node blockHex h =
     (case Call node ''submitblock'' [JString blockHex] h of
        (r, h) \<Rightarrow>
          (ebind r (\<lambda>v. case v of JString s \<Rightarrow> if s \<noteq> '''' then Inl (BlockRejected s) else Inr () | _ \<Rightarrow> Inr ()), h))"

section \<open>The block template of the node\<close>

text \<open>One field of \<open>json.Unmarshal\<close> into a struct: absent and \<open>null\<close> leave the zero value.\<close>

definition int_field :: "nat \<Rightarrow> (string \<times> json) list \<Rightarrow> string \<Rightarrow> rpc_error + int" where
  "int_field w fs k =
     (case json_field fs k of
        None \<Rightarrow> Inr 0
      | Some JNull \<Rightarrow> Inr 0
      | Some (JNumber r) \<Rightarrow>
          if of_int (trunc r) = r \<and> - (2 ^ (w - 1)) \<le> trunc r \<and> trunc r < 2 ^ (w - 1) then Inr (trunc r)
          else Inl TemplateFailed
      | Some _ \<Rightarrow> Inl TemplateFailed)"

definition string_field :: "(string \<times> json) list \<Rightarrow> string \<Rightarrow> rpc_error + string" where
  "string_field fs k =
     (case json_field fs k of
        None \<Rightarrow> Inr '''' | Some JNull \<Rightarrow> Inr '''' | Some (JString s) \<Rightarrow> Inr s | Some _ \<Rightarrow> Inl TemplateFailed)"

definition float_field :: "(string \<times> json) list \<Rightarrow> string \<Rightarrow> rpc_error + rat" where
  "float_field fs k =
     (case json_field fs k of
        None \<Rightarrow> Inr 0 | Some JNull \<Rightarrow> Inr 0 | Some (JNumber r) \<Rightarrow> Inr r | Some _ \<Rightarrow> Inl TemplateFailed)"

text \<open>\<open>transactions\<close> must be an array and \<open>coinbaseaux\<close> an object where they are given.\<close>

definition shape_ok :: "(string \<times> json) list \<Rightarrow> bool" where
  "shape_ok fs \<longleftrightarrow>
     (case json_field fs ''transactions'' of None \<Rightarrow> True | Some JNull \<Rightarrow> True | Some (JArray xs) \<Rightarrow> True | Some _ \<Rightarrow> False) \<and>
     (case json_field fs ''coinbaseaux'' of None \<Rightarrow> True | Some JNull \<Rightarrow> True | Some (JObject xs) \<Rightarrow> True | Some _ \<Rightarrow> False)"

definition aux_script :: "(string \<times> json) list \<Rightarrow> byte list" where
  "aux_script fs =
     (case json_field fs ''coinbaseaux'' of
        Some (JObject aux) \<Rightarrow>
          (case json_field aux ''flags'' of
             Some (JString flags) \<Rightarrow> (case hexDecode flags of Inr b \<Rightarrow> b | Inl e \<Rightarrow> [])
           | _ \<Rightarrow> [])
      | _ \<Rightarrow> [])"

definition decode_template :: "(string \<times> json) list \<Rightarrow> rpc_error + BlockTemplate" where
  "decode_template fs =
     (if \<not> shape_ok fs then Inl TemplateFailed
      else
        ebind (int_field 32 fs ''version'') (\<lambda>version.
        ebind (string_field fs ''previousblockhash'') (\<lambda>prev.
        ebind (int_field 64 fs ''coinbasevalue'') (\<lambda>val.
        ebind (string_field fs ''target'') (\<lambda>target.
        ebind (string_field fs ''bits'') (\<lambda>bits.
        ebind (int_field 64 fs ''height'') (\<lambda>height.
        ebind (float_field fs ''difficulty'') (\<lambda>diff.
        ebind (int_field 64 fs ''mintime'') (\<lambda>mintime.
        ebind (int_field 64 fs ''curtime'') (\<lambda>curtime.
        ebind (string_field fs ''noncerange'') (\<lambda>_.
          Inr \<lparr>tVersion = of_int version, tPreviousBlockHash = prev, tCoinbaseValue = val,
               tCoinbaseScript = (if aux_script fs = [] then [0] else aux_script fs), tTarget = target,
               tBits = bits, tHeight = height, tDifficulty = diff, tMintime = mintime, tCurTime = curtime\<rparr>)))))))))))"

definition zero_template :: BlockTemplate where
  "zero_template = \<lparr>tVersion = 0, tPreviousBlockHash = '''', tCoinbaseValue = 0, tCoinbaseScript = [], tTarget = '''',
     tBits = '''', tHeight = 0, tDifficulty = 0, tMintime = 0, tCurTime = 0\<rparr>"

definition GetBlockTemplate :: "rpc_node \<Rightarrow> requests \<Rightarrow> (rpc_error + BlockTemplate) \<times> requests" where
  "GetBlockTemplate node h =
     (case Call node ''getblocktemplate''
         [JObject [(''mode'', JString ''template''), (''capabilities'', JArray [JString ''proposal''])]] h of
        (r, h) \<Rightarrow>
          (ebind r (\<lambda>v. case v of
              JNull \<Rightarrow> Inr zero_template
            | JObject fs \<Rightarrow> decode_template fs
            | _ \<Rightarrow> Inl TemplateFailed), h))"

section \<open>Headers\<close>

text \<open>\<open>strconv.ParseUint(s, 16, 32)\<close>.\<close>

fun hex_number :: "nat \<Rightarrow> string \<Rightarrow> nat option" where
  "hex_number n [] = Some n"
| "hex_number n (c # cs) = (case hex_val c of None \<Rightarrow> None | Some d \<Rightarrow> hex_number (16 * n + d) cs)"

definition ParseUint16_32 :: "string \<Rightarrow> u32 option" where
  "ParseUint16_32 s =
     (if s = '''' then None
      else case hex_number 0 s of None \<Rightarrow> None | Some n \<Rightarrow> if n < 2 ^ 32 then Some (of_nat n) else None)"

definition number_or :: "(string \<times> json) list \<Rightarrow> string \<Rightarrow> (rat \<Rightarrow> u32) \<Rightarrow> u32" where
  "number_or fs k conv = (case json_field fs k of Some (JNumber r) \<Rightarrow> conv r | _ \<Rightarrow> 0)"

definition hash_or :: "(string \<times> json) list \<Rightarrow> string \<Rightarrow> byte list" where
  "hash_or fs k =
     (case json_field fs k of
        Some (JString s) \<Rightarrow> (case hexTo32Bytes s of Inr b \<Rightarrow> b | Inl e \<Rightarrow> replicate 32 0)
      | _ \<Rightarrow> replicate 32 0)"

definition bits_or :: "(string \<times> json) list \<Rightarrow> u32" where
  "bits_or fs =
     (case json_field fs ''bits'' of
        Some (JString s) \<Rightarrow> (case ParseUint16_32 s of Some v \<Rightarrow> v | None \<Rightarrow> 0)
      | Some (JNumber r) \<Rightarrow> float_uint32 r
      | _ \<Rightarrow> 0)"

text \<open>The hash asked for, in the order it is stored in.\<close>

definition header_hash :: "string \<Rightarrow> byte list" where
  "header_hash blockHash =
     (case hexDecode blockHash of
        Inr b \<Rightarrow> if length b = 32 then reverse_swaps 16 b else replicate 32 0
      | Inl e \<Rightarrow> replicate 32 0)"

definition verbose_header :: "string \<Rightarrow> int \<Rightarrow> (string \<times> json) list \<Rightarrow> BlockHeader" where
  "verbose_header blockHash height fs =
     \<lparr>hVersion = number_or fs ''version'' float_int32, hPrevBlock = hash_or fs ''previousblockhash'',
      hMerkleRoot = hash_or fs ''merkleroot'', hTimestamp = number_or fs ''time'' float_uint32,
      hBits = bits_or fs, hNonce = number_or fs ''nonce'' float_uint32, hHeight = height,
      hHash = header_hash blockHash\<rparr>"

definition raw_header :: "string \<Rightarrow> int \<Rightarrow> byte list \<Rightarrow> BlockHeader" where
  "raw_header blockHash height b =
     \<lparr>hVersion = get_u32 (take 4 b), hPrevBlock = reverseBytes (take 32 (drop 4 b)),
      hMerkleRoot = reverseBytes (take 32 (drop 36 b)), hTimestamp = get_u32 (take 4 (drop 68 b)),
      hBits = get_u32 (take 4 (drop 72 b)), hNonce = get_u32 (take 4 (drop 76 b)), hHeight = height,
      hHash = header_hash blockHash\<rparr>"

definition ParseBlockHeaderFromRPC ::
  "rpc_node \<Rightarrow> string \<Rightarrow> int \<Rightarrow> requests \<Rightarrow> (rpc_error + BlockHeader) \<times> requests" where
  "ParseBlockHeaderFromRPC node blockHash height h =
     (case Call node ''getblockheader'' [JString blockHash, JBool True] h of
        (r, h) \<Rightarrow>
          (case (case r of
                   Inl e \<Rightarrow> (case Call node ''getblockheader'' [JString blockHash] h of
                               (r, h) \<Rightarrow> (emap_err HeaderCallFailed r, h))
                 | Inr v \<Rightarrow> (Inr v, h)) of
             (r, h) \<Rightarrow>
               (ebind r (\<lambda>v. case v of
                   JObject fs \<Rightarrow> Inr (verbose_header blockHash height fs)
                 | JString s \<Rightarrow>
                     (case hexDecode s of
                        Inl e \<Rightarrow> Inl (HeaderHexFailed e)
                      | Inr b \<Rightarrow> if length b < 80 then Inl (HeaderTooShort (length b)) else Inr (raw_header blockHash height b))
                 | _ \<Rightarrow> Inl HeaderResponseInvalid), h)))"

definition rpc_GetTipHeader :: "rpc_node \<Rightarrow> requests \<Rightarrow> (rpc_error + int \<times> BlockHeader) \<times> requests" where
  "rpc_GetTipHeader node h =
     (case GetBlockCount node h of
        (Inl e, h) \<Rightarrow> (Inl e, h)
      | (Inr height, h) \<Rightarrow>
          (case GetBlockHash node height h of
             (Inl e, h) \<Rightarrow> (Inl e, h)
           | (Inr hash, h) \<Rightarrow>
               (case ParseBlockHeaderFromRPC node hash height h of
                  (r, h) \<Rightarrow> (ebind r (\<lambda>hdr. Inr (height, hdr)), h))))"

section \<open>The header fetcher\<close>

record HeaderFetcher =
  hfHeaders :: "int \<rightharpoonup> BlockHeader"
  hfLastHeight :: int

definition NewHeaderFetcher :: HeaderFetcher where
  "NewHeaderFetcher = \<lparr>hfHeaders = Map.empty, hfLastHeight = -1\<rparr>"

definition fetchHeader :: "rpc_node \<Rightarrow> int \<Rightarrow> requests \<Rightarrow> (rpc_error + BlockHeader) \<times> requests" where
  "fetchHeader node height h =
     (case GetBlockHash node height h of
        (Inl e, h) \<Rightarrow> (Inl e, h)
      | (Inr hash, h) \<Rightarrow> ParseBlockHeaderFromRPC node hash height h)"

text \<open>The loop over the heights; \<open>errs\<close> counts the errors since the last success.\<close>

primrec fetch_loop ::
  "rpc_node \<Rightarrow> int list \<Rightarrow> nat \<Rightarrow> nat \<Rightarrow> (int \<rightharpoonup> BlockHeader) \<Rightarrow> requests \<Rightarrow> nat \<times> (int \<rightharpoonup> BlockHeader) \<times> requests" where
  "fetch_loop node [] errs succ m h = (succ, m, h)"
| "fetch_loop node (height # heights) errs succ m h =
     (case fetchHeader node height h of
        (Inl e, h) \<Rightarrow>
          if 10 < errs + 1 then (succ, m, h) else fetch_loop node heights (errs + 1) succ m h
      | (Inr hdr, h) \<Rightarrow> fetch_loop node heights 0 (succ + 1) (m(height \<mapsto> hdr)) h)"

definition fetch_start :: "HeaderFetcher \<Rightarrow> int \<Rightarrow> int" where
  "fetch_start f blockCount = (if hfLastHeight f < 0 then blockCount else hfLastHeight f + 1)"

definition fetch_end :: "HeaderFetcher \<Rightarrow> int \<Rightarrow> int" where
  "fetch_end f blockCount = (let s = fetch_start f blockCount in if 20 < blockCount - s then s + 20 else blockCount)"

definition fetchHeaders :: "rpc_node \<Rightarrow> HeaderFetcher \<times> requests \<Rightarrow> HeaderFetcher \<times> requests" where
  "fetchHeaders node s =
     (case s of (f, h) \<Rightarrow>
        (case GetBlockCount node h of
           (Inl e, h) \<Rightarrow> (f, h)
         | (Inr blockCount, h) \<Rightarrow>
             if \<not> hfLastHeight f < blockCount then (f, h)
             else case fetch_loop node [fetch_start f blockCount..fetch_end f blockCount] 0 0 (hfHeaders f) h of
               (succ, m, h) \<Rightarrow>
                 (f\<lparr>hfHeaders := m,
                    hfLastHeight := (if 0 < succ then fetch_start f blockCount + int succ - 1
                      else if fetch_end f blockCount < blockCount then fetch_end f blockCount else hfLastHeight f)\<rparr>, h)))"

text \<open>
  \<open>fetchLoop\<close>: a fetch at the start and one for every tick of the ticker until it is stopped, each
  with the node as it is then.
\<close>

definition fetchLoop :: "rpc_node list \<Rightarrow> HeaderFetcher \<times> requests \<Rightarrow> HeaderFetcher \<times> requests" where
  "fetchLoop nodes s = fold fetchHeaders nodes s"

definition GetHeader :: "HeaderFetcher \<Rightarrow> int \<Rightarrow> BlockHeader option" where
  "GetHeader f height = hfHeaders f height"

definition GetLastHeight :: "HeaderFetcher \<Rightarrow> int" where
  "GetLastHeight f = hfLastHeight f"

definition GetHeadersCount :: "HeaderFetcher \<Rightarrow> nat" where
  "GetHeadersCount f = card (dom (hfHeaders f))"

section \<open>Numbers and hashes\<close>

lemma trunc_of_int [simp]: "trunc (of_int i) = i"
  by (simp add: trunc_def)

lemma trunc_word [simp]: "trunc (signed (v :: u32)) = sint v" "trunc (unsigned (v :: u32)) = int (unat v)"
  using trunc_of_int [of "sint v"] trunc_of_int [of "int (unat v)"] by simp_all

lemma float_int32_sint [simp]: "float_int32 (signed v) = v"
  using sint_range_size [of v] by (simp add: float_int32_def word_size)

lemma float_uint32_unat [simp]: "float_uint32 (unsigned (v :: u32)) = v"
proof -
  have "- (2 ^ 63) \<le> (0 :: int)" by simp
  also have "0 \<le> uint v" by simp
  finally have "- (2 ^ 63) \<le> uint v" .
  moreover have "uint v < 2 ^ 63" using uint_bounded [of v] by simp
  ultimately show ?thesis by (simp add: float_uint32_def float_int64_def in_int64_def)
qed

lemma float_int64_of_int: "in_int64 i \<Longrightarrow> float_int64 (of_int i) = i"
  by (simp add: float_int64_def)

lemma hex_number_hexEncode: "hex_number n (hexEncode bs) = Some (n * 256 ^ length bs + be_nat bs)"
proof (induction bs arbitrary: n)
  case Nil
  then show ?case by (simp add: be_nat_def)
next
  case (Cons b bs)
  have "16 * (16 * n + unat b div 16) + unat b mod 16 = 256 * n + unat b"
    using mult_div_mod_eq [of 16 "unat b"] by (simp add: distrib_left del: mult_div_mod_eq)
  moreover have "unat b div 16 < 16" using unat_byte_lt [of b] by (simp add: div_less_iff_less_mult)
  moreover have "be_nat (b # bs) = unat b * 256 ^ length bs + be_nat bs"
    by (simp add: be_nat_def le_nat_append)
  ultimately show ?case using Cons.IH [of "256 * n + unat b"]
    by (simp add: algebra_simps)
qed

lemma ParseUint_bits [simp]: "ParseUint16_32 (hexEncode (rev (put_u32 b))) = Some b"
proof -
  have "be_nat (rev (put_u32 b)) = unat b" by (simp add: be_nat_def put_u32_def le_nat_nat_le unat_u32_lt)
  moreover have "hexEncode (rev (put_u32 b)) \<noteq> []"
    using length_hexEncode [of "rev (put_u32 b)"] by (metis length_put(2) length_rev list.size(3) mult_eq_0_iff zero_neq_numeral)
  ultimately show ?thesis using unat_u32_lt [of b] by (simp add: ParseUint16_32_def hex_number_hexEncode)
qed

lemma header_hash_hex32: "header_hash s = (case hexTo32Bytes s of Inr b \<Rightarrow> b | Inl e \<Rightarrow> replicate 32 0)"
  by (simp add: header_hash_def hexTo32Bytes_def split: sum.split)

lemma header_hash_display [simp]: "length h = 32 \<Longrightarrow> header_hash (HashToDisplayHex h) = h"
  by (simp add: header_hash_hex32)

lemma length_header_hash [simp]: "length (header_hash s) = 32"
  by (auto simp: header_hash_hex32 hexTo32Bytes_Inr_iff split: sum.split)

lemma length_hash_or [simp]: "length (hash_or fs k) = 32"
  by (auto simp: hash_or_def hexTo32Bytes_Inr_iff split: option.split json.split sum.split)

section \<open>A node that serves a chain\<close>

text \<open>The verbose form of a header: hashes in display order, \<open>bits\<close> in hexadecimal, most significant first.\<close>

definition verbose_reply :: "BlockHeader \<Rightarrow> json" where
  "verbose_reply h = JObject
     [(''version'', JNumber (of_int (sint (hVersion h)))),
      (''previousblockhash'', JString (HashToDisplayHex (hPrevBlock h))),
      (''merkleroot'', JString (HashToDisplayHex (hMerkleRoot h))),
      (''time'', JNumber (of_int (int (unat (hTimestamp h))))),
      (''bits'', JString (hexEncode (rev (put_u32 (hBits h))))),
      (''nonce'', JNumber (of_int (int (unat (hNonce h)))))]"

definition stored_ok :: "BlockHeader \<Rightarrow> bool" where
  "stored_ok h \<longleftrightarrow> wf_header h \<and> length (hHash h) = 32"

definition answers :: "rpc_node \<Rightarrow> string \<Rightarrow> json list \<Rightarrow> json \<Rightarrow> bool" where
  "answers node method params v \<longleftrightarrow>
     (\<forall>h. node h \<lparr>rqMethod = method, rqParams = params\<rparr> = Reply 200 (Response v None))"

lemma answers_Call: "answers node method params v \<Longrightarrow>
    Call node method params h = (Inr v, \<lparr>rqMethod = method, rqParams = params\<rparr> # h)"
  by (simp add: answers_def Call_def Let_def)

text \<open>The node has the blocks \<open>chain 0\<close> to \<open>chain n\<close> and answers all questions about them.\<close>

definition serves :: "rpc_node \<Rightarrow> (int \<Rightarrow> BlockHeader) \<Rightarrow> int \<Rightarrow> bool" where
  "serves node chain n \<longleftrightarrow> 0 \<le> n \<and> in_int64 n \<and> answers node ''getblockcount'' [] (JNumber (of_int n)) \<and>
     (\<forall>k. 0 \<le> k \<and> k \<le> n \<longrightarrow> hHeight (chain k) = k \<and> stored_ok (chain k) \<and>
        answers node ''getblockhash'' [JNumber (of_int k)] (JString (HashToDisplayHex (hHash (chain k)))) \<and>
        answers node ''getblockheader'' [JString (HashToDisplayHex (hHash (chain k))), JBool True] (verbose_reply (chain k)))"

lemma verbose_reply_header:
  assumes "stored_ok b" "verbose_reply b = JObject fs"
  shows "verbose_header (HashToDisplayHex (hHash b)) (hHeight b) fs = b"
  using assms by (auto simp: verbose_reply_def verbose_header_def number_or_def hash_or_def bits_or_def json_field_def
      stored_ok_def wf_header_def)

lemma parse_verbose:
  assumes "answers node ''getblockheader'' [JString (HashToDisplayHex (hHash b)), JBool True] (verbose_reply b)" "stored_ok b"
  shows "\<exists>h'. ParseBlockHeaderFromRPC node (HashToDisplayHex (hHash b)) (hHeight b) h = (Inr b, h')"
proof -
  obtain fs where fs: "verbose_reply b = JObject fs" by (simp add: verbose_reply_def)
  with verbose_reply_header [OF assms(2) fs] answers_Call [OF assms(1)] show ?thesis
    by (simp add: ParseBlockHeaderFromRPC_def)
qed

lemma serves_count: "serves node chain n \<Longrightarrow> \<exists>h'. GetBlockCount node h = (Inr n, h')"
  by (auto simp: serves_def GetBlockCount_def answers_Call float_int64_of_int)

lemma serves_fetch:
  assumes "serves node chain n" "0 \<le> k" "k \<le> n"
  shows "\<exists>h'. fetchHeader node k h = (Inr (chain k), h')"
proof -
  from assms have b: "hHeight (chain k) = k" "stored_ok (chain k)"
    "answers node ''getblockhash'' [JNumber (of_int k)] (JString (HashToDisplayHex (hHash (chain k))))"
    "answers node ''getblockheader'' [JString (HashToDisplayHex (hHash (chain k))), JBool True] (verbose_reply (chain k))"
    by (auto simp: serves_def)
  with parse_verbose [OF b(4,2)] show ?thesis by (auto simp: fetchHeader_def GetBlockHash_def answers_Call)
qed

lemma serves_tip:
  assumes "serves node chain n"
  shows "\<exists>h'. rpc_GetTipHeader node h = (Inr (n, chain n), h')"
proof -
  obtain h1 where 1: "GetBlockCount node h = (Inr n, h1)" using serves_count [OF assms] by blast
  from assms have "0 \<le> n" by (simp add: serves_def)
  with serves_fetch [OF assms, of n h1] obtain h2 where "fetchHeader node n h1 = (Inr (chain n), h2)" by auto
  with 1 show ?thesis by (auto simp: rpc_GetTipHeader_def fetchHeader_def split: prod.splits sum.splits)
qed

section \<open>The fetcher\<close>

lemma fetch_loop_serves:
  assumes "serves node chain n"
  shows "\<forall>k \<in> set ks. 0 \<le> k \<and> k \<le> n \<Longrightarrow>
    \<exists>h'. fetch_loop node ks errs succ m h = (succ + length ks, (\<lambda>k. if k \<in> set ks then Some (chain k) else m k), h')"
proof (induction ks arbitrary: errs succ m h)
  case Nil
  then show ?case by simp
next
  case (Cons k ks)
  then obtain h1 where 1: "fetchHeader node k h = (Inr (chain k), h1)" using serves_fetch [OF assms] by fastforce
  have "\<forall>j \<in> set ks. 0 \<le> j \<and> j \<le> n" using Cons.prems by simp
  from Cons.IH [OF this, of 0 "succ + 1" "m(k \<mapsto> chain k)" h1] obtain h2 where
    "fetch_loop node ks 0 (succ + 1) (m(k \<mapsto> chain k)) h1 =
      (succ + 1 + length ks, (\<lambda>j. if j \<in> set ks then Some (chain j) else (m(k \<mapsto> chain k)) j), h2)" by blast
  with 1 show ?case by (auto simp: fun_eq_iff)
qed

lemma fetch_range: "set [fetch_start f n..fetch_end f n] = {fetch_start f n..fetch_end f n}"
  by simp

lemma fetch_end_bounds: "fetch_end f n \<le> n" "fetch_end f n \<le> fetch_start f n + 20"
  by (auto simp: fetch_end_def Let_def)

lemma fetch_start_le: "hfLastHeight f < n \<Longrightarrow> fetch_start f n \<le> fetch_end f n"
  by (auto simp: fetch_end_def fetch_start_def Let_def)

text \<open>What the fetcher holds: with a first height, every block of the chain from there to its last height.\<close>

definition mirrors :: "(int \<Rightarrow> BlockHeader) \<Rightarrow> HeaderFetcher \<Rightarrow> bool" where
  "mirrors chain f \<longleftrightarrow> -1 \<le> hfLastHeight f \<and> (\<forall>k b. hfHeaders f k = Some b \<longrightarrow> b = chain k) \<and>
     (\<exists>s. (hfLastHeight f < 0 \<or> 0 \<le> s \<and> s \<le> hfLastHeight f) \<and>
       dom (hfHeaders f) = (if hfLastHeight f < 0 then {} else {s..hfLastHeight f}))"

lemma mirrors_new: "mirrors chain NewHeaderFetcher"
  by (simp add: mirrors_def NewHeaderFetcher_def)

lemma fetchHeaders_serves:
  assumes "serves node chain n" "mirrors chain f"
  shows "\<exists>f' h'. fetchHeaders node (f, h) = (f', h') \<and> mirrors chain f' \<and>
    hfLastHeight f' = (if n \<le> hfLastHeight f then hfLastHeight f else fetch_end f n)"
proof -
  obtain h1 where c: "GetBlockCount node h = (Inr n, h1)" using serves_count [OF assms(1)] by blast
  show ?thesis
  proof (cases "hfLastHeight f < n")
    case False
    with c assms(2) show ?thesis by (simp add: fetchHeaders_def)
  next
    case True
    let ?ks = "[fetch_start f n..fetch_end f n]"
    from assms(1) have n: "0 \<le> n" by (simp add: serves_def)
    from assms(2) have last: "-1 \<le> hfLastHeight f" by (simp add: mirrors_def)
    have start: "0 \<le> fetch_start f n" using n last by (simp add: fetch_start_def)
    then have "\<forall>k \<in> set ?ks. 0 \<le> k \<and> k \<le> n" using fetch_end_bounds(1) [of f n] by auto
    from fetch_loop_serves [OF assms(1) this, of 0 0 "hfHeaders f" h1] obtain h2 where
      l: "fetch_loop node ?ks 0 0 (hfHeaders f) h1 =
        (length ?ks, (\<lambda>k. if k \<in> set ?ks then Some (chain k) else hfHeaders f k), h2)" by auto
    have len: "0 < length ?ks" "int (length ?ks) = fetch_end f n - fetch_start f n + 1"
      using fetch_start_le [OF True] by simp_all
    define f' where "f' = f\<lparr>hfHeaders := (\<lambda>k. if k \<in> set ?ks then Some (chain k) else hfHeaders f k), hfLastHeight := fetch_end f n\<rparr>"
    have "fetchHeaders node (f, h) = (f', h2)" using c True l len by (simp add: fetchHeaders_def f'_def)
    moreover have "mirrors chain f'"
    proof -
      obtain s where s: "hfLastHeight f < 0 \<or> 0 \<le> s \<and> s \<le> hfLastHeight f"
        "dom (hfHeaders f) = (if hfLastHeight f < 0 then {} else {s..hfLastHeight f})"
        using assms(2) by (auto simp: mirrors_def)
      have d: "dom (hfHeaders f') = {fetch_start f n..fetch_end f n} \<union> dom (hfHeaders f)"
        by (auto simp: f'_def dom_def)
      have "dom (hfHeaders f') = {(if hfLastHeight f < 0 then n else s)..fetch_end f n}"
        unfolding d s(2) using s(1) fetch_start_le [OF True] fetch_end_bounds(1) [of f n]
        by (auto simp: fetch_start_def)
      moreover have "0 \<le> fetch_end f n" using start fetch_start_le [OF True] by simp
      moreover have "\<forall>k b. hfHeaders f' k = Some b \<longrightarrow> b = chain k" using assms(2) by (auto simp: f'_def mirrors_def)
      moreover have "(if hfLastHeight f < 0 then n else s) \<le> fetch_end f n \<and> 0 \<le> (if hfLastHeight f < 0 then n else s)"
        using s(1) fetch_start_le [OF True] n by (auto simp: fetch_start_def)
      ultimately show ?thesis unfolding mirrors_def f'_def by (auto intro!: exI)
    qed
    ultimately show ?thesis using True by (auto simp: f'_def)
  qed
qed

section \<open>Any node\<close>

definition filed_ok :: "(int \<rightharpoonup> BlockHeader) \<Rightarrow> bool" where
  "filed_ok m \<longleftrightarrow> (\<forall>k b. m k = Some b \<longrightarrow> hHeight b = k \<and> stored_ok b)"

lemma verbose_header_ok: "hHeight (verbose_header s k fs) = k" "stored_ok (verbose_header s k fs)"
  by (simp_all add: verbose_header_def stored_ok_def wf_header_def)

lemma raw_header_ok: "80 \<le> length b \<Longrightarrow> stored_ok (raw_header s k b)" "hHeight (raw_header s k b) = k"
  by (simp_all add: raw_header_def stored_ok_def wf_header_def reverseBytes_rev)

lemma parse_header_ok:
  assumes "ParseBlockHeaderFromRPC node s k h = (Inr b, h')"
  shows "hHeight b = k \<and> stored_ok b"
  using assms verbose_header_ok raw_header_ok
  by (auto simp: ParseBlockHeaderFromRPC_def ebind_eq_Inr_iff split: prod.splits sum.splits json.splits if_splits)

lemma fetchHeader_ok: "fetchHeader node k h = (Inr b, h') \<Longrightarrow> hHeight b = k \<and> stored_ok b"
  by (auto simp: fetchHeader_def split: prod.splits sum.splits dest: parse_header_ok)

lemma fetch_loop_filed:
  "filed_ok m \<Longrightarrow> fetch_loop node ks errs succ m h = (n, m', h') \<Longrightarrow> filed_ok m'"
proof (induction ks arbitrary: errs succ m h)
  case (Cons k ks)
  obtain r h1 where r: "fetchHeader node k h = (r, h1)" by fastforce
  show ?case
  proof (cases r)
    case (Inl e)
    with Cons r show ?thesis by (auto split: if_splits)
  next
    case (Inr b)
    with fetchHeader_ok r Cons.prems(1) have "filed_ok (m(k \<mapsto> b))" by (auto simp: filed_ok_def)
    moreover have "fetch_loop node ks 0 (succ + 1) (m(k \<mapsto> b)) h1 = (n, m', h')" using Cons.prems(2) r Inr by simp
    ultimately show ?thesis by (rule Cons.IH)
  qed
qed simp

lemma fetchHeaders_filed:
  "filed_ok (hfHeaders f) \<Longrightarrow> filed_ok (hfHeaders (fst (fetchHeaders node (f, h))))"
  by (auto simp: fetchHeaders_def split: prod.split sum.split dest: fetch_loop_filed)

lemma fetchLoop_filed: "filed_ok (hfHeaders (fst s)) \<Longrightarrow> filed_ok (hfHeaders (fst (fetchLoop nodes s)))"
  unfolding fetchLoop_def
proof (induction nodes arbitrary: s)
  case (Cons node nodes)
  with fetchHeaders_filed [of "fst s" node "snd s"] show ?case by simp
qed simp

lemma fetchLoop_mirrors:
  "mirrors chain (fst s) \<Longrightarrow> \<forall>node \<in> set nodes. \<exists>n. serves node chain n \<Longrightarrow> mirrors chain (fst (fetchLoop nodes s))"
  unfolding fetchLoop_def
proof (induction nodes arbitrary: s)
  case (Cons node nodes)
  then obtain n where "serves node chain n" by auto
  from fetchHeaders_serves [OF this Cons.prems(1), of "snd s"] obtain f' h' where
    "fetchHeaders node s = (f', h')" "mirrors chain f'" by auto
  with Cons.IH [of "(f', h')"] Cons.prems(2) show ?case by simp
qed simp

section \<open>Properties\<close>

text \<open>C25: a header read from a node's verbose answer is the header of the block: hashes come back to
  their stored order and \<open>bits\<close> to its number, whatever the values.\<close>

theorem rpc_header_roundtrip:
  assumes "answers node ''getblockheader'' [JString (HashToDisplayHex (hHash b)), JBool True] (verbose_reply b)" "stored_ok b"
  shows "fst (ParseBlockHeaderFromRPC node (HashToDisplayHex (hHash b)) (hHeight b) h) = Inr b"
  using parse_verbose [OF assms, of h] by auto

text \<open>The same header in the other form, the hex of its serialisation, is read with the previous hash
  and the merkle root in the opposite byte order, so the two forms give different headers.\<close>

theorem raw_header_reversed:
  assumes "answers node ''getblockheader'' [JString (HashToDisplayHex (hHash b)), JBool True]
      (JString (hexEncode (serializeBlockHeader b)))" "stored_ok b"
  shows "fst (ParseBlockHeaderFromRPC node (HashToDisplayHex (hHash b)) (hHeight b) h) =
    Inr (b\<lparr>hPrevBlock := rev (hPrevBlock b), hMerkleRoot := rev (hMerkleRoot b)\<rparr>)"
proof -
  let ?s = "serializeBlockHeader b"
  have l: "length (hPrevBlock b) = 32" "length (hMerkleRoot b) = 32" "length (hHash b) = 32" "length ?s = 80"
    using assms(2) by (simp_all add: stored_ok_def wf_header_def)
  have "take 4 ?s = put_u32 (hVersion b)" "take 32 (drop 4 ?s) = hPrevBlock b" "take 32 (drop 36 ?s) = hMerkleRoot b"
    "take 4 (drop 68 ?s) = put_u32 (hTimestamp b)" "take 4 (drop 72 ?s) = put_u32 (hBits b)"
    "take 4 (drop 76 ?s) = put_u32 (hNonce b)"
    using l by (simp_all add: serializeBlockHeader_def)
  then show ?thesis using l answers_Call [OF assms(1), of h]
    by (simp add: ParseBlockHeaderFromRPC_def raw_header_def reverseBytes_rev)
qed

text \<open>C13: while the node answers about one chain, the fetcher holds exactly the blocks of that chain
  from the first height it saw to its last height, without a gap, at every tick.\<close>

theorem fetcher_mirrors_chain:
  assumes "\<forall>node \<in> set nodes. \<exists>n. serves node chain n"
  shows "mirrors chain (fst (fetchLoop nodes (NewHeaderFetcher, h)))"
  by (rule fetchLoop_mirrors) (use assms mirrors_new in simp_all)

text \<open>C26: whatever the node answers, every stored header is filed under its own height and has hashes of
  32 bytes.\<close>

theorem fetcher_typed:
  "case hfHeaders (fst (fetchLoop nodes (NewHeaderFetcher, h))) k of
     None \<Rightarrow> True
   | Some b \<Rightarrow> hHeight b = k \<and> length (hPrevBlock b) = 32 \<and> length (hMerkleRoot b) = 32 \<and> length (hHash b) = 32"
proof -
  have "filed_ok (hfHeaders (fst (fetchLoop nodes (NewHeaderFetcher, h))))"
    by (rule fetchLoop_filed) (simp add: filed_ok_def NewHeaderFetcher_def)
  then show ?thesis by (auto simp: filed_ok_def stored_ok_def wf_header_def split: option.split)
qed

text \<open>A block the node cannot give just then is lost for good when a later one of the same fetch
  succeeds: the last height counts successes from the start, and the next fetch begins behind it.\<close>

theorem fetch_gap_lost:
  assumes "0 \<le> hfLastHeight f" "GetBlockCount node h = (Inr (hfLastHeight f + 2), h1)"
    and "fetchHeader node (hfLastHeight f + 1) h1 = (Inl e, h2)"
    and "fetchHeader node (hfLastHeight f + 2) h2 = (Inr b, h3)"
  shows "\<exists>f'. fetchHeaders node (f, h) = (f', h3) \<and> hfHeaders f' (hfLastHeight f + 1) = hfHeaders f (hfLastHeight f + 1) \<and>
    fetch_start f' n = hfLastHeight f + 2 \<and> hfHeaders f' (hfLastHeight f + 2) = Some b"
proof -
  let ?l = "hfLastHeight f"
  have "[?l + 1..?l + 2] = [?l + 1, ?l + 2]" by (simp add: upto_rec1)
  moreover have "fetch_start f (?l + 2) = ?l + 1" "fetch_end f (?l + 2) = ?l + 2"
    using assms(1) by (simp_all add: fetch_start_def fetch_end_def)
  ultimately show ?thesis using assms by (simp add: fetchHeaders_def fetch_start_def)
qed

section \<open>Witnesses\<close>

text \<open>A node with \<open>n + 1\<close> equal blocks, and one that does not find the hash of block 5.\<close>

definition sampleBlocks :: "int \<Rightarrow> BlockHeader" where
  "sampleBlocks k = sampleTip\<lparr>hHeight := k\<rparr>"

definition sampleNode :: "int \<Rightarrow> rpc_node" where
  "sampleNode n h rq =
     Reply 200 (Response
       (if rqMethod rq = ''getblockcount'' then JNumber (of_int n)
        else if rqMethod rq = ''getblockhash'' then JString (HashToDisplayHex (hHash sampleTip))
        else verbose_reply sampleTip) None)"

definition forgetfulNode :: rpc_node where
  "forgetfulNode h rq =
     (if rqMethod rq = ''getblockhash'' \<and> rqParams rq = [JNumber 5] then NoReply else sampleNode 6 h rq)"

definition rawNode :: rpc_node where
  "rawNode h rq = Reply 200 (Response (JString (hexEncode (serializeBlockHeader sampleTip))) None)"

lemma sampleTip_stored: "stored_ok sampleTip" "verbose_reply (sampleBlocks k) = verbose_reply sampleTip"
  by (simp_all add: stored_ok_def wf_header_def sampleTip_def verbose_reply_def sampleBlocks_def)

lemma sampleNode_serves: "0 \<le> n \<Longrightarrow> in_int64 n \<Longrightarrow> serves (sampleNode n) sampleBlocks n"
  using sampleTip_stored
  by (simp add: serves_def answers_def sampleNode_def) (simp add: sampleBlocks_def stored_ok_def wf_header_def)

theorem rpc_header_roundtrip_witness:
  "fst (ParseBlockHeaderFromRPC (sampleNode 9) (HashToDisplayHex (hHash sampleTip)) (hHeight sampleTip) []) = Inr sampleTip"
  by (rule rpc_header_roundtrip) (simp_all add: answers_def sampleNode_def sampleTip_stored)

theorem raw_header_reversed_witness:
  "fst (ParseBlockHeaderFromRPC rawNode (HashToDisplayHex (hHash sampleTip)) (hHeight sampleTip) []) =
    Inr (sampleTip\<lparr>hPrevBlock := rev (hPrevBlock sampleTip), hMerkleRoot := rev (hMerkleRoot sampleTip)\<rparr>)"
  by (rule raw_header_reversed) (simp_all add: answers_def rawNode_def sampleTip_stored)

theorem fetcher_mirrors_chain_witness:
  "mirrors sampleBlocks (fst (fetchLoop [sampleNode 5, sampleNode 70, sampleNode 70] (NewHeaderFetcher, [])))"
proof (rule fetcher_mirrors_chain)
  have "serves (sampleNode 5) sampleBlocks 5" "serves (sampleNode 70) sampleBlocks 70"
    by (simp_all add: sampleNode_serves in_int64_def)
  then show "\<forall>node \<in> set [sampleNode 5, sampleNode 70, sampleNode 70]. \<exists>n. serves node sampleBlocks n" by auto
qed

theorem fetch_gap_lost_witness:
  "\<exists>f' h'. fetchHeaders forgetfulNode (\<lparr>hfHeaders = Map.empty, hfLastHeight = 4\<rparr>, []) = (f', h') \<and> hfHeaders f' 5 = None \<and>
    fetch_start f' 9 = 6 \<and> hfHeaders f' 6 \<noteq> None"
proof -
  let ?f = "\<lparr>hfHeaders = Map.empty, hfLastHeight = 4\<rparr>"
  obtain h1 where 1: "GetBlockCount forgetfulNode [] = (Inr 6, h1)"
    by (simp add: GetBlockCount_def Call_def forgetfulNode_def sampleNode_def float_int64_def in_int64_def trunc_def)
  obtain e h2 where 2: "fetchHeader forgetfulNode 5 h1 = (Inl e, h2)"
    by (simp add: fetchHeader_def GetBlockHash_def Call_def forgetfulNode_def)
  obtain b h3 where 3: "fetchHeader forgetfulNode 6 h2 = (Inr b, h3)"
    by (simp add: fetchHeader_def GetBlockHash_def ParseBlockHeaderFromRPC_def Call_def forgetfulNode_def sampleNode_def
        verbose_reply_def)
  from fetch_gap_lost [of ?f forgetfulNode "[]" h1 e h2 b h3 9] 1 2 3 show ?thesis by auto
qed

end
