(* ===== verification/RpcMining.thy ===== *)
theory RpcMining
  imports MiningRound RpcNode
begin

text \<open>
  Mining through a node: how \<open>miningLoop\<close> of \<open>src/main.go\<close> gets its template in RPC mode, as calls to a
  node (\<open>RpcNode\<close>), and that this is the template the round of \<open>MiningRound\<close> works with. Two
  properties compose the node, the template and block assembly.
\<close>

section \<open>The template of a round\<close>

definition rpc_template ::
  "rpc_node \<Rightarrow> string \<Rightarrow> int \<Rightarrow> requests \<Rightarrow> (rpc_error + BlockTemplate) \<times> requests" where
  "rpc_template node net now h =
     (case rpc_GetTipHeader node h of
        (Inl e, h) \<Rightarrow> GetBlockTemplate node h
      | (Inr (height, tip), h) \<Rightarrow>
          (case BuildTemplateFromHeader (Some tip) net None 0 now of
             Inl e \<Rightarrow> GetBlockTemplate node h
           | Inr t \<Rightarrow> (Inr t, h)))"

text \<open>What a round meets when its node is \<open>node\<close>.\<close>

definition to_option :: "'e + 'a \<Rightarrow> 'a option" where
  "to_option r = (case r of Inl e \<Rightarrow> None | Inr a \<Rightarrow> Some a)"

definition node_env :: "rpc_node \<Rightarrow> requests \<Rightarrow> RoundEnv \<Rightarrow> RoundEnv" where
  "node_env node h env =
     env\<lparr>reRpcTip := map_option snd (to_option (fst (rpc_GetTipHeader node h))),
         reRpcTemplate := to_option (fst (GetBlockTemplate node (snd (rpc_GetTipHeader node h))))\<rparr>"

section \<open>Properties\<close>

lemma BuildTemplate_Some: "\<exists>t. BuildTemplateFromHeader (Some tip) net bits parent now = Inr t"
  by (simp add: BuildTemplateFromHeader_def Let_def)

lemma rpc_template_of_round:
  assumes "ConnectionMode (mConfig (rsMiner s)) \<noteq> ''p2p''" "mRpcClient (rsMiner s) \<noteq> None"
  shows "round_template (node_env node h env) s =
    to_option (fst (rpc_template node (cfgNetwork (mConfig (rsMiner s))) (reNow env) h))"
proof -
  obtain r h1 where r: "rpc_GetTipHeader node h = (r, h1)" by fastforce
  show ?thesis
  proof (cases r)
    case (Inl e)
    with assms r show ?thesis
      by (simp add: round_template_def node_env_def rpc_template_def to_option_def split: sum.split)
  next
    case (Inr q)
    obtain k tip where q: "q = (k, tip)" by (cases q)
    obtain t where "BuildTemplateFromHeader (Some tip) (cfgNetwork (mConfig (rsMiner s))) None 0 (reNow env) = Inr t"
      using BuildTemplate_Some by blast
    with assms r Inr q show ?thesis
      by (simp add: round_template_def node_env_def rpc_template_def to_option_def)
  qed
qed

lemma serves_template:
  assumes "serves node chain n"
  shows "\<exists>t. BuildTemplateFromHeader (Some (chain n)) net None 0 now = Inr t \<and>
      fst (rpc_template node net now h) = Inr t"
  using serves_tip [OF assms, of h] BuildTemplate_Some [of "chain n" net None 0 now]
  by (auto simp: rpc_template_def)

text \<open>In RPC mode the round works with exactly the template the calls to the node give: built from the
  node's tip when there is one, otherwise the node's own.\<close>

theorem rpc_round_template:
  assumes "ConnectionMode (mConfig (rsMiner s)) \<noteq> ''p2p''" "mRpcClient (rsMiner s) \<noteq> None"
  shows "round_template (node_env node h env) s =
    to_option (fst (rpc_template node (cfgNetwork (mConfig (rsMiner s))) (reNow env) h))"
  by (rule rpc_template_of_round [OF assms])

text \<open>C12: with a node that serves a chain, a round in RPC mode assembles a block on the node's tip: its
  previous hash is the hash of that block and its bits are the work required after it.\<close>

theorem rpc_round_mines_on_tip:
  assumes "serves node chain n" "BitsToTarget (hBits (chain n)) \<le> dogecoinPowLimitUint256"
    and "ConnectionMode (mConfig (rsMiner s)) \<noteq> ''p2p''" "mRpcClient (rsMiner s) \<noteq> None"
  shows "\<exists>t b m'. round_template (node_env node h env) s = Some t \<and> tHeight t = n + 1 \<and>
    createEmptyBlock t (rsMiner s) = (Inr b, m') \<and> bPrevBlock b = hHash (chain n) \<and>
    bBits b = GetNextWorkRequiredExtended (Some (chain n)) (reNow env) (cfgNetwork (mConfig (rsMiner s))) None 0"
proof -
  let ?net = "cfgNetwork (mConfig (rsMiner s))"
  from assms(1) have tip: "length (hHash (chain n)) = 32" "hHeight (chain n) = n"
    by (auto simp: serves_def stored_ok_def)
  obtain t where t: "BuildTemplateFromHeader (Some (chain n)) ?net None 0 (reNow env) = Inr t" using BuildTemplate_Some by blast
  with template_of_tip [OF tip(1) assms(2), of None ?net 0 "reNow env"] obtain b where
    T: "hexTo32Bytes (tPreviousBlockHash t) = Inr (hHash (chain n))" "hexDecode (tBits t) = Inr b" "tHeight t = n + 1"
      "get_u32 b = GetNextWorkRequiredExtended (Some (chain n)) (reNow env) ?net None 0"
    by (auto simp: tip(2))
  have len: "tBits t = hexEncode (put_u32 (get_u32 b))"
    using t T(4) by (auto simp: BuildTemplateFromHeader_def Let_def)
  with T(2) have "b = put_u32 (get_u32 b)" by simp
  then have "length b = length (put_u32 (get_u32 b))" by (rule arg_cong)
  then have "length b = 4" by simp
  with T(1,2) len arg_cong [OF len, of length] obtain blk m' where "createEmptyBlock t (rsMiner s) = (Inr blk, m')" "bPrevBlock blk = hHash (chain n)"
    "bBits blk = get_u32 b" by (simp add: createEmptyBlock_def Let_def)
  moreover have "fst (rpc_template node ?net (reNow env) h) = Inr t" using serves_template [OF assms(1), of ?net "reNow env" h] t by simp
  then have "round_template (node_env node h env) s = Some t"
    unfolding rpc_template_of_round [OF assms(3,4)] by (simp add: to_option_def)
  ultimately show ?thesis using T(3,4) by auto
qed

text \<open>C27: a template of the node itself is assembled with its bits turned round: \<open>getblocktemplate\<close> gives
  them most significant byte first, block assembly reads them least significant byte first.\<close>

theorem node_template_bits_swapped:
  assumes "decode_template fs = Inr t" "json_field fs ''bits'' = Some (JString (hexEncode (rev (put_u32 bits))))"
    and "createEmptyBlock t m = (Inr b, m')"
  shows "put_u32 (bBits b) = rev (put_u32 bits)"
proof -
  have "tBits t = hexEncode (rev (put_u32 bits))"
    using assms(1,2) by (auto simp: decode_template_def string_field_def ebind_eq_Inr_iff split: if_splits)
  then show ?thesis using createEmptyBlock_spec [OF assms(3)] by simp
qed

section \<open>Witnesses\<close>

definition rpcRound :: RoundState where
  "rpcRound = initial_round (sampleMiner\<lparr>mConfig := (mConfig sampleMiner)\<lparr>ConnectionMode := ''rpc''\<rparr>,
     mRpcClient := Some \<lparr>rpcUrl = ''u'', rpcUser = ''a'', rpcPass = ''b''\<rparr>\<rparr>) (\<lambda>_. None)"

lemma rpcRound_mode: "ConnectionMode (mConfig (rsMiner rpcRound)) \<noteq> ''p2p''" "mRpcClient (rsMiner rpcRound) \<noteq> None"
  by (simp_all add: rpcRound_def initial_round_def)

lemma sampleNode_9: "serves (sampleNode 9) sampleBlocks 9"
  by (rule sampleNode_serves) (simp_all add: in_int64_def)

theorem rpc_round_template_witness:
  "round_template (node_env (sampleNode 9) [] sampleEnv) rpcRound =
    to_option (fst (rpc_template (sampleNode 9) (cfgNetwork (mConfig (rsMiner rpcRound))) (reNow sampleEnv) []))"
  by (rule rpc_round_template [OF rpcRound_mode])

theorem rpc_round_mines_on_tip_witness:
  "\<exists>t b m'. round_template (node_env (sampleNode 9) [] sampleEnv) rpcRound = Some t \<and> tHeight t = 10 \<and>
    createEmptyBlock t (rsMiner rpcRound) = (Inr b, m') \<and> bPrevBlock b = replicate 32 7"
proof -
  have "hHash (sampleBlocks 9) = replicate 32 7" "BitsToTarget (hBits (sampleBlocks 9)) \<le> dogecoinPowLimitUint256"
    using sampleTip_target by (simp_all add: sampleBlocks_def sampleTip_def)
  with rpc_round_mines_on_tip [OF sampleNode_9 _ rpcRound_mode, where env = sampleEnv and h = "[]"] show ?thesis by auto
qed

definition sampleFields :: "(string \<times> json) list" where
  "sampleFields = [(''bits'', JString (hexEncode (rev (put_u32 0x1e0ffff0)))),
     (''previousblockhash'', JString (HashToDisplayHex (replicate 32 7)))]"

theorem node_template_bits_swapped_witness:
  "\<exists>t b m'. decode_template sampleFields = Inr t \<and> createEmptyBlock t sampleMiner = (Inr b, m') \<and> bBits b = 0xf0ff0f1e"
proof -
  obtain t where t: "decode_template sampleFields = Inr t" "tPreviousBlockHash t = HashToDisplayHex (replicate 32 7)"
    "tBits t = hexEncode (rev (put_u32 0x1e0ffff0))"
    by (simp add: decode_template_def sampleFields_def shape_ok_def json_field_def int_field_def string_field_def float_field_def)
  then obtain b m' where b: "createEmptyBlock t sampleMiner = (Inr b, m')" by (simp add: createEmptyBlock_def Let_def)
  have "put_u32 (bBits b) = rev (put_u32 0x1e0ffff0)"
    by (rule node_template_bits_swapped [OF t(1) _ b]) (simp add: sampleFields_def json_field_def)
  then have "bBits b = get_u32 (rev (put_u32 0x1e0ffff0))" by (metis get_put_u32)
  also have "\<dots> = 0xf0ff0f1e" by (simp add: put_u32_def nat_le_numeral get_u32_def)
  finally have "bBits b = 0xf0ff0f1e" .
  with t(1) b show ?thesis by blast
qed

end
