(* ===== verification/GoNet.thy ===== *)
theory GoNet
  imports GoText
begin

text \<open>
  What the peer code takes from Go's package \<open>net\<close>: the text of an IP address (\<open>IP.String\<close>) and
  the splitting of a \<open>host:port\<close> pair (\<open>SplitHostPort\<close>). The main facts: the text of an IPv4
  address has no colon, that of an IPv6 address has one, and a joined pair splits into its parts.
\<close>

section \<open>IP addresses as text\<close>

primrec join_with :: "string \<Rightarrow> string list \<Rightarrow> string" where
  "join_with sep [] = []"
| "join_with sep (w # ws) = (if ws = [] then w else w @ sep @ join_with sep ws)"

definition ipv4_string :: "byte list \<Rightarrow> string" where
  "ipv4_string bs = join_with ''.'' (map (\<lambda>b. itoa_nat (unat b)) bs)"

fun hex_nat :: "nat \<Rightarrow> string" where
  "hex_nat n = (if n < 16 then [hex_digit n] else hex_nat (n div 16) @ [hex_digit (n mod 16)])"

declare hex_nat.simps [simp del]

fun ip_groups :: "byte list \<Rightarrow> nat list" where
  "ip_groups (a # b # bs) = (256 * unat a + unat b) # ip_groups bs"
| "ip_groups _ = []"

text \<open>The first longest run of at least two zero groups: where it starts and how long it is.\<close>

definition zero_run :: "nat list \<Rightarrow> nat \<Rightarrow> nat" where
  "zero_run gs i = length (takeWhile (\<lambda>g. g = 0) (drop i gs))"

definition best_run :: "nat list \<Rightarrow> nat \<times> nat" where
  "best_run gs = fold (\<lambda>i (s, l). let r = zero_run gs i in if 2 \<le> r \<and> l < r then (i, r) else (s, l))
     [0..<length gs] (0, 0)"

definition ipv6_string :: "byte list \<Rightarrow> string" where
  "ipv6_string bs =
     (let gs = ip_groups bs; ws = map hex_nat gs; (s, l) = best_run gs
      in if l = 0 then join_with '':'' ws
         else join_with '':'' (take s ws) @ ''::'' @ join_with '':'' (drop (s + l) ws))"

definition v4_prefix :: "byte list" where
  "v4_prefix = replicate 10 0 @ [0xff, 0xff]"

definition ip_string :: "byte list \<Rightarrow> string" where
  "ip_string bs = (if take 12 bs = v4_prefix then ipv4_string (drop 12 bs) else ipv6_string bs)"

lemma set_join_with: "set (join_with sep ws) \<subseteq> set sep \<union> \<Union> (set (map set ws))"
  by (induction ws) (auto split: if_splits)

lemma join_with_sep: "2 \<le> length ws \<Longrightarrow> set sep \<subseteq> set (join_with sep ws)"
  by (induction ws rule: induct_list012) auto

lemma hex_digit_plain: "n < 16 \<Longrightarrow> hex_digit n \<notin> {CHR '':'', CHR ''['', CHR '']''}"
proof -
  have "\<forall>n < 16. hex_digit n \<notin> {CHR '':'', CHR ''['', CHR '']''}"
    unfolding all_lt_16 by (simp add: upt_rec hex_digit_def hexDigits_def)
  then show "n < 16 \<Longrightarrow> hex_digit n \<notin> {CHR '':'', CHR ''['', CHR '']''}" by blast
qed

lemma hex_nat_plain: "set (hex_nat n) \<inter> {CHR '':'', CHR ''['', CHR '']''} = {}"
proof (induction n rule: hex_nat.induct)
  case (1 n)
  have "n mod 16 < 16" by simp
  with 1 hex_digit_plain [of n] hex_digit_plain [of "n mod 16"] show ?case
    by (cases "n < 16") (auto simp: hex_nat.simps [of n] simp del: mod_less_divisor)
qed

lemma ipv4_plain: "set (ipv4_string bs) \<inter> {CHR '':'', CHR ''['', CHR '']''} = {}"
  using set_join_with [of "''.''" "map (\<lambda>b. itoa_nat (unat b)) bs"]
  by (force simp: ipv4_string_def)

lemma length_ip_groups: "length (ip_groups bs) = length bs div 2"
  by (induction bs rule: ip_groups.induct) auto

lemma ipv6_colon:
  assumes "length bs = 16"
  shows "CHR '':'' \<in> set (ipv6_string bs)"
proof -
  have "2 \<le> length (map hex_nat (ip_groups bs))" using assms by (simp add: length_ip_groups)
  from join_with_sep [OF this, of "'':''"] show ?thesis
    by (cases "best_run (ip_groups bs)") (simp add: ipv6_string_def Let_def)
qed

lemma ipv6_no_bracket: "set (ipv6_string bs) \<inter> {CHR ''['', CHR '']''} = {}"
proof -
  have j: "set (join_with '':'' (map hex_nat gs)) \<inter> {CHR ''['', CHR '']''} = {}" for gs
    using set_join_with [of "'':''" "map hex_nat gs"] hex_nat_plain by fastforce
  show ?thesis
    using j by (auto simp: ipv6_string_def Let_def take_map drop_map split: prod.split)
qed

section \<open>Splitting a host and a port\<close>

definition str_index :: "char \<Rightarrow> string \<Rightarrow> nat option" where
  "str_index c s = (let n = length (takeWhile (\<lambda>d. d \<noteq> c) s) in if n < length s then Some n else None)"

definition str_last_index :: "char \<Rightarrow> string \<Rightarrow> nat option" where
  "str_last_index c s = (case str_index c (rev s) of None \<Rightarrow> None | Some n \<Rightarrow> Some (length s - 1 - n))"

definition SplitHostPort :: "string \<Rightarrow> (string \<times> string) option" where
  "SplitHostPort s =
     (case str_last_index CHR '':'' s of
        None \<Rightarrow> None
      | Some i \<Rightarrow>
          if take 1 s = ''[''
          then case str_index CHR '']'' s of
                 None \<Rightarrow> None
               | Some e \<Rightarrow>
                   if e + 1 \<noteq> i then None
                   else if CHR ''['' \<in> set (drop 1 s) \<or> CHR '']'' \<in> set (drop (e + 1) s) then None
                   else Some (drop 1 (take e s), drop (i + 1) s)
          else if CHR '':'' \<in> set (take i s) then None
          else if CHR ''['' \<in> set s \<or> CHR '']'' \<in> set s then None
          else Some (take i s, drop (i + 1) s))"

lemma str_index_append: "c \<notin> set a \<Longrightarrow> str_index c (a @ c # b) = Some (length a)"
proof -
  assume "c \<notin> set a"
  then have "takeWhile (\<lambda>d. d \<noteq> c) (a @ c # b) = a" by (subst takeWhile_append2) auto
  then show ?thesis by (simp add: str_index_def)
qed

lemma str_last_index_append: "c \<notin> set b \<Longrightarrow> str_last_index c (a @ c # b) = Some (length a)"
  using str_index_append [of c "rev b" "rev a"] by (simp add: str_last_index_def)

lemma Split_JoinHostPort:
  assumes "CHR ''['' \<notin> set host" "CHR '']'' \<notin> set host"
    and "CHR '':'' \<notin> set prt" "CHR ''['' \<notin> set prt" "CHR '']'' \<notin> set prt"
  shows "SplitHostPort (JoinHostPort host prt) = Some (host, prt)"
proof (cases "CHR '':'' \<in> set host")
  case True
  let ?s = "''['' @ host @ '']:'' @ prt"
  have i: "str_last_index CHR '':'' ?s = Some (length host + 2)"
    using str_last_index_append [OF assms(3), of "''['' @ host @ '']''"] by simp
  have e: "str_index CHR '']'' ?s = Some (length host + 1)"
    using str_index_append [of "CHR '']''" "''['' @ host" "'':'' @ prt"] assms(2) by simp
  show ?thesis using True assms i e by (simp add: JoinHostPort_def SplitHostPort_def)
next
  case False
  have i: "str_last_index CHR '':'' (host @ '':'' @ prt) = Some (length host)"
    using str_last_index_append [OF assms(3), of host] by simp
  have "take 1 (host @ '':'' @ prt) \<noteq> ''[''" using assms(1) by (cases host) auto
  with False assms i show ?thesis by (simp add: JoinHostPort_def SplitHostPort_def)
qed

end
