(* ===== verification/PeerMessages.thy ===== *)
theory PeerMessages
  imports P2PMessages GoNet
begin

text \<open>
  The payloads peers exchange before and beside the headers, of \<open>src/p2p.go\<close>: \<open>version\<close>
  (\<open>sendVersion\<close> and its reader in \<open>handshake\<close>), \<open>addr\<close> (\<open>parseAddrPayload\<close>), \<open>reject\<close>
  (\<open>parseRejectMessage\<close>), and the port filter \<open>isWrongNetworkPeer\<close>. The main facts: a peer
  reads from our version message what we put in, and the filter keeps of an \<open>addr\<close> message
  exactly the addresses with the network's port, for IPv4 and IPv6.
\<close>

section \<open>version\<close>

record PeerInfo =
  piVersion :: int
  piServices :: u64
  piUserAgent :: string

definition userAgent :: string where
  "userAgent = ''/DogeLuckyMining:0.1.0/''"

definition net_addr :: "u64 \<Rightarrow> u16 \<Rightarrow> byte list" where
  "net_addr services port = put_u64 services @ replicate 16 0 @ put_u16_be port"

text \<open>\<open>now\<close> is the Unix time and \<open>nonce\<close> the random number of the message.\<close>

definition version_payload :: "int \<Rightarrow> u64 \<Rightarrow> u16 \<Rightarrow> byte list" where
  "version_payload now nonce port =
     put_u32 70015 @ put_u64 1 @ put_u64 (of_int now) @ net_addr 1 port @ net_addr 1 0 @ put_u64 nonce @
     writeLen userAgent @ string_bytes userAgent @ put_u32 0 @ [1]"

definition sendVersion :: "int \<Rightarrow> u64 \<Rightarrow> u16 \<Rightarrow> PeerLink \<Rightarrow> (msg_error + unit) \<times> PeerLink" where
  "sendVersion now nonce port l = writeMessage ''version'' (version_payload now nonce port) l"

definition agent_of :: "byte list \<Rightarrow> string option" where
  "agent_of r =
     (case readVarInt r of
        Inl e \<Rightarrow> None
      | Inr (n, r) \<Rightarrow>
          if 0 < n \<and> n < 256
          then (case read_full (unat n) r of Inl e \<Rightarrow> None | Inr (bs, r) \<Rightarrow> Some (bytes_string bs))
          else None)"

definition read_version :: "byte list \<Rightarrow> PeerInfo \<Rightarrow> PeerInfo" where
  "read_version payload info =
     (if 80 \<le> length payload
      then let info = info\<lparr>piVersion := sint (get_u32 (take 4 payload)),
                           piServices := get_u64 (take 8 (drop 4 payload))\<rparr>
           in if 80 < length payload
              then (case agent_of (drop 80 payload) of
                      None \<Rightarrow> info | Some a \<Rightarrow> info\<lparr>piUserAgent := a\<rparr>)
              else info
      else info)"

section \<open>addr\<close>

definition addr_host_port :: "byte list \<Rightarrow> string" where
  "addr_host_port entry =
     JoinHostPort (ip_string (take 16 (drop 12 entry))) (Itoa (uint (get_u16_be (take 2 (drop 28 entry)))))"

primrec addr_loop :: "nat \<Rightarrow> byte list \<Rightarrow> string list" where
  "addr_loop 0 r = []"
| "addr_loop (Suc n) r =
     (case read_full 30 r of
        Inl e \<Rightarrow> []
      | Inr (entry, r) \<Rightarrow> addr_host_port entry # addr_loop n r)"

definition parseAddrPayload :: "byte list \<Rightarrow> io_error + string list" where
  "parseAddrPayload payload =
     ebind (readVarInt payload) (\<lambda>(count, r). Inr (addr_loop (min (unat count) 1000) r))"

section \<open>reject\<close>

definition io_error_text :: "io_error \<Rightarrow> string" where
  "io_error_text e = (case e of EOF \<Rightarrow> ''EOF'' | UnexpectedEOF \<Rightarrow> ''unexpected EOF'')"

definition str_error_text :: "str_error \<Rightarrow> string" where
  "str_error_text e =
     (case e of StrIO i \<Rightarrow> io_error_text i | StrTooLong n \<Rightarrow> ''string too long: '' @ Itoa (uint n))"

definition codeNames :: "(byte \<times> string) list" where
  "codeNames =
    [(0x01, ''REJECT_MALFORMED''), (0x10, ''REJECT_INVALID''), (0x11, ''REJECT_OBSOLETE''),
     (0x12, ''REJECT_DUPLICATE''), (0x40, ''REJECT_NONSTANDARD''), (0x41, ''REJECT_DUST''),
     (0x42, ''REJECT_INSUFFICIENTFEE''), (0x43, ''REJECT_CHECKPOINT'')]"

definition code_name :: "byte \<Rightarrow> string" where
  "code_name c =
     (case map_of codeNames c of Some n \<Rightarrow> n | None \<Rightarrow> ''UNKNOWN(0x'' @ hexEncode [c] @ '')'')"

definition parseRejectMessage :: "byte list \<Rightarrow> string" where
  "parseRejectMessage payload =
     (if length payload < 2 then ''malformed reject (too short)''
      else case readString payload of
        Inl e \<Rightarrow> ''reject error: '' @ str_error_text e
      | Inr (cmd, r) \<Rightarrow>
          (case read_full 1 r of
             Inl e \<Rightarrow> ''reject '' @ bytes_string cmd @ '': no code''
           | Inr (c, r) \<Rightarrow>
               let reason = (case readString r of Inl e \<Rightarrow> ''(no reason)'' | Inr (bs, r) \<Rightarrow> bytes_string bs)
               in ''command='' @ bytes_string cmd @ '' code='' @ code_name (c ! 0) @ '' reason='' @ reason))"

section \<open>The port filter\<close>

definition peer_port :: "string \<Rightarrow> int" where
  "peer_port addr =
     (if take 1 addr = ''[''
      then (case after_last CHR '':'' addr of
              None \<Rightarrow> 0
            | Some s \<Rightarrow> (case Atoi s of None \<Rightarrow> 0 | Some p \<Rightarrow> p))
      else let parts = str_split CHR '':'' addr in
           if length parts = 2 then (case Atoi (parts ! 1) of None \<Rightarrow> 0 | Some p \<Rightarrow> p) else 0)"

definition isWrongNetworkPeer :: "string \<Rightarrow> string \<Rightarrow> bool" where
  "isWrongNetworkPeer net addr =
     (let p = peer_port addr in
      p = 0 \<or> (net = ''testnet'' \<and> p \<noteq> 44556) \<or> (net = ''mainnet'' \<and> p \<noteq> 22556))"

section \<open>Reading back\<close>

text \<open>A peer address and its entry in an \<open>addr\<close> message.\<close>

record NetAddr =
  naTime :: u32
  naServices :: u64
  naIP :: "byte list"
  naPort :: u16

definition wf_addr :: "NetAddr \<Rightarrow> bool" where
  "wf_addr a \<longleftrightarrow> length (naIP a) = 16"

definition addr_entry :: "NetAddr \<Rightarrow> byte list" where
  "addr_entry a = put_u32 (naTime a) @ put_u64 (naServices a) @ naIP a @ put_u16_be (naPort a)"

definition addr_text :: "NetAddr \<Rightarrow> string" where
  "addr_text a = JoinHostPort (ip_string (naIP a)) (Itoa (uint (naPort a)))"

lemma addr_entry_read: "wf_addr a \<Longrightarrow> length (addr_entry a) = 30 \<and> addr_host_port (addr_entry a) = addr_text a"
  by (simp add: wf_addr_def addr_entry_def addr_host_port_def addr_text_def)

lemma addr_loop_entries:
  "list_all wf_addr as \<Longrightarrow> addr_loop n (concat (map addr_entry as)) = map addr_text (take n as)"
proof (induction n arbitrary: as)
  case (Suc n)
  show ?case
  proof (cases as)
    case Nil
    then show ?thesis by (simp add: read_full_def)
  next
    case (Cons a bs)
    with Suc.prems have "wf_addr a" "list_all wf_addr bs" by simp_all
    with addr_entry_read [of a] Suc.IH [of bs] Cons show ?thesis by simp
  qed
qed simp

lemma length_itoa_nat: "n < 10 ^ 5 \<Longrightarrow> in_int64 (int n)"
  by (simp add: in_int64_def)

lemma peer_port_addr: "wf_addr a \<Longrightarrow> peer_port (addr_text a) = uint (naPort a)"
proof -
  assume wf: "wf_addr a"
  let ?h = "ip_string (naIP a)" and ?p = "Itoa (uint (naPort a))"
  have port: "?p = itoa_nat (unat (naPort a))" by (simp add: Itoa_def)
  have "uint (naPort a) < 2 ^ 16" using uint_lt2p [of "naPort a"] by simp
  then have atoi: "Atoi ?p = Some (uint (naPort a))" by (intro Atoi_Itoa) (simp add: in_int64_def order_trans [OF _ uint_ge_0])
  show ?thesis
  proof (cases "take 12 (naIP a) = v4_prefix")
    case True
    then have h: "?h = ipv4_string (drop 12 (naIP a))" by (simp add: ip_string_def)
    then have plain: "CHR '':'' \<notin> set ?h" "CHR ''['' \<notin> set ?h" using ipv4_plain by fastforce+
    then have "addr_text a = ?h @ CHR '':'' # ?p" by (simp add: addr_text_def JoinHostPort_def)
    moreover have "take 1 (?h @ CHR '':'' # ?p) \<noteq> ''[''" using plain by (cases ?h) auto
    moreover have "str_split CHR '':'' (?h @ CHR '':'' # ?p) = [?h, ?p]"
      using plain by (simp add: str_split_append str_split_notin port)
    ultimately show ?thesis by (simp add: peer_port_def atoi)
  next
    case False
    then have "?h = ipv6_string (naIP a)" by (simp add: ip_string_def)
    then have "CHR '':'' \<in> set ?h" using ipv6_colon wf by (simp add: wf_addr_def)
    then have joined: "addr_text a = (''['' @ ?h @ '']'') @ CHR '':'' # ?p"
      by (simp add: addr_text_def JoinHostPort_def)
    have "after_last CHR '':'' ((''['' @ ?h @ '']'') @ CHR '':'' # ?p) = Some ?p"
      by (rule after_last_append) (simp_all add: port)
    then show ?thesis unfolding joined by (simp add: peer_port_def atoi)
  qed
qed

section \<open>Properties\<close>

text \<open>A peer that reads our version message with the program's own reader learns protocol version
  70015, the service bit of a full node, and our user agent.\<close>

theorem version_roundtrip:
  "read_version (version_payload now nonce port) info =
     \<lparr>piVersion = 70015, piServices = 1, piUserAgent = ''/DogeLuckyMining:0.1.0/'', \<dots> = PeerInfo.more info\<rparr>"
proof -
  define h where "h = put_u64 (of_int now) @ net_addr 1 port @ net_addr 1 0 @ put_u64 nonce"
  define t where "t = writeLen userAgent @ string_bytes userAgent @ put_u32 0 @ [1]"
  have n: "length userAgent = 23" "length (string_bytes userAgent) = length userAgent"
    by (simp_all add: userAgent_def string_bytes_def)
  have "unat (of_nat (length userAgent) :: u64) = length userAgent" by (rule unat_of_nat_u64) (simp add: n)
  moreover have "read_full (length userAgent) (string_bytes userAgent @ r) = Inr (string_bytes userAgent, r)" for r
    by (simp add: n)
  ultimately have agent: "agent_of t = Some userAgent"
    by (simp add: agent_of_def t_def word_less_nat_alt n)
  have h: "length h = 68" by (simp add: h_def net_addr_def)
  have "t \<noteq> []" by (simp add: t_def)
  moreover have "version_payload now nonce port = put_u32 70015 @ put_u64 1 @ h @ t"
    by (simp add: version_payload_def h_def t_def)
  ultimately show ?thesis
    using h agent by (simp add: read_version_def Let_def) (simp add: userAgent_def)
qed

text \<open>Of an \<open>addr\<close> message, the port filter keeps exactly the addresses, among the first
  1000, whose port is that of the network, for IPv4 and IPv6 addresses alike; on a network that
  is neither mainnet nor testnet it keeps every address with a port.\<close>

theorem addr_port_filter:
  assumes "list_all wf_addr as" "length as < 2 ^ 64"
  shows "parseAddrPayload (writeLen as @ concat (map addr_entry as)) = Inr (map addr_text (take 1000 as)) \<and>
    filter (\<lambda>x. \<not> isWrongNetworkPeer net x) (map addr_text (take 1000 as)) =
    map addr_text (filter (\<lambda>a. if net = ''testnet'' then naPort a = 44556
      else if net = ''mainnet'' then naPort a = 22556 else naPort a \<noteq> 0) (take 1000 as))"
proof -
  have "unat (of_nat (length as) :: u64) = length as" using assms(2) by (rule unat_of_nat_u64)
  then have "parseAddrPayload (writeLen as @ concat (map addr_entry as)) = Inr (map addr_text (take 1000 as))"
    using addr_loop_entries [OF assms(1)] by (simp add: parseAddrPayload_def min_def)
  moreover have "(\<not> isWrongNetworkPeer net (addr_text a)) = (if net = ''testnet'' then naPort a = 44556
      else if net = ''mainnet'' then naPort a = 22556 else naPort a \<noteq> 0)" if "a \<in> set (take 1000 as)" for a
  proof -
    have "wf_addr a" using that assms(1) in_set_takeD by (fastforce simp: list_all_iff)
    moreover have "(uint (naPort a) = 44556) = (naPort a = 44556)" "(uint (naPort a) = 22556) = (naPort a = 22556)"
      "(uint (naPort a) = 0) = (naPort a = 0)"
      using word_uint_eq_iff [of "naPort a"] by simp_all
    ultimately show ?thesis by (auto simp: isWrongNetworkPeer_def peer_port_addr Let_def)
  qed
  then have "filter (\<lambda>a. \<not> isWrongNetworkPeer net (addr_text a)) (take 1000 as) =
    filter (\<lambda>a. if net = ''testnet'' then naPort a = 44556
      else if net = ''mainnet'' then naPort a = 22556 else naPort a \<noteq> 0) (take 1000 as)"
    by (rule filter_cong [OF refl])
  ultimately show ?thesis by (simp add: filter_map comp_def)
qed

definition sampleV4 :: NetAddr where
  "sampleV4 = \<lparr>naTime = 1, naServices = 1, naIP = v4_prefix @ [1, 2, 3, 4], naPort = 44556\<rparr>"

definition sampleV6 :: NetAddr where
  "sampleV6 = \<lparr>naTime = 1, naServices = 1, naIP = replicate 15 0 @ [1], naPort = 22556\<rparr>"

lemma sample_addrs: "list_all wf_addr [sampleV4, sampleV6]" "naPort sampleV4 = 44556" "naPort sampleV6 = 22556"
  by (simp_all add: wf_addr_def sampleV4_def sampleV6_def v4_prefix_def)

theorem addr_port_filter_witness:
  "filter (\<lambda>x. \<not> isWrongNetworkPeer ''testnet'' x) (map addr_text [sampleV4, sampleV6]) = [addr_text sampleV4]"
proof -
  have "length [sampleV4, sampleV6] < 2 ^ 64" by simp
  from addr_port_filter [OF sample_addrs(1) this, of "''testnet''"] show ?thesis
    by (simp add: sample_addrs)
qed

end
