(* ===== verification/PeerBook.thy ===== *)
theory PeerBook
  imports PeerMessages "HOL-Library.Multiset"
begin

text \<open>
  What \<open>src/p2p.go\<close> remembers of its peers: the list of recently failed ones (\<open>isBadPeer\<close>,
  \<open>markBadPeer\<close>, \<open>filterBadPeers\<close>), the cache file with their successes and failures
  (\<open>updatePeerResult\<close>, \<open>savePeersToCache\<close>, \<open>loadCachedPeers\<close> with its legacy format), and
  the deduplicated log. Times are milliseconds. The contents of a JSON file are the value it
  was written from; writing a file succeeds.
\<close>

section \<open>State\<close>

record PeerEntry =
  peAddr :: string
  peLastSeen :: int
  SuccessCount :: int
  FailCount :: int
  peUserAgent :: string

record PeerCache =
  pcNetwork :: string
  pcPeers :: "PeerEntry list"
  pcUpdated :: int

text \<open>A cache file is missing, not JSON, or the cache it was written from.\<close>

datatype cache_file = Absent | Garbled | Cached PeerCache

record PeerBook =
  badPeers :: "string \<rightharpoonup> int"
  cacheFiles :: "string \<Rightarrow> cache_file"
  legacyFiles :: "string \<Rightarrow> string list option"
  seedBadList :: "string \<rightharpoonup> int"

definition peerCacheFile :: "string \<Rightarrow> string" where
  "peerCacheFile net = (if net = ''testnet'' then ''peers_testnet.json'' else ''peers_mainnet.json'')"

definition legacy_file :: "string \<Rightarrow> string" where
  "legacy_file net = (if net = ''testnet'' then ''peers_testnet.txt'' else ''peers_mainnet.txt'')"

definition read_cache :: "string \<Rightarrow> PeerBook \<Rightarrow> PeerCache option" where
  "read_cache net bk = (case cacheFiles bk (peerCacheFile net) of Cached c \<Rightarrow> Some c | _ \<Rightarrow> None)"

definition write_cache :: "string \<Rightarrow> PeerCache \<Rightarrow> PeerBook \<Rightarrow> PeerBook" where
  "write_cache net c bk = bk\<lparr>cacheFiles := (cacheFiles bk)(peerCacheFile net := Cached c)\<rparr>"

section \<open>Bad peers\<close>

definition isBadPeer :: "int \<Rightarrow> string \<Rightarrow> PeerBook \<Rightarrow> bool \<times> PeerBook" where
  "isBadPeer now addr bk =
     (case badPeers bk addr of
        None \<Rightarrow> (False, bk)
      | Some t \<Rightarrow> if 120000 < now - t then (False, bk\<lparr>badPeers := (badPeers bk)(addr := None)\<rparr>) else (True, bk))"

definition successes :: "string \<Rightarrow> string \<Rightarrow> PeerBook \<Rightarrow> int" where
  "successes net addr bk =
     (case read_cache net bk of
        None \<Rightarrow> 0
      | Some c \<Rightarrow> (case find (\<lambda>e. peAddr e = addr) (pcPeers c) of None \<Rightarrow> 0 | Some e \<Rightarrow> SuccessCount e))"

definition markBadPeer :: "int \<Rightarrow> string \<Rightarrow> string \<Rightarrow> PeerBook \<Rightarrow> PeerBook" where
  "markBadPeer now net addr bk =
     bk\<lparr>badPeers := (badPeers bk)(addr \<mapsto> (if 2 \<le> successes net addr bk then now - 90000 else now))\<rparr>"

primrec filterBadPeers :: "int \<Rightarrow> string list \<Rightarrow> PeerBook \<Rightarrow> string list \<times> PeerBook" where
  "filterBadPeers now [] bk = ([], bk)"
| "filterBadPeers now (a # as) bk =
     (let (bad, bk) = isBadPeer now a bk; (as, bk) = filterBadPeers now as bk
      in (if bad then as else a # as, bk))"

section \<open>The cache file\<close>

definition bump_entry :: "int \<Rightarrow> bool \<Rightarrow> string \<Rightarrow> PeerEntry \<Rightarrow> PeerEntry" where
  "bump_entry now success agent e =
     (let e = (if success then e\<lparr>SuccessCount := SuccessCount e + 1\<rparr> else e\<lparr>FailCount := FailCount e + 1\<rparr>);
          e = e\<lparr>peLastSeen := now\<rparr>
      in if agent \<noteq> '''' then e\<lparr>peUserAgent := agent\<rparr> else e)"

primrec bump_first :: "(PeerEntry \<Rightarrow> PeerEntry) \<Rightarrow> string \<Rightarrow> PeerEntry list \<Rightarrow> PeerEntry list option" where
  "bump_first f addr [] = None"
| "bump_first f addr (e # es) =
     (if peAddr e = addr then Some (f e # es) else map_option (Cons e) (bump_first f addr es))"

definition new_entry :: "int \<Rightarrow> string \<Rightarrow> bool \<Rightarrow> string \<Rightarrow> PeerEntry" where
  "new_entry now addr success agent =
     \<lparr>peAddr = addr, peLastSeen = now, SuccessCount = (if success then 1 else 0),
      FailCount = (if success then 0 else 1), peUserAgent = agent\<rparr>"

definition updatePeerResult :: "int \<Rightarrow> string \<Rightarrow> string \<Rightarrow> bool \<Rightarrow> string \<Rightarrow> PeerBook \<Rightarrow> PeerBook" where
  "updatePeerResult now net addr0 success agent bk =
     (let addr = TrimSpace addr0 in
      if addr = '''' then bk
      else
        let ps = (case read_cache net bk of None \<Rightarrow> [] | Some c \<Rightarrow> pcPeers c);
            save = (\<lambda>ps. write_cache net \<lparr>pcNetwork = net, pcPeers = ps, pcUpdated = now\<rparr> bk)
        in case bump_first (bump_entry now success agent) addr ps of
             Some ps' \<Rightarrow> save ps'
           | None \<Rightarrow> if 200 \<le> length ps then bk else save (ps @ [new_entry now addr success agent]))"

definition savePeerToCache :: "int \<Rightarrow> string \<Rightarrow> string \<Rightarrow> PeerBook \<Rightarrow> PeerBook" where
  "savePeerToCache now net addr bk = updatePeerResult now net addr True '''' bk"

definition savePeersToCache :: "int \<Rightarrow> string \<Rightarrow> string list \<Rightarrow> PeerBook \<Rightarrow> PeerBook" where
  "savePeersToCache now net addrs bk = fold (\<lambda>a. updatePeerResult now net a False '''') addrs bk"

definition savePeerCache :: "int \<Rightarrow> string \<Rightarrow> string list \<Rightarrow> PeerBook \<Rightarrow> PeerBook" where
  "savePeerCache now net addrs bk =
     write_cache net \<lparr>pcNetwork = net,
       pcPeers = map (\<lambda>a. \<lparr>peAddr = a, peLastSeen = now, SuccessCount = 0, FailCount = 0, peUserAgent = ''''\<rparr>) addrs,
       pcUpdated = now\<rparr> bk"

section \<open>Loading the cache\<close>

definition score :: "PeerEntry \<Rightarrow> int" where
  "score e = SuccessCount e - FailCount e"

text \<open>
  The sort by exchange: the inner loop carries the entry at position \<open>i\<close> over the rest and
  leaves there what it is exchanged with.
\<close>

primrec carry_best :: "PeerEntry \<Rightarrow> PeerEntry list \<Rightarrow> PeerEntry \<times> PeerEntry list" where
  "carry_best x [] = (x, [])"
| "carry_best x (y # ys) =
     (if score y > score x then let (m, zs) = carry_best y ys in (m, x # zs)
      else let (m, zs) = carry_best x ys in (m, y # zs))"

lemma length_carry_best [simp]: "length (snd (carry_best x ys)) = length ys"
  by (induction ys arbitrary: x) (auto simp: split_beta Let_def)

function exchange_sort :: "PeerEntry list \<Rightarrow> PeerEntry list" where
  "exchange_sort [] = []"
| "exchange_sort (x # xs) = (let r = carry_best x xs in fst r # exchange_sort (snd r))"
  by pat_completeness auto
termination by (relation "measure length") auto

primrec usable_peers :: "int \<Rightarrow> string \<Rightarrow> string list \<Rightarrow> PeerBook \<Rightarrow> string list \<times> PeerBook" where
  "usable_peers now net [] bk = ([], bk)"
| "usable_peers now net (a # as) bk =
     (let (bad, bk) = isBadPeer now a bk; (as, bk) = usable_peers now net as bk
      in (if \<not> bad \<and> \<not> isWrongNetworkPeer net a then a # as else as, bk))"

text \<open>\<open>shuffle\<close> is \<open>rand.Shuffle\<close>. The results are the peers put before the known ones.\<close>

definition loadCachedPeersLegacy ::
  "(string list \<Rightarrow> string list) \<Rightarrow> int \<Rightarrow> string \<Rightarrow> PeerBook \<Rightarrow> string list \<times> PeerBook" where
  "loadCachedPeersLegacy shuffle now net bk =
     (case legacyFiles bk (legacy_file net) of
        None \<Rightarrow> ([], bk)
      | Some ls \<Rightarrow>
          let loaded = filter (\<lambda>l. l \<noteq> '''' \<and> CHR '':'' \<in> set l) (map TrimSpace ls);
              (loaded, bk) = filterBadPeers now loaded bk
          in if loaded = [] then ([], bk)
             else let loaded = take 50 (shuffle loaded); bk = savePeerCache now net loaded bk
                  in (loaded, bk\<lparr>legacyFiles := (legacyFiles bk)(legacy_file net := None)\<rparr>))"

definition loadCachedPeers ::
  "(string list \<Rightarrow> string list) \<Rightarrow> int \<Rightarrow> string \<Rightarrow> PeerBook \<Rightarrow> string list \<times> PeerBook" where
  "loadCachedPeers shuffle now net bk =
     (case cacheFiles bk (peerCacheFile net) of
        Absent \<Rightarrow> ([], bk)
      | Garbled \<Rightarrow> loadCachedPeersLegacy shuffle now net bk
      | Cached c \<Rightarrow>
          if pcPeers c = [] then ([], bk)
          else let (loaded, bk) = usable_peers now net (map peAddr (exchange_sort (pcPeers c))) bk
               in (take 50 loaded, bk))"

section \<open>The deduplicated log\<close>

text \<open>The multiplication sign of the summaries is written as the letter x.\<close>

record DedupLog =
  lastLoggedMsg :: string
  lastLoggedMsgCount :: int
  lastLoggedMsgTime :: int
  logged :: "string list"

definition times_msg :: "int \<Rightarrow> string \<Rightarrow> string" where
  "times_msg n m = ''P2P: [x'' @ Itoa n @ ''] '' @ m"

definition logDeduplicated :: "int \<Rightarrow> string \<Rightarrow> DedupLog \<Rightarrow> DedupLog" where
  "logDeduplicated now m d =
     (if m = lastLoggedMsg d
      then let n = lastLoggedMsgCount d + 1 in
           if 2000 < now - lastLoggedMsgTime d
           then d\<lparr>logged := logged d @ [times_msg n m], lastLoggedMsgCount := 0, lastLoggedMsgTime := now\<rparr>
           else d\<lparr>lastLoggedMsgCount := n\<rparr>
      else let d = (if 0 < lastLoggedMsgCount d
                    then d\<lparr>logged := logged d @ [times_msg (lastLoggedMsgCount d) (lastLoggedMsg d)]\<rparr> else d)
           in d\<lparr>logged := logged d @ [''P2P: '' @ m], lastLoggedMsg := m, lastLoggedMsgCount := 1,
                lastLoggedMsgTime := now\<rparr>)"

section \<open>Bad peers expire\<close>

definition bad_now :: "PeerBook \<Rightarrow> int \<Rightarrow> string \<Rightarrow> bool" where
  "bad_now bk now a \<longleftrightarrow> (\<exists>t. badPeers bk a = Some t \<and> now - t \<le> 120000)"

lemma isBadPeer_result:
  "isBadPeer now a bk = (b, bk') \<Longrightarrow>
     b = bad_now bk now a \<and> bad_now bk' now = bad_now bk now \<and>
     cacheFiles bk' = cacheFiles bk \<and> legacyFiles bk' = legacyFiles bk \<and> seedBadList bk' = seedBadList bk"
  by (auto simp: isBadPeer_def bad_now_def fun_eq_iff split: option.splits if_splits)

lemma filterBadPeers_result:
  "filterBadPeers now as bk = (bs, bk') \<Longrightarrow>
     bs = filter (\<lambda>a. \<not> bad_now bk now a) as \<and> bad_now bk' now = bad_now bk now \<and>
     cacheFiles bk' = cacheFiles bk \<and> legacyFiles bk' = legacyFiles bk \<and> seedBadList bk' = seedBadList bk"
proof (induction as arbitrary: bk bs bk')
  case (Cons a as)
  obtain b bk1 where 1: "isBadPeer now a bk = (b, bk1)" by fastforce
  obtain cs bk2 where 2: "filterBadPeers now as bk1 = (cs, bk2)" by fastforce
  from Cons.prems Cons.IH [OF 2] isBadPeer_result [OF 1] 1 2 show ?case by auto
qed simp

lemma usable_peers_result:
  "usable_peers now net as bk = (bs, bk') \<Longrightarrow>
     bs = filter (\<lambda>a. \<not> bad_now bk now a \<and> \<not> isWrongNetworkPeer net a) as \<and> bad_now bk' now = bad_now bk now \<and>
     cacheFiles bk' = cacheFiles bk \<and> legacyFiles bk' = legacyFiles bk \<and> seedBadList bk' = seedBadList bk"
proof (induction as arbitrary: bk bs bk')
  case (Cons a as)
  obtain b bk1 where 1: "isBadPeer now a bk = (b, bk1)" by fastforce
  obtain cs bk2 where 2: "usable_peers now net as bk1 = (cs, bk2)" by fastforce
  from Cons.prems Cons.IH [OF 2] isBadPeer_result [OF 1] 1 2 show ?case by auto
qed simp

section \<open>The sort\<close>

lemma carry_best_mset: "mset (fst (carry_best x ys) # snd (carry_best x ys)) = mset (x # ys)"
proof (induction ys arbitrary: x)
  case (Cons y ys)
  show ?case using Cons.IH [of x] Cons.IH [of y] by (auto simp: split_beta Let_def)
qed simp

lemma carry_best_ge: "score x \<le> score (fst (carry_best x ys))"
proof (induction ys arbitrary: x)
  case (Cons z zs)
  show ?case using Cons.IH [where x = x] Cons.IH [where x = z] by (auto simp: split_beta Let_def)
qed simp

lemma carry_best_max: "y \<in> set (x # snd (carry_best x ys)) \<Longrightarrow> score y \<le> score (fst (carry_best x ys))"
proof (induction ys arbitrary: x)
  case (Cons z zs)
  show ?case using Cons.prems Cons.IH [where x = x] Cons.IH [where x = z] carry_best_ge [of x zs] carry_best_ge [of z zs]
    by (auto simp: split_beta Let_def split: if_splits)
qed simp

lemma exchange_sort_mset: "mset (exchange_sort xs) = mset xs"
proof (induction xs rule: exchange_sort.induct)
  case (2 x xs)
  then show ?case using carry_best_mset [of x xs] by (simp add: Let_def)
qed simp

lemma exchange_sort_sorted: "sorted_wrt (\<lambda>a b. score b \<le> score a) (exchange_sort xs)"
proof (induction xs rule: exchange_sort.induct)
  case (2 x xs)
  have "set (exchange_sort (snd (carry_best x xs))) = set (snd (carry_best x xs))"
    by (rule mset_eq_setD) (rule exchange_sort_mset)
  with 2 carry_best_max [of _ x xs] show ?case by (simp add: Let_def)
qed simp

section \<open>The cache\<close>

lemma bump_first_addrs: "(\<And>e. peAddr (f e) = peAddr e) \<Longrightarrow> bump_first f a es = Some es' \<Longrightarrow> map peAddr es' = map peAddr es"
  by (induction es arbitrary: es') (auto split: if_splits)

lemma bump_first_None: "bump_first f a es = None \<longleftrightarrow> a \<notin> peAddr ` set es"
  by (induction es) auto

lemma bump_entry_simps [simp]:
  "peAddr (bump_entry now ok ag e) = peAddr e"
  "SuccessCount (bump_entry now ok ag e) = SuccessCount e + (if ok then 1 else 0)"
  "FailCount (bump_entry now ok ag e) = FailCount e + (if ok then 0 else 1)"
  by (simp_all add: bump_entry_def Let_def)

lemma bump_first_find:
  "(\<And>e. peAddr (f e) = peAddr e) \<Longrightarrow> bump_first f a es = Some es' \<Longrightarrow>
     find (\<lambda>e. peAddr e = b) es' =
       (if b = a then map_option f (find (\<lambda>e. peAddr e = a) es) else find (\<lambda>e. peAddr e = b) es)"
  by (induction es arbitrary: es') (auto split: if_splits)

lemma find_addr: "e \<in> set es \<Longrightarrow> distinct (map peAddr es) \<Longrightarrow> find (\<lambda>x. peAddr x = peAddr e) es = Some e"
  by (induction es) (auto simp: rev_image_eqI)

lemma bump_first_set:
  "bump_first f a es = Some es' \<Longrightarrow> e' \<in> set es' \<Longrightarrow> e' \<in> set es \<or> (\<exists>e \<in> set es. e' = f e)"
  by (induction es arbitrary: es') (auto split: if_splits)

lemma read_write_cache [simp]:
  "read_cache net (write_cache net c bk) = Some c" "badPeers (write_cache net c bk) = badPeers bk"
  "legacyFiles (write_cache net c bk) = legacyFiles bk" "seedBadList (write_cache net c bk) = seedBadList bk"
  by (simp_all add: read_cache_def write_cache_def)

definition cached_peers :: "string \<Rightarrow> PeerBook \<Rightarrow> PeerEntry list" where
  "cached_peers net bk = (case read_cache net bk of None \<Rightarrow> [] | Some c \<Rightarrow> pcPeers c)"

lemma updatePeerResult_peers:
  "cached_peers net (updatePeerResult now net a ok ag bk) =
     (let b = TrimSpace a; ps = cached_peers net bk in
      if b = '''' then ps
      else case bump_first (bump_entry now ok ag) b ps of
        Some ps' \<Rightarrow> ps'
      | None \<Rightarrow> if 200 \<le> length ps then ps else ps @ [new_entry now b ok ag])"
  by (simp add: cached_peers_def updatePeerResult_def Let_def split: option.split)

lemma updatePeerResult_frame [simp]:
  "badPeers (updatePeerResult now net a ok ag bk) = badPeers bk"
  "legacyFiles (updatePeerResult now net a ok ag bk) = legacyFiles bk"
  "seedBadList (updatePeerResult now net a ok ag bk) = seedBadList bk"
  by (simp_all add: updatePeerResult_def Let_def split: option.split)

lemma updatePeerResult_other:
  "peerCacheFile net' \<noteq> peerCacheFile net \<Longrightarrow>
     cached_peers net' (updatePeerResult now net a ok ag bk) = cached_peers net' bk"
  by (simp add: cached_peers_def read_cache_def updatePeerResult_def write_cache_def Let_def split: option.split)

definition entries_ok :: "PeerEntry list \<Rightarrow> bool" where
  "entries_ok ps \<longleftrightarrow> length ps \<le> 200 \<and> distinct (map peAddr ps) \<and>
     (\<forall>e \<in> set ps. peAddr e \<noteq> '''' \<and> 0 \<le> SuccessCount e \<and> 0 \<le> FailCount e \<and> 0 < SuccessCount e + FailCount e)"

definition book_ok :: "PeerBook \<Rightarrow> bool" where
  "book_ok bk \<longleftrightarrow> (\<forall>net. entries_ok (cached_peers net bk)) \<and> (\<forall>f. legacyFiles bk f = None)"

lemma entries_ok_update:
  assumes "entries_ok ps"
  shows "entries_ok (let b = TrimSpace a in
      if b = '''' then ps
      else case bump_first (bump_entry now ok ag) b ps of
        Some ps' \<Rightarrow> ps'
      | None \<Rightarrow> if 200 \<le> length ps then ps else ps @ [new_entry now b ok ag])"
proof (cases "bump_first (bump_entry now ok ag) (TrimSpace a) ps")
  case None
  then have "TrimSpace a \<notin> peAddr ` set ps" by (rule bump_first_None [THEN iffD1])
  with None assms show ?thesis by (auto simp: entries_ok_def Let_def new_entry_def)
next
  case (Some qs)
  then have addrs: "map peAddr qs = map peAddr ps" by (intro bump_first_addrs) simp_all
  then have len: "length qs = length ps" by (metis length_map)
  have "peAddr e \<noteq> '''' \<and> 0 \<le> SuccessCount e \<and> 0 \<le> FailCount e \<and> 0 < SuccessCount e + FailCount e"
    if "e \<in> set qs" for e
    using bump_first_set [OF Some that] assms by (auto simp: entries_ok_def)
  with Some assms addrs len show ?thesis by (simp add: entries_ok_def Let_def)
qed

text \<open>The operations on the book, in any order, for any network and at any time.\<close>

inductive book_step :: "PeerBook \<Rightarrow> PeerBook \<Rightarrow> bool" where
  update: "book_step bk (updatePeerResult now net a ok ag bk)"
| save_all: "book_step bk (savePeersToCache now net as bk)"
| mark: "book_step bk (markBadPeer now net a bk)"
| filtered: "book_step bk (snd (filterBadPeers now as bk))"
| load: "book_step bk (snd (loadCachedPeers shuffle now net bk))"

definition new_book :: PeerBook where
  "new_book = \<lparr>badPeers = Map.empty, cacheFiles = \<lambda>_. Absent, legacyFiles = \<lambda>_. None, seedBadList = Map.empty\<rparr>"

lemma book_ok_update: "book_ok bk \<Longrightarrow> book_ok (updatePeerResult now net a ok ag bk)"
proof -
  assume ok: "book_ok bk"
  have "entries_ok (cached_peers n (updatePeerResult now net a ok ag bk))" for n
  proof (cases "peerCacheFile n = peerCacheFile net")
    case True
    then have "cached_peers n b = cached_peers net b" for b by (simp add: cached_peers_def read_cache_def)
    then show ?thesis
      using entries_ok_update [of "cached_peers net bk" a now ok ag] ok by (simp add: updatePeerResult_peers book_ok_def Let_def)
  next
    case False
    then show ?thesis using ok by (simp add: updatePeerResult_other book_ok_def)
  qed
  with ok show ?thesis by (simp add: book_ok_def)
qed

lemma book_ok_same:
  "book_ok bk \<Longrightarrow> cacheFiles bk' = cacheFiles bk \<Longrightarrow> legacyFiles bk' = legacyFiles bk \<Longrightarrow> book_ok bk'"
  by (simp add: book_ok_def cached_peers_def read_cache_def)

lemma book_ok_load: "book_ok bk \<Longrightarrow> book_ok (snd (loadCachedPeers shuffle now net bk))"
proof -
  assume ok: "book_ok bk"
  then have "legacyFiles bk f = None" for f by (simp add: book_ok_def)
  then have leg: "loadCachedPeersLegacy shuffle now net bk = ([], bk)" by (simp add: loadCachedPeersLegacy_def)
  show ?thesis
  proof (cases "cacheFiles bk (peerCacheFile net)")
    case (Cached c)
    obtain bs bk' where u: "usable_peers now net (map peAddr (exchange_sort (pcPeers c))) bk = (bs, bk')" by fastforce
    then have "book_ok bk'" using ok usable_peers_result [OF u] by (blast intro: book_ok_same)
    with Cached u ok show ?thesis by (simp add: loadCachedPeers_def)
  qed (use ok leg in \<open>simp_all add: loadCachedPeers_def\<close>)
qed

lemma book_step_ok: "book_step bk bk' \<Longrightarrow> book_ok bk \<Longrightarrow> book_ok bk'"
proof (induction rule: book_step.induct)
  case (save_all bk now net as)
  then show ?case by (induction as arbitrary: bk) (simp_all add: savePeersToCache_def book_ok_update)
next
  case (mark bk now net a)
  then show ?case by (rule book_ok_same) (simp_all add: markBadPeer_def)
next
  case (filtered bk now as)
  obtain bs bk' where f: "filterBadPeers now as bk = (bs, bk')" by fastforce
  with filtered filterBadPeers_result [OF f] show ?case by (auto intro: book_ok_same)
qed (simp_all add: book_ok_update book_ok_load)

section \<open>Properties\<close>

text \<open>C21: whatever the client does with its peers, starting without files, each network's cache
  holds at most 200 peers with distinct nonempty addresses, and each of them has succeeded or
  failed at least once.\<close>

theorem peer_cache_invariant:
  assumes "book_step\<^sup>*\<^sup>* new_book bk"
  shows "entries_ok (cached_peers net bk)"
proof -
  have "book_ok bk" using assms
  proof (induction rule: rtranclp_induct)
    case base
    show ?case by (simp add: book_ok_def new_book_def cached_peers_def read_cache_def entries_ok_def)
  qed (rule book_step_ok)
  then show ?thesis by (simp add: book_ok_def)
qed

theorem peer_cache_invariant_witness:
  "length (cached_peers ''mainnet'' (updatePeerResult 5 ''mainnet'' ''1.2.3.4:22556'' True '''' new_book)) \<le> 200"
proof -
  have "book_step\<^sup>*\<^sup>* new_book (updatePeerResult 5 ''mainnet'' ''1.2.3.4:22556'' True '''' new_book)"
    by (blast intro: book_step.update)
  from peer_cache_invariant [OF this, of "''mainnet''"] show ?thesis by (simp add: entries_ok_def)
qed

text \<open>Loading the cache yields, at most 50 of them, the addresses of the cached peers that
  have not just failed and whose port is right, in an order of falling success minus failure
  count, and leaves the files as they are.\<close>

theorem load_prefers_reliable:
  assumes "cacheFiles bk (peerCacheFile net) = Cached c"
  shows "\<exists>order. mset order = mset (pcPeers c) \<and> sorted_wrt (\<lambda>a b. score b \<le> score a) order \<and>
    fst (loadCachedPeers shuffle now net bk) =
      take 50 (map peAddr (filter (\<lambda>e. \<not> bad_now bk now (peAddr e) \<and> \<not> isWrongNetworkPeer net (peAddr e)) order)) \<and>
    cacheFiles (snd (loadCachedPeers shuffle now net bk)) = cacheFiles bk"
proof -
  let ?o = "exchange_sort (pcPeers c)"
  obtain bs bk' where u: "usable_peers now net (map peAddr ?o) bk = (bs, bk')" by fastforce
  have "loadCachedPeers shuffle now net bk = (if pcPeers c = [] then ([], bk) else (take 50 bs, bk'))"
    using assms u by (simp add: loadCachedPeers_def)
  moreover have "pcPeers c = [] \<Longrightarrow> ?o = []" by simp
  ultimately show ?thesis
    using usable_peers_result [OF u] exchange_sort_mset [of "pcPeers c"] exchange_sort_sorted [of "pcPeers c"]
    by (intro exI [of _ ?o]) (auto simp: filter_map comp_def)
qed

definition sampleCache :: PeerCache where
  "sampleCache = \<lparr>pcNetwork = ''mainnet'',
     pcPeers = [\<lparr>peAddr = ''1.2.3.4:22556'', peLastSeen = 1, SuccessCount = 1, FailCount = 3, peUserAgent = ''''\<rparr>,
                \<lparr>peAddr = ''5.6.7.8:22556'', peLastSeen = 2, SuccessCount = 4, FailCount = 0, peUserAgent = ''''\<rparr>],
     pcUpdated = 3\<rparr>"

definition sampleBook :: PeerBook where
  "sampleBook = write_cache ''mainnet'' sampleCache new_book"

lemma sampleBook_cache: "cacheFiles sampleBook (peerCacheFile ''mainnet'') = Cached sampleCache"
  by (simp add: sampleBook_def write_cache_def)

theorem load_prefers_reliable_witness:
  "\<exists>order. mset order = mset (pcPeers sampleCache) \<and>
    length (fst (loadCachedPeers id 9 ''mainnet'' sampleBook)) \<le> 50"
  using load_prefers_reliable [OF sampleBook_cache, of id 9] by auto

text \<open>A peer marked as bad is skipped for two minutes, but only for thirty seconds when the
  cache counts at least two successes of it; then it is forgotten.\<close>

theorem bad_peer_window:
  assumes "now \<le> later"
  shows "let bad = later - now \<le> (if 2 \<le> successes net a bk then 30000 else 120000);
      r = isBadPeer later a (markBadPeer now net a bk)
    in fst r = bad \<and> (a \<in> dom (badPeers (snd r))) = bad"
  by (auto simp: isBadPeer_def markBadPeer_def Let_def)

theorem bad_peer_window_witness:
  "fst (isBadPeer 100000 ''5.6.7.8:22556'' (markBadPeer 50000 ''mainnet'' ''5.6.7.8:22556'' sampleBook)) = False"
proof -
  have "successes ''mainnet'' ''5.6.7.8:22556'' sampleBook = 4"
    by (simp add: successes_def sampleBook_def sampleCache_def)
  with bad_peer_window [of 50000 100000 "''mainnet''" "''5.6.7.8:22556''" sampleBook] show ?thesis
    by (simp add: Let_def)
qed

text \<open>Recording discovered peers, which is meant only to record them, counts a failure for
  every address: a peer already in the cache loses one point of its score each time it is
  discovered again, and a new one starts below zero.\<close>

theorem rediscovery_demotes:
  assumes "e \<in> set (cached_peers net bk)" "distinct (map peAddr (cached_peers net bk))"
    and "TrimSpace (peAddr e) = peAddr e" "peAddr e \<noteq> ''''"
  shows "\<exists>e' \<in> set (cached_peers net (savePeersToCache now net [peAddr e] bk)).
    peAddr e' = peAddr e \<and> SuccessCount e' = SuccessCount e \<and> score e' = score e - 1"
proof -
  let ?f = "bump_entry now False ''''" and ?ps = "cached_peers net bk"
  have "bump_first ?f (peAddr e) ?ps \<noteq> None" using assms(1) by (simp only: bump_first_None) simp
  then obtain qs where qs: "bump_first ?f (peAddr e) ?ps = Some qs" by blast
  have "find (\<lambda>x. peAddr x = peAddr e) ?ps = Some e" using assms(1,2) by (rule find_addr)
  then have "find (\<lambda>x. peAddr x = peAddr e) qs = Some (?f e)"
    using bump_first_find [OF _ qs, of "peAddr e"] by simp
  then have "?f e \<in> set qs" by (auto simp: find_Some_iff)
  moreover have "cached_peers net (savePeersToCache now net [peAddr e] bk) = qs"
    using qs assms(3,4) by (simp add: savePeersToCache_def updatePeerResult_peers Let_def)
  ultimately show ?thesis by (intro bexI [of _ "?f e"]) (simp_all add: score_def)
qed

lemma sample_rediscovery:
  "distinct (map peAddr (cached_peers ''mainnet'' sampleBook))" "cached_peers ''mainnet'' sampleBook = pcPeers sampleCache"
  "TrimSpace ''5.6.7.8:22556'' = ''5.6.7.8:22556''"
  by (simp_all add: cached_peers_def sampleBook_def sampleCache_def TrimSpace_def is_space_def)

theorem rediscovery_demotes_witness:
  "\<exists>e' \<in> set (cached_peers ''mainnet'' (savePeersToCache 9 ''mainnet'' [''5.6.7.8:22556''] sampleBook)).
    peAddr e' = ''5.6.7.8:22556'' \<and> SuccessCount e' = 4 \<and> score e' = 3"
proof -
  let ?e = "\<lparr>peAddr = ''5.6.7.8:22556'', peLastSeen = 2, SuccessCount = 4, FailCount = 0, peUserAgent = ''''\<rparr>"
  have "?e \<in> set (cached_peers ''mainnet'' sampleBook)" by (simp add: sample_rediscovery) (simp add: sampleCache_def)
  from rediscovery_demotes [OF this sample_rediscovery(1), of 9] sample_rediscovery(3) show ?thesis
    by (simp add: score_def)
qed

text \<open>After any number of equal messages within two seconds, the next different message adds
  two lines before its own: the message and a count of it. A message that was not repeated is
  logged twice as well, the second time with a count of one.\<close>

theorem single_message_logged_twice:
  assumes "m \<noteq> lastLoggedMsg d" "m' \<noteq> m" "lastLoggedMsgCount d = 0" "\<forall>t \<in> set ts. t - now \<le> 2000"
  shows "logged (logDeduplicated now' m' (fold (\<lambda>t. logDeduplicated t m) ts (logDeduplicated now m d))) =
    logged d @ [''P2P: '' @ m, times_msg (int (length ts) + 1) m, ''P2P: '' @ m']"
proof -
  let ?d = "logDeduplicated now m d"
  have "fold (\<lambda>t. logDeduplicated t m) ts (?d\<lparr>lastLoggedMsgCount := n\<rparr>) = ?d\<lparr>lastLoggedMsgCount := n + int (length ts)\<rparr>" for n
    using assms(4) by (induction ts arbitrary: n) (simp_all add: logDeduplicated_def Let_def assms(1,3))
  moreover have "?d\<lparr>lastLoggedMsgCount := 1\<rparr> = ?d"
    by (rule DedupLog.equality) (simp_all add: logDeduplicated_def Let_def assms(1,3))
  ultimately have "fold (\<lambda>t. logDeduplicated t m) ts ?d = ?d\<lparr>lastLoggedMsgCount := 1 + int (length ts)\<rparr>"
    by metis
  then show ?thesis using assms(1-3) by (simp add: logDeduplicated_def add.commute)
qed

theorem single_message_logged_twice_witness:
  "logged (logDeduplicated 9 ''b'' (logDeduplicated 5 ''a''
     \<lparr>lastLoggedMsg = '''', lastLoggedMsgCount = 0, lastLoggedMsgTime = 0, logged = []\<rparr>)) =
   [''P2P: a'', times_msg 1 ''a'', ''P2P: b'']"
  using single_message_logged_twice
    [of "''a''" "\<lparr>lastLoggedMsg = '''', lastLoggedMsgCount = 0, lastLoggedMsgTime = 0, logged = []\<rparr>" "''b''" "[]" 5 9]
  by simp

end
