(* ===== verification/PeerConnection.thy ===== *)
theory PeerConnection
  imports HeaderSync PeerBook
begin

text \<open>
  The primary connection of \<open>src/p2p.go\<close>: dialling (\<open>dialPreferredIPv4\<close>, \<open>tryConnect\<close>), the
  version handshake, finding peers (\<open>discoverPeersFromSeed\<close>, \<open>ensureConnected\<close>), and what runs
  on the connection (\<open>GetTipHeader\<close>, \<open>RefreshHeadersIfStale\<close>, the background sync with its
  probes). The network is a parameter: name lookups, and the outcome of each dial by its number.
  A read from a silent peer without a deadline never returns; that, a nil dereference and a
  mutex locked twice are the ways in which an operation halts.
\<close>

section \<open>State and environment\<close>

datatype halt = Blocked | Panicked | Deadlocked

datatype conn_error =
    ConnMsg msg_error
  | NoVerack
  | DialFailed
  | SeedNoVerack
  | SeedNoAddr
  | SeedBadAddr io_error
  | NoPeers "conn_error option"

record P2PClient =
  pLink :: PeerLink
  pChain :: HeaderChain
  pBook :: PeerBook
  pInfo :: PeerInfo
  pOverride :: string
  pSeeds :: "string list"
  pHarvesterStopped :: bool
  pDials :: nat

text \<open>
  \<open>neTicks\<close> bounds the messages read before a deadline. \<open>neLookupIP\<close> gives the addresses of a
  host, each with whether it is IPv4, or fails; \<open>neDial\<close> is told the number of the dial.
\<close>

record NetEnv =
  neNow :: int
  neUnix :: int
  neNonce :: u64
  neTicks :: nat
  neLookupIP :: "string \<Rightarrow> (bool \<times> string) list option"
  neLookupHost :: "string \<Rightarrow> string list"
  neDial :: "nat \<Rightarrow> string \<Rightarrow> string \<Rightarrow> Conn option"
  neShuffle :: "string list \<Rightarrow> string list"

definition pNet :: "P2PClient \<Rightarrow> string" where
  "pNet c = network (pChain c)"

definition pPort :: "P2PClient \<Rightarrow> string" where
  "pPort c = Itoa (int (port (pChain c)))"

definition known :: "P2PClient \<Rightarrow> string list" where
  "known c = knownPeers (pLink c)"

definition set_known :: "string list \<Rightarrow> P2PClient \<Rightarrow> P2PClient" where
  "set_known ps c = c\<lparr>pLink := (pLink c)\<lparr>knownPeers := ps\<rparr>\<rparr>"

section \<open>Dialling\<close>

fun dial_first :: "NetEnv \<Rightarrow> nat \<Rightarrow> (string \<times> string) list \<Rightarrow> (Conn \<times> string) option \<times> nat" where
  "dial_first env n [] = (None, n)"
| "dial_first env n ((net, addr) # ds) =
     (case neDial env n net addr of
        Some cn \<Rightarrow> (Some (cn, addr), Suc n)
      | None \<Rightarrow> dial_first env (Suc n) ds)"

definition dialPreferredIPv4 :: "NetEnv \<Rightarrow> string \<Rightarrow> string \<Rightarrow> nat \<Rightarrow> (Conn \<times> string) option \<times> nat" where
  "dialPreferredIPv4 env host prt n =
     (let addr = JoinHostPort host prt in
      case neLookupIP env host of
        None \<Rightarrow> dial_first env n [(''tcp'', addr)]
      | Some ips \<Rightarrow>
          dial_first env n
            (map (\<lambda>(v4, ip). (''tcp4'', JoinHostPort ip prt)) (filter fst ips) @
             map (\<lambda>(v4, ip). (''tcp6'', JoinHostPort ip prt)) (filter (\<lambda>i. \<not> fst i) ips) @
             [(''tcp'', addr)]))"

definition dial_addr :: "NetEnv \<Rightarrow> string \<Rightarrow> nat \<Rightarrow> (Conn \<times> string) option \<times> nat" where
  "dial_addr env addr n =
     (case SplitHostPort addr of
        None \<Rightarrow> dial_first env n [(''tcp'', addr)]
      | Some (host, prt) \<Rightarrow> dialPreferredIPv4 env host prt n)"

section \<open>The handshake\<close>

text \<open>Reading without a deadline on the connection.\<close>

definition read_blocking :: "PeerLink \<Rightarrow> halt + ((msg_error + (string \<times> byte list)) \<times> PeerLink)" where
  "read_blocking l =
     (if conn l = None then Inl Panicked
      else case readMessage l of
        (Inl e, l) \<Rightarrow> if e = ReadTimeout then Inl Blocked else Inr (Inl e, l)
      | (Inr m, l) \<Rightarrow> Inr (Inr m, l))"

fun handshake_loop ::
  "nat \<Rightarrow> PeerLink \<Rightarrow> PeerInfo \<Rightarrow> halt + ((conn_error + unit) \<times> PeerLink \<times> PeerInfo)" where
  "handshake_loop 0 l i = Inr (Inl NoVerack, l, i)"
| "handshake_loop (Suc n) l i =
     ebind (read_blocking l) (\<lambda>(m, l).
       case m of
         Inl e \<Rightarrow> Inr (Inl (ConnMsg e), l, i)
       | Inr (cmd, payload) \<Rightarrow>
           if cmd = ''version'' then
             (let i = read_version payload i in
              case writeMessage ''verack'' [] l of
                (Inl e, l) \<Rightarrow> Inr (Inl (ConnMsg e), l, i)
              | (Inr _, l) \<Rightarrow> handshake_loop n l i)
           else if cmd = ''verack'' then Inr (Inr (), l, i)
           else if cmd = ''ping'' then
             (case writeMessage ''pong'' payload l of
                (Inl e, l) \<Rightarrow> Inr (Inl (ConnMsg e), l, i)
              | (Inr _, l) \<Rightarrow> handshake_loop n l i)
           else handshake_loop n l i)"

text \<open>Draining: at most 11 messages, under a deadline of a second; a failed \<open>pong\<close> is ignored.\<close>

primrec drain :: "nat \<Rightarrow> PeerLink \<Rightarrow> halt + PeerLink" where
  "drain 0 l = Inr l"
| "drain (Suc n) l =
     (if conn l = None then Inl Panicked
      else case readMessage l of
        (Inl e, l) \<Rightarrow> Inr l
      | (Inr (cmd, payload), l) \<Rightarrow>
          drain n (if cmd = ''ping'' then snd (writeMessage ''pong'' payload l) else l))"

definition handshake ::
  "NetEnv \<Rightarrow> u16 \<Rightarrow> PeerLink \<Rightarrow> PeerInfo \<Rightarrow> halt + ((conn_error + unit) \<times> PeerLink \<times> PeerInfo)" where
  "handshake env prt l i =
     (case sendVersion (neUnix env) (neNonce env) prt l of
        (Inl e, l) \<Rightarrow> Inr (Inl (ConnMsg e), l, i)
      | (Inr _, l) \<Rightarrow>
          ebind (handshake_loop (neTicks env) l i) (\<lambda>(r, l, i).
            case r of
              Inl e \<Rightarrow> Inr (Inl e, l, i)
            | Inr _ \<Rightarrow>
                (case writeMessage ''sendheaders'' [] l of
                   (Inl e, l) \<Rightarrow> Inr (Inl (ConnMsg e), l, i)
                 | (Inr _, l) \<Rightarrow> ebind (drain (min 11 (neTicks env)) l) (\<lambda>l. Inr (Inr (), l, i)))))"

definition tryConnect :: "NetEnv \<Rightarrow> string \<Rightarrow> P2PClient \<Rightarrow> halt + ((conn_error + unit) \<times> P2PClient)" where
  "tryConnect env addr c =
     (case dial_addr env addr (pDials c) of
        (None, n) \<Rightarrow> Inr (Inl DialFailed, c\<lparr>pDials := n\<rparr>)
      | (Some (cn, ca), n) \<Rightarrow>
          ebind (handshake env (of_nat (port (pChain c))) ((pLink c)\<lparr>conn := Some cn, peerAddr := ca\<rparr>) (pInfo c))
            (\<lambda>(r, l, i).
               let c = c\<lparr>pDials := n, pInfo := i\<rparr> in
               case r of
                 Inl e \<Rightarrow> Inr (Inl e, c\<lparr>pLink := l\<lparr>conn := None, peerAddr := ''''\<rparr>\<rparr>)
               | Inr _ \<Rightarrow>
                   Inr (Inr (), c\<lparr>pLink := l,
                     pBook := updatePeerResult (neNow env) (pNet c) (peerAddr l) True (piUserAgent i) (pBook c)\<rparr>)))"

section \<open>Finding peers\<close>

text \<open>A seed is asked over a connection of its own; failed writes of \<open>verack\<close> and \<open>pong\<close> are ignored.\<close>

primrec seed_handshake :: "nat \<Rightarrow> PeerLink \<Rightarrow> halt + ((conn_error + unit) \<times> PeerLink)" where
  "seed_handshake 0 l = Inr (Inl SeedNoVerack, l)"
| "seed_handshake (Suc n) l =
     ebind (read_blocking l) (\<lambda>(m, l).
       case m of
         Inl e \<Rightarrow> Inr (Inl (ConnMsg e), l)
       | Inr (cmd, payload) \<Rightarrow>
           if cmd = ''version'' then seed_handshake n (snd (writeMessage ''verack'' [] l))
           else if cmd = ''verack'' then Inr (Inr (), l)
           else if cmd = ''ping'' then seed_handshake n (snd (writeMessage ''pong'' payload l))
           else seed_handshake n l)"

primrec await_addr :: "nat \<Rightarrow> PeerLink \<Rightarrow> halt + (conn_error + string list)" where
  "await_addr 0 l = Inr (Inl SeedNoAddr)"
| "await_addr (Suc n) l =
     ebind (read_blocking l) (\<lambda>(m, l).
       case m of
         Inl e \<Rightarrow> Inr (Inl (ConnMsg e))
       | Inr (cmd, payload) \<Rightarrow>
           if cmd = ''addr'' \<and> payload \<noteq> [] then Inr (emap_err SeedBadAddr (parseAddrPayload payload))
           else await_addr n l)"

definition discoverPeersFromSeed ::
  "NetEnv \<Rightarrow> string \<Rightarrow> P2PClient \<Rightarrow> halt + ((conn_error + string list) \<times> P2PClient)" where
  "discoverPeersFromSeed env seed c =
     (case dialPreferredIPv4 env seed (pPort c) (pDials c) of
        (None, n) \<Rightarrow> Inr (Inl DialFailed, c\<lparr>pDials := n\<rparr>)
      | (Some (cn, ca), n) \<Rightarrow>
          (let c = c\<lparr>pDials := n\<rparr>;
               l = \<lparr>magic = magic (pLink c), conn = Some cn, peerAddr = ca, knownPeers = []\<rparr>
           in case sendVersion (neUnix env) (neNonce env) (of_nat (port (pChain c))) l of
                (Inl e, l) \<Rightarrow> Inr (Inl (ConnMsg e), c)
              | (Inr _, l) \<Rightarrow>
                  ebind (seed_handshake (neTicks env) l) (\<lambda>(r, l).
                    case r of
                      Inl e \<Rightarrow> Inr (Inl e, c)
                    | Inr _ \<Rightarrow>
                        (case writeMessage ''getaddr'' [] l of
                           (Inl e, l) \<Rightarrow> Inr (Inl (ConnMsg e), c)
                         | (Inr _, l) \<Rightarrow> ebind (await_addr (neTicks env) l) (\<lambda>r. Inr (r, c))))))"

text \<open>DNS: every seed is resolved; is there any usable address?\<close>

definition resolve_seed :: "NetEnv \<Rightarrow> string \<Rightarrow> bool \<times> P2PClient \<Rightarrow> bool \<times> P2PClient" where
  "resolve_seed env seed s =
     (case s of (resolved, c) \<Rightarrow>
        let ps = map (\<lambda>ip. JoinHostPort ip (pPort c)) (neLookupHost env seed);
            (ps, bk) = filterBadPeers (neNow env) ps (pBook c);
            c = c\<lparr>pBook := bk\<rparr>
        in if ps = [] then (resolved, c) else (True, set_known (known c @ neShuffle env ps) c))"

definition resolve_seeds :: "NetEnv \<Rightarrow> P2PClient \<Rightarrow> bool \<times> P2PClient" where
  "resolve_seeds env c = fold (resolve_seed env) (pSeeds c) (False, c)"

definition on_cooldown :: "int \<Rightarrow> string \<Rightarrow> PeerBook \<Rightarrow> bool" where
  "on_cooldown now seed bk =
     (case seedBadList bk seed of None \<Rightarrow> False | Some t \<Rightarrow> now - t < 3600000)"

primrec ask_seeds ::
  "NetEnv \<Rightarrow> string list \<Rightarrow> conn_error option \<Rightarrow> P2PClient \<Rightarrow> halt + (bool \<times> conn_error option \<times> P2PClient)" where
  "ask_seeds env [] e c = Inr (False, e, c)"
| "ask_seeds env (seed # ss) e c =
     (if on_cooldown (neNow env) seed (pBook c) then ask_seeds env ss e c
      else ebind (discoverPeersFromSeed env seed c) (\<lambda>(r, c).
        case r of
          Inl err \<Rightarrow>
            ask_seeds env ss (Some err)
              (c\<lparr>pBook := (pBook c)\<lparr>seedBadList := (seedBadList (pBook c))(seed \<mapsto> neNow env)\<rparr>\<rparr>)
        | Inr ps \<Rightarrow>
            let (ps, bk) = filterBadPeers (neNow env) ps (pBook c); c = c\<lparr>pBook := bk\<rparr> in
            if ps = [] then ask_seeds env ss e c
            else let ps = take 50 (neShuffle env ps); c = set_known (known c @ ps) c in
              Inr (True, e, c\<lparr>pBook := savePeersToCache (neNow env) (pNet c) ps (pBook c)\<rparr>)))"

text \<open>After each successful connection the peer is saved once more.\<close>

definition record_connection :: "NetEnv \<Rightarrow> P2PClient \<Rightarrow> P2PClient" where
  "record_connection env c =
     c\<lparr>pBook := savePeerToCache (neNow env) (pNet c) (peerAddr (pLink c)) (pBook c)\<rparr>"

primrec try_seeds ::
  "NetEnv \<Rightarrow> string list \<Rightarrow> conn_error option \<Rightarrow> P2PClient \<Rightarrow> halt + ((conn_error + unit) \<times> P2PClient)" where
  "try_seeds env [] e c = Inr (Inl (NoPeers e), c)"
| "try_seeds env (seed # ss) e c =
     ebind (tryConnect env (JoinHostPort seed (pPort c)) c) (\<lambda>(r, c).
       case r of
         Inl err \<Rightarrow> try_seeds env ss (Some err) c
       | Inr _ \<Rightarrow> Inr (Inr (), record_connection env c))"

text \<open>A peer that could not be reached; the lock taken when few peers are left is never released.\<close>

definition peer_failed :: "NetEnv \<Rightarrow> string \<Rightarrow> P2PClient \<Rightarrow> halt + P2PClient" where
  "peer_failed env addr c =
     (let c = c\<lparr>pBook := markBadPeer (neNow env) (pNet c) addr (pBook c)\<rparr> in
      if length (known c) < 3 then Inl Deadlocked else Inr c)"

text \<open>The loop of \<open>ensureConnected\<close>; \<open>None\<close> is a loop that goes on forever.\<close>

partial_function (option) connect_loop ::
  "NetEnv \<Rightarrow> conn_error option \<Rightarrow> P2PClient \<Rightarrow> (halt + ((conn_error + unit) \<times> P2PClient)) option" where
  "connect_loop env e c =
     (case known c of
        addr # ps \<Rightarrow>
          (case tryConnect env addr (set_known ps c) of
             Inl h \<Rightarrow> Some (Inl h)
           | Inr (Inr _, c) \<Rightarrow> Some (Inr (Inr (), record_connection env c))
           | Inr (Inl err, c) \<Rightarrow>
               (case peer_failed env addr c of
                  Inl h \<Rightarrow> Some (Inl h)
                | Inr c \<Rightarrow> connect_loop env (Some err) c))
      | [] \<Rightarrow>
          (case resolve_seeds env c of (resolved, c) \<Rightarrow>
             if resolved then connect_loop env e c
             else (case ask_seeds env (pSeeds c) e c of
                     Inl h \<Rightarrow> Some (Inl h)
                   | Inr (fetched, e, c) \<Rightarrow>
                       if fetched then connect_loop env e c
                       else Some (try_seeds env (pSeeds c) e c))))"

definition load_known :: "NetEnv \<Rightarrow> P2PClient \<Rightarrow> P2PClient" where
  "load_known env c =
     (if known c = []
      then let (ps, bk) = loadCachedPeers (neShuffle env) (neNow env) (pNet c) (pBook c)
           in (set_known (ps @ known c) c)\<lparr>pBook := bk\<rparr>
      else c)"

definition ensureConnected :: "NetEnv \<Rightarrow> P2PClient \<Rightarrow> (halt + ((conn_error + unit) \<times> P2PClient)) option" where
  "ensureConnected env c =
     (if conn (pLink c) \<noteq> None then Some (Inr (Inr (), c))
      else if pOverride c = '''' then connect_loop env None (load_known env c)
      else case tryConnect env (pOverride c) c of
        Inl h \<Rightarrow> Some (Inl h)
      | Inr (Inr _, c) \<Rightarrow> Some (Inr (Inr (), record_connection env c))
      | Inr (Inl err, c) \<Rightarrow> connect_loop env None (load_known env c))"

section \<open>Operations on the connection\<close>

definition MarkPeerBad :: "int \<Rightarrow> string \<Rightarrow> P2PClient \<Rightarrow> P2PClient" where
  "MarkPeerBad now addr c =
     (if addr = '''' then c else c\<lparr>pBook := markBadPeer now (pNet c) addr (pBook c)\<rparr>)"

definition Disconnect :: "P2PClient \<Rightarrow> P2PClient" where
  "Disconnect c = c\<lparr>pLink := disconnect (pLink c), pHarvesterStopped := True\<rparr>"

definition SetPeerOverride :: "string \<Rightarrow> P2PClient \<Rightarrow> P2PClient" where
  "SetPeerOverride addr c = c\<lparr>pOverride := TrimSpace addr\<rparr>"

text \<open>The broadcast pool is emptied as well; it is not part of this state.\<close>

definition SetNetwork :: "string \<Rightarrow> P2PClient \<Rightarrow> P2PClient" where
  "SetNetwork net c =
     (let l = disconnect (pLink c); ch = setNetwork net (pChain c)
      in c\<lparr>pLink := l\<lparr>knownPeers := [], magic := netMagic ch\<rparr>, pChain := ch,
           pSeeds := (if net = ''testnet'' then [''testseed.jrn.me.uk'']
                      else [''seed.multidoge.org'', ''seed2.multidoge.org''])\<rparr>)"

definition client_requestHeaders :: "NetEnv \<Rightarrow> P2PClient \<Rightarrow> halt + ((sync_error + unit) \<times> P2PClient)" where
  "client_requestHeaders env c =
     (case requestHeaders (neNow env) (neTicks env) (pLink c) (pChain c) of
        (r, l, ch) \<Rightarrow>
          if r = Inl (Link ReadTimeout) then Inl Blocked
          else Inr (r, c\<lparr>pLink := l, pChain := ch\<rparr>))"

datatype tip_failure = NotConnectedTo conn_error | SyncFailed sync_error | NoHeaders

definition throttled :: "int \<Rightarrow> HeaderChain \<Rightarrow> bool" where
  "throttled now ch \<longleftrightarrow> 0 < headerRefreshMs ch \<and> bestHeader ch \<noteq> None \<and>
     (case lastHeadersReq ch of None \<Rightarrow> False | Some t \<Rightarrow> now - t < headerRefreshMs ch)"

definition GetTipHeader ::
  "NetEnv \<Rightarrow> P2PClient \<Rightarrow> (halt + ((tip_failure + BlockHeader) \<times> P2PClient)) option" where
  "GetTipHeader env c =
     (case ensureConnected env c of
        None \<Rightarrow> None
      | Some (Inl h) \<Rightarrow> Some (Inl h)
      | Some (Inr (Inl e, c)) \<Rightarrow> Some (Inr (Inl (NotConnectedTo e), c))
      | Some (Inr (Inr _, c)) \<Rightarrow>
          Some (case (if throttled (neNow env) (pChain c) then bestHeader (pChain c) else None) of
                  Some h \<Rightarrow> Inr (Inr h, c)
                | None \<Rightarrow>
                    ebind (client_requestHeaders env c) (\<lambda>(r, c).
                      case r of
                        Inl e \<Rightarrow> Inr (Inl (SyncFailed e), c)
                      | Inr _ \<Rightarrow>
                          (case bestHeader (pChain c) of
                             None \<Rightarrow> Inr (Inl NoHeaders, c) | Some h \<Rightarrow> Inr (Inr h, c)))))"

text \<open>The result says whether the refresh ended; its errors are ignored.\<close>

definition fresh :: "int \<Rightarrow> int \<Rightarrow> HeaderChain \<Rightarrow> bool" where
  "fresh now maxAge ch \<longleftrightarrow> bestHeader ch \<noteq> None \<and>
     (case lastHeadersAppliedAt ch of None \<Rightarrow> False | Some t \<Rightarrow> now - t < maxAge)"

definition connect_and_request :: "NetEnv \<Rightarrow> P2PClient \<Rightarrow> (halt + ((sync_error + unit) option \<times> P2PClient)) option" where
  "connect_and_request env c =
     (case ensureConnected env c of
        None \<Rightarrow> None
      | Some (Inl h) \<Rightarrow> Some (Inl h)
      | Some (Inr (Inl e, c)) \<Rightarrow> Some (Inr (None, c))
      | Some (Inr (Inr _, c)) \<Rightarrow> Some (ebind (client_requestHeaders env c) (\<lambda>(r, c). Inr (Some r, c))))"

definition RefreshHeadersIfStale :: "NetEnv \<Rightarrow> int \<Rightarrow> P2PClient \<Rightarrow> (halt + P2PClient) option" where
  "RefreshHeadersIfStale env maxAge c =
     (if maxAge \<le> 0 \<or> fresh (neNow env) maxAge (pChain c) then Some (Inr c)
      else map_option (\<lambda>r. ebind r (\<lambda>(_, c). Inr c)) (connect_and_request env c))"

definition HeadersAppliedAge :: "int \<Rightarrow> HeaderChain \<Rightarrow> int" where
  "HeadersAppliedAge now ch =
     (case lastHeadersAppliedAt ch of None \<Rightarrow> (2 ^ 63 - 1) div 1000000 | Some t \<Rightarrow> now - t)"

section \<open>Probing other peers\<close>

text \<open>The loop of a probe runs under a read deadline.\<close>

datatype probe_error = BadProbeAddr | ProbeConn conn_error | ProbeMsg msg_error | ProbeHeaders sync_error

primrec probe_loop ::
  "int \<Rightarrow> nat \<Rightarrow> PeerLink \<Rightarrow> HeaderChain \<Rightarrow> halt + (probe_error + int)" where
  "probe_loop now 0 l ch = Inr (Inl (ProbeMsg ReadTimeout))"
| "probe_loop now (Suc n) l ch =
     (if conn l = None then Inl Panicked
      else case readMessage l of
        (Inl e, l) \<Rightarrow> Inr (Inl (ProbeMsg e))
      | (Inr (cmd, payload), l) \<Rightarrow>
          if cmd = ''headers'' then
            (case processHeaders now payload ch of
               (Inl e, ch) \<Rightarrow> Inr (Inl (ProbeHeaders e))
             | (Inr k, ch) \<Rightarrow> Inr (Inr (bestHeight ch)))
          else if cmd = ''ping'' then probe_loop now n (snd (writeMessage ''pong'' payload l)) ch
          else if cmd = ''version'' then probe_loop now n (snd (writeMessage ''verack'' [] l)) ch
          else probe_loop now n l ch)"

definition probe_chain :: "HeaderChain \<Rightarrow> HeaderChain" where
  "probe_chain ch = ch\<lparr>headerRefreshMs := 0, lastHeadersAppliedAt := None, tipHistory := [], lastHeadersReq := None\<rparr>"

definition probePeerTipHeight ::
  "NetEnv \<Rightarrow> string \<Rightarrow> P2PClient \<Rightarrow> halt + ((probe_error + int) \<times> P2PClient)" where
  "probePeerTipHeight env addr c =
     (case SplitHostPort addr of
        None \<Rightarrow> Inr (Inl BadProbeAddr, c)
      | Some (host, prt) \<Rightarrow>
          (case dialPreferredIPv4 env host prt (pDials c) of
             (None, n) \<Rightarrow> Inr (Inl (ProbeConn DialFailed), c\<lparr>pDials := n\<rparr>)
           | (Some (cn, ca), n) \<Rightarrow>
               (let c = c\<lparr>pDials := n\<rparr>; ch = probe_chain (pChain c);
                    l = \<lparr>magic = magic (pLink c), conn = Some cn, peerAddr = ca, knownPeers = []\<rparr>
                in ebind (handshake env (of_nat (port ch)) l \<lparr>piVersion = 0, piServices = 0, piUserAgent = ''''\<rparr>)
                     (\<lambda>(r, l, i).
                       case r of
                         Inl e \<Rightarrow> Inr (Inl (ProbeConn e), c)
                       | Inr _ \<Rightarrow>
                           (case sendGetHeaders ch l of
                              (Inl e, l) \<Rightarrow> Inr (Inl (ProbeMsg e), c)
                            | (Inr _, l) \<Rightarrow> ebind (probe_loop (neNow env) (neTicks env) l ch) (\<lambda>r. Inr (r, c)))))))"

text \<open>The probes run at once; the result needs all of them, so that the first halt is the result.\<close>

primrec probe_all ::
  "NetEnv \<Rightarrow> string list \<Rightarrow> P2PClient \<Rightarrow> halt + ((string \<times> int) list \<times> P2PClient)" where
  "probe_all env [] c = Inr ([], c)"
| "probe_all env (a # as) c =
     ebind (probePeerTipHeight env a c) (\<lambda>(r, c).
     ebind (probe_all env as c) (\<lambda>(rs, c).
       Inr (case r of Inl e \<Rightarrow> rs | Inr h \<Rightarrow> (a, h) # rs, c)))"

text \<open>The results in the order in which they arrive; a later one must be higher to be chosen.\<close>

definition best_probe :: "int \<Rightarrow> (string \<times> int) list \<Rightarrow> string \<times> int" where
  "best_probe start rs = fold (\<lambda>(a, h) (ba, bh). if bh < h then (a, h) else (ba, bh)) rs ('''', start)"

definition probe_candidates :: "string list \<Rightarrow> P2PClient \<Rightarrow> string list" where
  "probe_candidates pool c =
     remdups (pool @ take 12 (known c) @ (if peerAddr (pLink c) = '''' then [] else [peerAddr (pLink c)]))"

definition switch_peer :: "NetEnv \<Rightarrow> string \<Rightarrow> P2PClient \<Rightarrow> (halt + P2PClient) option" where
  "switch_peer env addr c =
     (let c = SetPeerOverride addr c; c = c\<lparr>pLink := disconnect (pLink c)\<rparr>
      in map_option (\<lambda>r. ebind r (\<lambda>(_, c). Inr c)) (connect_and_request env c))"

text \<open>\<open>pool\<close> are the addresses of the broadcast pool, \<open>arrive\<close> the order of the results.\<close>

definition fetchHeadersFromBroadcastPeers ::
  "NetEnv \<Rightarrow> string list \<Rightarrow> ((string \<times> int) list \<Rightarrow> (string \<times> int) list) \<Rightarrow> P2PClient \<Rightarrow> (halt + P2PClient) option" where
  "fetchHeadersFromBroadcastPeers env pool arrive c =
     (let (ps, bk) = filterBadPeers (neNow env) (probe_candidates pool c) (pBook c);
          c = c\<lparr>pBook := bk\<rparr>; current = peerAddr (pLink c)
      in case probe_all env (take 4 (neShuffle env ps)) c of
           Inl h \<Rightarrow> Some (Inl h)
         | Inr (rs, c) \<Rightarrow>
             let (ba, bh) = best_probe (bestHeight (pChain c)) (arrive rs) in
             if ba \<noteq> '''' \<and> bestHeight (pChain c) + 3 \<le> bh \<and> ba \<noteq> current
             then switch_peer env ba c else Some (Inr c))"

definition fetchHeadersInBackground ::
  "NetEnv \<Rightarrow> string list \<Rightarrow> ((string \<times> int) list \<Rightarrow> (string \<times> int) list) \<Rightarrow> P2PClient \<Rightarrow> (halt + P2PClient) option" where
  "fetchHeadersInBackground env pool arrive c =
     (case connect_and_request env c of
        None \<Rightarrow> None
      | Some (Inl h) \<Rightarrow> Some (Inl h)
      | Some (Inr (Some (Inr _), c)) \<Rightarrow> fetchHeadersFromBroadcastPeers env pool arrive c
      | Some (Inr (_, c)) \<Rightarrow> Some (Inr c))"

section \<open>What a connection leaves alone\<close>

definition link_shrinks :: "PeerLink \<Rightarrow> PeerLink \<Rightarrow> bool" where
  "link_shrinks l l' \<longleftrightarrow> magic l' = magic l \<and> set (knownPeers l') \<subseteq> set (knownPeers l) \<and>
     length (knownPeers l') \<le> length (knownPeers l)"

lemma link_shrinks_refl [simp]: "link_shrinks l l"
  by (simp add: link_shrinks_def)

lemma link_shrinks_trans [trans]: "link_shrinks a b \<Longrightarrow> link_shrinks b c \<Longrightarrow> link_shrinks a c"
  by (auto simp: link_shrinks_def)

lemma link_shrinks_update [simp]:
  "link_shrinks l (m\<lparr>conn := x\<rparr>) = link_shrinks l m" "link_shrinks l (m\<lparr>peerAddr := a\<rparr>) = link_shrinks l m"
  "link_shrinks (m\<lparr>conn := x\<rparr>) l = link_shrinks m l" "link_shrinks (m\<lparr>peerAddr := a\<rparr>) l = link_shrinks m l"
  by (simp_all add: link_shrinks_def)

lemma disconnect_shrinks [simp]: "link_shrinks m (disconnect m)"
  using set_remove1_subset [of "peerAddr m" "knownPeers m"] length_remove1 [of "peerAddr m" "knownPeers m"]
  by (auto simp: link_shrinks_def disconnect_def Let_def)

lemma writeMessage_shrinks: "writeMessage cmd p l = (r, l') \<Longrightarrow> link_shrinks l l'"
  by (rule writeMessage_cases [of l cmd p]) auto

lemma link_read_shrinks: "link_read n l = (r, l') \<Longrightarrow> link_shrinks l l'"
proof -
  have "link_shrinks l (disconnect (l\<lparr>conn := x\<rparr>))" for x
    by (rule link_shrinks_trans [OF _ disconnect_shrinks]) simp
  then show "link_read n l = (r, l') \<Longrightarrow> link_shrinks l l'"
    by (auto simp: link_read_def split: option.splits prod.splits sum.splits if_splits)
qed

lemma readMessage_shrinks: "readMessage l = (r, l') \<Longrightarrow> link_shrinks l l'"
proof -
  assume a: "readMessage l = (r, l')"
  obtain h l1 where h: "link_read 24 l = (h, l1)" by fastforce
  from link_read_shrinks [OF h] have 1: "link_shrinks l l1" .
  have 2: "link_shrinks l l2" if "link_read n l1 = (x, l2)" for n x l2
    using link_shrinks_trans [OF 1 link_read_shrinks [OF that]] .
  have d: "link_shrinks l (disconnect m)" if "link_shrinks l m" for m
    using link_shrinks_trans [OF that] by simp
  from a h 1 show ?thesis
    by (auto simp: readMessage_def Let_def split: sum.splits if_splits prod.splits intro: d dest: 2)
qed

lemma read_blocking_shrinks: "read_blocking l = Inr (r, l') \<Longrightarrow> link_shrinks l l'"
  by (auto simp: read_blocking_def split: if_splits prod.splits sum.splits dest: readMessage_shrinks)

lemma snd_write_shrinks [simp]: "link_shrinks l (snd (writeMessage cmd p l))"
  by (metis prod.collapse writeMessage_shrinks)

lemma handshake_loop_shrinks: "handshake_loop n l i = Inr (r, l', i') \<Longrightarrow> link_shrinks l l'"
proof (induction n l i rule: handshake_loop.induct)
  case (2 n l i)
  from "2.prems" obtain m l1 where rb: "read_blocking l = Inr (m, l1)" by (auto simp: ebind_eq_Inr_iff)
  note s1 = read_blocking_shrinks [OF rb]
  show ?case
  proof (cases m)
    case (Inl e)
    with "2.prems" rb s1 show ?thesis by simp
  next
    case (Inr cp)
    then obtain cmd payload where m: "m = Inr (cmd, payload)" by (cases cp) simp
    have w: "link_shrinks l l2" if "writeMessage x y l1 = (z, l2)" for x y z l2
      using s1 writeMessage_shrinks [OF that] by (rule link_shrinks_trans)
    have step: "link_shrinks l l'" if "link_shrinks l l2" "handshake_loop n l2 j = Inr (r, l', i')"
      "\<And>j. handshake_loop n l2 j = Inr (r, l', i') \<Longrightarrow> link_shrinks l2 l'" for l2 j
      using that link_shrinks_trans by blast
    consider "cmd = ''version''" | "cmd = ''verack''" | "cmd = ''ping''"
      | "cmd \<noteq> ''version''" "cmd \<noteq> ''verack''" "cmd \<noteq> ''ping''" by blast
    then show ?thesis
    proof cases
      case 1
      obtain z l2 where wr: "writeMessage ''verack'' [] l1 = (z, l2)" by fastforce
      from 2 rb m 1 wr w [OF wr] show ?thesis
        by (cases z) (auto simp: Let_def intro: link_shrinks_trans)
    next
      case 3
      obtain z l2 where wr: "writeMessage ''pong'' payload l1 = (z, l2)" by fastforce
      from 2 rb m 3 wr w [OF wr] show ?thesis
        by (cases z) (auto intro: link_shrinks_trans)
    qed (use 2 rb m s1 in \<open>auto intro: link_shrinks_trans\<close>)
  qed
qed simp

lemma drain_shrinks: "drain n l = Inr l' \<Longrightarrow> link_shrinks l l'"
proof (induction n arbitrary: l)
  case (Suc n)
  obtain r l1 where rm: "readMessage l = (r, l1)" by fastforce
  note s1 = readMessage_shrinks [OF rm]
  show ?case
  proof (cases r)
    case (Inl e)
    with Suc.prems rm s1 show ?thesis by (auto split: if_splits)
  next
    case (Inr cp)
    then obtain cmd p where "r = Inr (cmd, p)" by (cases cp) simp
    with Suc.prems rm have "drain n (if cmd = ''ping'' then snd (writeMessage ''pong'' p l1) else l1) = Inr l'"
      by (auto split: if_splits)
    moreover have "link_shrinks l (if cmd = ''ping'' then snd (writeMessage ''pong'' p l1) else l1)"
      using s1 link_shrinks_trans [OF s1 snd_write_shrinks] by simp
    ultimately show ?thesis using Suc.IH link_shrinks_trans by blast
  qed
qed simp

lemma handshake_shrinks: "handshake env p l i = Inr (r, l', i') \<Longrightarrow> link_shrinks l l'"
proof -
  assume a: "handshake env p l i = Inr (r, l', i')"
  obtain x l1 where v: "sendVersion (neUnix env) (neNonce env) p l = (x, l1)" by fastforce
  then have s1: "link_shrinks l l1" unfolding sendVersion_def by (rule writeMessage_shrinks)
  show ?thesis
  proof (cases x)
    case (Inl e)
    with a v s1 show ?thesis by (simp add: handshake_def)
  next
    case (Inr u)
    with a v obtain r1 l2 i1 where h: "handshake_loop (neTicks env) l1 i = Inr (r1, l2, i1)"
      by (auto simp: handshake_def ebind_eq_Inr_iff)
    have s2: "link_shrinks l l2" using s1 handshake_loop_shrinks [OF h] by (rule link_shrinks_trans)
    obtain y l3 where sh: "writeMessage ''sendheaders'' [] l2 = (y, l3)" by fastforce
    have s3: "link_shrinks l l3" using s2 writeMessage_shrinks [OF sh] by (rule link_shrinks_trans)
    have s4: "link_shrinks l l4" if "drain k l3 = Inr l4" for k l4
      using s3 drain_shrinks [OF that] by (rule link_shrinks_trans)
    from a v Inr h s2 sh s3 s4 show ?thesis
      by (auto simp: handshake_def ebind_eq_Inr_iff split: sum.splits)
  qed
qed

text \<open>What every way of connecting leaves alone, and what it can only shrink.\<close>

definition same_client :: "P2PClient \<Rightarrow> P2PClient \<Rightarrow> bool" where
  "same_client c c' \<longleftrightarrow> pChain c' = pChain c \<and> pOverride c' = pOverride c \<and> pSeeds c' = pSeeds c \<and>
     pHarvesterStopped c' = pHarvesterStopped c \<and> magic (pLink c') = magic (pLink c) \<and>
     (book_ok (pBook c) \<longrightarrow> book_ok (pBook c'))"

lemma same_client_refl [simp]: "same_client c c"
  by (simp add: same_client_def)

lemma same_client_trans [trans]: "same_client a b \<Longrightarrow> same_client b c \<Longrightarrow> same_client a c"
  by (auto simp: same_client_def)

lemma same_client_updates [simp]:
  "same_client c (c\<lparr>pDials := n\<rparr>)" "same_client c (c\<lparr>pInfo := i\<rparr>)" "same_client c (set_known ps c)"
  "same_client c (record_connection env c)"
  "same_client c (c\<lparr>pBook := markBadPeer now net a (pBook c)\<rparr>)"
  by (auto simp: same_client_def set_known_def record_connection_def savePeerToCache_def book_ok_update
      intro: book_ok_same simp: markBadPeer_def)

lemma known_set_known [simp]: "known (set_known ps c) = ps"
  by (simp add: known_def set_known_def)

lemma known_updates [simp]:
  "known (c\<lparr>pDials := n\<rparr>) = known c" "known (c\<lparr>pBook := bk\<rparr>) = known c" "known (record_connection env c) = known c"
  by (simp_all add: known_def record_connection_def)

lemma tryConnect_frame:
  assumes "tryConnect env a c = Inr (r, c')"
  shows "same_client c c' \<and> length (known c') \<le> length (known c)"
proof -
  obtain d n where d: "dial_addr env a (pDials c) = (d, n)" by fastforce
  show ?thesis
  proof (cases d)
    case None
    with assms d show ?thesis by (auto simp: tryConnect_def)
  next
    case (Some x)
    then obtain cn ca where x: "d = Some (cn, ca)" by (cases x) simp
    with assms d obtain r1 l i where h: "handshake env (of_nat (port (pChain c)))
        ((pLink c)\<lparr>conn := Some cn, peerAddr := ca\<rparr>) (pInfo c) = Inr (r1, l, i)"
      by (auto simp: tryConnect_def ebind_eq_Inr_iff)
    from handshake_shrinks [OF h] have "magic l = magic (pLink c)" "length (knownPeers l) \<le> length (known c)"
      by (simp_all add: link_shrinks_def known_def)
    moreover from assms d x h have "c' = (case r1 of
        Inl e \<Rightarrow> c\<lparr>pDials := n, pInfo := i, pLink := l\<lparr>conn := None, peerAddr := ''''\<rparr>\<rparr>
      | Inr _ \<Rightarrow> c\<lparr>pDials := n, pInfo := i, pLink := l,
          pBook := updatePeerResult (neNow env) (pNet c) (peerAddr l) True (piUserAgent i) (pBook c)\<rparr>)"
      by (auto simp: tryConnect_def pNet_def split: sum.splits)
    ultimately show ?thesis
      by (cases r1) (auto simp: same_client_def known_def book_ok_update)
  qed
qed

lemma peer_failed_frame: "peer_failed env a c = Inr c' \<Longrightarrow> same_client c c' \<and> known c' = known c \<and> 3 \<le> length (known c')"
  by (auto simp: peer_failed_def Let_def split: if_splits)

section \<open>The loop returns\<close>





section \<open>What finding a peer leaves alone\<close>

lemma same_client_book:
  "(book_ok (pBook c) \<Longrightarrow> book_ok bk) \<Longrightarrow> same_client c (c\<lparr>pBook := bk\<rparr>)"
  by (simp add: same_client_def)

lemma filter_book: "filterBadPeers now ps bk = (qs, bk') \<Longrightarrow> book_ok bk \<Longrightarrow> book_ok bk'"
  using filterBadPeers_result by (blast intro: book_ok_same)

lemma resolve_seeds_frame: "resolve_seeds env c = (b, c') \<Longrightarrow> same_client c c'"
proof -
  have step: "same_client (snd s) (snd (resolve_seed env x s))" for x s
  proof (cases s)
    case (Pair r d)
    obtain qs bk where f: "filterBadPeers (neNow env) (map (\<lambda>ip. JoinHostPort ip (pPort d)) (neLookupHost env x)) (pBook d) = (qs, bk)"
      by fastforce
    have "same_client d (d\<lparr>pBook := bk\<rparr>)" by (rule same_client_book) (rule filter_book [OF f])
    moreover note same_client_trans [OF this same_client_updates(3)]
    ultimately show ?thesis using f Pair by (simp add: resolve_seed_def Let_def)
  qed
  have "same_client (snd s) (snd (fold (resolve_seed env) xs s))" for xs s
  proof (induction xs arbitrary: s)
    case (Cons x xs)
    from same_client_trans [OF step Cons.IH] show ?case by simp
  qed simp
  from this [of "(False, c)"] show "resolve_seeds env c = (b, c') \<Longrightarrow> same_client c c'"
    by (simp add: resolve_seeds_def) (metis snd_conv)
qed

lemma discover_frame: "discoverPeersFromSeed env s c = Inr (r, c') \<Longrightarrow> \<exists>n. c' = c\<lparr>pDials := n\<rparr>"
proof -
  assume a: "discoverPeersFromSeed env s c = Inr (r, c')"
  obtain d n where d: "dialPreferredIPv4 env s (pPort c) (pDials c) = (d, n)" by fastforce
  show ?thesis
  proof (cases d)
    case None
    with a d show ?thesis by (auto simp: discoverPeersFromSeed_def Let_def)
  next
    case (Some x)
    then obtain cn ca where x: "d = Some (cn, ca)" by (cases x) simp
    let ?l = "\<lparr>magic = magic (pLink c), conn = Some cn, peerAddr = ca, knownPeers = []\<rparr>"
    obtain v l1 where v: "sendVersion (neUnix env) (neNonce env) (of_nat (port (pChain c))) ?l = (v, l1)" by fastforce
    show ?thesis
    proof (cases v)
      case (Inl e)
      with a d x v show ?thesis by (auto simp: discoverPeersFromSeed_def Let_def)
    next
      case (Inr u)
      with a d x v obtain w l2 where h: "seed_handshake (neTicks env) l1 = Inr (w, l2)"
        by (auto simp: discoverPeersFromSeed_def Let_def ebind_eq_Inr_iff)
      obtain z l3 where g: "writeMessage ''getaddr'' [] l2 = (z, l3)" by fastforce
      show ?thesis
      proof (cases w)
        case (Inl e)
        with a d x v Inr h show ?thesis by (auto simp: discoverPeersFromSeed_def Let_def)
      next
        case w: (Inr u')
        with a d x v Inr h g show ?thesis
          by (cases z) (auto simp: discoverPeersFromSeed_def Let_def ebind_eq_Inr_iff)
      qed
    qed
  qed
qed

lemma save_all_book: "book_ok bk \<Longrightarrow> book_ok (savePeersToCache now net ps bk)"
  using book_step_ok [OF book_step.save_all] .

lemma ask_seeds_frame: "ask_seeds env ss e c = Inr (b, e', c') \<Longrightarrow> same_client c c'"
proof (induction ss arbitrary: e c)
  case (Cons s ss)
  show ?case
  proof (cases "on_cooldown (neNow env) s (pBook c)")
    case True
    with Cons show ?thesis by simp
  next
    case False
    with Cons.prems obtain r c1 where d: "discoverPeersFromSeed env s c = Inr (r, c1)"
      by (auto simp: ebind_eq_Inr_iff)
    from discover_frame [OF d] have s1: "same_client c c1" by auto
    show ?thesis
    proof (cases r)
      case (Inl err)
      let ?c2 = "c1\<lparr>pBook := (pBook c1)\<lparr>seedBadList := (seedBadList (pBook c1))(s \<mapsto> neNow env)\<rparr>\<rparr>"
      have "same_client c1 ?c2" by (rule same_client_book) (rule book_ok_same, simp_all)
      from same_client_trans [OF s1 this] Cons.prems False d Inl Cons.IH show ?thesis
        by (auto intro: same_client_trans)
    next
      case (Inr ps)
      obtain qs bk where f: "filterBadPeers (neNow env) ps (pBook c1) = (qs, bk)" by fastforce
      let ?c2 = "c1\<lparr>pBook := bk\<rparr>"
      have "same_client c1 ?c2" by (rule same_client_book) (rule filter_book [OF f])
      note s2 = same_client_trans [OF s1 this]
      show ?thesis
      proof (cases "qs = []")
        case True
        with Cons.prems False d Inr f have "ask_seeds env ss e ?c2 = Inr (b, e', c')" by simp
        from same_client_trans [OF s2 Cons.IH [OF this]] show ?thesis .
      next
        case nonempty: False
        let ?c3 = "set_known (known ?c2 @ take 50 (neShuffle env qs)) ?c2"
        have "same_client c ?c3" using same_client_trans [OF s2 same_client_updates(3)] .
        moreover have "same_client ?c3 (?c3\<lparr>pBook := savePeersToCache (neNow env) (pNet ?c3) (take 50 (neShuffle env qs)) (pBook ?c3)\<rparr>)"
          by (rule same_client_book) (rule save_all_book)
        moreover from Cons.prems False d Inr f nonempty have
          "c' = ?c3\<lparr>pBook := savePeersToCache (neNow env) (pNet ?c3) (take 50 (neShuffle env qs)) (pBook ?c3)\<rparr>"
          by (simp add: Let_def)
        ultimately show ?thesis using same_client_trans by blast
      qed
    qed
  qed
qed simp

lemma load_known_frame: "same_client c (load_known env c)"
proof (cases "known c = []")
  case True
  obtain ps bk where l: "loadCachedPeers (neShuffle env) (neNow env) (pNet c) (pBook c) = (ps, bk)" by fastforce
  have "book_ok (pBook c) \<Longrightarrow> book_ok bk"
    using book_ok_load [of "pBook c" "neShuffle env" "neNow env" "pNet c"] l by simp
  then have "same_client (set_known ps c) ((set_known ps c)\<lparr>pBook := bk\<rparr>)"
    by (intro same_client_book) (simp add: set_known_def)
  with l True show ?thesis
    using same_client_trans [OF same_client_updates(3)] by (simp add: load_known_def Let_def)
qed (simp add: load_known_def)

section \<open>The last step of a successful connection\<close>

definition connected_by :: "NetEnv \<Rightarrow> P2PClient \<Rightarrow> conn_error + unit \<Rightarrow> P2PClient \<Rightarrow> bool" where
  "connected_by env c r c' \<longleftrightarrow> same_client c c' \<and>
     (r = Inr () \<longrightarrow> (\<exists>a c0 c1. same_client c c0 \<and> tryConnect env a c0 = Inr (Inr (), c1) \<and> c' = record_connection env c1))"

lemma connected_by_trans: "same_client a b \<Longrightarrow> connected_by env b r c \<Longrightarrow> connected_by env a r c"
  unfolding connected_by_def using same_client_trans by blast

lemma connected_by_try:
  "tryConnect env a c = Inr (Inr (), c1) \<Longrightarrow> connected_by env c (Inr ()) (record_connection env c1)"
  unfolding connected_by_def
  using tryConnect_frame same_client_refl same_client_trans [OF _ same_client_updates(4)] by blast

lemma try_seeds_by: "try_seeds env ss e c = Inr (r, c') \<Longrightarrow> connected_by env c r c'"
proof (induction ss arbitrary: e c)
  case (Cons s ss)
  then obtain x c1 where t: "tryConnect env (JoinHostPort s (pPort c)) c = Inr (x, c1)"
    by (auto simp: ebind_eq_Inr_iff)
  show ?case
  proof (cases x)
    case (Inl err)
    with Cons t tryConnect_frame [OF t] show ?thesis by (auto intro: connected_by_trans)
  next
    case (Inr u)
    with Cons.prems t connected_by_try show ?thesis by auto
  qed
qed (auto simp: connected_by_def)

lemma connect_loop_by:
  "connect_loop env e c = Some (Inr (r, c')) \<Longrightarrow> connected_by env c r c'"
proof -
  define P where "P env e c y \<longleftrightarrow> (\<forall>r c'. y = Inr (r, c') \<longrightarrow> connected_by env c r c')" for env and e :: "conn_error option" and c and y :: "halt + ((conn_error + unit) \<times> P2PClient)"
  have "P env e c y" if run: "connect_loop env e c = Some y" for y
  proof (rule connect_loop.raw_induct [where P = P, OF _ run])
    fix f env e c y
    assume IH: "\<And>env e c y. f env e c = Some y \<Longrightarrow> P env e c y"
    assume body: "(case known c of
        addr # ps \<Rightarrow>
          (case tryConnect env addr (set_known ps c) of
             Inl h \<Rightarrow> Some (Inl h)
           | Inr (Inr _, c) \<Rightarrow> Some (Inr (Inr (), record_connection env c))
           | Inr (Inl err, c) \<Rightarrow>
               (case peer_failed env addr c of
                  Inl h \<Rightarrow> Some (Inl h)
                | Inr c \<Rightarrow> f env (Some err) c))
      | [] \<Rightarrow>
          (case resolve_seeds env c of (resolved, c) \<Rightarrow>
             if resolved then f env e c
             else (case ask_seeds env (pSeeds c) e c of
                     Inl h \<Rightarrow> Some (Inl h)
                   | Inr (fetched, e, c) \<Rightarrow>
                       if fetched then f env e c
                       else Some (try_seeds env (pSeeds c) e c)))) = Some y"
    show "P env e c y"
      unfolding P_def
    proof (intro allI impI)
      fix r c' assume y: "y = Inr (r, c')"
      show "connected_by env c r c'"
      proof (cases "known c")
        case (Cons a ps)
        with body y obtain x c1 where t: "tryConnect env a (set_known ps c) = Inr (x, c1)"
          by (auto split: sum.splits)
        have s0: "same_client c (set_known ps c)" by simp
        note s1 = same_client_trans [OF s0 conjunct1 [OF tryConnect_frame [OF t]]]
        show ?thesis
        proof (cases x)
          case (Inl err)
          with body y Cons t obtain c2 where p: "peer_failed env a c1 = Inr c2" "f env (Some err) c2 = Some y"
            by (auto split: sum.splits)
          from peer_failed_frame [OF p(1)] have s2: "same_client c c2" using same_client_trans [OF s1] by blast
          from IH [OF p(2), unfolded P_def] y have "connected_by env c2 r c'" by blast
          with s2 show ?thesis by (rule connected_by_trans)
        next
          case (Inr u)
          with body y Cons t have "r = Inr ()" "c' = record_connection env c1" by auto
          moreover from t Inr have "tryConnect env a (set_known ps c) = Inr (Inr (), c1)" by simp
          ultimately show ?thesis using connected_by_try connected_by_trans [OF s0] by blast
        qed
      next
        case Nil
        obtain b c1 where rs: "resolve_seeds env c = (b, c1)" by fastforce
        note s1 = resolve_seeds_frame [OF rs]
        show ?thesis
        proof (cases b)
          case True
          with body Nil rs have "f env e c1 = Some y" by simp
          from IH [OF this, unfolded P_def] y have "connected_by env c1 r c'" by blast
          with s1 show ?thesis by (rule connected_by_trans)
        next
          case False
          with body Nil rs y obtain g e1 c2 where a: "ask_seeds env (pSeeds c1) e c1 = Inr (g, e1, c2)"
            by (auto split: sum.splits)
          note s2 = same_client_trans [OF s1 ask_seeds_frame [OF a]]
          show ?thesis
          proof (cases g)
            case True
            with body Nil rs a False have "f env e1 c2 = Some y" by simp
            from IH [OF this, unfolded P_def] y have "connected_by env c2 r c'" by blast
            with s2 show ?thesis by (rule connected_by_trans)
          next
            case gFalse: False
            with body Nil rs a False y have "try_seeds env (pSeeds c2) e1 c2 = Inr (r, c')" by simp
            from connected_by_trans [OF s2 try_seeds_by [OF this]] show ?thesis .
          qed
        qed
      qed
    qed
  qed
  then show "connect_loop env e c = Some (Inr (r, c')) \<Longrightarrow> connected_by env c r c'" unfolding P_def by blast
qed

lemma ensureConnected_by:
  assumes "ensureConnected env c = Some (Inr (r, c'))" "conn (pLink c) = None"
  shows "connected_by env c r c'"
proof (cases "pOverride c = ''''")
  case True
  with assms have "connect_loop env None (load_known env c) = Some (Inr (r, c'))" by (simp add: ensureConnected_def)
  from connected_by_trans [OF load_known_frame connect_loop_by [OF this]] show ?thesis .
next
  case False
  with assms obtain x c1 where t: "tryConnect env (pOverride c) c = Inr (x, c1)"
    by (auto simp: ensureConnected_def split: sum.splits)
  show ?thesis
  proof (cases x)
    case (Inl err)
    with assms False t have "connect_loop env None (load_known env c1) = Some (Inr (r, c'))"
      by (simp add: ensureConnected_def)
    from connected_by_trans [OF load_known_frame connect_loop_by [OF this]] tryConnect_frame [OF t] show ?thesis
      by (blast intro: connected_by_trans)
  next
    case (Inr u)
    with assms False t have "r = Inr ()" "c' = record_connection env c1" by (simp_all add: ensureConnected_def)
    moreover from t Inr have "tryConnect env (pOverride c) c = Inr (Inr (), c1)" by simp
    ultimately show ?thesis using connected_by_try by blast
  qed
qed

lemma ensureConnected_frame: "ensureConnected env c = Some (Inr (r, c')) \<Longrightarrow> same_client c c'"
  using ensureConnected_by [of env c r c'] by (cases "conn (pLink c)") (auto simp: ensureConnected_def connected_by_def)

section \<open>Success counts\<close>

definition updated_peers :: "int \<Rightarrow> string \<Rightarrow> bool \<Rightarrow> string \<Rightarrow> PeerEntry list \<Rightarrow> PeerEntry list" where
  "updated_peers now b ok ag ps =
     (if b = '''' then ps
      else case bump_first (bump_entry now ok ag) b ps of
        Some ps' \<Rightarrow> ps'
      | None \<Rightarrow> if 200 \<le> length ps then ps else ps @ [new_entry now b ok ag])"

lemma cached_updated:
  "cached_peers net (updatePeerResult now net a ok ag bk) = updated_peers now (TrimSpace a) ok ag (cached_peers net bk)"
  by (simp add: updatePeerResult_peers updated_peers_def Let_def)

lemma updated_peers_ok: "entries_ok ps \<Longrightarrow> entries_ok (updated_peers now (TrimSpace a) ok ag ps)"
  using entries_ok_update [of ps a now ok ag] by (simp add: updated_peers_def Let_def)

lemma updated_success:
  assumes "entries_ok ps" "b \<noteq> ''''" "e' \<in> set (updated_peers now b True ag ps)" "peAddr e' = b"
  shows "(\<exists>e \<in> set ps. peAddr e = b \<and> SuccessCount e' = SuccessCount e + 1) \<or>
    (SuccessCount e' = 1 \<and> b \<notin> peAddr ` set ps \<and> length ps < 200)"
proof (cases "bump_first (bump_entry now True ag) b ps")
  case None
  then have "b \<notin> peAddr ` set ps" by (rule bump_first_None [THEN iffD1])
  moreover have "e' \<in> set ps \<or> (e' = new_entry now b True ag \<and> length ps < 200)"
    using assms(2,3) None by (auto simp: updated_peers_def split: if_splits)
  moreover have "SuccessCount (new_entry now b True ag) = 1" by (simp add: new_entry_def)
  ultimately show ?thesis using assms(4) by (metis image_eqI)
next
  case (Some qs)
  then have qs: "updated_peers now b True ag ps = qs" using assms(2) by (simp add: updated_peers_def)
  have "map peAddr qs = map peAddr ps" by (rule bump_first_addrs [OF _ Some]) simp
  then have "distinct (map peAddr qs)" using assms(1) by (simp add: entries_ok_def)
  with assms(3,4) qs have "find (\<lambda>x. peAddr x = b) qs = Some e'" using find_addr by force
  moreover have "find (\<lambda>x. peAddr x = b) qs = map_option (bump_entry now True ag) (find (\<lambda>x. peAddr x = b) ps)"
    using bump_first_find [OF _ Some, of b] by simp
  ultimately obtain e where "find (\<lambda>x. peAddr x = b) ps = Some e" "e' = bump_entry now True ag e" by auto
  then show ?thesis by (auto simp: find_Some_iff intro!: disjI1 bexI [of _ e])
qed

lemma twice_updated_success:
  assumes "entries_ok ps" "e \<in> set (updated_peers now (TrimSpace a) True ag2 (updated_peers now (TrimSpace a) True ag1 ps))"
    and "peAddr e = TrimSpace a" "TrimSpace a \<noteq> ''''"
  shows "2 \<le> SuccessCount e"
proof -
  let ?b = "TrimSpace a" and ?qs = "updated_peers now (TrimSpace a) True ag1 ps"
  have ok: "entries_ok ?qs" using assms(1) by (rule updated_peers_ok)
  from updated_success [OF ok assms(4,2,3)] show ?thesis
  proof
    assume "\<exists>e0 \<in> set ?qs. peAddr e0 = ?b \<and> SuccessCount e = SuccessCount e0 + 1"
    then obtain e0 where e0: "e0 \<in> set ?qs" "peAddr e0 = ?b" "SuccessCount e = SuccessCount e0 + 1" by blast
    from updated_success [OF assms(1,4) e0(1,2)] assms(1) have "1 \<le> SuccessCount e0"
      by (auto simp: entries_ok_def)
    with e0(3) show ?thesis by simp
  next
    assume a: "SuccessCount e = 1 \<and> ?b \<notin> peAddr ` set ?qs \<and> length ?qs < 200"
    show ?thesis
    proof (cases "bump_first (bump_entry now True ag1) ?b ps")
      case None
      with a assms(4) show ?thesis by (auto simp: updated_peers_def new_entry_def split: if_splits)
    next
      case (Some rs)
      then have "?qs = rs" using assms(4) by (simp add: updated_peers_def)
      moreover have "map peAddr rs = map peAddr ps" by (rule bump_first_addrs [OF _ Some]) simp
      moreover have "?b \<in> peAddr ` set ps"
        using Some bump_first_None [of "bump_entry now True ag1" ?b ps] by (metis option.distinct(1))
      ultimately show ?thesis using a by (metis list.set_map)
    qed
  qed
qed

lemma tryConnect_recorded:
  assumes "tryConnect env a c = Inr (Inr (), c')"
  shows "\<exists>ag. pBook c' = updatePeerResult (neNow env) (pNet c) (peerAddr (pLink c')) True ag (pBook c)" "pNet c' = pNet c"
proof -
  show "pNet c' = pNet c" using tryConnect_frame [OF assms] by (simp add: same_client_def pNet_def)
  obtain d n where d: "dial_addr env a (pDials c) = (d, n)" by fastforce
  from assms d obtain cn ca where x: "d = Some (cn, ca)" by (cases d) (auto simp: tryConnect_def)
  with assms d obtain r l i where h: "handshake env (of_nat (port (pChain c)))
      ((pLink c)\<lparr>conn := Some cn, peerAddr := ca\<rparr>) (pInfo c) = Inr (r, l, i)"
    by (auto simp: tryConnect_def ebind_eq_Inr_iff)
  with assms d x show "\<exists>ag. pBook c' = updatePeerResult (neNow env) (pNet c) (peerAddr (pLink c')) True ag (pBook c)"
    by (cases r) (auto simp: tryConnect_def Let_def pNet_def)
qed

section \<open>Properties\<close>


lemma dial_none: "neDial env = (\<lambda>_ _ _. None) \<Longrightarrow> fst (dial_first env n ds) = None"
  by (induction env n ds rule: dial_first.induct) auto

lemma tryConnect_none:
  "neDial env = (\<lambda>_ _ _. None) \<Longrightarrow> \<exists>n. tryConnect env a c = Inr (Inl DialFailed, c\<lparr>pDials := n\<rparr>)"
proof -
  assume "neDial env = (\<lambda>_ _ _. None)"
  then have "fst (dial_addr env a (pDials c)) = None"
    using dial_none by (auto simp: dial_addr_def dialPreferredIPv4_def Let_def split: option.splits)
  then show ?thesis by (cases "dial_addr env a (pDials c)") (auto simp: tryConnect_def)
qed

lemma connect_loop_offline:
  assumes "neDial env = (\<lambda>_ _ _. None)" "known c \<noteq> []"
  shows "connect_loop env e c = Some (Inl Deadlocked)"
  using assms(2)
proof (induction "length (known c)" arbitrary: c e rule: less_induct)
  case less
  then obtain a ps where k: "known c = a # ps" by (cases "known c") auto
  obtain n where t: "tryConnect env a (set_known ps c) = Inr (Inl DialFailed, (set_known ps c)\<lparr>pDials := n\<rparr>)"
    using tryConnect_none [OF assms(1)] by blast
  show ?case
  proof (cases "peer_failed env a ((set_known ps c)\<lparr>pDials := n\<rparr>)")
    case (Inl h)
    then have "h = Deadlocked" by (simp add: peer_failed_def Let_def split: if_splits)
    with k t Inl show ?thesis by (simp add: connect_loop.simps)
  next
    case (Inr c2)
    from peer_failed_frame [OF Inr] have "known c2 \<noteq> []" "length (known c2) < length (known c)" using k by auto
    from less.hyps [OF this(2,1)] k t Inr show ?thesis by (simp add: connect_loop.simps [of env e c])
  qed
qed

lemma offline_deadlock:
  assumes "neDial env = (\<lambda>_ _ _. None)" "conn (pLink c) = None" "known c \<noteq> []"
  shows "ensureConnected env c = Some (Inl Deadlocked) \<and> GetTipHeader env c = Some (Inl Deadlocked)"
proof -
  have load: "load_known env x = x" if "known x \<noteq> []" for x using that by (simp add: load_known_def)
  have "ensureConnected env c = Some (Inl Deadlocked)"
  proof (cases "pOverride c = ''''")
    case True
    with assms load connect_loop_offline show ?thesis by (simp add: ensureConnected_def)
  next
    case False
    obtain n where "tryConnect env (pOverride c) c = Inr (Inl DialFailed, c\<lparr>pDials := n\<rparr>)"
      using tryConnect_none [OF assms(1)] by blast
    with False assms load connect_loop_offline [OF assms(1), of "c\<lparr>pDials := n\<rparr>"] show ?thesis
      by (simp add: ensureConnected_def)
  qed
  then show ?thesis by (simp add: GetTipHeader_def)
qed

text \<open>C38: a client without a connection that knows at least one peer and can reach none (a cable is
  unplugged) never reports an error: it locks the mutex of its peer list twice and stops, and
  with it the mining loop that asked for the tip.\<close>

theorem offline_client_deadlocks:
  assumes "neDial env = (\<lambda>_ _ _. None)" "conn (pLink c) = None" "known c \<noteq> []"
  shows "ensureConnected env c = Some (Inl Deadlocked) \<and> GetTipHeader env c = Some (Inl Deadlocked)"
  using assms by (rule offline_deadlock)

text \<open>One connection counts as two successes: after a first successful connection the peer's
  entry has at least two, which is all it takes to be a trusted peer.\<close>

theorem connection_counts_twice:
  assumes "ensureConnected env c = Some (Inr (Inr (), c'))" "conn (pLink c) = None" "book_ok (pBook c)"
    and "e \<in> set (cached_peers (pNet c) (pBook c'))" "peAddr e = TrimSpace (peerAddr (pLink c'))"
  shows "2 \<le> SuccessCount e"
proof -
  from ensureConnected_by [OF assms(1,2)] obtain a c0 c1 where
    s: "same_client c c0" and t: "tryConnect env a c0 = Inr (Inr (), c1)" and c': "c' = record_connection env c1"
    by (auto simp: connected_by_def)
  from s have net: "pNet c0 = pNet c" by (simp add: same_client_def pNet_def)
  from s assms(3) have ok: "entries_ok (cached_peers (pNet c) (pBook c0))" by (simp add: same_client_def book_ok_def)
  obtain ag where bk: "pBook c1 = updatePeerResult (neNow env) (pNet c) (peerAddr (pLink c1)) True ag (pBook c0)"
    using tryConnect_recorded(1) [OF t] net by auto
  let ?a = "peerAddr (pLink c1)"
  have "cached_peers (pNet c) (pBook c') = updated_peers (neNow env) (TrimSpace ?a) True ''''
      (updated_peers (neNow env) (TrimSpace ?a) True ag (cached_peers (pNet c) (pBook c0)))"
    using tryConnect_recorded(2) [OF t] net
    by (simp add: c' record_connection_def savePeerToCache_def bk cached_updated)
  moreover have "peerAddr (pLink c') = ?a" by (simp add: c' record_connection_def)
  moreover have "peAddr e \<noteq> ''''"
  proof -
    have "book_ok (pBook c')" using ensureConnected_frame [OF assms(1)] assms(3) by (simp add: same_client_def)
    with assms(4) show ?thesis by (auto simp: book_ok_def entries_ok_def)
  qed
  ultimately show ?thesis using twice_updated_success [OF ok] assms(4,5) by metis
qed

section \<open>The handshake with concrete peers\<close>

definition frame :: "byte list \<Rightarrow> string \<Rightarrow> byte list \<Rightarrow> byte list" where
  "frame mg cmd p = messageHeader mg cmd p @ p"

lemma write_ok:
  "conn l = Some cn \<Longrightarrow> length (frame (magic l) cmd p) \<le> room cn \<Longrightarrow>
     writeMessage cmd p l = (Inr (), l\<lparr>conn := Some (cn\<lparr>outbox := outbox cn @ frame (magic l) cmd p,
       room := room cn - length (frame (magic l) cmd p)\<rparr>)\<rparr>)"
  using writeMessage_room [of l cn cmd p] by (simp add: frame_def)

text \<open>The three messages of our side of a handshake take 181 bytes.\<close>

lemma length_version_payload: "length (version_payload now nonce p) = 109"
proof -
  have n: "length userAgent = 23" "length (string_bytes userAgent) = length userAgent"
    by (simp_all add: userAgent_def string_bytes_def)
  have "unat (of_nat (length userAgent) :: u64) = length userAgent" by (rule unat_of_nat_u64) (simp add: n)
  then show ?thesis
    by (simp add: version_payload_def n net_addr_def writeLen_def writeVarInt_def word_less_nat_alt)
qed

lemma length_frame: "length mg = 4 \<Longrightarrow> length (frame mg cmd p) = 24 + length p"
  by (simp add: frame_def)

lemma length_version_frame: "length mg = 4 \<Longrightarrow> length (frame mg ''version'' (version_payload now nonce p)) = 133"
  by (simp add: length_frame length_version_payload)

lemma read_frame:
  "frameable (magic l) cmd p \<Longrightarrow> conn l = Some cn \<Longrightarrow> inbox cn = frame (magic l) cmd p @ rest \<Longrightarrow>
     readMessage l = (Inr (cmd, p), l\<lparr>conn := Some (cn\<lparr>inbox := rest\<rparr>)\<rparr>)"
  using readMessage_frame [of l cmd p cn rest] by (simp add: frame_def)

lemma read_empty:
  "conn l = Some cn \<Longrightarrow> inbox cn = [] \<Longrightarrow> readMessage l =
     (case connEnd cn of EndTimeout \<Rightarrow> (Inl ReadTimeout, l) | EndClosed \<Rightarrow> (Inl ReadClosed, disconnect l))"
proof -
  assume a: "conn l = Some cn" "inbox cn = []"
  have c: "cn\<lparr>inbox := []\<rparr> = cn" using a(2) by (cases cn) simp
  have l: "l\<lparr>conn := Some cn\<rparr> = l" using a(1) by (cases l) simp
  have "conn_read 24 cn = (Inl (case connEnd cn of EndTimeout \<Rightarrow> ReadTimeout | EndClosed \<Rightarrow> ReadClosed), cn)"
    using a(2) by (simp add: conn_read_def c)
  with a(1) have "link_read 24 l =
      (case connEnd cn of EndTimeout \<Rightarrow> (Inl ReadTimeout, l) | EndClosed \<Rightarrow> (Inl ReadClosed, disconnect l))"
    by (simp add: link_read_def l split: conn_end.split)
  then show ?thesis by (simp add: readMessage_def split: conn_end.split)
qed

lemma read_blocking_ok: "conn l \<noteq> None \<Longrightarrow> readMessage l = (Inr m, l') \<Longrightarrow> read_blocking l = Inr (Inr m, l')"
  by (simp add: read_blocking_def)

lemma handshake_loop_two:
  "read_blocking a = Inr (Inr (''version'', pv), b) \<Longrightarrow> writeMessage ''verack'' [] b = (Inr (), c) \<Longrightarrow>
   read_blocking c = Inr (Inr (''verack'', x), d) \<Longrightarrow>
     handshake_loop (Suc (Suc n)) a i = Inr (Inr (), d, read_version pv i)"
  by simp

lemma handshake_steps:
  "sendVersion (neUnix env) (neNonce env) p l = (Inr (), a) \<Longrightarrow>
   handshake_loop (neTicks env) a i = Inr (Inr (), b, j) \<Longrightarrow>
   writeMessage ''sendheaders'' [] b = (Inr (), c) \<Longrightarrow> drain (min 11 (neTicks env)) c = Inr d \<Longrightarrow>
     handshake env p l i = Inr (Inr (), d, j)"
  by (simp add: handshake_def)

lemma command_frames: "length mg = 4 \<Longrightarrow> length p \<le> 33554432 \<Longrightarrow> frameable mg ''version'' p"
  "length mg = 4 \<Longrightarrow> frameable mg ''verack'' []"
  by (simp_all add: frameable_def string_bytes_def)

lemma handshake_silent:
  assumes "conn l = Some cn" "200 \<le> room cn" "inbox cn = []" "connEnd cn = EndTimeout" "0 < neTicks env"
    and "length (magic l) = 4"
  shows "handshake env p l i = Inl Blocked"
proof -
  let ?l = "l\<lparr>conn := Some (cn\<lparr>outbox := outbox cn @ frame (magic l) ''version'' (version_payload (neUnix env) (neNonce env) p),
    room := room cn - 133\<rparr>)\<rparr>"
  have v: "sendVersion (neUnix env) (neNonce env) p l = (Inr (), ?l)"
    using assms(1,2) by (simp add: sendVersion_def write_ok length_version_frame [OF assms(6)])
  have "readMessage ?l = (Inl ReadTimeout, ?l)" using read_empty [of ?l] assms(3,4) by simp
  then have "read_blocking ?l = Inl Blocked" by (simp add: read_blocking_def)
  moreover obtain n where "neTicks env = Suc n" using assms(5) gr0_implies_Suc by blast
  ultimately show ?thesis by (simp add: handshake_def v)
qed

lemma handshake_result:
  fixes p :: u16
  assumes "conn l = Some cn" "200 \<le> room cn" "length (magic l) = 4" "length pv \<le> 33554432" "2 \<le> neTicks env"
    and "inbox cn = frame (magic l) ''version'' pv @ frame (magic l) ''verack'' []"
  defines "l1 \<equiv> l\<lparr>conn := Some (cn\<lparr>inbox := [], outbox := outbox cn @
      frame (magic l) ''version'' (version_payload (neUnix env) (neNonce env) p) @
      frame (magic l) ''verack'' [] @ frame (magic l) ''sendheaders'' [], room := room cn - 181\<rparr>)\<rparr>"
  shows "handshake env p l i =
    Inr (Inr (), (case connEnd cn of EndTimeout \<Rightarrow> l1 | EndClosed \<Rightarrow> disconnect l1), read_version pv i)"
proof -
  let ?m = "magic l" and ?v = "frame (magic l) ''version'' (version_payload (neUnix env) (neNonce env) p)"
  let ?c1 = "cn\<lparr>outbox := outbox cn @ ?v, room := room cn - 133\<rparr>"
  let ?c2 = "?c1\<lparr>inbox := frame ?m ''verack'' []\<rparr>"
  let ?c3 = "?c2\<lparr>outbox := outbox ?c2 @ frame ?m ''verack'' [], room := room cn - 157\<rparr>"
  let ?c4 = "?c3\<lparr>inbox := []\<rparr>"
  let ?c5 = "?c4\<lparr>outbox := outbox ?c4 @ frame ?m ''sendheaders'' [], room := room cn - 181\<rparr>"
  have v: "sendVersion (neUnix env) (neNonce env) p l = (Inr (), l\<lparr>conn := Some ?c1\<rparr>)"
    using assms(1,2) by (simp add: sendVersion_def write_ok length_version_frame [OF assms(3)])
  have r1: "readMessage (l\<lparr>conn := Some ?c1\<rparr>) = (Inr (''version'', pv), l\<lparr>conn := Some ?c2\<rparr>)"
    using read_frame [of "l\<lparr>conn := Some ?c1\<rparr>" "''version''" pv ?c1 "frame ?m ''verack'' []"]
      command_frames(1) [OF assms(3,4)] assms(6) by simp
  have w2: "writeMessage ''verack'' [] (l\<lparr>conn := Some ?c2\<rparr>) = (Inr (), l\<lparr>conn := Some ?c3\<rparr>)"
    using write_ok [of "l\<lparr>conn := Some ?c2\<rparr>" ?c2] assms(2) by (simp add: length_frame [OF assms(3)])
  have r3: "readMessage (l\<lparr>conn := Some ?c3\<rparr>) = (Inr (''verack'', []), l\<lparr>conn := Some ?c4\<rparr>)"
    using read_frame [of "l\<lparr>conn := Some ?c3\<rparr>" "''verack''" "[]" ?c3 "[]"] command_frames(2) [OF assms(3)] by simp
  have w4: "writeMessage ''sendheaders'' [] (l\<lparr>conn := Some ?c4\<rparr>) = (Inr (), l\<lparr>conn := Some ?c5\<rparr>)"
    using write_ok [of "l\<lparr>conn := Some ?c4\<rparr>" ?c4] assms(2) by (simp add: length_frame [OF assms(3)])
  have l1: "l1 = l\<lparr>conn := Some ?c5\<rparr>" by (simp add: l1_def)
  have r5: "readMessage l1 = (case connEnd cn of EndTimeout \<Rightarrow> (Inl ReadTimeout, l1) | EndClosed \<Rightarrow> (Inl ReadClosed, disconnect l1))"
    using read_empty [of l1 ?c5] by (simp add: l1)
  obtain n where n: "neTicks env = Suc (Suc n)" using le_Suc_ex [OF assms(5)] by auto
  have h: "handshake_loop (neTicks env) (l\<lparr>conn := Some ?c1\<rparr>) i = Inr (Inr (), l\<lparr>conn := Some ?c4\<rparr>, read_version pv i)"
    unfolding n
    by (rule handshake_loop_two [OF read_blocking_ok [OF _ r1] w2 read_blocking_ok [OF _ r3]]) simp_all
  have d: "drain (min 11 (neTicks env)) l1 = Inr (case connEnd cn of EndTimeout \<Rightarrow> l1 | EndClosed \<Rightarrow> disconnect l1)"
  proof -
    obtain k where "min 11 (neTicks env) = Suc k" using n by (cases "min 11 (neTicks env)") auto
    moreover have "conn l1 \<noteq> None" by (simp add: l1)
    ultimately show ?thesis using r5 by (simp split: conn_end.splits)
  qed
  have w: "writeMessage ''sendheaders'' [] (l\<lparr>conn := Some ?c4\<rparr>) = (Inr (), l1)" unfolding l1 by (rule w4)
  show ?thesis by (rule handshake_steps [OF v h w d])
qed

section \<open>Peers that stay silent or hang up\<close>

text \<open>A handshake with a peer that answers in the usual way learns its version message and
  sends ours, the acknowledgement and the request for header announcements, in this order. It
  succeeds also when the peer hangs up right after its acknowledgement; then the client is told
  that it is connected and has no connection.\<close>

theorem handshake_outcome:
  assumes "conn l = Some cn" "200 \<le> room cn" "length (magic l) = 4" "length pv \<le> 33554432" "2 \<le> neTicks env"
    and "inbox cn = frame (magic l) ''version'' pv @ frame (magic l) ''verack'' []"
  shows "\<exists>l'. handshake env p l i = Inr (Inr (), l', read_version pv i) \<and>
    (case connEnd cn of
       EndClosed \<Rightarrow> conn l' = None
     | EndTimeout \<Rightarrow> \<exists>cn'. conn l' = Some cn' \<and> inbox cn' = [] \<and> outbox cn' = outbox cn @
         frame (magic l) ''version'' (version_payload (neUnix env) (neNonce env) p) @
         frame (magic l) ''verack'' [] @ frame (magic l) ''sendheaders'' [])"
  using handshake_result [OF assms, where p = p and i = i] by (cases "connEnd cn") simp_all

text \<open>A peer that accepts the connection and then says nothing holds the client for ever: no
  read of the handshake has a deadline, so that asking for the tip never returns.\<close>

theorem silent_peer_blocks:
  assumes "conn (pLink c) = None" "pOverride c = ''''" "known c = a # ps"
    and "dial_addr env a (pDials c) = (Some (cn, ca), n)" "0 < neTicks env"
    and "200 \<le> room cn" "inbox cn = []" "connEnd cn = EndTimeout" "length (magic (pLink c)) = 4"
  shows "ensureConnected env c = Some (Inl Blocked) \<and> GetTipHeader env c = Some (Inl Blocked)"
proof -
  have h: "handshake env (of_nat (port (pChain c))) ((pLink (set_known ps c))\<lparr>conn := Some cn, peerAddr := ca\<rparr>) (pInfo c)
      = Inl Blocked"
    by (rule handshake_silent [where cn = cn]) (simp_all add: assms set_known_def)
  have "tryConnect env a (set_known ps c) = Inl Blocked"
    using assms(4) h by (simp add: tryConnect_def set_known_def)
  moreover have "load_known env c = c" using assms(3) by (simp add: load_known_def)
  ultimately have "ensureConnected env c = Some (Inl Blocked)"
    using assms(1-3) by (simp add: ensureConnected_def connect_loop.simps)
  then show ?thesis by (simp add: GetTipHeader_def)
qed

section \<open>The chain under the client's operations\<close>

lemma requestHeaders_extends: "requestHeaders now ticks l c = (res, l', c') \<Longrightarrow> extends c c'"
  using ext.request_loop_effect [of now ticks l "c\<lparr>lastHeadersReq := Some now\<rparr>" res l' c'] ext.clock ext.trans
  by (fastforce simp: requestHeaders_def)

lemma client_requestHeaders_extends:
  "client_requestHeaders env c = Inr (r, c') \<Longrightarrow> extends (pChain c) (pChain c') \<and> pOverride c' = pOverride c"
  by (auto simp: client_requestHeaders_def split: prod.splits if_splits dest: requestHeaders_extends)

lemma ensure_extends: "ensureConnected env c = Some (Inr (r, c')) \<Longrightarrow> pChain c' = pChain c \<and> pOverride c' = pOverride c"
  using ensureConnected_frame by (auto simp: same_client_def)

lemma connect_and_request_extends:
  assumes "connect_and_request env c = Some (Inr (r, c'))"
  shows "extends (pChain c) (pChain c') \<and> pOverride c' = pOverride c"
proof -
  from assms obtain x c1 where e: "ensureConnected env c = Some (Inr (x, c1))"
    by (auto simp: connect_and_request_def split: option.splits sum.splits)
  note f = ensure_extends [OF e]
  show ?thesis
  proof (cases x)
    case (Inl err)
    with assms e f show ?thesis by (simp add: connect_and_request_def extends_refl)
  next
    case (Inr u)
    with assms e obtain y where "client_requestHeaders env c1 = Inr (y, c')"
      by (auto simp: connect_and_request_def ebind_eq_Inr_iff)
    from client_requestHeaders_extends [OF this] f show ?thesis by simp
  qed
qed

lemma GetTipHeader_extends:
  assumes "GetTipHeader env c = Some (Inr (r, c'))"
  shows "extends (pChain c) (pChain c') \<and> (\<forall>h. r = Inr h \<longrightarrow> bestHeader (pChain c') = Some h)"
proof -
  from assms obtain x c1 where e: "ensureConnected env c = Some (Inr (x, c1))"
    by (auto simp: GetTipHeader_def split: option.splits sum.splits)
  note f = ensure_extends [OF e]
  show ?thesis
  proof (cases x)
    case (Inl err)
    with assms e f show ?thesis by (auto simp: GetTipHeader_def extends_refl)
  next
    case (Inr u)
    show ?thesis
    proof (cases "if throttled (neNow env) (pChain c1) then bestHeader (pChain c1) else None")
      case (Some h)
      with assms e Inr f show ?thesis by (auto simp: GetTipHeader_def extends_refl split: if_splits)
    next
      case None
      with assms e Inr obtain y c2 where q: "client_requestHeaders env c1 = Inr (y, c2)"
        by (auto simp: GetTipHeader_def ebind_eq_Inr_iff)
      from client_requestHeaders_extends [OF q] f have "extends (pChain c) (pChain c2)" by simp
      with assms e Inr None q show ?thesis
        by (cases y) (auto simp: GetTipHeader_def split: option.splits)
    qed
  qed
qed

lemma probe_frame: "probePeerTipHeight env a c = Inr (r, c') \<Longrightarrow> \<exists>n. c' = c\<lparr>pDials := n\<rparr>"
proof -
  assume p: "probePeerTipHeight env a c = Inr (r, c')"
  show ?thesis
  proof (cases "SplitHostPort a")
    case None
    with p show ?thesis by (auto simp: probePeerTipHeight_def intro: exI [of _ "pDials c"])
  next
    case (Some hp)
    then obtain h q where hp: "SplitHostPort a = Some (h, q)" by (cases hp) simp
    obtain d n where d: "dialPreferredIPv4 env h q (pDials c) = (d, n)" by fastforce
    show ?thesis
    proof (cases d)
      case None
      with p hp d show ?thesis by (auto simp: probePeerTipHeight_def)
    next
      case (Some x)
      then obtain cn ca where "d = Some (cn, ca)" by (cases x) simp
      with p hp d obtain w l i where w: "handshake env (of_nat (port (probe_chain (pChain c))))
          \<lparr>magic = magic (pLink c), conn = Some cn, peerAddr = ca, knownPeers = []\<rparr>
          \<lparr>piVersion = 0, piServices = 0, piUserAgent = ''''\<rparr> = Inr (w, l, i)"
        by (auto simp: probePeerTipHeight_def Let_def ebind_eq_Inr_iff)
      obtain g l2 where g: "sendGetHeaders (probe_chain (pChain c)) l = (g, l2)" by fastforce
      from p hp d \<open>d = Some (cn, ca)\<close> w g show ?thesis
        by (cases w; cases g) (auto simp: probePeerTipHeight_def Let_def ebind_eq_Inr_iff)
    qed
  qed
qed

lemma probe_all_frame: "probe_all env as c = Inr (rs, c') \<Longrightarrow> \<exists>n. c' = c\<lparr>pDials := n\<rparr>"
proof (induction as arbitrary: c rs)
  case Nil
  then show ?case by (auto intro: exI [of _ "pDials c"])
next
  case (Cons a as)
  then obtain r c1 rs1 where p: "probePeerTipHeight env a c = Inr (r, c1)" "probe_all env as c1 = Inr (rs1, c')"
    by (auto simp: ebind_eq_Inr_iff)
  from probe_frame [OF p(1)] Cons.IH [OF p(2)] show ?case by auto
qed

lemma best_probe_in: "best_probe b rs = (a, h) \<Longrightarrow> (a, h) = ('''', b) \<or> (a, h) \<in> set rs \<and> b < h"
proof -
  have "fold (\<lambda>(a, h) (ba, bh). if bh < h then (a, h) else (ba, bh)) rs s = s \<or>
    (fold (\<lambda>(a, h) (ba, bh). if bh < h then (a, h) else (ba, bh)) rs s \<in> set rs \<and>
     snd s < snd (fold (\<lambda>(a, h) (ba, bh). if bh < h then (a, h) else (ba, bh)) rs s))" for s
  proof (induction rs arbitrary: s)
    case (Cons r rs)
    show ?case using Cons.IH [of "if snd s < snd r then r else s"] by (auto simp: split_beta)
  qed simp
  from this [of "('''', b)"] show "best_probe b rs = (a, h) \<Longrightarrow> (a, h) = ('''', b) \<or> (a, h) \<in> set rs \<and> b < h"
    by (simp add: best_probe_def)
qed

lemma switch_extends:
  "switch_peer env a c = Some (Inr c') \<Longrightarrow> extends (pChain c) (pChain c') \<and> pOverride c' = TrimSpace a"
  by (auto simp: switch_peer_def Let_def SetPeerOverride_def ebind_eq_Inr_iff dest!: connect_and_request_extends)

lemma probing_cases:
  assumes "fetchHeadersFromBroadcastPeers env pool arrive c = Some (Inr c')"
  obtains rs c1 where "\<exists>ps c0. probe_all env ps c0 = Inr (rs, c1)"
    and "pChain c1 = pChain c" "pOverride c1 = pOverride c" "pLink c1 = pLink c"
    and "(let (ba, bh) = best_probe (bestHeight (pChain c)) (arrive rs) in
       if ba \<noteq> '''' \<and> bestHeight (pChain c) + 3 \<le> bh \<and> ba \<noteq> peerAddr (pLink c)
       then switch_peer env ba c1 = Some (Inr c') else c' = c1)"
proof -
  obtain ps bk where f: "filterBadPeers (neNow env) (probe_candidates pool c) (pBook c) = (ps, bk)" by fastforce
  from assms f obtain rs c1 where p: "probe_all env (take 4 (neShuffle env ps)) (c\<lparr>pBook := bk\<rparr>) = Inr (rs, c1)"
    by (auto simp: fetchHeadersFromBroadcastPeers_def Let_def split: sum.splits)
  from probe_all_frame [OF p] have c1: "pChain c1 = pChain c" "pOverride c1 = pOverride c" "pLink c1 = pLink c" by auto
  obtain ba bh where b: "best_probe (bestHeight (pChain c)) (arrive rs) = (ba, bh)" by fastforce
  from assms f p c1 b show thesis
    by (intro that [of rs c1]) (auto simp: fetchHeadersFromBroadcastPeers_def Let_def split: if_splits)
qed

lemma probing_extends:
  assumes "fetchHeadersFromBroadcastPeers env pool arrive c = Some (Inr c')"
  shows "extends (pChain c) (pChain c')"
proof -
  from assms obtain rs c1 where c1: "pChain c1 = pChain c"
    and r: "(let (ba, bh) = best_probe (bestHeight (pChain c)) (arrive rs) in
       if ba \<noteq> '''' \<and> bestHeight (pChain c) + 3 \<le> bh \<and> ba \<noteq> peerAddr (pLink c)
       then switch_peer env ba c1 = Some (Inr c') else c' = c1)"
    by (rule probing_cases)
  then show ?thesis
    by (auto simp: Let_def extends_refl split: prod.splits if_splits dest!: switch_extends)
qed

text \<open>Everything that runs on the primary connection; the mutex \<open>primaryIOMux\<close> keeps it in sequence.\<close>

inductive client_step :: "P2PClient \<Rightarrow> P2PClient \<Rightarrow> bool" where
  tip: "GetTipHeader env c = Some (Inr (r, c')) \<Longrightarrow> client_step c c'"
| refresh: "RefreshHeadersIfStale env age c = Some (Inr c') \<Longrightarrow> client_step c c'"
| background: "fetchHeadersInBackground env pool arrive c = Some (Inr c') \<Longrightarrow> client_step c c'"
| mark_bad: "client_step c (MarkPeerBad now a c)"
| hang_up: "client_step c (Disconnect c)"
| override: "client_step c (SetPeerOverride a c)"

lemma client_step_extends: "client_step c c' \<Longrightarrow> extends (pChain c) (pChain c')"
proof (induction rule: client_step.induct)
  case (tip env c r c')
  then show ?case using GetTipHeader_extends by blast
next
  case (refresh env age c c')
  then show ?case
    by (auto simp: RefreshHeadersIfStale_def extends_refl ebind_eq_Inr_iff split: if_splits
        dest!: connect_and_request_extends)
next
  case (background env pool arrive c c')
  then obtain x c1 where q: "connect_and_request env c = Some (Inr (x, c1))"
    by (auto simp: fetchHeadersInBackground_def split: option.splits sum.splits)
  note e = conjunct1 [OF connect_and_request_extends [OF q]]
  from background q have "c' = c1 \<or> fetchHeadersFromBroadcastPeers env pool arrive c1 = Some (Inr c')"
    by (auto simp: fetchHeadersInBackground_def split: option.splits sum.splits)
  with e show ?case using extends_trans probing_extends by blast
qed (simp_all add: MarkPeerBad_def Disconnect_def SetPeerOverride_def extends_refl)

lemma client_steps_extend: "client_step\<^sup>*\<^sup>* c c' \<Longrightarrow> extends (pChain c) (pChain c')"
proof (induction rule: rtranclp_induct)
  case base
  show ?case by (rule extends_refl)
next
  case (step b d)
  then show ?case using extends_trans client_step_extends by blast
qed

text \<open>C8: however often the client asks for the tip, refreshes it, syncs in the background, probes and
  switches peers, its chain only grows along headers linked by their hashes, from whatever
  peers they come, as long as no checkpoint is set and the state is not cleared.\<close>

theorem client_runs_follow_links:
  assumes "client_step\<^sup>*\<^sup>* c c'"
  shows "extends (pChain c) (pChain c')"
  using assms by (rule client_steps_extend)

text \<open>The background sync gives up its peer only for one that a probe has shown to be at least
  three blocks ahead, and from then on prefers that one over the peer the user has chosen.\<close>

lemma switch_needs_better_peer:
  assumes "fetchHeadersFromBroadcastPeers env pool arrive c = Some (Inr c')" "pOverride c' \<noteq> pOverride c"
    and "\<forall>rs. set (arrive rs) \<subseteq> set rs"
  shows "\<exists>ps c0 rs c1 a h. probe_all env ps c0 = Inr (rs, c1) \<and> (a, h) \<in> set rs \<and>
    bestHeight (pChain c) + 3 \<le> h \<and> a \<noteq> peerAddr (pLink c) \<and> pOverride c' = TrimSpace a"
proof -
  from assms(1) obtain rs c1 where p: "\<exists>ps c0. probe_all env ps c0 = Inr (rs, c1)"
    and c1: "pOverride c1 = pOverride c"
    and r: "(let (ba, bh) = best_probe (bestHeight (pChain c)) (arrive rs) in
       if ba \<noteq> '''' \<and> bestHeight (pChain c) + 3 \<le> bh \<and> ba \<noteq> peerAddr (pLink c)
       then switch_peer env ba c1 = Some (Inr c') else c' = c1)"
    by (rule probing_cases)
  obtain a h where b: "best_probe (bestHeight (pChain c)) (arrive rs) = (a, h)" by fastforce
  with r c1 assms(2) have sw: "a \<noteq> ''''" "bestHeight (pChain c) + 3 \<le> h" "a \<noteq> peerAddr (pLink c)"
    "switch_peer env a c1 = Some (Inr c')" by (auto simp: Let_def split: if_splits)
  from best_probe_in [OF b] sw(1,2) have "(a, h) \<in> set (arrive rs)" by auto
  with assms(3) have "(a, h) \<in> set rs" by blast
  with p sw switch_extends [OF sw(4)] show ?thesis by blast
qed

section \<open>Concrete clients\<close>

definition net_env :: "Conn option \<Rightarrow> NetEnv" where
  "net_env d = \<lparr>neNow = 9, neUnix = 1700000000, neNonce = 7, neTicks = 20, neLookupIP = \<lambda>_. None,
     neLookupHost = \<lambda>_. [], neDial = \<lambda>_ _ _. d, neShuffle = \<lambda>xs. xs\<rparr>"

definition lone_client :: P2PClient where
  "lone_client = \<lparr>pLink = \<lparr>magic = dogeMainnetMagic, conn = None, peerAddr = '''', knownPeers = [''node'']\<rparr>,
     pChain = newHeaderChain ''mainnet'', pBook = new_book,
     pInfo = \<lparr>piVersion = 0, piServices = 0, piUserAgent = ''''\<rparr>, pOverride = '''', pSeeds = [],
     pHarvesterStopped = False, pDials = 0\<rparr>"

definition silent_conn :: Conn where
  "silent_conn = \<lparr>inbox = [], connEnd = EndTimeout, outbox = [], room = 1000\<rparr>"

definition friendly_conn :: "conn_end \<Rightarrow> Conn" where
  "friendly_conn e = \<lparr>inbox = frame dogeMainnetMagic ''version'' [] @ frame dogeMainnetMagic ''verack'' [],
     connEnd = e, outbox = [], room = 1000\<rparr>"

lemma lone_client_simps [simp]:
  "known lone_client = [''node'']" "conn (pLink lone_client) = None" "pOverride lone_client = ''''"
  "pDials lone_client = 0" "pNet lone_client = ''mainnet''" "pBook lone_client = new_book"
  by (simp_all add: lone_client_def known_def pNet_def newHeaderChain_def setNetwork_def)

lemma dial_node: "dial_addr (net_env (Some cn)) ''node'' 0 = (Some (cn, ''node''), 1)"
  by (simp add: dial_addr_def SplitHostPort_def str_last_index_def str_index_def net_env_def Let_def)

lemma new_book_ok: "book_ok new_book"
  by (simp add: book_ok_def new_book_def cached_peers_def read_cache_def entries_ok_def)


theorem offline_client_deadlocks_witness:
  "GetTipHeader (net_env None) lone_client = Some (Inl Deadlocked)"
  using offline_client_deadlocks [of "net_env None" lone_client] by (simp add: net_env_def)

theorem silent_peer_blocks_witness:
  "GetTipHeader (net_env (Some silent_conn)) lone_client = Some (Inl Blocked)"
  using silent_peer_blocks [of lone_client "''node''" "[]" "net_env (Some silent_conn)" silent_conn "''node''" 1] dial_node
  by (simp add: net_env_def silent_conn_def) (simp add: lone_client_def dogeMainnetMagic_def)

definition fresh_link :: "conn_end \<Rightarrow> PeerLink" where
  "fresh_link e = \<lparr>magic = dogeMainnetMagic, conn = Some (friendly_conn e), peerAddr = ''node'', knownPeers = []\<rparr>"

theorem handshake_outcome_witness:
  "\<exists>l'. handshake (net_env None) 22556 (fresh_link EndClosed) \<lparr>piVersion = 0, piServices = 0, piUserAgent = ''''\<rparr> =
     Inr (Inr (), l', read_version [] \<lparr>piVersion = 0, piServices = 0, piUserAgent = ''''\<rparr>) \<and> conn l' = None"
proof -
  have f: "conn (fresh_link EndClosed) = Some (friendly_conn EndClosed)" "200 \<le> room (friendly_conn EndClosed)"
    "length (magic (fresh_link EndClosed)) = 4" "length [] \<le> 33554432" "2 \<le> neTicks (net_env None)"
    "inbox (friendly_conn EndClosed) =
       frame (magic (fresh_link EndClosed)) ''version'' [] @ frame (magic (fresh_link EndClosed)) ''verack'' []"
    "connEnd (friendly_conn EndClosed) = EndClosed"
    by (simp_all add: fresh_link_def friendly_conn_def net_env_def dogeMainnetMagic_def)
  from handshake_outcome [OF f(1-6), of 22556 "\<lparr>piVersion = 0, piServices = 0, piUserAgent = ''''\<rparr>"] f(7)
  show ?thesis by simp
qed

lemma friendly_connects:
  obtains c' where "ensureConnected (net_env (Some (friendly_conn EndTimeout))) lone_client = Some (Inr (Inr (), c'))"
    and "peerAddr (pLink c') = ''node''" "''node'' \<in> peAddr ` set (cached_peers ''mainnet'' (pBook c'))"
proof -
  let ?env = "net_env (Some (friendly_conn EndTimeout))" and ?c = "set_known [] lone_client"
  let ?l = "(pLink ?c)\<lparr>conn := Some (friendly_conn EndTimeout), peerAddr := ''node''\<rparr>"
  have l: "?l = fresh_link EndTimeout"
    by (simp add: fresh_link_def lone_client_def set_known_def)
  have f: "conn (fresh_link EndTimeout) = Some (friendly_conn EndTimeout)" "200 \<le> room (friendly_conn EndTimeout)"
    "length (magic (fresh_link EndTimeout)) = 4" "length [] \<le> 33554432" "2 \<le> neTicks ?env"
    "inbox (friendly_conn EndTimeout) =
       frame (magic (fresh_link EndTimeout)) ''version'' [] @ frame (magic (fresh_link EndTimeout)) ''verack'' []"
    "connEnd (friendly_conn EndTimeout) = EndTimeout"
    by (simp_all add: fresh_link_def friendly_conn_def net_env_def dogeMainnetMagic_def)
  obtain l' where h: "handshake ?env (of_nat (port (pChain ?c))) ?l (pInfo ?c) =
      Inr (Inr (), l', read_version [] (pInfo ?c))" and a: "peerAddr l' = ''node''"
    unfolding l using handshake_result [OF f(1-6), where i = "pInfo ?c"] f(7) by (simp add: fresh_link_def)
  have "dial_addr ?env ''node'' (pDials ?c) = (Some (friendly_conn EndTimeout, ''node''), 1)"
    using dial_node by (simp add: set_known_def)
  with h obtain c1 where t: "tryConnect ?env ''node'' ?c = Inr (Inr (), c1)" and a1: "peerAddr (pLink c1) = ''node''"
    using a by (auto simp: tryConnect_def Let_def)
  let ?c' = "record_connection ?env c1"
  have "load_known ?env lone_client = lone_client" by (simp add: load_known_def)
  with t have e: "ensureConnected ?env lone_client = Some (Inr (Inr (), ?c'))"
    by (simp add: ensureConnected_def connect_loop.simps)
  have a': "peerAddr (pLink ?c') = ''node''" using a1 by (simp add: record_connection_def)
  have trim: "TrimSpace ''node'' = ''node''" by (rule TrimSpace_id) (simp add: is_space_def)
  have net: "pNet c1 = ''mainnet''" using tryConnect_recorded(2) [OF t] by (simp add: pNet_def set_known_def lone_client_def newHeaderChain_def setNetwork_def)
  obtain ag where bk: "cached_peers ''mainnet'' (pBook c1) = updated_peers 9 ''node'' True ag []"
    using tryConnect_recorded(1) [OF t] a1 trim net tryConnect_recorded(2) [OF t]
    by (auto simp: cached_updated set_known_def net_env_def) (simp add: new_book_def cached_peers_def read_cache_def)
  have "cached_peers ''mainnet'' (pBook ?c') = updated_peers 9 ''node'' True '''' (updated_peers 9 ''node'' True ag [])"
    using bk a1 net trim by (simp add: record_connection_def savePeerToCache_def cached_updated net_env_def)
  then have "''node'' \<in> peAddr ` set (cached_peers ''mainnet'' (pBook ?c'))"
    by (simp add: updated_peers_def new_entry_def)
  from that [OF e a' this] show thesis .
qed

theorem connection_counts_twice_witness:
  "\<exists>c' e. ensureConnected (net_env (Some (friendly_conn EndTimeout))) lone_client = Some (Inr (Inr (), c')) \<and>
     e \<in> set (cached_peers ''mainnet'' (pBook c')) \<and> peAddr e = ''node'' \<and> 2 \<le> SuccessCount e"
proof -
  obtain c' where e: "ensureConnected (net_env (Some (friendly_conn EndTimeout))) lone_client = Some (Inr (Inr (), c'))"
    and a: "peerAddr (pLink c') = ''node''" and n: "''node'' \<in> peAddr ` set (cached_peers ''mainnet'' (pBook c'))"
    by (rule friendly_connects)
  from n obtain x where x: "x \<in> set (cached_peers ''mainnet'' (pBook c'))" "peAddr x = ''node''" by auto
  have trim: "TrimSpace ''node'' = ''node''" by (rule TrimSpace_id) (simp add: is_space_def)
  have "2 \<le> SuccessCount x"
    by (rule connection_counts_twice [OF e]) (use x a trim new_book_ok in simp_all)
  with e x show ?thesis by blast
qed

theorem client_runs_follow_links_witness:
  "extends (pChain lone_client) (pChain (SetPeerOverride ''node'' lone_client))"
  by (rule client_runs_follow_links) (blast intro: client_step.override)

end
