(* ===== verification/BroadcastPool.thy ===== *)
theory BroadcastPool
  imports PeerConnection ScryptMining
begin

text \<open>
  Relaying a found block, of \<open>src/p2p.go\<close>: the pool of extra connections
  (\<open>connectBroadcastPeer\<close>, and \<open>maintainBroadcastConnections\<close> where it runs alone; the theory
  \<open>PoolKeepers\<close> has the steps in which its calls run concurrently), \<open>BroadcastBlock\<close> with its retries and
  the reading of the primary peer's answer, and the harvesting of addresses. The goroutines of
  one fan-out run in any order, and what the other goroutines of the program do to the
  client in between is a parameter (\<open>Meanwhile\<close>). For every attempt to send a block, the trace keeps
  what the socket took of it, read off the bytes it has taken before and after the attempt.
\<close>

section \<open>The pool\<close>

record PoolClient =
  pcClient :: P2PClient
  pcPool :: "(string \<times> Conn) list"
  pcLastAddr :: "string \<rightharpoonup> int"
  pcTrace :: "(string \<times> byte list) list"

definition maxBroadcastPeers :: nat where "maxBroadcastPeers = 10"

definition GetBroadcastPeers :: "PoolClient \<Rightarrow> string list" where
  "GetBroadcastPeers s = map fst (pcPool s)"

definition upd_client :: "(P2PClient \<Rightarrow> P2PClient) \<Rightarrow> PoolClient \<Rightarrow> PoolClient" where
  "upd_client f s = s\<lparr>pcClient := f (pcClient s)\<rparr>"

definition set_book :: "PeerBook \<Rightarrow> P2PClient \<Rightarrow> P2PClient" where
  "set_book bk c = c\<lparr>pBook := bk\<rparr>"

text \<open>A connection that was closed under the client that made it.\<close>

definition closed_conn :: Conn where
  "closed_conn = \<lparr>inbox = [], connEnd = EndClosed, outbox = [], room = 0\<rparr>"

definition connectBroadcastPeer ::
  "NetEnv \<Rightarrow> string \<Rightarrow> P2PClient \<Rightarrow> halt + ((conn_error + Conn) \<times> P2PClient)" where
  "connectBroadcastPeer env addr c =
     (case SplitHostPort addr of
        None \<Rightarrow> Inr (Inl DialFailed, c)
      | Some (host, prt) \<Rightarrow>
          (case dialPreferredIPv4 env host prt (pDials c) of
             (None, n) \<Rightarrow> Inr (Inl DialFailed, c\<lparr>pDials := n\<rparr>)
           | (Some (cn, ca), n) \<Rightarrow>
               ebind (handshake env 0 \<lparr>magic = magic (pLink c), conn = Some cn, peerAddr = addr, knownPeers = []\<rparr>
                   \<lparr>piVersion = 0, piServices = 0, piUserAgent = ''''\<rparr>) (\<lambda>(r, l, i).
                 let c = c\<lparr>pDials := n\<rparr> in
                 case r of
                   Inl e \<Rightarrow> Inr (Inl e, c)
                 | Inr _ \<Rightarrow>
                     Inr (Inr (case conn l of Some cn \<Rightarrow> cn | None \<Rightarrow> closed_conn),
                       set_book (updatePeerResult (neNow env) (pNet c) addr True (piUserAgent i) (pBook c)) c))))"

definition pool_candidates :: "NetEnv \<Rightarrow> P2PClient \<Rightarrow> string list \<times> P2PClient" where
  "pool_candidates env c =
     (let ov = TrimSpace (pOverride c); pr = peerAddr (pLink c);
          (as, bk) = filterBadPeers (neNow env)
            ((if ov \<noteq> '''' then [ov] else []) @ (if pr \<noteq> '''' then [pr] else []) @ known c) (pBook c)
      in (as, set_book bk c))"

primrec skip_seen :: "string list \<Rightarrow> string list \<Rightarrow> string list \<Rightarrow> string list" where
  "skip_seen pooled seen [] = []"
| "skip_seen pooled seen (a # as) =
     (if a = '''' \<or> a \<in> set seen then skip_seen pooled seen as
      else if a \<in> set pooled then skip_seen pooled (a # seen) as
      else a # skip_seen pooled (a # seen) as)"

text \<open>Connecting in turn until \<open>needed\<close> peers are added.\<close>

fun add_peers :: "NetEnv \<Rightarrow> nat \<Rightarrow> string list \<Rightarrow> PoolClient \<Rightarrow> halt + PoolClient" where
  "add_peers env 0 as s = Inr s"
| "add_peers env (Suc n) [] s = Inr s"
| "add_peers env (Suc n) (a # as) s =
     ebind (connectBroadcastPeer env a (pcClient s)) (\<lambda>(r, c).
       case r of
         Inl e \<Rightarrow>
           let bk = updatePeerResult (neNow env) (pNet c) a False '''' (markBadPeer (neNow env) (pNet c) a (pBook c))
           in add_peers env (Suc n) as (s\<lparr>pcClient := set_book bk c\<rparr>)
       | Inr cn \<Rightarrow>
           if a \<in> fst ` set (pcPool s) then add_peers env (Suc n) as (s\<lparr>pcClient := c\<rparr>)
           else add_peers env n as (s\<lparr>pcClient := c, pcPool := pcPool s @ [(a, cn)]\<rparr>))"

definition maintainBroadcastConnections :: "NetEnv \<Rightarrow> PoolClient \<Rightarrow> halt + PoolClient" where
  "maintainBroadcastConnections env s =
     (let current = length (pcPool s) in
      if maxBroadcastPeers \<le> current then Inr s
      else let (as, c) = pool_candidates env (pcClient s) in
        add_peers env (maxBroadcastPeers - current) (skip_seen (map fst (pcPool s)) [] as) (s\<lparr>pcClient := c\<rparr>))"

section \<open>Sending a block\<close>

text \<open>One write of the whole frame to a connection of the pool.\<close>

definition block_frame :: "byte list \<Rightarrow> byte list \<Rightarrow> byte list" where
  "block_frame mg bs =
     mg @ string_bytes ''block'' @ replicate 7 0 @ put_u32 (of_nat (length bs)) @ take 4 (sha256 (sha256 bs)) @ bs"

definition sendBlockToPeer :: "byte list \<Rightarrow> byte list \<Rightarrow> Conn \<Rightarrow> bool \<times> Conn" where
  "sendBlockToPeer mg bs cn = (if bs = [] then (False, cn) else conn_write (block_frame mg bs) cn)"

text \<open>What a socket took between two states of a connection.\<close>

definition took :: "Conn option \<Rightarrow> Conn option \<Rightarrow> byte list" where
  "took before after =
     (case before of None \<Rightarrow> [] | Some cn \<Rightarrow>
        (case after of None \<Rightarrow> [] | Some cn' \<Rightarrow> drop (length (outbox cn)) (outbox cn')))"

definition log_took :: "string \<Rightarrow> Conn option \<Rightarrow> Conn option \<Rightarrow> PoolClient \<Rightarrow> PoolClient" where
  "log_took a before after s = s\<lparr>pcTrace := pcTrace s @ [(a, took before after)]\<rparr>"

text \<open>
  What else happens during one \<open>BroadcastBlock\<close>: whatever other goroutines do to the client (the keeper and
  the warm-up add connections, the harvester adds peers, a stop disconnects) before the addresses of the pool are read,
  before each goroutine of a fan-out sends, and until the wait for the warm-up is over; and the order
  in which the goroutines of a fan-out run. The boolean is \<open>True\<close> in the first fan-out.
\<close>

datatype relay_point = PoolRead bool | PoolSend bool string | WarmedUp

record Meanwhile =
  mwOthers :: "relay_point \<Rightarrow> PoolClient \<Rightarrow> PoolClient"
  mwOrder :: "bool \<Rightarrow> string list \<Rightarrow> string list"

definition meanwhile :: "Meanwhile \<Rightarrow> relay_point \<Rightarrow> PoolClient \<Rightarrow> PoolClient" where
  "meanwhile w p s = (mwOthers w p s)\<lparr>pcTrace := pcTrace s\<rparr>"

definition record_result :: "NetEnv \<Rightarrow> string \<Rightarrow> bool \<Rightarrow> PoolClient \<Rightarrow> PoolClient" where
  "record_result env a ok =
     upd_client (\<lambda>c. set_book (updatePeerResult (neNow env) (pNet c) a ok '''' (pBook c)) c)"

text \<open>\<open>drop_dead\<close>: the first fan-out removes the connections that fail, the second does not.\<close>

definition send_pooled ::
  "NetEnv \<Rightarrow> bool \<Rightarrow> byte list \<Rightarrow> string \<Rightarrow> nat \<times> PoolClient \<Rightarrow> nat \<times> PoolClient" where
  "send_pooled env drop_dead bs a ns =
     (case ns of (n, s) \<Rightarrow>
        case map_of (pcPool s) a of
          None \<Rightarrow> (n, s)
        | Some cn \<Rightarrow>
            (case sendBlockToPeer (magic (pLink (pcClient s))) bs cn of (sent, cn') \<Rightarrow>
               let s = log_took a (Some cn) (Some cn') (s\<lparr>pcPool := AList.update a cn' (pcPool s)\<rparr>) in
               if sent then (Suc n, record_result env a True s)
               else (n, if drop_dead
                        then record_result env a False (s\<lparr>pcPool := AList.delete a (pcPool s)\<rparr>) else s)))"

definition fan_out ::
  "NetEnv \<Rightarrow> Meanwhile \<Rightarrow> bool \<Rightarrow> byte list \<Rightarrow> string \<Rightarrow> nat \<times> PoolClient \<Rightarrow> nat \<times> PoolClient" where
  "fan_out env w drop_dead bs primary ns =
     (case ns of (n, s) \<Rightarrow>
        let s = meanwhile w (PoolRead drop_dead) s in
        fold (\<lambda>a (n, s). send_pooled env drop_dead bs a (n, meanwhile w (PoolSend drop_dead a) s))
          (mwOrder w drop_dead (filter (\<lambda>a. \<not> (primary \<noteq> '''' \<and> a = primary)) (GetBroadcastPeers s))) (n, s))"

text \<open>A write on the primary connection; a failed one drops it.\<close>

definition send_primary :: "byte list \<Rightarrow> PoolClient \<Rightarrow> bool \<times> PoolClient" where
  "send_primary bs s =
     (let c = pcClient s in
      case writeMessage ''block'' bs (pLink c) of
        (r, l) \<Rightarrow> (\<not> isl r, log_took (peerAddr (pLink c)) (conn (pLink c)) (conn l) (s\<lparr>pcClient := c\<lparr>pLink := l\<rparr>\<rparr>)))"

definition has_primary :: "PoolClient \<Rightarrow> bool" where
  "has_primary s \<longleftrightarrow> conn (pLink (pcClient s)) \<noteq> None"

text \<open>The first attempt, and the one reconnection after it: was it sent, and to which address.\<close>

definition first_send :: "byte list \<Rightarrow> PoolClient \<Rightarrow> bool \<times> PoolClient" where
  "first_send bs s = (if has_primary s then send_primary bs s else (False, s))"

definition reconnect_send ::
  "NetEnv \<Rightarrow> byte list \<Rightarrow> string \<Rightarrow> PoolClient \<Rightarrow> (halt + (bool \<times> string \<times> PoolClient)) option" where
  "reconnect_send env bs addr s =
     (case ensureConnected env (pcClient s) of
        None \<Rightarrow> None
      | Some (Inl h) \<Rightarrow> Some (Inl h)
      | Some (Inr (r, c)) \<Rightarrow>
          if r = Inr () \<and> has_primary (s\<lparr>pcClient := c\<rparr>)
          then (case send_primary bs (s\<lparr>pcClient := c\<rparr>) of (sent, s') \<Rightarrow> Some (Inr (sent, peerAddr (pLink c), s')))
          else Some (Inr (False, addr, s\<lparr>pcClient := c\<rparr>)))"

definition reach_primary :: "NetEnv \<Rightarrow> byte list \<Rightarrow> PoolClient \<Rightarrow> (halt + (bool \<times> string \<times> PoolClient)) option" where
  "reach_primary env bs s =
     (let addr = (if has_primary s then peerAddr (pLink (pcClient s)) else '''');
          (sent, s) = first_send bs s
      in if sent then Some (Inr (True, addr, s))
         else reconnect_send env bs addr (upd_client (\<lambda>c. c\<lparr>pLink := disconnect (pLink c)\<rparr>) s))"

text \<open>
  When nothing was sent, a goroutine is started that maintains the pool, and waited for, at most 800 ms; as it may
  go on after that, it is one of the other goroutines.
\<close>

definition second_round ::
  "NetEnv \<Rightarrow> Meanwhile \<Rightarrow> byte list \<Rightarrow> string \<Rightarrow> bool \<times> PoolClient \<Rightarrow> bool \<times> nat \<times> PoolClient" where
  "second_round env w bs primary ss =
     (case ss of (sent0, s0) \<Rightarrow>
        let s = meanwhile w WarmedUp s0;
            (again, s) = (if sent0 then (False, s) else first_send bs s);
            (n, s) = (if again then (1, s) else fan_out env w False bs primary (0, s))
        in (sent0 \<or> again, n, s))"

text \<open>The last resort: up to three known peers, each over a connection of its own.\<close>

primrec opportunistic ::
  "NetEnv \<Rightarrow> byte list \<Rightarrow> string \<Rightarrow> string list \<Rightarrow> nat \<times> PoolClient \<Rightarrow> halt + (nat \<times> PoolClient)" where
  "opportunistic env bs primary [] ns = Inr ns"
| "opportunistic env bs primary (a # as) ns =
     (case ns of (n, s) \<Rightarrow>
        if primary \<noteq> '''' \<and> a = primary then opportunistic env bs primary as (n, s)
        else
          let (bad, bk) = isBadPeer (neNow env) a (pBook (pcClient s)); c = set_book bk (pcClient s) in
          if bad then opportunistic env bs primary as (n, s\<lparr>pcClient := c\<rparr>)
          else ebind (connectBroadcastPeer env a c) (\<lambda>(r, c).
            let s = s\<lparr>pcClient := c\<rparr>; mg = magic (pLink c) in
            case r of
              Inl e \<Rightarrow> opportunistic env bs primary as (n, s)
            | Inr cn \<Rightarrow>
                (case sendBlockToPeer mg bs cn of (sent, cn') \<Rightarrow>
                   opportunistic env bs primary as
                     (if sent then Suc n else n, log_took a (Some cn) (Some cn') s))))"

section \<open>The answer of the primary peer\<close>

record Answer =
  anReject :: "(byte \<times> string) option"
  anSelfInv :: bool

definition block_reject :: "byte list \<Rightarrow> (byte \<times> string) option" where
  "block_reject payload =
     (let r = parseRejectPayload payload in
      if rejErr r = None \<and> rejType r = ''block'' then Some (rejCode r, rejReason r) else None)"

primrec await_answer ::
  "nat \<Rightarrow> byte list \<Rightarrow> PeerLink \<Rightarrow> Answer \<Rightarrow> halt + (Answer \<times> PeerLink)" where
  "await_answer 0 hash l an = Inr (an, l)"
| "await_answer (Suc n) hash l an =
     (if conn l = None then Inl Panicked
      else case readMessage l of
        (Inl e, l) \<Rightarrow> Inr (an, l)
      | (Inr (cmd, payload), l) \<Rightarrow>
          if cmd = ''reject'' \<and> block_reject payload \<noteq> None
          then Inr (an\<lparr>anReject := block_reject payload\<rparr>, l)
          else if cmd = ''ping'' then await_answer n hash (snd (writeMessage ''pong'' payload l)) an
          else if cmd = ''inv'' \<and> (case parseInvForBlock payload hash of (k, matched, e) \<Rightarrow> e = None \<and> matched)
          then await_answer n hash l (an\<lparr>anSelfInv := True\<rparr>)
          else await_answer n hash l an)"

section \<open>BroadcastBlock\<close>

datatype broadcast_error = BlockRejected byte string | NoPeerReached

definition dogeHeaderHash :: "scrypt_key \<Rightarrow> byte list \<Rightarrow> halt + byte list" where
  "dogeHeaderHash key header =
     (if length header \<noteq> 80 then Inl Panicked
      else case key header header 1024 1 1 32 of None \<Rightarrow> Inl Panicked | Some h \<Rightarrow> Inr h)"

definition finish_broadcast ::
  "NetEnv \<Rightarrow> byte list \<Rightarrow> string \<Rightarrow> bool \<times> nat \<times> PoolClient \<Rightarrow> halt + ((broadcast_error + unit) \<times> nat \<times> PoolClient)" where
  "finish_broadcast env hash primary r =
     (case r of (sent, n, s) \<Rightarrow>
        let replies = (if pNet (pcClient s) = ''testnet'' then 8 else 12);
            an = \<lparr>anReject = None, anSelfInv = False\<rparr> in
        ebind (if has_primary s \<and> sent then await_answer replies hash (pLink (pcClient s)) an
               else Inr (an, pLink (pcClient s))) (\<lambda>(an, l).
          let s = upd_client (\<lambda>c. c\<lparr>pLink := l\<rparr>) s in
          Inr (case anReject an of
                 Some (code, reason) \<Rightarrow> Inl (BlockRejected code reason)
               | None \<Rightarrow> if n = 0 then Inl NoPeerReached else Inr (), n, s)))"

definition relay_block ::
  "NetEnv \<Rightarrow> Meanwhile \<Rightarrow> byte list \<Rightarrow> byte list \<Rightarrow> PoolClient \<Rightarrow>
     (halt + ((broadcast_error + unit) \<times> nat \<times> PoolClient)) option" where
  "relay_block env w bs hash s0 =
     (case reach_primary env bs s0 of
        None \<Rightarrow> None
      | Some (Inl h) \<Rightarrow> Some (Inl h)
      | Some (Inr (sent, primary, s)) \<Rightarrow>
          Some (let (n, s) = fan_out env w True bs primary (if sent then 1 else 0, s);
                    (sent, n, s) = (if n = 0 then second_round env w bs primary (sent, s) else (sent, n, s));
                    candidates = filter (\<lambda>a. a \<noteq> '''') (take 3 (known (pcClient s)))
                in ebind (if n = 0 then opportunistic env bs primary candidates (n, s) else Inr (n, s)) (\<lambda>(n, s).
                     finish_broadcast env hash primary (sent, n, s))))"

text \<open>
  A panic is recovered and, as the result is not named, \<open>BroadcastBlock\<close> then returns nil: success.
  Otherwise the second component is the number of peers the block was sent to, and the client after it.
\<close>

definition BroadcastBlock ::
  "scrypt_key \<Rightarrow> NetEnv \<Rightarrow> Meanwhile \<Rightarrow> Block \<Rightarrow> PoolClient \<Rightarrow>
     (halt + ((broadcast_error + unit) \<times> (nat \<times> PoolClient) option)) option" where
  "BroadcastBlock key env w b s =
     (let bs = SerializeHeader b @ serializeBody b; header = SerializeHeader b in
      case dogeHeaderHash key header of
        Inl h \<Rightarrow> Some (Inr (Inr (), None))
      | Inr h \<Rightarrow>
          map_option (\<lambda>r. case r of
              Inl Panicked \<Rightarrow> Inr (Inr (), None)
            | Inl h \<Rightarrow> Inl h
            | Inr (r, ns) \<Rightarrow> Inr (r, Some ns)) (relay_block env w bs (blockHashChain header) s))"

section \<open>Harvesting addresses\<close>

text \<open>The connection has a read deadline, so that a silent peer ends the attempt.\<close>

primrec harvest_loop :: "nat \<Rightarrow> PeerLink \<Rightarrow> halt + string list" where
  "harvest_loop 0 l = Inr []"
| "harvest_loop (Suc n) l =
     (if conn l = None then Inl Panicked
      else case readMessage l of
        (Inl e, l) \<Rightarrow> Inr []
      | (Inr (cmd, payload), l) \<Rightarrow>
          if cmd = ''addr'' then Inr (case parseAddrPayload payload of Inl e \<Rightarrow> [] | Inr ps \<Rightarrow> ps)
          else harvest_loop n l)"

text \<open>The addresses and the dials made; \<open>None\<close> when the peer did not get as far as the question.\<close>

definition harvest_peers :: "NetEnv \<Rightarrow> string \<Rightarrow> P2PClient \<Rightarrow> string list option \<times> nat" where
  "harvest_peers env addr c =
     (case SplitHostPort addr of
        None \<Rightarrow> (None, pDials c)
      | Some (host, prt) \<Rightarrow>
          (case dialPreferredIPv4 env host prt (pDials c) of
             (None, n) \<Rightarrow> (None, n)
           | (Some (cn, ca), n) \<Rightarrow>
               (case handshake env 0 \<lparr>magic = magic (pLink c), conn = Some cn, peerAddr = addr, knownPeers = []\<rparr>
                   \<lparr>piVersion = 0, piServices = 0, piUserAgent = ''''\<rparr> of
                  Inr (Inr _, l, i) \<Rightarrow>
                    (case writeMessage ''getaddr'' [] l of
                       (Inl e, l) \<Rightarrow> (None, n)
                     | (Inr _, l) \<Rightarrow>
                         (case harvest_loop 10 l of Inl h \<Rightarrow> (None, n) | Inr ps \<Rightarrow> (Some ps, n)))
                | _ \<Rightarrow> (None, n))))"

definition harvestFromPeer :: "NetEnv \<Rightarrow> string \<Rightarrow> PoolClient \<Rightarrow> PoolClient" where
  "harvestFromPeer env addr s =
     (case harvest_peers env addr (pcClient s) of
        (None, n) \<Rightarrow> upd_client (\<lambda>c. c\<lparr>pDials := n\<rparr>) s
      | (Some ps, n) \<Rightarrow>
          let c = (pcClient s)\<lparr>pDials := n\<rparr> in
          s\<lparr>pcClient := set_known (known c @ ps) (set_book (savePeersToCache (neNow env) (pNet c) ps (pBook c)) c),
            pcLastAddr := (pcLastAddr s)(addr \<mapsto> neNow env)\<rparr>)"

definition harvest_due :: "int \<Rightarrow> PoolClient \<Rightarrow> string \<Rightarrow> bool" where
  "harvest_due now s a = (case pcLastAddr s a of None \<Rightarrow> True | Some t \<Rightarrow> 300000 \<le> now - t)"

definition harvestPeersFromConnected :: "NetEnv \<Rightarrow> PoolClient \<Rightarrow> PoolClient" where
  "harvestPeersFromConnected env s =
     fold (harvestFromPeer env)
       (filter (harvest_due (neNow env) s) (take 5 (known (pcClient s) @ GetBroadcastPeers s))) s"

text \<open>The two background loops, tick by tick; the harvester ends when its channel is closed.\<close>

fun harvester_ticks :: "NetEnv list \<Rightarrow> PoolClient \<Rightarrow> PoolClient" where
  "harvester_ticks [] s = s"
| "harvester_ticks (env # envs) s =
     (if pHarvesterStopped (pcClient s) then s else harvester_ticks envs (harvestPeersFromConnected env s))"

section \<open>One frame\<close>

lemma block_frame_frame: "block_frame mg bs = frame mg ''block'' bs"
proof -
  have "length (string_bytes ''block'') = 5" by (simp add: string_bytes_def)
  then show ?thesis by (simp add: block_frame_def frame_def messageHeader_def Let_def numeral_eq_Suc)
qed

lemma block_frame_read:
  "length (magic l) = 4 \<Longrightarrow> length bs \<le> 33554432 \<Longrightarrow> conn l = Some cn \<Longrightarrow>
     inbox cn = frame (magic l) ''block'' bs @ rest \<Longrightarrow> fst (readMessage l) = Inr (''block'', bs)"
  using read_frame [of l "''block''" bs cn rest] by (simp add: frameable_def string_bytes_def)

text \<open>The frame built for a connection of the pool is the one \<open>writeMessage\<close> builds on the primary
  connection, and a peer of the same network reads it as a \<open>block\<close> message with the same bytes.\<close>

theorem pool_frame_is_message:
  assumes "length mg = 4" "length bs \<le> 33554432" "magic l = mg" "conn l = Some cn" "inbox cn = block_frame mg bs @ rest"
  shows "block_frame mg bs = frame mg ''block'' bs \<and> fst (readMessage l) = Inr (''block'', bs)"
  using assms block_frame_read [of l bs cn rest] by (simp add: block_frame_frame)

section \<open>Counting what was sent\<close>

text \<open>Since \<open>s0\<close>, exactly \<open>n\<close> attempts have ended with the socket having taken the whole frame of the block.\<close>

definition whole_frames :: "byte list \<Rightarrow> byte list \<Rightarrow> (string \<times> byte list) list \<Rightarrow> nat" where
  "whole_frames mg bs tr = length (filter (\<lambda>x. snd x = frame mg ''block'' bs) tr)"

definition sent_since :: "PoolClient \<Rightarrow> byte list \<Rightarrow> nat \<Rightarrow> PoolClient \<Rightarrow> bool" where
  "sent_since s0 bs n s \<longleftrightarrow> magic (pLink (pcClient s)) = magic (pLink (pcClient s0)) \<and>
     (\<exists>tr. pcTrace s = pcTrace s0 @ tr \<and> whole_frames (magic (pLink (pcClient s0))) bs tr = n)"

lemma sent_since_refl: "sent_since s bs 0 s"
  by (simp add: sent_since_def whole_frames_def)

lemma sent_since_same:
  "sent_since s0 bs n s \<Longrightarrow> pcTrace s' = pcTrace s \<Longrightarrow> magic (pLink (pcClient s')) = magic (pLink (pcClient s)) \<Longrightarrow>
     sent_since s0 bs n s'"
  by (simp add: sent_since_def)

lemma sent_since_took:
  assumes "sent_since s0 bs n s" "pcTrace s' = pcTrace s @ [(a, x)]"
    and "magic (pLink (pcClient s')) = magic (pLink (pcClient s))"
    and "x = frame (magic (pLink (pcClient s))) ''block'' bs \<longleftrightarrow> ok"
  shows "sent_since s0 bs (if ok then Suc n else n) s'"
proof -
  from assms(1) obtain tr where tr: "pcTrace s = pcTrace s0 @ tr" "whole_frames (magic (pLink (pcClient s0))) bs tr = n"
    and m: "magic (pLink (pcClient s)) = magic (pLink (pcClient s0))" by (auto simp: sent_since_def)
  then show ?thesis
    unfolding sent_since_def using assms(2-4)
    by (intro conjI exI [of _ "tr @ [(a, x)]"]) (auto simp: whole_frames_def)
qed

text \<open>Nobody switches the network of the client while the block is relayed.\<close>

definition same_network :: "Meanwhile \<Rightarrow> bool" where
  "same_network w \<longleftrightarrow> (\<forall>p s. magic (pLink (pcClient (mwOthers w p s))) = magic (pLink (pcClient s)))"

lemma meanwhile_sent:
  assumes "sent_since s0 bs n s" "same_network w"
  shows "sent_since s0 bs n (meanwhile w p s)"
  by (rule sent_since_same [OF assms(1)]) (use assms(2) in \<open>simp_all add: meanwhile_def same_network_def\<close>)

lemma pool_simps [simp]:
  "pcTrace (upd_client f s) = pcTrace s" "pcPool (upd_client f s) = pcPool s" "pcClient (upd_client f s) = f (pcClient s)"
  "pLink (set_book bk c) = pLink c" "pChain (set_book bk c) = pChain c" "known (set_book bk c) = known c"
  "pcTrace (record_result env a ok s) = pcTrace s" "pcPool (record_result env a ok s) = pcPool s"
  "pLink (pcClient (record_result env a ok s)) = pLink (pcClient s)"
  "pcTrace (log_took a x y s) = pcTrace s @ [(a, took x y)]" "pcPool (log_took a x y s) = pcPool s"
  "pcClient (log_took a x y s) = pcClient s"
  by (simp_all add: upd_client_def set_book_def known_def record_result_def log_took_def)

text \<open>A socket has taken the whole frame exactly when the send succeeds.\<close>

lemma frame_nonempty: "frame mg cmd bs \<noteq> []"
proof -
  have "put_u32 (of_nat (length bs)) \<noteq> []" by (simp flip: length_0_conv)
  then show ?thesis by (simp add: frame_def messageHeader_def Let_def)
qed

lemma sendBlockToPeer_took:
  assumes "sendBlockToPeer mg bs cn = (sent, cn')"
  shows "took (Some cn) (Some cn') = frame mg ''block'' bs \<longleftrightarrow> sent"
proof (cases "bs = []")
  case True
  with assms frame_nonempty [of mg "''block''" bs] show ?thesis by (auto simp: sendBlockToPeer_def took_def)
next
  case False
  show ?thesis
  proof (cases "length (block_frame mg bs) \<le> room cn")
    case True
    with assms False show ?thesis by (auto simp: sendBlockToPeer_def conn_write_def took_def block_frame_frame)
  next
    case part: False
    then have "length (take (room cn) (block_frame mg bs)) < length (block_frame mg bs)" by simp
    then have "take (room cn) (block_frame mg bs) \<noteq> block_frame mg bs" by (metis less_irrefl)
    with part assms False show ?thesis by (auto simp: sendBlockToPeer_def conn_write_def took_def block_frame_frame)
  qed
qed

lemma writeMessage_took:
  assumes "writeMessage ''block'' bs l = (r, l')"
  shows "took (conn l) (conn l') = frame (magic l) ''block'' bs \<longleftrightarrow> \<not> isl r" "magic l' = magic l"
  by (rule writeMessage_cases [of l "''block''" bs];
      use assms frame_nonempty [of "magic l" "''block''" bs] in \<open>auto simp: took_def frame_def\<close>)+

lemma connectBroadcastPeer_frame:
  assumes "connectBroadcastPeer env a c = Inr (r, c')"
  shows "pLink c' = pLink c" "pChain c' = pChain c"
proof -
  have "pLink c' = pLink c \<and> pChain c' = pChain c"
  proof (cases "SplitHostPort a")
    case None
    with assms show ?thesis by (simp add: connectBroadcastPeer_def)
  next
    case (Some hp)
    then obtain h q where hp: "SplitHostPort a = Some (h, q)" by (cases hp) simp
    obtain d n where d: "dialPreferredIPv4 env h q (pDials c) = (d, n)" by fastforce
    show ?thesis
    proof (cases d)
      case None
      with assms hp d show ?thesis by (auto simp: connectBroadcastPeer_def)
    next
      case (Some x)
      then obtain cn ca where x: "d = Some (cn, ca)" by (cases x) simp
      with assms hp d obtain w l i where "handshake env 0
          \<lparr>magic = magic (pLink c), conn = Some cn, peerAddr = a, knownPeers = []\<rparr>
          \<lparr>piVersion = 0, piServices = 0, piUserAgent = ''''\<rparr> = Inr (w, l, i)"
        by (auto simp: connectBroadcastPeer_def ebind_eq_Inr_iff)
      with assms hp d x show ?thesis by (cases w) (auto simp: connectBroadcastPeer_def Let_def)
    qed
  qed
  then show "pLink c' = pLink c" "pChain c' = pChain c" by simp_all
qed

lemma send_pooled_sent:
  assumes "sent_since s0 bs n s" "send_pooled env dd bs a (n, s) = (n', s')"
  shows "sent_since s0 bs n' s' \<and> n \<le> n'"
proof (cases "map_of (pcPool s) a")
  case None
  with assms show ?thesis by (simp add: send_pooled_def)
next
  case (Some cn)
  obtain sent cn' where p: "sendBlockToPeer (magic (pLink (pcClient s))) bs cn = (sent, cn')" by fastforce
  define s1 where "s1 = log_took a (Some cn) (Some cn') (s\<lparr>pcPool := AList.update a cn' (pcPool s)\<rparr>)"
  have "sent_since s0 bs (if sent then Suc n else n) s1"
    by (rule sent_since_took [OF assms(1), of _ a "took (Some cn) (Some cn')"])
       (use sendBlockToPeer_took [OF p] in \<open>simp_all add: s1_def\<close>)
  moreover from Some assms(2) p have "n' = (if sent then Suc n else n)" "pcTrace s' = pcTrace s1"
    "magic (pLink (pcClient s')) = magic (pLink (pcClient s1))"
    by (auto simp: send_pooled_def s1_def Let_def split: if_splits)
  ultimately show ?thesis using sent_since_same [of s0 bs n' s1 s'] by auto
qed

lemma fan_out_sent:
  assumes "sent_since s0 bs n s" "fan_out env w dd bs primary (n, s) = (n', s')" "same_network w"
  shows "sent_since s0 bs n' s' \<and> n \<le> n'"
proof -
  let ?send = "\<lambda>a (n, s). send_pooled env dd bs a (n, meanwhile w (PoolSend dd a) s)"
  have "sent_since s0 bs m t \<Longrightarrow> fold ?send as (m, t) = (n', s') \<Longrightarrow> sent_since s0 bs n' s' \<and> m \<le> n'" for as m t
  proof (induction as arbitrary: m t)
    case (Cons a as)
    obtain m1 t1 where st: "send_pooled env dd bs a (m, meanwhile w (PoolSend dd a) t) = (m1, t1)" by fastforce
    note 1 = send_pooled_sent [OF meanwhile_sent [OF Cons.prems(1) assms(3)] st]
    have "fold ?send as (m1, t1) = (n', s')" using Cons.prems(2) st by simp
    from Cons.IH [OF _ this] 1 show ?case by simp
  qed simp
  from this [OF meanwhile_sent [OF assms(1,3), of "PoolRead dd"]] assms(2) show ?thesis
    by (simp add: fan_out_def Let_def)
qed

lemma send_primary_sent:
  assumes "sent_since s0 bs n s" "send_primary bs s = (ok, s')"
  shows "sent_since s0 bs (if ok then Suc n else n) s'"
proof -
  obtain r l where w: "writeMessage ''block'' bs (pLink (pcClient s)) = (r, l)" by fastforce
  note t = writeMessage_took [OF w]
  from assms(2) w have "ok = (\<not> isl r)" "s' = log_took (peerAddr (pLink (pcClient s))) (conn (pLink (pcClient s))) (conn l)
      (s\<lparr>pcClient := (pcClient s)\<lparr>pLink := l\<rparr>\<rparr>)"
    by (auto simp: send_primary_def Let_def)
  with t show ?thesis
    by (intro sent_since_took [OF assms(1), of _ "peerAddr (pLink (pcClient s))" "took (conn (pLink (pcClient s))) (conn l)"])
       simp_all
qed

lemma add_peers_frame:
  "add_peers env n as s = Inr s' \<Longrightarrow> pcTrace s' = pcTrace s \<and> pLink (pcClient s') = pLink (pcClient s) \<and>
     pChain (pcClient s') = pChain (pcClient s) \<and> length (pcPool s') \<le> length (pcPool s) + n \<and>
     (distinct (map fst (pcPool s)) \<longrightarrow> distinct (map fst (pcPool s')))"
proof (induction as arbitrary: n s)
  case Nil
  then show ?case by (cases n) simp_all
next
  case (Cons a as)
  show ?case
  proof (cases n)
    case 0
    with Cons.prems show ?thesis by simp
  next
    case n: (Suc k)
    with Cons.prems obtain r c where c: "connectBroadcastPeer env a (pcClient s) = Inr (r, c)"
      by (auto simp: ebind_eq_Inr_iff)
    note f = connectBroadcastPeer_frame [OF c]
    show ?thesis
    proof (cases r)
      case (Inl e)
      with Cons.prems c n have "add_peers env (Suc k) as (s\<lparr>pcClient := set_book (updatePeerResult (neNow env) (pNet c) a False ''''
          (markBadPeer (neNow env) (pNet c) a (pBook c))) c\<rparr>) = Inr s'" by (simp add: Let_def)
      from Cons.IH [OF this] show ?thesis by (simp add: f n)
    next
      case (Inr cn)
      show ?thesis
      proof (cases "a \<in> fst ` set (pcPool s)")
        case True
        with Cons.prems c n Inr have "add_peers env (Suc k) as (s\<lparr>pcClient := c\<rparr>) = Inr s'" by simp
        from Cons.IH [OF this] show ?thesis by (simp add: f n)
      next
        case False
        with Cons.prems c n Inr have "add_peers env k as (s\<lparr>pcClient := c, pcPool := pcPool s @ [(a, cn)]\<rparr>) = Inr s'" by simp
        from Cons.IH [OF this] False show ?thesis by (simp add: f n)
      qed
    qed
  qed
qed

lemma maintain_frame:
  assumes "maintainBroadcastConnections env s = Inr s'"
  shows "pcTrace s' = pcTrace s" "pLink (pcClient s') = pLink (pcClient s)" "pChain (pcClient s') = pChain (pcClient s)"
    "length (pcPool s) \<le> 10 \<Longrightarrow> length (pcPool s') \<le> 10"
    "distinct (map fst (pcPool s)) \<Longrightarrow> distinct (map fst (pcPool s'))"
proof -
  obtain as c where p: "pool_candidates env (pcClient s) = (as, c)" by fastforce
  then have c: "pLink c = pLink (pcClient s)" "pChain c = pChain (pcClient s)"
    by (auto simp: pool_candidates_def Let_def split: prod.splits)
  show "pcTrace s' = pcTrace s" "pLink (pcClient s') = pLink (pcClient s)" "pChain (pcClient s') = pChain (pcClient s)"
    "length (pcPool s) \<le> 10 \<Longrightarrow> length (pcPool s') \<le> 10"
    "distinct (map fst (pcPool s)) \<Longrightarrow> distinct (map fst (pcPool s'))"
    using assms p c
    by (auto simp: maintainBroadcastConnections_def Let_def maxBroadcastPeers_def split: if_splits dest!: add_peers_frame)
qed

lemma reach_primary_split:
  assumes "first_send bs s = (ok, s1)"
  shows "reach_primary env bs s =
    (let addr = (if has_primary s then peerAddr (pLink (pcClient s)) else '''')
     in if ok then Some (Inr (True, addr, s1))
        else reconnect_send env bs addr (upd_client (\<lambda>c. c\<lparr>pLink := disconnect (pLink c)\<rparr>) s1))"
  using assms by (simp add: reach_primary_def Let_def)

lemma first_send_sent:
  assumes "sent_since s0 bs 0 s" "first_send bs s = (ok, s')"
  shows "sent_since s0 bs (if ok then 1 else 0) s'"
proof (cases "has_primary s")
  case True
  with assms(2) have "send_primary bs s = (ok, s')" by (simp add: first_send_def)
  from send_primary_sent [OF assms(1) this] show ?thesis by (cases ok) simp_all
next
  case False
  with assms show ?thesis by (simp add: first_send_def)
qed

lemma reconnect_send_sent:
  assumes "sent_since s0 bs 0 s" "reconnect_send env bs addr s = Some (Inr (ok, addr', s'))"
  shows "sent_since s0 bs (if ok then 1 else 0) s'"
proof -
  from assms(2) obtain r c where e: "ensureConnected env (pcClient s) = Some (Inr (r, c))"
    by (auto simp: reconnect_send_def split: option.splits sum.splits)
  let ?s = "s\<lparr>pcClient := c\<rparr>"
  from ensureConnected_frame [OF e] have m: "magic (pLink c) = magic (pLink (pcClient s))" by (simp add: same_client_def)
  have s1: "sent_since s0 bs 0 ?s" by (rule sent_since_same [OF assms(1)]) (simp_all add: m)
  show ?thesis
  proof (cases "r = Inr () \<and> has_primary ?s")
    case True
    obtain ok2 s2 where p: "send_primary bs ?s = (ok2, s2)" by fastforce
    with assms(2) e True have "ok2 = ok" "s2 = s'" by (simp_all add: reconnect_send_def)
    with send_primary_sent [OF s1 p] show ?thesis by (cases ok) simp_all
  next
    case False
    then have "reconnect_send env bs addr s = Some (Inr (False, addr, ?s))"
      by (simp only: reconnect_send_def e option.case sum.case prod.case if_False)
    with assms(2) s1 show ?thesis by simp
  qed
qed

lemma reach_primary_sent:
  assumes "reach_primary env bs s = Some (Inr (ok, addr, s'))"
  shows "sent_since s bs (if ok then 1 else 0) s'"
proof -
  obtain ok1 s1 where 1: "first_send bs s = (ok1, s1)" by fastforce
  note s1 = first_send_sent [OF sent_since_refl 1]
  show ?thesis
  proof (cases ok1)
    case True
    with assms s1 show ?thesis by (simp add: reach_primary_split [OF 1])
  next
    case False
    let ?s2 = "upd_client (\<lambda>c. c\<lparr>pLink := disconnect (pLink c)\<rparr>) s1"
    from s1 False have "sent_since s bs 0 s1" by simp
    then have s2: "sent_since s bs 0 ?s2" by (rule sent_since_same) (simp_all add: disconnect_def Let_def)
    from assms False have "reconnect_send env bs (if has_primary s then peerAddr (pLink (pcClient s)) else '''') ?s2 =
        Some (Inr (ok, addr, s'))" by (simp add: reach_primary_split [OF 1])
    from reconnect_send_sent [OF s2 this] show ?thesis .
  qed
qed

lemma second_round_sent:
  assumes "sent_since s0 bs 0 s" "second_round env w bs primary (ok, s) = (ok', n', s')" "same_network w"
  shows "sent_since s0 bs n' s'"
proof -
  let ?s = "meanwhile w WarmedUp s"
  have s1: "sent_since s0 bs 0 ?s" by (rule meanwhile_sent [OF assms(1,3)])
  obtain again s2 where 2: "(if ok then (False, ?s) else first_send bs ?s) = (again, s2)" by fastforce
  have s2: "sent_since s0 bs (if again then 1 else 0) s2"
  proof (cases ok)
    case True
    with 2 s1 show ?thesis by auto
  next
    case False
    with 2 have "first_send bs ?s = (again, s2)" by simp
    from first_send_sent [OF s1 this] show ?thesis .
  qed
  obtain n3 s3 where 3: "(if again then (1, s2) else fan_out env w False bs primary (0, s2)) = (n3, s3)" by fastforce
  from assms(2) have e: "(ok \<or> again, n3, s3) = (ok', n', s')"
    by (simp only: second_round_def Let_def prod.case 2 3)
  show ?thesis
  proof (cases again)
    case True
    with e 3 s2 show ?thesis by simp
  next
    case False
    with e 3 have "fan_out env w False bs primary (0, s2) = (n', s')" by simp
    with fan_out_sent [of s0 bs 0 s2] s2 False assms(3) show ?thesis by simp
  qed
qed

lemma opportunistic_sent:
  assumes "sent_since s0 bs n s" "opportunistic env bs primary as (n, s) = Inr (n', s')"
  shows "sent_since s0 bs n' s'"
  using assms
proof (induction as arbitrary: n s)
  case (Cons a as)
  show ?case
  proof (cases "primary \<noteq> '''' \<and> a = primary")
    case True
    with Cons show ?thesis by simp
  next
    case False
    obtain bad bk where b: "isBadPeer (neNow env) a (pBook (pcClient s)) = (bad, bk)" by fastforce
    let ?c = "set_book bk (pcClient s)"
    show ?thesis
    proof (cases bad)
      case True
      have "sent_since s0 bs n (s\<lparr>pcClient := ?c\<rparr>)" by (rule sent_since_same [OF Cons.prems(1)]) simp_all
      from Cons.IH [OF this] Cons.prems(2) False b True show ?thesis by simp
    next
      case ok: False
      with Cons.prems(2) False b obtain r c where c: "connectBroadcastPeer env a ?c = Inr (r, c)"
        by (auto simp: ebind_eq_Inr_iff)
      let ?s = "s\<lparr>pcClient := c\<rparr>"
      have s1: "sent_since s0 bs n ?s"
        using connectBroadcastPeer_frame [OF c] by (intro sent_since_same [OF Cons.prems(1)]) simp_all
      show ?thesis
      proof (cases r)
        case (Inl e)
        with Cons.IH [OF s1] Cons.prems(2) False b ok c show ?thesis by (simp add: Let_def)
      next
        case (Inr cn)
        obtain sent cn' where p: "sendBlockToPeer (magic (pLink c)) bs cn = (sent, cn')" by fastforce
        have "sent_since s0 bs (if sent then Suc n else n) (log_took a (Some cn) (Some cn') ?s)"
          by (rule sent_since_took [OF s1, of _ a "took (Some cn) (Some cn')"])
             (use sendBlockToPeer_took [OF p] in simp_all)
        from Cons.IH [OF this] Cons.prems(2) False b ok c Inr p show ?thesis by (simp add: Let_def)
      qed
    qed
  qed
qed simp

lemma await_answer_shrinks: "await_answer n hash l an = Inr (an', l') \<Longrightarrow> link_shrinks l l'"
proof (induction n arbitrary: l an)
  case (Suc n)
  obtain r l1 where rm: "readMessage l = (r, l1)" by fastforce
  note s1 = readMessage_shrinks [OF rm]
  show ?case
  proof (cases r)
    case (Inl e)
    with Suc.prems rm s1 show ?thesis by (auto split: if_splits)
  next
    case (Inr cp)
    then obtain cmd p where r: "r = Inr (cmd, p)" by (cases cp) simp
    note s2 = link_shrinks_trans [OF s1 snd_write_shrinks, of "''pong''" p]
    from Suc.prems rm r have "l' = l1 \<or> await_answer n hash (snd (writeMessage ''pong'' p l1)) an = Inr (an', l') \<or>
        (\<exists>x. await_answer n hash l1 x = Inr (an', l'))" by (auto split: if_splits)
    then show ?thesis using s1 s2 Suc.IH link_shrinks_trans by blast
  qed
qed simp

lemma finish_sent:
  assumes "sent_since s0 bs n s" "finish_broadcast env hash primary (ok, n, s) = Inr (r, n', s')"
  shows "sent_since s0 bs n' s' \<and> (r = Inr () \<longrightarrow> 0 < n')"
proof -
  let ?an = "\<lparr>anReject = None, anSelfInv = False\<rparr>" and ?k = "if pNet (pcClient s) = ''testnet'' then 8 else 12"
  from assms(2) obtain an l where a: "(if has_primary s \<and> ok then await_answer ?k hash (pLink (pcClient s)) ?an
      else Inr (?an, pLink (pcClient s))) = Inr (an, l)"
    by (auto simp: finish_broadcast_def Let_def ebind_eq_Inr_iff)
  then have "magic l = magic (pLink (pcClient s))"
    using await_answer_shrinks by (fastforce simp: link_shrinks_def split: if_splits)
  moreover from assms(2) a have n: "n' = n" and s': "s' = upd_client (\<lambda>c. c\<lparr>pLink := l\<rparr>) s"
    and r: "r = (case anReject an of Some (code, reason) \<Rightarrow> Inl (BlockRejected code reason)
      | None \<Rightarrow> if n = 0 then Inl NoPeerReached else Inr ())"
    by (auto simp: finish_broadcast_def Let_def)
  ultimately have "sent_since s0 bs n' s'" by (intro sent_since_same [OF assms(1) [folded n]]) simp_all
  with r n show ?thesis by (auto split: option.splits if_splits)
qed

lemma relay_sent:
  assumes "relay_block env w bs hash s = Some (Inr (r, n, s'))" "same_network w"
  shows "sent_since s bs n s' \<and> (r = Inr () \<longrightarrow> 0 < n)"
proof -
  from assms(1) obtain ok addr s1 where p: "reach_primary env bs s = Some (Inr (ok, addr, s1))"
    by (auto simp: relay_block_def split: option.splits sum.splits prod.splits)
  note s1 = reach_primary_sent [OF p]
  obtain n2 s2 where f: "fan_out env w True bs addr (if ok then 1 else 0, s1) = (n2, s2)" by fastforce
  from fan_out_sent [OF s1 f assms(2)] have s2: "sent_since s bs n2 s2" by simp
  obtain ok3 n3 s3 where t: "(if n2 = 0 then second_round env w bs addr (ok, s2) else (ok, n2, s2)) = (ok3, n3, s3)"
    by (metis prod_cases3)
  have s3: "sent_since s bs n3 s3" using t s2 second_round_sent [OF _ _ assms(2)] by (auto split: if_splits)
  let ?cands = "filter (\<lambda>a. a \<noteq> '''') (take 3 (known (pcClient s3)))"
  from assms(1) p f t obtain n4 s4 where o: "(if n3 = 0 then opportunistic env bs addr ?cands (n3, s3) else Inr (n3, s3)) = Inr (n4, s4)"
    by (auto simp: relay_block_def Let_def ebind_eq_Inr_iff)
  have s4: "sent_since s bs n4 s4" using o s3 opportunistic_sent by (auto split: if_splits)
  from assms(1) p f t o have "finish_broadcast env hash addr (ok3, n4, s4) = Inr (r, n, s')"
    by (simp add: relay_block_def Let_def)
  from finish_sent [OF s4 this] show ?thesis .
qed

section \<open>The pool stays small\<close>

definition pool_ok :: "PoolClient \<Rightarrow> bool" where
  "pool_ok s \<longleftrightarrow> length (pcPool s) \<le> maxBroadcastPeers \<and> distinct (GetBroadcastPeers s)"

lemma pool_ok_same: "pool_ok s \<Longrightarrow> pcPool s' = pcPool s \<Longrightarrow> pool_ok s'"
  by (simp add: pool_ok_def GetBroadcastPeers_def)

lemma maintain_pool: "maintainBroadcastConnections env s = Inr s' \<Longrightarrow> pool_ok s \<Longrightarrow> pool_ok s'"
  using maintain_frame [of env s s'] by (simp add: pool_ok_def GetBroadcastPeers_def maxBroadcastPeers_def)

lemma BroadcastBlock_SomeD:
  assumes "BroadcastBlock key env w b s = Some (Inr (r, Some (n, s')))"
  shows "relay_block env w (SerializeHeader b @ serializeBody b) (blockHashChain (SerializeHeader b)) s = Some (Inr (r, n, s'))"
proof (cases "dogeHeaderHash key (SerializeHeader b)")
  case (Inl h)
  with assms show ?thesis by (simp add: BroadcastBlock_def Let_def)
next
  case (Inr h)
  with assms obtain z where z: "relay_block env w (SerializeHeader b @ serializeBody b) (blockHashChain (SerializeHeader b)) s = Some z"
    and c: "(case z of Inl Panicked \<Rightarrow> Inr (Inr (), None) | Inl h \<Rightarrow> Inl h | Inr (r, ns) \<Rightarrow> Inr (r, Some ns)) = Inr (r, Some (n, s'))"
    by (auto simp: BroadcastBlock_def Let_def)
  show ?thesis
  proof (cases z)
    case (Inl h)
    with c show ?thesis by (cases h) simp_all
  next
    case (Inr x)
    with c z show ?thesis by (cases x) simp
  qed
qed

section \<open>Properties\<close>

text \<open>C6: when \<open>BroadcastBlock\<close> reports success without having panicked, at least one peer was sent the
  block; and whatever other goroutines do to the pool and the client meanwhile, the number it counts is exactly the
  number of attempts in which a socket took the whole frame of the header followed by the body, under the client's
  network magic, however much or little of it the sockets of the other attempts took.\<close>

theorem broadcast_success_sound:
  assumes "BroadcastBlock key env w b s = Some (Inr (Inr (), Some (n, s')))" "same_network w"
  shows "0 < n \<and> (\<exists>tr. pcTrace s' = pcTrace s @ tr \<and>
    n = length (filter (\<lambda>(a, x). x = frame (magic (pLink (pcClient s))) ''block'' (SerializeHeader b @ serializeBody b)) tr))"
  using relay_sent [OF BroadcastBlock_SomeD [OF assms(1)] assms(2)]
  by (auto simp: sent_since_def whole_frames_def case_prod_beta')

lemma await_reject:
  assumes "conn l = Some cn" "length (magic l) = 4"
    and "length reason \<le> 1048576" "length hash' = 32"
    and "payload = var_str (string_bytes ''block'') @ [code] @ var_str (string_bytes reason) @ hash'"
    and "inbox cn = frame (magic l) ''reject'' payload @ rest" "length payload \<le> 33554432"
  shows "\<exists>l'. await_answer (Suc k) hash l an = Inr (an\<lparr>anReject := Some (code, reason)\<rparr>, l')"
proof -
  have r: "parseRejectPayload payload =
      \<lparr>rejType = ''block'', rejCode = code, rejReason = reason, rejHash = Some hash', rejErr = None\<rparr>"
    using parseRejectPayload_enc [of "''block''" reason hash' code] assms(3,4) by (simp add: assms(5))
  then have b: "block_reject payload = Some (code, reason)" by (simp add: block_reject_def Let_def)
  have "frameable (magic l) ''reject'' payload" using assms(2,7) by (simp add: frameable_def string_bytes_def)
  from read_frame [OF this assms(1,6)] have "fst (readMessage l) = Inr (''reject'', payload)" by simp
  then obtain l1 where "readMessage l = (Inr (''reject'', payload), l1)" by (cases "readMessage l") simp
  with assms(1) b show ?thesis by simp
qed

text \<open>A \<open>reject\<close> for any block at all, such as an older one, that the primary peer has pending makes
  the broadcast of the new block an error, although it was sent: the hash in the message is never
  compared.\<close>

theorem stale_reject_fails:
  assumes "conn (pLink (pcClient s)) = Some cn" "length (magic (pLink (pcClient s))) = 4"
    and "length reason \<le> 1048576" "length hash' = 32"
    and "payload = var_str (string_bytes ''block'') @ [code] @ var_str (string_bytes reason) @ hash'"
    and "inbox cn = frame (magic (pLink (pcClient s))) ''reject'' payload @ rest" "length payload \<le> 33554432"
  shows "\<exists>s'. finish_broadcast env hash primary (True, n, s) = Inr (Inl (BlockRejected code reason), n, s')"
proof -
  define an where "an = \<lparr>anReject = None, anSelfInv = False\<rparr>"
  define m :: nat where "m = (if pNet (pcClient s) = ''testnet'' then 8 else 12)"
  have m: "m = Suc (m - 1)" by (simp add: m_def)
  from await_reject [OF assms] obtain l' where
    a: "await_answer m hash (pLink (pcClient s)) an = Inr (an\<lparr>anReject := Some (code, reason)\<rparr>, l')" by (metis m)
  then show ?thesis using assms(1)
    by (simp add: finish_broadcast_def Let_def has_primary_def an_def [symmetric] m_def [symmetric])
qed

section \<open>Witnesses\<close>

definition quiet_pool :: "byte list \<Rightarrow> PoolClient" where
  "quiet_pool bs = \<lparr>pcClient = lone_client\<lparr>pLink := \<lparr>magic = dogeMainnetMagic,
       conn = Some \<lparr>inbox = bs, connEnd = EndTimeout, outbox = [], room = 100000\<rparr>, peerAddr = ''node'', knownPeers = []\<rparr>\<rparr>,
     pcPool = [], pcLastAddr = Map.empty, pcTrace = []\<rparr>"

lemma magic_length: "length dogeMainnetMagic = 4"
  by (simp add: dogeMainnetMagic_def)

lemma quiet_pool_simps [simp]:
  "conn (pLink (pcClient (quiet_pool bs))) = Some \<lparr>inbox = bs, connEnd = EndTimeout, outbox = [], room = 100000\<rparr>"
  "magic (pLink (pcClient (quiet_pool bs))) = dogeMainnetMagic" "pcPool (quiet_pool bs) = []"
  "peerAddr (pLink (pcClient (quiet_pool bs))) = ''node''"
  by (simp_all add: quiet_pool_def)

theorem pool_frame_is_message_witness:
  "fst (readMessage (pLink (pcClient (quiet_pool (block_frame dogeMainnetMagic [1, 2]))))) = Inr (''block'', [1, 2])"
  using pool_frame_is_message [of dogeMainnetMagic "[1, 2]" "pLink (pcClient (quiet_pool (block_frame dogeMainnetMagic [1, 2])))"
      _ "[]"] by (simp add: magic_length block_frame_frame)

text \<open>A run in which nothing else happens.\<close>

definition undisturbed :: Meanwhile where
  "undisturbed = \<lparr>mwOthers = \<lambda>_ s. s, mwOrder = \<lambda>_ as. as\<rparr>"

lemma meanwhile_undisturbed [simp]: "meanwhile undisturbed p s = s" "mwOrder undisturbed x as = as" "same_network undisturbed"
  by (simp_all add: meanwhile_def undisturbed_def same_network_def)

lemma quiet_relay:
  assumes "length bs \<le> 90000"
  shows "\<exists>s'. relay_block (net_env None) undisturbed bs hash (quiet_pool []) = Some (Inr (Inr (), 1, s'))"
proof -
  let ?l = "pLink (pcClient (quiet_pool []))"
  have "writeMessage ''block'' bs ?l = (Inr (), ?l\<lparr>conn := Some (\<lparr>inbox = [], connEnd = EndTimeout, outbox = [], room = 100000\<rparr>\<lparr>
      outbox := [] @ messageHeader (magic ?l) ''block'' bs @ bs,
      room := 100000 - length (messageHeader (magic ?l) ''block'' bs @ bs)\<rparr>)\<rparr>)"
    by (subst writeMessage_room [OF quiet_pool_simps(1)]) (use assms in \<open>simp_all add: magic_length\<close>)
  then have "\<exists>l'. writeMessage ''block'' bs ?l = (Inr (), l') \<and>
      (\<exists>o' r'. conn l' = Some \<lparr>inbox = [], connEnd = EndTimeout, outbox = o', room = r'\<rparr>)"
    by simp
  then obtain l' o' r' where w: "writeMessage ''block'' bs ?l = (Inr (), l')"
    and c: "conn l' = Some \<lparr>inbox = [], connEnd = EndTimeout, outbox = o', room = r'\<rparr>" by blast
  then obtain s1 where f: "first_send bs (quiet_pool []) = (True, s1)" "pcPool s1 = []" and l: "pLink (pcClient s1) = l'"
    by (auto simp: first_send_def has_primary_def send_primary_def Let_def)
  from c l obtain cn where cn: "conn (pLink (pcClient s1)) = Some cn" "inbox cn = []" "connEnd cn = EndTimeout" by force
  then have "readMessage (pLink (pcClient s1)) = (Inl ReadTimeout, pLink (pcClient s1))" by (simp add: read_empty)
  then have a: "await_answer (Suc k) hash (pLink (pcClient s1)) an = Inr (an, pLink (pcClient s1))" for k an
    using cn by simp
  have "await_answer (if b then 8 else 12) hash (pLink (pcClient s1)) an = Inr (an, pLink (pcClient s1))" for b an
    using a [of 7] a [of 11] by (simp del: await_answer.simps)
  then show ?thesis using f cn
    by (simp add: relay_block_def reach_primary_def Let_def fan_out_def GetBroadcastPeers_def finish_broadcast_def
        has_primary_def del: await_answer.simps)
qed

lemma sample_body: "length (SerializeHeader sampleBlock @ serializeBody sampleBlock) \<le> 90000"
  by (simp add: sampleBlock_def SerializeHeader_def serializeBody_def writeLen_def writeVarInt_def minimalAuxPow_def)

theorem broadcast_success_sound_witness:
  "\<exists>s'. BroadcastBlock sampleKey (net_env None) undisturbed sampleBlock (quiet_pool []) = Some (Inr (Inr (), Some (1, s'))) \<and>
     length (filter (\<lambda>(a, x). x = frame dogeMainnetMagic ''block'' (SerializeHeader sampleBlock @ serializeBody sampleBlock))
       (pcTrace s')) = 1"
proof -
  let ?r = "BroadcastBlock sampleKey (net_env None) undisturbed sampleBlock (quiet_pool [])"
  have h: "\<exists>h. dogeHeaderHash sampleKey (SerializeHeader sampleBlock) = Inr h"
    by (simp add: dogeHeaderHash_def sampleKey_def sampleBlock_def SerializeHeader_def)
  from quiet_relay [OF sample_body] obtain s' where "relay_block (net_env None) undisturbed (SerializeHeader sampleBlock @ serializeBody sampleBlock)
      (blockHashChain (SerializeHeader sampleBlock)) (quiet_pool []) = Some (Inr (Inr (), 1, s'))" by blast
  with h have r: "?r = Some (Inr (Inr (), Some (1, s')))" by (auto simp: BroadcastBlock_def Let_def)
  have "pcTrace (quiet_pool []) = []" by (simp add: quiet_pool_def)
  with broadcast_success_sound [OF r] r show ?thesis by auto
qed

definition stale_reject :: "byte list" where
  "stale_reject = var_str (string_bytes ''block'') @ [16] @ var_str (string_bytes ''duplicate'') @ replicate 32 9"

lemma stale_reject_length: "length stale_reject \<le> 33554432"
  by (simp add: stale_reject_def var_str_def writeLen_def writeVarInt_def string_bytes_def)

theorem stale_reject_fails_witness:
  "\<exists>s'. finish_broadcast (net_env None) (replicate 32 1) ''node''
      (True, 1, quiet_pool (frame dogeMainnetMagic ''reject'' stale_reject)) =
    Inr (Inl (BlockRejected 16 ''duplicate''), 1, s')"
  by (rule stale_reject_fails [where hash' = "replicate 32 9" and payload = stale_reject and rest = "[]"])
    (simp, simp_all add: magic_length stale_reject_length, simp add: stale_reject_def)

end
