(* ===== verification/PoolKeepers.thy ===== *)
theory PoolKeepers
  imports BroadcastPool
begin

text \<open>
  \<open>maintainBroadcastConnections\<close> of \<open>src/p2p.go\<close> as the program runs it: the keeper of the pool calls it on its
  ticks, and \<open>BroadcastBlock\<close> starts a goroutine that calls it and may outlive the broadcast. A call locks
  the pool only to count it and to add a connection; between the two it collects addresses, dials and shakes hands.
  \<open>keep_step\<close> takes one call from one such section to the next, and \<open>keepers\<close> is the relation in which calls,
  broadcasts and the rest of the client take turns in any order. A call that meets nobody else is the
  function \<open>maintainBroadcastConnections\<close>; calls that run together share no count, and the pool is bounded by
  ten connections for each of them.
\<close>

section \<open>One call, step by step\<close>

text \<open>
  \<open>Planning\<close>: the pool was counted, this many are missing and these are in it. \<open>Connecting\<close>: this many are still to be
  added, these addresses are left. \<open>Committing\<close>: a connection is open and not in the pool yet. \<open>Ended\<close>: the call is
  over; \<open>Some\<close> when a read never returned or a panic was recovered.
\<close>

datatype keep_task =
    Snapshot
  | Planning nat "string list"
  | Connecting nat "string list"
  | Committing nat string Conn "string list"
  | Ended "halt option"

fun keep_step :: "NetEnv \<Rightarrow> keep_task \<Rightarrow> PoolClient \<Rightarrow> keep_task \<times> PoolClient" where
  "keep_step env Snapshot s =
     (let current = length (pcPool s) in
      if maxBroadcastPeers \<le> current then (Ended None, s)
      else (Planning (maxBroadcastPeers - current) (map fst (pcPool s)), s))"
| "keep_step env (Planning needed pooled) s =
     (let (as, c) = pool_candidates env (pcClient s) in
      (Connecting needed (skip_seen pooled [] as), s\<lparr>pcClient := c\<rparr>))"
| "keep_step env (Connecting 0 as) s = (Ended None, s)"
| "keep_step env (Connecting (Suc n) []) s = (Ended None, s)"
| "keep_step env (Connecting (Suc n) (a # as)) s =
     (case connectBroadcastPeer env a (pcClient s) of
        Inl h \<Rightarrow> (Ended (Some h), s)
      | Inr (Inl e, c) \<Rightarrow>
          (Connecting (Suc n) as,
           s\<lparr>pcClient := set_book (updatePeerResult (neNow env) (pNet c) a False ''''
               (markBadPeer (neNow env) (pNet c) a (pBook c))) c\<rparr>)
      | Inr (Inr cn, c) \<Rightarrow> (Committing n a cn as, s\<lparr>pcClient := c\<rparr>))"
| "keep_step env (Committing n a cn as) s =
     (if a \<in> fst ` set (pcPool s) then (Connecting (Suc n) as, s)
      else (Connecting n as, s\<lparr>pcPool := pcPool s @ [(a, cn)]\<rparr>))"
| "keep_step env (Ended r) s = (Ended r, s)"

text \<open>How many connections a call may still add.\<close>

fun may_add :: "keep_task \<Rightarrow> nat" where
  "may_add (Planning n as) = n"
| "may_add (Connecting n as) = n"
| "may_add (Committing n a cn as) = Suc n"
| "may_add _ = 0"

fun under_way :: "keep_task \<Rightarrow> bool" where
  "under_way (Ended r) = False"
| "under_way _ = True"

section \<open>Calls that run together\<close>

text \<open>
  The client and the calls made so far, at most \<open>K\<close> of them under way at once. A call takes a step; one is
  started; a broadcast sends to a connection of the pool, and drops it when that fails; anything else the client
  does leaves the pool alone.
\<close>

inductive keepers :: "nat \<Rightarrow> PoolClient \<times> keep_task list \<Rightarrow> PoolClient \<times> keep_task list \<Rightarrow> bool" for K where
  call: "i < length ts \<Longrightarrow> keep_step env (ts ! i) s = (t, s') \<Longrightarrow> keepers K (s, ts) (s', ts[i := t])"
| start: "length (filter under_way ts) < K \<Longrightarrow> keepers K (s, ts) (s, ts @ [Snapshot])"
| send: "send_pooled env drop_dead bs a (n, s) = (n', s') \<Longrightarrow> keepers K (s, ts) (s', ts)"
| elsewhere: "pcPool s' = pcPool s \<Longrightarrow> keepers K (s, ts) (s', ts)"

section \<open>The bound\<close>

definition pool_bounded :: "nat \<Rightarrow> PoolClient \<times> keep_task list \<Rightarrow> bool" where
  "pool_bounded K x \<longleftrightarrow> (case x of (s, ts) \<Rightarrow>
     length (pcPool s) + sum_list (map may_add ts) \<le> maxBroadcastPeers * K \<and>
     (\<forall>t \<in> set ts. may_add t \<le> maxBroadcastPeers) \<and> length (filter under_way ts) \<le> K \<and>
     distinct (GetBroadcastPeers s))"

lemma filter_update_len:
  assumes "i < length ts" "P t \<longrightarrow> P (ts ! i)"
  shows "length (filter P (ts[i := t])) \<le> length (filter P ts)"
  using assms by (induction ts arbitrary: i) (auto split: nat.splits)

text \<open>Calls other than the \<open>i\<close>-th, when that one is under way and has counted nothing.\<close>

lemma sum_others:
  assumes "i < length ts" "under_way (ts ! i)" "may_add (ts ! i) = 0"
    and "\<forall>t \<in> set ts. may_add t \<le> m" "length (filter under_way ts) \<le> K"
  shows "sum_list (map may_add ts) + m \<le> m * K"
proof -
  have idle: "\<not> under_way t \<Longrightarrow> may_add t = 0" for t by (cases t) simp_all
  have le: "\<forall>t \<in> set us. may_add t \<le> m \<Longrightarrow> sum_list (map may_add us) \<le> m * length (filter under_way us)" for us
    by (induction us) (auto simp: idle)
  have "sum_list (map may_add ts) + m \<le> m * length (filter under_way ts)"
    using assms(1-4)
  proof (induction ts arbitrary: i)
    case (Cons u us)
    show ?case
    proof (cases i)
      case 0
      with Cons.prems le [of us] show ?thesis by simp
    next
      case (Suc j)
      with Cons.prems Cons.IH [of j] have "sum_list (map may_add us) + m \<le> m * length (filter under_way us)" by simp
      with Cons.prems(4) show ?thesis by (cases "under_way u") (auto simp: idle)
    qed
  qed simp
  also have "\<dots> \<le> m * K" using assms(5) by simp
  finally show ?thesis .
qed

lemma keep_step_task:
  assumes "keep_step env t s = (t', s')"
  shows "under_way t' \<longrightarrow> under_way t" "may_add t \<le> maxBroadcastPeers \<longrightarrow> may_add t' \<le> maxBroadcastPeers"
    "distinct (GetBroadcastPeers s) \<longrightarrow> distinct (GetBroadcastPeers s')"
    "t \<noteq> Snapshot \<longrightarrow> length (pcPool s') + may_add t' \<le> length (pcPool s) + may_add t"
    "t = Snapshot \<longrightarrow> pcPool s' = pcPool s \<and> (may_add t' = 0 \<or> length (pcPool s) + may_add t' = maxBroadcastPeers)"
  using assms
  by (cases "(env, t, s)" rule: keep_step.cases;
      auto simp: Let_def GetBroadcastPeers_def split: if_splits sum.splits prod.splits)+

lemma call_bounded:
  assumes "pool_bounded K (s, ts)" "i < length ts" "keep_step env (ts ! i) s = (t, s')"
  shows "pool_bounded K (s', ts[i := t])"
proof -
  note b = assms(1) [unfolded pool_bounded_def prod.case]
  note k = keep_step_task [OF assms(3)]
  have up: "sum_list (map may_add (ts[i := t])) + may_add (ts ! i) = sum_list (map may_add ts) + may_add t"
    by (rule sum_list_update_add [OF assms(2)])
  have "length (pcPool s') + sum_list (map may_add (ts[i := t])) \<le> maxBroadcastPeers * K"
  proof (cases "ts ! i = Snapshot")
    case False
    with k(4) up b show ?thesis by linarith
  next
    case True
    then have 0: "under_way (ts ! i)" "may_add (ts ! i) = 0" by simp_all
    have "sum_list (map may_add ts) + maxBroadcastPeers \<le> maxBroadcastPeers * K"
      by (rule sum_others [OF assms(2) 0]) (use b in simp_all)
    with k(5) up b True 0 show ?thesis by auto
  qed
  moreover have "\<forall>u \<in> set (ts[i := t]). may_add u \<le> maxBroadcastPeers"
    using b k(2) assms(2) set_update_subset_insert [of ts i t] by fastforce
  moreover have "length (filter under_way (ts[i := t])) \<le> K"
    using filter_update_len [where P = under_way, OF assms(2) k(1)] b by linarith
  ultimately show ?thesis using b k(3) by (simp add: pool_bounded_def)
qed

lemma send_keeps_pool:
  assumes "send_pooled env dd bs a (n, s) = (n', s')"
  shows "length (pcPool s') \<le> length (pcPool s)" "distinct (GetBroadcastPeers s) \<longrightarrow> distinct (GetBroadcastPeers s')"
proof -
  have len: "map_of xs a = Some cn \<Longrightarrow> length (AList.update a v xs) = length xs" for cn v :: Conn and xs
    by (induction xs) (auto split: if_splits)
  have del: "length (AList.delete a xs) \<le> length xs" for xs :: "(string \<times> Conn) list" by (simp add: AList.delete_eq)
  have both: "map_of xs a = Some cn \<Longrightarrow> length (AList.delete a (AList.update a v xs)) \<le> length xs" for cn v :: Conn and xs
    using len [of xs cn v] del [of "AList.update a v xs"] by simp
  show "length (pcPool s') \<le> length (pcPool s)"
    using assms len both by (auto simp: send_pooled_def Let_def split: option.splits prod.splits if_splits)
  show "distinct (GetBroadcastPeers s) \<longrightarrow> distinct (GetBroadcastPeers s')"
    using assms
    by (auto simp: send_pooled_def Let_def GetBroadcastPeers_def distinct_update distinct_delete
        split: option.splits prod.splits if_splits)
qed

lemma keepers_bounded_step: "keepers K x y \<Longrightarrow> pool_bounded K x \<Longrightarrow> pool_bounded K y"
proof (induction rule: keepers.induct)
  case call
  then show ?case by (blast intro: call_bounded)
next
  case (start ts s)
  then show ?case by (auto simp: pool_bounded_def)
next
  case (send env dd bs a n s n' s' ts)
  with send_keeps_pool [OF send(1)] show ?case by (auto simp: pool_bounded_def)
next
  case elsewhere
  then show ?case by (simp add: pool_bounded_def GetBroadcastPeers_def)
qed

lemma keepers_bounded: "(keepers K)\<^sup>*\<^sup>* x y \<Longrightarrow> pool_bounded K x \<Longrightarrow> pool_bounded K y"
  by (induction rule: rtranclp_induct) (auto intro: keepers_bounded_step)

section \<open>A call alone\<close>

definition alone :: "NetEnv \<Rightarrow> keep_task \<times> PoolClient \<Rightarrow> keep_task \<times> PoolClient" where
  "alone env x = (case x of (t, s) \<Rightarrow> keep_step env t s)"

definition runs_to :: "NetEnv \<Rightarrow> keep_task \<times> PoolClient \<Rightarrow> keep_task \<times> PoolClient \<Rightarrow> bool" where
  "runs_to env x y \<longleftrightarrow> (\<exists>n. (alone env ^^ n) x = y)"

lemma runs_to_refl: "runs_to env x x"
  unfolding runs_to_def by (rule exI [of _ 0]) simp

lemma runs_to_step: "runs_to env (keep_step env t s) y \<Longrightarrow> runs_to env (t, s) y"
  unfolding runs_to_def
proof (elim exE)
  fix n assume "(alone env ^^ n) (keep_step env t s) = y"
  then have "(alone env ^^ Suc n) (t, s) = y" by (simp add: funpow_Suc_right alone_def del: funpow.simps)
  then show "\<exists>n. (alone env ^^ n) (t, s) = y" by blast
qed

text \<open>The call ends with this result of the sequential function.\<close>

definition ends_as :: "NetEnv \<Rightarrow> keep_task \<times> PoolClient \<Rightarrow> halt + PoolClient \<Rightarrow> bool" where
  "ends_as env x r \<longleftrightarrow> (case r of Inr s \<Rightarrow> runs_to env x (Ended None, s) | Inl h \<Rightarrow> \<exists>s. runs_to env x (Ended (Some h), s))"

lemma ends_as_step: "ends_as env (keep_step env t s) r \<Longrightarrow> ends_as env (t, s) r"
  by (auto simp: ends_as_def split: sum.splits intro: runs_to_step)

lemma ends_as_done: "ends_as env (Ended None, s) (Inr s)" "ends_as env (Ended (Some h), s) (Inl h)"
  by (auto simp: ends_as_def intro: runs_to_refl)

lemma add_peers_alone: "ends_as env (Connecting n as, s) (add_peers env n as s)"
proof (induction env n as s rule: add_peers.induct)
  case (3 env n a as s)
  show ?case
  proof (cases "connectBroadcastPeer env a (pcClient s)")
    case (Inl h)
    then show ?thesis by (intro ends_as_step) (simp add: ends_as_done)
  next
    case (Inr x)
    obtain r c where x: "x = (r, c)" by (cases x)
    show ?thesis
    proof (cases r)
      case err: (Inl e)
      from 3(1) [OF Inr x [symmetric] err refl] Inr x err show ?thesis
        by (intro ends_as_step) (simp add: Let_def)
    next
      case ok: (Inr cn)
      show ?thesis
      proof (cases "a \<in> fst ` set (pcPool s)")
        case True
        from 3(2) [OF Inr x [symmetric] ok True]
        have "ends_as env (Committing n a cn as, s\<lparr>pcClient := c\<rparr>) (add_peers env (Suc n) as (s\<lparr>pcClient := c\<rparr>))"
          by (intro ends_as_step) (use True in simp)
        with True Inr x ok show ?thesis by (intro ends_as_step) simp
      next
        case False
        from 3(3) [OF Inr x [symmetric] ok False]
        have "ends_as env (Committing n a cn as, s\<lparr>pcClient := c\<rparr>)
            (add_peers env n as (s\<lparr>pcClient := c, pcPool := pcPool s @ [(a, cn)]\<rparr>))"
          by (intro ends_as_step) (use False in simp)
        with False Inr x ok show ?thesis by (intro ends_as_step) simp
      qed
    qed
  qed
qed (rule ends_as_step; simp add: ends_as_done)+

lemma maintain_alone: "ends_as env (Snapshot, s) (maintainBroadcastConnections env s)"
proof (cases "maxBroadcastPeers \<le> length (pcPool s)")
  case True
  then show ?thesis by (intro ends_as_step) (simp add: maintainBroadcastConnections_def ends_as_done)
next
  case False
  obtain as c where p: "pool_candidates env (pcClient s) = (as, c)" by fastforce
  let ?n = "maxBroadcastPeers - length (pcPool s)" and ?pooled = "map fst (pcPool s)"
  have "ends_as env (Planning ?n ?pooled, s) (add_peers env ?n (skip_seen ?pooled [] as) (s\<lparr>pcClient := c\<rparr>))"
    by (intro ends_as_step) (simp add: p add_peers_alone)
  with False p show ?thesis by (intro ends_as_step) (simp add: maintainBroadcastConnections_def Let_def)
qed

section \<open>Properties\<close>

text \<open>C20: however the calls of \<open>maintainBroadcastConnections\<close> (the keeper's and those a broadcast starts and leaves
  behind), the broadcasts and the rest of the client take turns, from an empty pool on: while at most \<open>K\<close> calls are
  under way at once, the pool holds at most \<open>10 * K\<close> connections, ten when the keeper is the only caller, and never two to
  one address.\<close>

theorem broadcast_pool_bounded:
  assumes "(keepers K)\<^sup>*\<^sup>* (s, []) (s', ts)" "pcPool s = []"
  shows "length (pcPool s') \<le> 10 * K \<and> distinct (GetBroadcastPeers s')"
proof -
  have "pool_bounded K (s, [])" using assms(2) by (simp add: pool_bounded_def GetBroadcastPeers_def)
  from keepers_bounded [OF assms(1) this] show ?thesis by (simp add: pool_bounded_def maxBroadcastPeers_def)
qed

text \<open>A call that no other goroutine interferes with, taken step by step, does what the function
  \<open>maintainBroadcastConnections\<close> does: it ends with the same client and pool, or with the same read that never
  returns or the same recovered panic.\<close>

theorem keeper_alone_refines:
  "case maintainBroadcastConnections env s of
     Inr s' \<Rightarrow> \<exists>n. (alone env ^^ n) (Snapshot, s) = (Ended None, s')
   | Inl h \<Rightarrow> \<exists>n s'. (alone env ^^ n) (Snapshot, s) = (Ended (Some h), s')"
  using maintain_alone [of env s] by (auto simp: ends_as_def runs_to_def split: sum.splits)

section \<open>Concrete calls\<close>

definition openEnv :: NetEnv where
  "openEnv = net_env (Some (friendly_conn EndTimeout))"

lemma open_peer_connects:
  assumes "SplitHostPort a = Some hp" "magic (pLink c) = dogeMainnetMagic"
  obtains cn c' where "connectBroadcastPeer openEnv a c = Inr (Inr cn, c')" "pLink c' = pLink c"
proof -
  obtain host prt where hp: "hp = (host, prt)" by (cases hp)
  let ?l = "\<lparr>magic = dogeMainnetMagic, conn = Some (friendly_conn EndTimeout), peerAddr = a, knownPeers = []\<rparr>"
  let ?i = "\<lparr>piVersion = 0, piServices = 0, piUserAgent = ''''\<rparr>"
  have f: "conn ?l = Some (friendly_conn EndTimeout)" "200 \<le> room (friendly_conn EndTimeout)"
    "length (magic ?l) = 4" "length [] \<le> 33554432" "2 \<le> neTicks openEnv"
    "inbox (friendly_conn EndTimeout) = frame (magic ?l) ''version'' [] @ frame (magic ?l) ''verack'' []"
    "connEnd (friendly_conn EndTimeout) = EndTimeout"
    by (simp_all add: friendly_conn_def openEnv_def net_env_def dogeMainnetMagic_def)
  obtain l' where h: "handshake openEnv 0 ?l ?i = Inr (Inr (), l', read_version [] ?i)"
    using handshake_result [OF f(1-6), of 0 ?i] f(7) by simp
  have d: "dialPreferredIPv4 openEnv host prt n = (Some (friendly_conn EndTimeout, JoinHostPort host prt), Suc n)" for n
    by (simp add: dialPreferredIPv4_def openEnv_def net_env_def)
  have "\<exists>cn c'. connectBroadcastPeer openEnv a c = Inr (Inr cn, c') \<and> pLink c' = pLink c"
    by (simp add: connectBroadcastPeer_def assms hp d h Let_def)
  with that show thesis by blast
qed

text \<open>A client without peers of its own that knows these addresses, and a pool of unreachable connections.\<close>

definition poolClient :: "string list \<Rightarrow> string list \<Rightarrow> PoolClient" where
  "poolClient as pooled =
     \<lparr>pcClient = lone_client\<lparr>pLink := (pLink lone_client)\<lparr>knownPeers := as\<rparr>\<rparr>, pcPool = map (\<lambda>a. (a, closed_conn)) pooled,
      pcLastAddr = Map.empty, pcTrace = []\<rparr>"

lemma nothing_bad: "filterBadPeers now as new_book = (as, new_book)"
  by (induction as) (simp_all add: isBadPeer_def new_book_def Let_def)

lemma planned: "pool_candidates openEnv (pcClient (poolClient as pooled)) = (as, pcClient (poolClient as pooled))"
  by (simp add: pool_candidates_def poolClient_def openEnv_def net_env_def set_book_def known_def TrimSpace_def lone_client_def
      nothing_bad Let_def)

lemma dialled:
  assumes "SplitHostPort a = Some hp" "magic (pLink (pcClient s)) = dogeMainnetMagic"
  obtains cn s' where "keep_step openEnv (Connecting (Suc n) (a # as)) s = (Committing n a cn as, s')"
    and "pcPool s' = pcPool s" "magic (pLink (pcClient s')) = dogeMainnetMagic"
proof -
  obtain cn c' where "connectBroadcastPeer openEnv a (pcClient s) = Inr (Inr cn, c')" "pLink c' = pLink (pcClient s)"
    by (rule open_peer_connects [OF assms])
  with assms(2) show thesis by (intro that [of cn "s\<lparr>pcClient := c'\<rparr>"]) simp_all
qed

lemma node_address: "SplitHostPort ''a:1'' = Some (''a'', ''1'')" "SplitHostPort ''b:1'' = Some (''b'', ''1'')"
  by (simp_all add: SplitHostPort_def str_last_index_def str_index_def Let_def)

text \<open>Two calls that count and plan before either of them connects.\<close>

lemma overlapping_counts:
  assumes "keep_step openEnv Snapshot s = (Planning 1 P, s)" "keep_step openEnv (Planning 1 P) s = (Connecting 1 ab, s)"
  shows "(keepers 2)\<^sup>*\<^sup>* (s, []) (s, [Connecting 1 ab, Connecting 1 ab])"
proof -
  note go = keepers.call [of 0 _ openEnv _ _ _ 2] keepers.call [of 1 _ openEnv _ _ _ 2]
  have "keepers 2 (s, []) (s, [Snapshot])" "keepers 2 (s, [Snapshot]) (s, [Snapshot, Snapshot])"
    using keepers.start [of "[]" 2 s] keepers.start [of "[Snapshot]" 2 s] by simp_all
  moreover have "keepers 2 (s, [Snapshot, Snapshot]) (s, [Planning 1 P, Snapshot])"
    "keepers 2 (s, [Planning 1 P, Snapshot]) (s, [Planning 1 P, Planning 1 P])"
    "keepers 2 (s, [Planning 1 P, Planning 1 P]) (s, [Connecting 1 ab, Planning 1 P])"
    "keepers 2 (s, [Connecting 1 ab, Planning 1 P]) (s, [Connecting 1 ab, Connecting 1 ab])"
    using go(1) [of "[Snapshot, Snapshot]"] go(2) [of "[Planning 1 P, Snapshot]"]
      go(1) [of "[Planning 1 P, Planning 1 P]"] go(2) [of "[Connecting 1 ab, Planning 1 P]"] assms by simp_all
  ultimately show ?thesis by (meson r_into_rtranclp rtranclp_trans)
qed

text \<open>The first adds its peer; the second finds it there, and adds the next.\<close>

lemma overlapping_commits:
  assumes "magic (pLink (pcClient s)) = dogeMainnetMagic"
    and "''a:1'' \<notin> fst ` set (pcPool s)" "''b:1'' \<notin> fst ` set (pcPool s)"
  defines "ab \<equiv> [''a:1'', ''b:1'']"
  shows "\<exists>s' ts. (keepers 2)\<^sup>*\<^sup>* (s, [Connecting 1 ab, Connecting 1 ab]) (s', ts) \<and> length (pcPool s') = length (pcPool s) + 2"
proof -
  let ?ab = "[''a:1'', ''b:1'']"
  note go = keepers.call [of 0 _ openEnv _ _ _ 2] keepers.call [of 1 _ openEnv _ _ _ 2]
  obtain cn s1 where d1: "keep_step openEnv (Connecting 1 ?ab) s = (Committing 0 ''a:1'' cn [''b:1''], s1)"
    "pcPool s1 = pcPool s" "magic (pLink (pcClient s1)) = dogeMainnetMagic"
    using dialled [OF node_address(1) assms(1), of 0 "[''b:1'']"] by (metis One_nat_def)
  define s2 where "s2 = s1\<lparr>pcPool := pcPool s1 @ [(''a:1'', cn)]\<rparr>"
  have d2: "keep_step openEnv (Committing 0 ''a:1'' cn [''b:1'']) s1 = (Connecting 0 [''b:1''], s2)"
    using assms(2) by (simp add: d1(2) s2_def)
  have m2: "magic (pLink (pcClient s2)) = dogeMainnetMagic" using d1(3) by (simp add: s2_def)
  obtain cn' s3 where d3: "keep_step openEnv (Connecting 1 ?ab) s2 = (Committing 0 ''a:1'' cn' [''b:1''], s3)"
    "pcPool s3 = pcPool s2" "magic (pLink (pcClient s3)) = dogeMainnetMagic"
    using dialled [OF node_address(1) m2, of 0 "[''b:1'']"] by (metis One_nat_def)
  have d4: "keep_step openEnv (Committing 0 ''a:1'' cn' [''b:1'']) s3 = (Connecting 1 [''b:1''], s3)"
    by (simp add: d3(2) s2_def)
  obtain cn2 s4 where d5: "keep_step openEnv (Connecting 1 [''b:1'']) s3 = (Committing 0 ''b:1'' cn2 [], s4)"
    "pcPool s4 = pcPool s3"
    using dialled [OF node_address(2) d3(3), of 0 "[]"] by (metis One_nat_def)
  define s5 where "s5 = s4\<lparr>pcPool := pcPool s4 @ [(''b:1'', cn2)]\<rparr>"
  have d6: "keep_step openEnv (Committing 0 ''b:1'' cn2 []) s4 = (Connecting 0 [], s5)"
    using assms(3) by (simp add: d5(2) d3(2) d1(2) s2_def s5_def)
  let ?e = "Connecting 0 [''b:1'']"
  have "keepers 2 (s, [Connecting 1 ?ab, Connecting 1 ?ab]) (s1, [Committing 0 ''a:1'' cn [''b:1''], Connecting 1 ?ab])"
    using go(1) [of "[Connecting 1 ?ab, Connecting 1 ?ab]"] d1(1) by simp
  moreover have "keepers 2 (s1, [Committing 0 ''a:1'' cn [''b:1''], Connecting 1 ?ab]) (s2, [?e, Connecting 1 ?ab])"
    using go(1) [of "[Committing 0 ''a:1'' cn [''b:1''], Connecting 1 ?ab]"] d2 by simp
  moreover have "keepers 2 (s2, [?e, Connecting 1 ?ab]) (s3, [?e, Committing 0 ''a:1'' cn' [''b:1'']])"
    using go(2) [of "[?e, Connecting 1 ?ab]"] d3(1) by simp
  moreover have "keepers 2 (s3, [?e, Committing 0 ''a:1'' cn' [''b:1'']]) (s3, [?e, Connecting 1 [''b:1'']])"
    using go(2) [of "[?e, Committing 0 ''a:1'' cn' [''b:1'']]"] d4 by simp
  moreover have "keepers 2 (s3, [?e, Connecting 1 [''b:1'']]) (s4, [?e, Committing 0 ''b:1'' cn2 []])"
    using go(2) [of "[?e, Connecting 1 [''b:1'']]"] d5(1) by simp
  moreover have "keepers 2 (s4, [?e, Committing 0 ''b:1'' cn2 []]) (s5, [?e, Connecting 0 []])"
    using go(2) [of "[?e, Committing 0 ''b:1'' cn2 []]"] d6 by simp
  ultimately have "(keepers 2)\<^sup>*\<^sup>* (s, [Connecting 1 ab, Connecting 1 ab]) (s5, [?e, Connecting 0 []])"
    unfolding ab_def by (meson rtranclp.rtrancl_refl rtranclp.rtrancl_into_rtrancl)
  moreover have "length (pcPool s5) = length (pcPool s) + 2" by (simp add: s5_def s2_def d5(2) d3(2) d1(2))
  ultimately show ?thesis by blast
qed

text \<open>C30: the count a call works with is the one it took at its start: two calls that overlap, each counting nine
  connections, leave a pool of eleven, more than the limit of ten the client is created with.\<close>

theorem two_callers_overfill:
  "\<exists>s s' ts. length (pcPool s) = 9 \<and> distinct (GetBroadcastPeers s) \<and> (keepers 2)\<^sup>*\<^sup>* (s, []) (s', ts) \<and>
     length (pcPool s') = 11 \<and> maxBroadcastPeers = 10"
proof -
  let ?ab = "[''a:1'', ''b:1'']"
  have "length (map (\<lambda>i. replicate i CHR ''p'') [1..<10]) = 9 \<and> distinct (map (\<lambda>i. replicate i CHR ''p'') [1..<10]) \<and>
      set ?ab \<inter> set (map (\<lambda>i. replicate i CHR ''p'') [1..<10]) = {}"
    by (auto simp: distinct_map inj_on_def Cons_replicate_eq)
  then obtain P where P: "length P = 9" "distinct P" "''a:1'' \<notin> set P" "''b:1'' \<notin> set P"
    by (metis disjoint_iff list.set_intros(1,2))
  obtain s :: PoolClient where s: "map fst (pcPool s) = P" "magic (pLink (pcClient s)) = dogeMainnetMagic"
    and cand: "pool_candidates openEnv (pcClient s) = (?ab, pcClient s)"
    using planned [of ?ab P] that [of "poolClient ?ab P"] by (simp add: poolClient_def lone_client_def comp_def)
  have len: "length (pcPool s) = 9" using arg_cong [OF s(1), of length] P(1) by simp
  have dom: "fst ` set (pcPool s) = set P" using arg_cong [OF s(1), of set] by simp
  have "keep_step openEnv Snapshot s = (Planning 1 P, s)" "keep_step openEnv (Planning 1 P) s = (Connecting 1 ?ab, s)"
    using P(3,4) by (simp_all add: len s(1) cand maxBroadcastPeers_def)
  note counted = overlapping_counts [OF this]
  from overlapping_commits [OF s(2)] P(3,4) dom obtain s' ts
    where "(keepers 2)\<^sup>*\<^sup>* (s, [Connecting 1 ?ab, Connecting 1 ?ab]) (s', ts)" "length (pcPool s') = length (pcPool s) + 2" by auto
  with counted len s(1) P(2) rtranclp_trans [OF counted] show ?thesis
    by (intro exI [of _ s] exI [of _ s'] exI [of _ ts]) (simp add: GetBroadcastPeers_def maxBroadcastPeers_def)
qed

text \<open>The keeper alone, on an empty pool.\<close>

theorem broadcast_pool_bounded_witness:
  "\<exists>s s' ts. (keepers 1)\<^sup>*\<^sup>* (s, []) (s', ts) \<and> length (pcPool s') = 1 \<and> length (pcPool s') \<le> 10 * 1"
proof -
  define s where "s = poolClient [''a:1''] []"
  have s: "pcPool s = []" "magic (pLink (pcClient s)) = dogeMainnetMagic"
    by (simp_all add: s_def poolClient_def lone_client_def)
  have plan: "keep_step openEnv Snapshot s = (Planning 10 [], s)"
    "keep_step openEnv (Planning 10 []) s = (Connecting (Suc 9) [''a:1''], s)"
    using planned [of "[''a:1'']" "[]"] by (simp_all add: s(1) s_def [symmetric] maxBroadcastPeers_def)
  obtain cn s1 where d: "keep_step openEnv (Connecting (Suc 9) [''a:1'']) s = (Committing 9 ''a:1'' cn [], s1)" "pcPool s1 = pcPool s"
    using dialled [OF node_address(1) s(2), of 9 "[]"] by metis
  define s2 where "s2 = s1\<lparr>pcPool := [(''a:1'', cn)]\<rparr>"
  have c: "keep_step openEnv (Committing 9 ''a:1'' cn []) s1 = (Connecting 9 [], s2)" by (simp add: d(2) s(1) s2_def)
  note go = keepers.call [of 0 "[_]" openEnv, simplified]
  have "keepers 1 (s, []) (s, [Snapshot])" using keepers.start [of "[]" 1 s] by simp
  with go [OF plan(1)] go [OF plan(2)] go [OF d(1)] go [OF c]
  have run: "(keepers 1)\<^sup>*\<^sup>* (s, []) (s2, [Connecting 9 []])"
    by (meson r_into_rtranclp rtranclp.rtrancl_into_rtrancl)
  from broadcast_pool_bounded [OF run s(1)] run show ?thesis
    by (intro exI [of _ s] exI [of _ s2] exI [of _ "[Connecting 9 []]"]) (simp add: s2_def)
qed

end
