(* ===== verification/Background.thy ===== *)
theory Background
  imports PoolKeepers
begin

text \<open>
  The goroutines of \<open>src/p2p.go\<close> that run beside the mining loop: the header sync in the background, the
  sync of a client that only serves the payment monitor, and the keeper of the broadcast pool where nobody else maintains it; and
  the getters other parts read the client through. Each goroutine is its sequence of ticks, with what the network
  says at each; \<open>None\<close> and \<open>halt\<close> are those of the calls it makes.
\<close>

section \<open>Getters\<close>

definition GetCachedTip :: "P2PClient \<Rightarrow> BlockHeader option" where
  "GetCachedTip c = bestHeader (pChain c)"

definition GetTipParentTimestamp :: "P2PClient \<Rightarrow> u32" where
  "GetTipParentTimestamp c = tipParentTimestamp (pChain c)"

definition GetCachedTipHeight :: "P2PClient \<Rightarrow> int" where
  "GetCachedTipHeight c = bestHeight (pChain c)"

definition GetPeerAddr :: "P2PClient \<Rightarrow> string" where
  "GetPeerAddr c = peerAddr (pLink c)"

definition GetPeerInfo :: "P2PClient \<Rightarrow> PeerInfo" where
  "GetPeerInfo c = pInfo c"

section \<open>Loops over ticks\<close>

primrec run_ticks :: "('e \<Rightarrow> 's \<Rightarrow> (halt + 's) option) \<Rightarrow> 'e list \<Rightarrow> 's \<Rightarrow> (halt + 's) option" where
  "run_ticks tick [] s = Some (Inr s)"
| "run_ticks tick (e # es) s =
     (case tick e s of
        None \<Rightarrow> None
      | Some (Inl h) \<Rightarrow> Some (Inl h)
      | Some (Inr s) \<Rightarrow> run_ticks tick es s)"

text \<open>What every tick keeps, the loop keeps.\<close>

locale tick_loop =
  fixes tick :: "'e \<Rightarrow> 's \<Rightarrow> (halt + 's) option" and keeps :: "'s \<Rightarrow> 's \<Rightarrow> bool"
  assumes keeps_refl: "keeps s s"
    and keeps_trans: "keeps s s' \<Longrightarrow> keeps s' s'' \<Longrightarrow> keeps s s''"
    and tick_keeps: "tick e s = Some (Inr s') \<Longrightarrow> keeps s s'"
begin

lemma run_keeps: "run_ticks tick es s = Some (Inr s') \<Longrightarrow> keeps s s'"
proof (induction es arbitrary: s)
  case Nil
  then show ?case by (simp add: keeps_refl)
next
  case (Cons e es)
  then obtain s1 where "tick e s = Some (Inr s1)" "run_ticks tick es s1 = Some (Inr s')"
    by (auto split: option.splits sum.splits)
  with Cons.IH show ?case by (blast intro: tick_keeps keeps_trans)
qed

end

section \<open>The background header sync\<close>

text \<open>What one tick meets: the network, the pool, and the order in which probes answer.\<close>

record SyncTick =
  stEnv :: NetEnv
  stPool :: "string list"
  stArrive :: "(string \<times> int) list \<Rightarrow> (string \<times> int) list"

record SyncClient =
  scClient :: P2PClient
  scRunning :: bool

definition background_tick :: "SyncTick \<Rightarrow> P2PClient \<Rightarrow> (halt + P2PClient) option" where
  "background_tick t c = fetchHeadersInBackground (stEnv t) (stPool t) (stArrive t) c"

text \<open>The loop: one fetch at once and one for every tick until it is stopped.\<close>

definition backgroundHeaderSyncLoop :: "SyncTick \<Rightarrow> SyncTick list \<Rightarrow> P2PClient \<Rightarrow> (halt + P2PClient) option" where
  "backgroundHeaderSyncLoop first ticks c = run_ticks background_tick (first # ticks) c"

definition syncInterval :: "string \<Rightarrow> nat" where
  "syncInterval net = (if net = ''testnet'' then 300 else 5000)"

definition StartBackgroundHeaderSync :: "SyncClient \<Rightarrow> bool \<times> SyncClient" where
  "StartBackgroundHeaderSync s = (if scRunning s then (False, s) else (True, s\<lparr>scRunning := True\<rparr>))"

definition StopBackgroundHeaderSync :: "SyncClient \<Rightarrow> SyncClient" where
  "StopBackgroundHeaderSync s = (if scRunning s then s\<lparr>scRunning := False\<rparr> else s)"

section \<open>The sync for the payment monitor\<close>

definition monitor_tick :: "NetEnv \<Rightarrow> P2PClient \<Rightarrow> (halt + P2PClient) option" where
  "monitor_tick env c = map_option (\<lambda>r. ebind r (\<lambda>(_, c). Inr c)) (GetTipHeader env c)"

definition SyncHeadersForMonitor :: "string \<Rightarrow> NetEnv \<Rightarrow> NetEnv list \<Rightarrow> P2PClient \<Rightarrow> (halt + P2PClient) option" where
  "SyncHeadersForMonitor net first envs c =
     run_ticks monitor_tick (first # envs)
       (if net \<noteq> '''' then c\<lparr>pChain := (pChain c)\<lparr>network := net\<rparr>\<rparr> else c)"

section \<open>The keeper of the pool\<close>

definition keeper_tick :: "NetEnv \<Rightarrow> PoolClient \<Rightarrow> (halt + PoolClient) option" where
  "keeper_tick env s = Some (maintainBroadcastConnections env s)"

definition startBroadcastPoolMaintainer :: "NetEnv \<Rightarrow> NetEnv list \<Rightarrow> PoolClient \<Rightarrow> (halt + PoolClient) option" where
  "startBroadcastPoolMaintainer first envs s = run_ticks keeper_tick (first # envs) s"

definition keeperInterval :: "string \<Rightarrow> nat" where
  "keeperInterval net = (if net = ''testnet'' then 5000 else 30000)"

section \<open>What the loops keep\<close>

interpretation background: tick_loop background_tick "\<lambda>c c'. extends (pChain c) (pChain c')"
proof unfold_locales
  fix t c c' assume "background_tick t c = Some (Inr c')"
  then show "extends (pChain c) (pChain c')"
    unfolding background_tick_def by (blast intro: client_step_extends client_step.background)
qed (blast intro: extends_refl extends_trans)+

interpretation monitor_sync: tick_loop monitor_tick "\<lambda>c c'. extends (pChain c) (pChain c')"
proof unfold_locales
  fix env c c' assume "monitor_tick env c = Some (Inr c')"
  then obtain r where "GetTipHeader env c = Some (Inr (r, c'))" by (auto simp: monitor_tick_def ebind_eq_Inr_iff)
  then show "extends (pChain c) (pChain c')" by (blast intro: client_step_extends client_step.tip)
qed (blast intro: extends_refl extends_trans)+

interpretation pool_keeper: tick_loop keeper_tick "\<lambda>s s'. pool_ok s \<longrightarrow> pool_ok s'"
proof unfold_locales
  fix env s s' assume "keeper_tick env s = Some (Inr s')"
  then show "pool_ok s \<longrightarrow> pool_ok s'" by (auto simp: keeper_tick_def intro: maintain_pool)
qed simp_all

section \<open>Properties\<close>

text \<open>The header sync in the background keeps to the chain: whatever it meets at its ticks, the chain
  of the client is only extended along headers linked by their hashes.\<close>

theorem background_sync_follows_links:
  assumes "backgroundHeaderSyncLoop first ticks c = Some (Inr c')"
  shows "extends (pChain c) (pChain c')"
  using assms unfolding backgroundHeaderSyncLoop_def by (rule background.run_keeps)

text \<open>So does the sync for the payment monitor, on the chain of the network it was given.\<close>

theorem monitor_sync_follows_links:
  assumes "SyncHeadersForMonitor net first envs c = Some (Inr c')" "net \<noteq> ''''"
  shows "extends ((pChain c)\<lparr>network := net\<rparr>) (pChain c')"
  using monitor_sync.run_keeps [of "first # envs" "c\<lparr>pChain := (pChain c)\<lparr>network := net\<rparr>\<rparr>" c'] assms
  by (simp add: SyncHeadersForMonitor_def)

text \<open>As long as no other goroutine maintains the pool, its keeper never opens more than ten connections, nor two to
  the same address, in any number of ticks.\<close>

theorem keeper_bounded:
  assumes "startBroadcastPoolMaintainer first envs s = Some (Inr s')" "pcPool s = []"
  shows "length (pcPool s') \<le> 10 \<and> distinct (GetBroadcastPeers s')"
proof -
  have "pool_ok s" using assms(2) by (simp add: pool_ok_def GetBroadcastPeers_def)
  with pool_keeper.run_keeps [OF assms(1) [unfolded startBroadcastPoolMaintainer_def]] have "pool_ok s'" by blast
  then show ?thesis by (simp add: pool_ok_def maxBroadcastPeers_def)
qed

section \<open>Witnesses\<close>

text \<open>A client whose connection takes no more writes.\<close>

definition mute_client :: P2PClient where
  "mute_client = lone_client\<lparr>pLink := (pLink lone_client)\<lparr>conn :=
     Some \<lparr>inbox = [], connEnd = EndClosed, outbox = [], room = 0\<rparr>\<rparr>\<rparr>"

definition deafTick :: SyncTick where
  "deafTick = \<lparr>stEnv = net_env None, stPool = [], stArrive = id\<rparr>"

lemma mute_write:
  assumes "conn l = Some cn" "room cn = 0"
  shows "writeMessage command bs l = (Inl WriteFailed, disconnect l)"
  by (rule writeMessage_cases [of l command bs])
     (use assms frame_nonempty [of "magic l" command bs] in \<open>auto simp: frame_def\<close>)

lemma mute_requestHeaders:
  assumes "conn (pLink c) = Some cn" "room cn = 0" "0 < neTicks env"
  shows "\<exists>c'. client_requestHeaders env c = Inr (Inl (Link WriteFailed), c')"
  using assms(3) mute_write [OF assms(1,2)]
  by (cases "neTicks env") (simp_all add: client_requestHeaders_def requestHeaders_def request_loop.simps sendGetHeaders_def)

lemma mute_request: "\<exists>c'. connect_and_request (net_env None) mute_client = Some (Inr (Some (Inl (Link WriteFailed)), c'))"
  using mute_requestHeaders [of mute_client _ "net_env None"]
  by (auto simp: connect_and_request_def ensureConnected_def mute_client_def net_env_def Let_def)

theorem background_sync_follows_links_witness:
  "\<exists>c'. backgroundHeaderSyncLoop deafTick [] mute_client = Some (Inr c') \<and> extends (pChain mute_client) (pChain c')"
proof -
  obtain c' where "backgroundHeaderSyncLoop deafTick [] mute_client = Some (Inr c')"
    using mute_request by (auto simp: backgroundHeaderSyncLoop_def background_tick_def fetchHeadersInBackground_def deafTick_def)
  with background_sync_follows_links show ?thesis by blast
qed

theorem monitor_sync_follows_links_witness:
  "\<exists>c'. SyncHeadersForMonitor ''testnet'' (net_env None) [] mute_client = Some (Inr c') \<and>
    extends ((pChain mute_client)\<lparr>network := ''testnet''\<rparr>) (pChain c')"
proof -
  let ?c = "mute_client\<lparr>pChain := (pChain mute_client)\<lparr>network := ''testnet''\<rparr>\<rparr>"
  obtain c' where q: "client_requestHeaders (net_env None) ?c = Inr (Inl (Link WriteFailed), c')"
    using mute_requestHeaders [of ?c _ "net_env None"] by (auto simp: mute_client_def net_env_def)
  have e: "ensureConnected (net_env None) ?c = Some (Inr (Inr (), ?c))" "\<not> throttled 9 (pChain ?c)"
    by (simp_all add: ensureConnected_def throttled_def mute_client_def lone_client_def newHeaderChain_def setNetwork_def Let_def)
  have "\<exists>r c'. GetTipHeader (net_env None) ?c = Some (Inr (r, c'))"
    using q e by (simp add: GetTipHeader_def net_env_def Let_def split: option.split)
  then obtain r c' where "GetTipHeader (net_env None) ?c = Some (Inr (r, c'))" by blast
  then have "SyncHeadersForMonitor ''testnet'' (net_env None) [] mute_client = Some (Inr c')"
    by (simp add: SyncHeadersForMonitor_def monitor_tick_def)
  with monitor_sync_follows_links show ?thesis by blast
qed

definition lonely_pool :: PoolClient where
  "lonely_pool = \<lparr>pcClient = lone_client\<lparr>pLink := (pLink lone_client)\<lparr>knownPeers := []\<rparr>\<rparr>, pcPool = [],
     pcLastAddr = Map.empty, pcTrace = []\<rparr>"

theorem keeper_bounded_witness:
  "\<exists>s'. startBroadcastPoolMaintainer (net_env None) [net_env None] lonely_pool = Some (Inr s') \<and> length (pcPool s') \<le> 10"
proof -
  have p: "pool_candidates env (pcClient lonely_pool) = ([], pcClient lonely_pool)" for env
    by (simp add: pool_candidates_def lonely_pool_def filterBadPeers_def set_book_def known_def TrimSpace_def Let_def lone_client_def)
  have e: "pcPool lonely_pool = []" by (simp add: lonely_pool_def)
  have a: "add_peers env n [] s = Inr s" for env n s by (cases n) simp_all
  have "maintainBroadcastConnections env lonely_pool = Inr lonely_pool" for env
    by (simp add: maintainBroadcastConnections_def p e a maxBroadcastPeers_def)
  then have "startBroadcastPoolMaintainer (net_env None) [net_env None] lonely_pool = Some (Inr lonely_pool)"
    by (simp add: startBroadcastPoolMaintainer_def keeper_tick_def)
  with keeper_bounded [OF this] show ?thesis by (simp add: lonely_pool_def)
qed

end
