(* ===== verification/WebServer.thy ===== *)
theory WebServer
  imports RpcMining Background
begin

text \<open>
  The program around the miner, \<open>main()\<close> of \<open>src/main.go\<close>: the configuration file, start-up, the statistics
  and the HTTP and WebSocket handlers. A request is one step of the application; the restart that a
  change of the configuration schedules for a second later is a step of its own. Request bodies are what
  their JSON decodes to, \<open>None\<close> where it does not. \<open>Stop\<close> tells the mining loops to end and waits for them; where one
  of them never ends, the request is never answered, and the others go on. A panic in a handler ends only that
  request, which \<open>net/http\<close> sees to.
\<close>

section \<open>The configuration file\<close>

datatype config_file = Missing | Unreadable | NotJson | Saved MinerConfig

datatype load_error = NoConfigFile | ReadConfigFailed | ParseConfigFailed
datatype save_error = ConfigDirFailed | ConfigWriteFailed

definition loadConfigFromFile :: "config_file \<Rightarrow> load_error + MinerConfig" where
  "loadConfigFromFile f =
     (case f of
        Missing \<Rightarrow> Inl NoConfigFile
      | Unreadable \<Rightarrow> Inl ReadConfigFailed
      | NotJson \<Rightarrow> Inl ParseConfigFailed
      | Saved c \<Rightarrow> Inr (migrate_config c))"

text \<open>A write that fails leaves the file as \<open>deWriteFails\<close> says.\<close>

record DiskEnv =
  deMkdirOk :: bool
  deWriteFails :: "config_file option"

definition saveConfigToFile :: "DiskEnv \<Rightarrow> MinerConfig \<Rightarrow> config_file \<Rightarrow> (save_error + unit) \<times> config_file" where
  "saveConfigToFile disk config f =
     (if \<not> deMkdirOk disk then (Inl ConfigDirFailed, f)
      else case deWriteFails disk of
        Some f' \<Rightarrow> (Inl ConfigWriteFailed, f')
      | None \<Rightarrow> (Inr (), Saved config))"

section \<open>The application\<close>

text \<open>
  \<open>apLoops\<close> counts the mining loops (\<open>m.wg\<close>) that have not been told to end and \<open>apStuck\<close> those that have been and never
  will, \<open>apRestarts\<close> the restarts waiting for their second,
  \<open>apHadConfig\<close> is \<open>hadConfigAtStartup\<close>, \<open>apLog\<close> the captured log and \<open>apClients\<close> the WebSocket clients.
\<close>

record App =
  apMiner :: Miner
  apLoops :: nat
  apStuck :: nat
  apRestarts :: nat
  apStats :: MiningStats
  apBlocks :: "SubmittedBlock list"
  apConfigFile :: config_file
  apHadConfig :: bool
  apLog :: "string list"
  apClients :: "nat list"

text \<open>What the world says to a step: connection tests, the disk, new keys, the state of the P2P client and the fetched headers; and
  whether the mining loops, when this step tells them to end, all do so (a round that never returns does not).\<close>

datatype key_error = KeyFailed | AddressFailed

record WebEnv =
  weCores :: int
  weGpu :: bool
  weRpcOk :: "RPCCredentials \<Rightarrow> bool"
  weDisk :: DiskEnv
  weNewKey :: "bool \<Rightarrow> key_error + string \<times> string"
  weClient :: P2PClient
  weFetcher :: HeaderFetcher
  weErrorText :: "start_error \<Rightarrow> string"
  weLoopsEnd :: bool

definition config_creds :: "MinerConfig \<Rightarrow> RPCCredentials" where
  "config_creds c = \<lparr>rpcUrl = RPCURL c, rpcUser = RPCUser c, rpcPass = RPCPass c\<rparr>"

definition web_Start :: "WebEnv \<Rightarrow> App \<Rightarrow> (start_error + unit) \<times> App" where
  "web_Start env app =
     (case StartMiner (weRpcOk env (config_creds (mConfig (apMiner app)))) (apMiner app) of
        Inl e \<Rightarrow> (Inl e, app)
      | Inr m \<Rightarrow> (Inr (), app\<lparr>apMiner := m, apLoops := apLoops app + 1\<rparr>))"

text \<open>Do all mining loops end when they are told to? Afterwards none is left that has not been told.\<close>

definition loops_end :: "WebEnv \<Rightarrow> App \<Rightarrow> bool" where
  "loops_end env app \<longleftrightarrow> apStuck app = 0 \<and> (apLoops app = 0 \<or> weLoopsEnd env)"

definition told_to_end :: "WebEnv \<Rightarrow> App \<Rightarrow> App" where
  "told_to_end env app =
     app\<lparr>apLoops := 0, apStuck := (if weLoopsEnd env then apStuck app else apStuck app + apLoops app)\<rparr>"

definition web_Stop :: "WebEnv \<Rightarrow> App \<Rightarrow> (stop_halt + unit) \<times> App" where
  "web_Stop env app =
     (case StopMiner (loops_end env app) (apMiner app) of (r, m) \<Rightarrow> (r, (told_to_end env app)\<lparr>apMiner := m\<rparr>))"

definition web_log :: "string \<Rightarrow> App \<Rightarrow> App" where
  "web_log msg app = app\<lparr>apMiner := broadcastLogMessage msg (apMiner app)\<rparr>"

text \<open>\<open>UpdateConfig\<close> with what it does outside the miner: it may stop the loops, and it saves the file.\<close>

definition web_UpdateConfig :: "WebEnv \<Rightarrow> MinerConfig \<Rightarrow> App \<Rightarrow> (stop_halt + (update_error + unit)) \<times> App" where
  "web_UpdateConfig env config app =
     (case UpdateConfig (weCores env) (weRpcOk env (config_creds config)) (loops_end env app) config (apMiner app) of
        (r, m) \<Rightarrow>
          let stops = mStatus (apMiner app) = ''running'' \<and> r \<noteq> Inr (Inl ConnectionTestFailed);
              app = (if stops then told_to_end env app else app)\<lparr>apMiner := m\<rparr>
          in (r, if r = Inr (Inr ())
                 then app\<lparr>apConfigFile := snd (saveConfigToFile (weDisk env) (mConfig m) (apConfigFile app))\<rparr>
                 else app))"

section \<open>Statistics\<close>

record StatsView =
  svStats :: MiningStats
  svStatus :: string
  svLogMessages :: "string list"
  svPeer :: "(string \<times> PeerInfo) option"
  svNetwork :: string
  svPayoutAddress :: string
  svDeviceType :: string
  svPayments :: "P2PMonitorStats option"
  svExpectedSeconds :: rat

definition GetStats :: "WebEnv \<Rightarrow> App \<Rightarrow> StatsView" where
  "GetStats env app =
     (let m = apMiner app;
          diff = (case msCurrentBlock (apStats app) of
                    None \<Rightarrow> 0 | Some b \<Rightarrow> if 0 < biDifficulty b then biDifficulty b else 0)
      in \<lparr>svStats = apStats app, svStatus = mStatus m, svLogMessages = mLogMessages m,
          svPeer = (if mP2pClient m = None then None else Some (GetPeerAddr (weClient env), GetPeerInfo (weClient env))),
          svNetwork = cfgNetwork (mConfig m), svPayoutAddress = PayoutAddr (mConfig m),
          svDeviceType = DeviceType (mConfig m), svPayments = map_option GetMonitorStats (mPaymentMonitor m),
          svExpectedSeconds = expectedSecondsPerBlockAt diff (msHashRate (apStats app))\<rparr>)"

definition fetcher_stats :: "WebEnv \<Rightarrow> App \<Rightarrow> nat \<times> int" where
  "fetcher_stats env app =
     (if mHeaderFetcher (apMiner app) = None then (0, -1)
      else (GetHeadersCount (weFetcher env), GetLastHeight (weFetcher env)))"

text \<open>What goes out to the WebSocket clients, and their coming and going.\<close>

definition broadcastStats :: "WebEnv \<Rightarrow> App \<Rightarrow> (nat \<times> StatsView) list" where
  "broadcastStats env app = map (\<lambda>c. (c, GetStats env app)) (apClients app)"

definition ws_connect :: "WebEnv \<Rightarrow> nat \<Rightarrow> App \<Rightarrow> StatsView \<times> App" where
  "ws_connect env c app =
     (let app = app\<lparr>apClients := (if c \<in> set (apClients app) then apClients app else c # apClients app)\<rparr>
      in (GetStats env app, app))"

definition ws_close :: "nat \<Rightarrow> App \<Rightarrow> App" where
  "ws_close c app = app\<lparr>apClients := removeAll c (apClients app)\<rparr>"

section \<open>Requests\<close>

datatype http_method = GET | POST | OtherMethod

datatype api_call =
    ApiLogs
  | ApiStats
  | ApiSubmittedBlocks
  | ApiStart
  | ApiStop
  | ApiConfig "MinerConfig option"
  | ApiTestConnection "MinerConfig option"
  | ApiGenerateAddress "string option"
  | ApiHashLogging "bool option"

datatype api_body =
    NoBody
  | LinesBody "string list"
  | StatsBody StatsView nat int
  | BlocksBody "SubmittedBlock list"
  | ConfigBody MinerConfig bool
  | RestartedBody bool
  | SuccessBody
  | AddressBody string string
  | MethodNotAllowed
  | InvalidJson
  | PayoutMissing
  | StartFailed start_error
  | UpdateFailed update_error
  | ConnectionFailed
  | KeyNotMade key_error

text \<open>\<open>NoAnswer\<close>: the handler never returns.\<close>

datatype answer = Answer nat api_body | Aborted go_panic | NoAnswer

definition halted_answer :: "stop_halt \<Rightarrow> answer" where
  "halted_answer h = (case h of StopPanics p \<Rightarrow> Aborted p | LoopsRunOn \<Rightarrow> NoAnswer)"

text \<open>The exchange of the ends, as the handler writes it.\<close>

fun reverse_blocks :: "'a list \<Rightarrow> nat \<Rightarrow> nat \<Rightarrow> nat \<Rightarrow> 'a list" where
  "reverse_blocks xs i j 0 = xs"
| "reverse_blocks xs i j (Suc n) =
     (if i < j then reverse_blocks (xs[i := xs ! j, j := xs ! i]) (i + 1) (j - 1) n else xs)"

definition newest_first :: "SubmittedBlock list \<Rightarrow> SubmittedBlock list" where
  "newest_first blocks = reverse_blocks blocks 0 (length blocks - 1) (length blocks)"

definition restart_message :: "MinerConfig \<Rightarrow> string" where
  "restart_message c =
     ''Restarting with new config: Threads='' @ Itoa (cfgThreadCount c) @ '', Intensity='' @ MiningIntensity c @
     '', Device='' @ DeviceType c"

text \<open>The first half of \<open>POST /api/config\<close>: a running miner is stopped before anything is checked.\<close>

definition stop_for_config :: "WebEnv \<Rightarrow> App \<Rightarrow> (stop_halt + unit) \<times> App" where
  "stop_for_config env app =
     (if mStatus (apMiner app) = ''running'' then
        (case web_Stop env (web_log ''Stopping mining to apply configuration changes...'' app) of
           (Inl h, app) \<Rightarrow> (Inl h, app)
         | (Inr u, app) \<Rightarrow> (Inr (), app\<lparr>apMiner := (apMiner app)\<lparr>mStatus := ''stopped''\<rparr>\<rparr>))
      else (Inr (), app))"

definition post_config :: "WebEnv \<Rightarrow> MinerConfig option \<Rightarrow> App \<Rightarrow> answer \<times> App" where
  "post_config env body app =
     (case body of
        None \<Rightarrow> (Answer 400 InvalidJson, app)
      | Some config \<Rightarrow>
          let wasRunning = mStatus (apMiner app) = ''running'' in
          case stop_for_config env app of
            (Inl h, app) \<Rightarrow> (halted_answer h, app)
          | (Inr u, app) \<Rightarrow>
              if TrimSpace (start_payout config) = '''' then (Answer 400 PayoutMissing, app)
              else case web_UpdateConfig env config app of
                (Inl h, app) \<Rightarrow> (halted_answer h, app)
              | (Inr (Inl e), app) \<Rightarrow> (Answer 400 (UpdateFailed e), app)
              | (Inr (Inr u), app) \<Rightarrow>
                  (Answer 200 (RestartedBody wasRunning),
                   if wasRunning
                   then web_log (restart_message (mConfig (apMiner app))) (app\<lparr>apRestarts := apRestarts app + 1\<rparr>)
                   else app))"

text \<open>The goroutine that starts the miner again, when its second is over.\<close>

definition restart_fires :: "WebEnv \<Rightarrow> App \<Rightarrow> App" where
  "restart_fires env app =
     (if apRestarts app = 0 then app
      else case web_Start env (app\<lparr>apRestarts := apRestarts app - 1\<rparr>) of
        (Inl e, app) \<Rightarrow> web_log (''Failed to restart miner: '' @ weErrorText env e) app
      | (Inr u, app) \<Rightarrow> web_log ''Miner restarted with new configuration'' app)"

text \<open>\<open>strings.ToLower\<close> on ASCII letters.\<close>

definition lower_char :: "char \<Rightarrow> char" where
  "lower_char c = (if 65 \<le> (of_char c :: nat) \<and> (of_char c :: nat) \<le> 90 then char_of ((of_char c :: nat) + 32) else c)"

definition generate_address :: "WebEnv \<Rightarrow> string option \<Rightarrow> answer" where
  "generate_address env body =
     (case body of
        None \<Rightarrow> Answer 400 InvalidJson
      | Some net0 \<Rightarrow>
          let net = map lower_char (TrimSpace net0);
              net = (if net \<noteq> ''mainnet'' \<and> net \<noteq> ''testnet'' then ''testnet'' else net)
          in case weNewKey env (net = ''testnet'') of
               Inl e \<Rightarrow> Answer 500 (KeyNotMade e)
             | Inr (addr, wif) \<Rightarrow> Answer 200 (AddressBody addr wif))"

definition test_connection :: "WebEnv \<Rightarrow> MinerConfig option \<Rightarrow> answer" where
  "test_connection env body =
     (case body of
        None \<Rightarrow> Answer 400 InvalidJson
      | Some c \<Rightarrow> if \<not> weRpcOk env (config_creds c) then Answer 400 ConnectionFailed else Answer 200 SuccessBody)"

definition handle :: "WebEnv \<Rightarrow> http_method \<Rightarrow> api_call \<Rightarrow> App \<Rightarrow> answer \<times> App" where
  "handle env meth call app =
     (case call of
        ApiLogs \<Rightarrow> (Answer 200 (LinesBody (apLog app)), app)
      | ApiStats \<Rightarrow> (case fetcher_stats env app of (n, k) \<Rightarrow> (Answer 200 (StatsBody (GetStats env app) n k), app))
      | ApiSubmittedBlocks \<Rightarrow> (Answer 200 (BlocksBody (newest_first (apBlocks app))), app)
      | ApiStart \<Rightarrow>
          if meth \<noteq> POST then (Answer 405 MethodNotAllowed, app)
          else (case web_Start env app of
             (Inl e, app) \<Rightarrow> (Answer 400 (StartFailed e), app) | (Inr u, app) \<Rightarrow> (Answer 200 NoBody, app))
      | ApiStop \<Rightarrow>
          if meth \<noteq> POST then (Answer 405 MethodNotAllowed, app)
          else (case web_Stop env app of (Inl h, app) \<Rightarrow> (halted_answer h, app) | (Inr u, app) \<Rightarrow> (Answer 200 NoBody, app))
      | ApiConfig body \<Rightarrow>
          if meth = GET then (Answer 200 (ConfigBody (mConfig (apMiner app)) (\<not> apHadConfig app)), app)
          else if meth = POST then post_config env body app
          else (Answer 405 MethodNotAllowed, app)
      | ApiTestConnection body \<Rightarrow>
          if meth \<noteq> POST then (Answer 405 MethodNotAllowed, app) else (test_connection env body, app)
      | ApiGenerateAddress body \<Rightarrow>
          if meth \<noteq> POST then (Answer 405 MethodNotAllowed, app) else (generate_address env body, app)
      | ApiHashLogging body \<Rightarrow>
          if meth \<noteq> POST then (Answer 405 MethodNotAllowed, app)
          else (case body of
             None \<Rightarrow> (Answer 400 InvalidJson, app)
           | Some enabled \<Rightarrow> (Answer 200 SuccessBody, app\<lparr>apMiner := SetHashLogging enabled (apMiner app)\<rparr>)))"

section \<open>Start-up\<close>

text \<open>The miner of a program that reaches no node: a first run, or a node that is down.\<close>

definition fallback_config :: "RPCCredentials \<Rightarrow> MinerConfig option \<Rightarrow> MinerConfig" where
  "fallback_config creds saved =
     \<lparr>RPCURL = rpcUrl creds, RPCUser = rpcUser creds, RPCPass = rpcPass creds,
      PayoutAddr = (case saved of Some c \<Rightarrow> PayoutAddr c | None \<Rightarrow> ''''),
      PayoutAddrMainnet = '''', PayoutAddrTestnet = '''',
      cfgNetwork = (case saved of Some c \<Rightarrow> or_default (cfgNetwork c) ''testnet'' | None \<Rightarrow> ''testnet''),
      ConnectionMode = ''p2p'',
      P2PCheckpoint = (case saved of Some c \<Rightarrow> or_default (P2PCheckpoint c) ''42799352'' | None \<Rightarrow> ''42799352''),
      P2PPeerOverride = '''', P2PPeerOverrideMainnet = '''', P2PPeerOverrideTestnet = '''',
      DeviceType = (case saved of Some c \<Rightarrow> or_default (DeviceType c) ''gpu'' | None \<Rightarrow> ''gpu''),
      cfgThreadCount = (case saved of Some c \<Rightarrow> if 0 < cfgThreadCount c then cfgThreadCount c else 64 | None \<Rightarrow> 64),
      cfgMaxHashes = (case saved of Some c \<Rightarrow> if 0 < cfgMaxHashes c then cfgMaxHashes c else 1000000 | None \<Rightarrow> 1000000),
      MiningIntensity = (case saved of Some c \<Rightarrow> or_default (MiningIntensity c) ''extreme'' | None \<Rightarrow> ''extreme''),
      cfgNonceSearchMode = '''', cfgNonceStartMode = '''', cfgUseStride = False, cfgDebugLogging = False\<rparr>"

definition fallback_miner :: "int \<Rightarrow> MinerConfig \<Rightarrow> Miner" where
  "fallback_miner numCPU c =
     \<lparr>mConfig = c,
      mMiner = SetNonceStrategy ''sequential'' ''calculated'' False
        (NewScryptMinerWithConfig (cfgMaxHashes c) (cfgThreadCount c)),
      mGpuMiner = gpu_SetNonceStrategy ''sequential'' ''calculated'' False
        (NewGPUMiner numCPU (cfgMaxHashes c) (cfgThreadCount c)),
      mRpcClient = None, mP2pClient = None, mPeerOverride = '''', mHeaderFetcher = None, mPaymentMonitor = None,
      mStatus = ''stopped'', mLogMessages = [], mEnableHashLogging = True, mStopped = False, mExtraNonce = 0,
      mOptimizerStopped = True\<rparr>"

definition start_creds :: "RPCCredentials \<Rightarrow> MinerConfig option \<Rightarrow> RPCCredentials" where
  "start_creds flags saved =
     (case saved of
        None \<Rightarrow> flags
      | Some c \<Rightarrow> \<lparr>rpcUrl = or_default (RPCURL c) (rpcUrl flags), rpcUser = or_default (RPCUser c) (rpcUser flags),
                   rpcPass = or_default (RPCPass c) (rpcPass flags)\<rparr>)"

definition app_of :: "config_file \<Rightarrow> Miner \<Rightarrow> App" where
  "app_of file m =
     \<lparr>apMiner = m, apLoops = 0, apStuck = 0, apRestarts = 0,
      apStats = \<lparr>msHashRate = 0, msTotalHashes = 0, msBlocksFound = 0, msBlocksAccepted = 0, msBlocksStale = 0,
        msCurrentBlock = None, msBlockAttemptSeconds = 0\<rparr>,
      apBlocks = [], apConfigFile = file,
      apHadConfig = (case loadConfigFromFile file of Inl e \<Rightarrow> False | Inr c \<Rightarrow> True), apLog = [], apClients = []\<rparr>"

definition start_app :: "WebEnv \<Rightarrow> RPCCredentials \<Rightarrow> config_file \<Rightarrow> App" where
  "start_app env flags file =
     (let saved = (case loadConfigFromFile file of Inl e \<Rightarrow> None | Inr c \<Rightarrow> Some c);
          creds = start_creds flags saved
      in case saved of
           Some c \<Rightarrow>
             if ConnectionMode c = ''p2p'' then app_of file (newMinerP2POnly (weCores env) (weGpu env) c)
             else (case NewMiner (weCores env) (weGpu env) (weRpcOk env creds) creds (PayoutAddr c) of
                 Inl e \<Rightarrow> app_of file (fallback_miner (weCores env) (fallback_config creds saved))
               | Inr m \<Rightarrow> snd (web_UpdateConfig env c (app_of file m)))
         | None \<Rightarrow>
             (case NewMiner (weCores env) (weGpu env) (weRpcOk env creds) creds '''' of
                 Inl e \<Rightarrow> app_of file (fallback_miner (weCores env) (fallback_config creds saved))
               | Inr m \<Rightarrow> app_of file m))"

text \<open>Binding a port: the one asked for, then the alternatives while they are in use.\<close>

datatype listen_result = Listening string | PortInUse | ListenFailed
datatype serve_result = Serving string | ServerError | NoPortFree

fun bind_port :: "(string \<Rightarrow> listen_result) \<Rightarrow> string list \<Rightarrow> serve_result" where
  "bind_port listen [] = NoPortFree"
| "bind_port listen (p # ps) =
     (case listen p of PortInUse \<Rightarrow> bind_port listen ps | ListenFailed \<Rightarrow> ServerError | Listening q \<Rightarrow> Serving q)"

definition serve :: "(string \<Rightarrow> listen_result) \<Rightarrow> string \<Rightarrow> serve_result" where
  "serve listen first = bind_port listen [first, ''42070'', ''42071'', ''42072'', ''42073'', ''42074'']"

text \<open>\<open>runDiagnosticTest\<close>: one hash, then the first ten thousand nonces of a fixed header.\<close>

definition diagnostic_header :: "u32 \<Rightarrow> byte list" where
  "diagnostic_header nonce = put_u32 2 @ replicate 64 0 @ put_u32 1 @ put_u32 0x1b0404cb @ put_u32 nonce"

primrec diagnostic_loop :: "scrypt_key \<Rightarrow> ScryptMiner \<Rightarrow> byte list \<Rightarrow> nat \<Rightarrow> u32 \<Rightarrow> go_panic + u32 option" where
  "diagnostic_loop key sm target 0 i = Inr None"
| "diagnostic_loop key sm target (Suc n) i =
     ebind (scryptHash key sm (diagnostic_header i)) (\<lambda>h.
       if hashMeetsTargetLE h target then Inr (Some i) else diagnostic_loop key sm target n (i + 1))"

definition runDiagnosticTest :: "scrypt_key \<Rightarrow> ScryptMiner \<Rightarrow> go_panic + u32 option" where
  "runDiagnosticTest key sm =
     ebind (scryptHash key sm (diagnostic_header 0)) (\<lambda>_.
     ebind (target_le_bytes (BitsToTarget 0x1b0404cb)) (\<lambda>target.
       diagnostic_loop key sm target 10000 0))"

section \<open>Steps of the application\<close>

text \<open>A request, or the end of the second a restart waits for, with what the world says to it.\<close>

datatype web_event = Request WebEnv http_method api_call | RestartDue WebEnv

fun web_step :: "web_event \<Rightarrow> App \<Rightarrow> App" where
  "web_step (Request env meth call) app = snd (handle env meth call app)"
| "web_step (RestartDue env) app = restart_fires env app"

definition web_run :: "web_event list \<Rightarrow> App \<Rightarrow> App" where
  "web_run events app = fold web_step events app"

section \<open>Start and stop\<close>

lemma web_log_miner_simps [simp]:
  "mHeaderFetcher (broadcastLogMessage msg m) = mHeaderFetcher m" "mRpcClient (broadcastLogMessage msg m) = mRpcClient m"
  "mStopped (broadcastLogMessage msg m) = mStopped m" "mP2pClient (broadcastLogMessage msg m) = mP2pClient m"
  by (simp_all add: broadcastLogMessage_def add_log_def Let_def)

lemma web_log_simps [simp]:
  "mConfig (apMiner (web_log msg app)) = mConfig (apMiner app)" "mStatus (apMiner (web_log msg app)) = mStatus (apMiner app)"
  "mHeaderFetcher (apMiner (web_log msg app)) = mHeaderFetcher (apMiner app)"
  "mRpcClient (apMiner (web_log msg app)) = mRpcClient (apMiner app)"
  "apLoops (web_log msg app) = apLoops app" "apStuck (web_log msg app) = apStuck app" "apRestarts (web_log msg app) = apRestarts app"
  "apConfigFile (web_log msg app) = apConfigFile app"
  by (simp_all add: web_log_def)

lemma StartMiner_ok:
  assumes "StartMiner rpcOk m = Inr m'"
  shows "TrimSpace (start_payout (mConfig m)) \<noteq> ''''" "mStatus m' = ''running''" "mConfig m' = mConfig m"
    and "ConnectionMode (mConfig m) = ''p2p'' \<Longrightarrow> mHeaderFetcher m' = None \<and> mRpcClient m' = mRpcClient m"
    and "ConnectionMode (mConfig m) \<noteq> ''p2p'' \<Longrightarrow> mRpcClient m' \<noteq> None \<and>
      (if mRpcClient m = None then mHeaderFetcher m' = Some False else mHeaderFetcher m' = mHeaderFetcher m)"
  using assms
  by (auto simp: StartMiner_def start_connection_def Let_def ebind_eq_Inr_iff split: if_splits)

lemma StartMiner_total:
  assumes "TrimSpace (start_payout (mConfig m)) \<noteq> ''''"
    and "ConnectionMode (mConfig m) = ''p2p'' \<or> mRpcClient m \<noteq> None"
  shows "\<exists>m'. StartMiner rpcOk m = Inr m'"
  using assms by (auto simp: StartMiner_def start_connection_def Let_def)

lemma StopMiner_ok:
  assumes "StopMiner loopsEnd m = (Inr u, m')"
  shows "loopsEnd" "mHeaderFetcher m \<noteq> Some True" "mStatus m' = ''stopped''" "mConfig m' = mConfig m"
    and "mRpcClient m' = mRpcClient m" "mHeaderFetcher m' = map_option (\<lambda>_. True) (mHeaderFetcher m)"
  using assms by (auto simp: StopMiner_def Let_def broadcastLogMessage_def add_log_def split: if_splits)

lemma StopMiner_result:
  "mHeaderFetcher m \<noteq> Some True \<Longrightarrow> \<exists>m'. StopMiner True m = (Inr (), m')"
  "mHeaderFetcher m \<noteq> Some True \<Longrightarrow> \<exists>m'. StopMiner False m = (Inl LoopsRunOn, m') \<and> mStatus m' = mStatus m"
  "mHeaderFetcher m = Some True \<Longrightarrow> StopMiner loopsEnd m = (Inl (StopPanics CloseOfClosedChannel), m\<lparr>mStopped := True\<rparr>)"
  by (simp_all add: StopMiner_def Let_def)

lemma StopMiner_keeps:
  "StopMiner loopsEnd m = (r, m') \<Longrightarrow> mStatus m' = mStatus m \<or> mStatus m' = ''stopped''"
  by (auto simp: StopMiner_def Let_def broadcastLogMessage_def add_log_def split: if_splits)

lemma told_to_end_simps [simp]:
  "apLoops (told_to_end env app) = 0" "apRestarts (told_to_end env app) = apRestarts app"
  "apConfigFile (told_to_end env app) = apConfigFile app" "apMiner (told_to_end env app) = apMiner app"
  "loops_end env app \<Longrightarrow> apStuck (told_to_end env app) = 0" "apStuck app \<le> apStuck (told_to_end env app)"
  by (auto simp: told_to_end_def loops_end_def)

lemma web_Start_ok:
  assumes "web_Start env app = (Inr u, app')"
  obtains m where "StartMiner (weRpcOk env (config_creds (mConfig (apMiner app)))) (apMiner app) = Inr m"
    and "app' = app\<lparr>apMiner := m, apLoops := apLoops app + 1\<rparr>"
  using assms by (auto simp: web_Start_def split: sum.splits)

lemma web_Start_payout:
  "TrimSpace (start_payout (mConfig (apMiner app))) = '''' \<Longrightarrow> web_Start env app = (Inl PayoutRequired, app)"
  by (simp add: web_Start_def StartMiner_def)

lemma web_Stop_ok:
  assumes "web_Stop env app = (Inr u, app')"
  obtains m where "StopMiner True (apMiner app) = (Inr (), m)" "app' = (told_to_end env app)\<lparr>apMiner := m\<rparr>" "loops_end env app"
proof -
  from assms obtain m where m: "StopMiner (loops_end env app) (apMiner app) = (Inr (), m)" "app' = (told_to_end env app)\<lparr>apMiner := m\<rparr>"
    by (auto simp: web_Stop_def split: prod.splits)
  from StopMiner_ok(1) [OF m(1)] have "loops_end env app" .
  with m that show thesis by simp
qed

text \<open>A change of the configuration that gets past the stop.\<close>

lemma stop_for_config_ok:
  assumes "stop_for_config env app = (Inr u, a)"
  shows "mStatus (apMiner a) \<noteq> ''running''" "mConfig (apMiner a) = mConfig (apMiner app)" "apRestarts a = apRestarts app"
    and "apConfigFile a = apConfigFile app" "apLoops a = (if mStatus (apMiner app) = ''running'' then 0 else apLoops app)"
    and "mStatus (apMiner a) = (if mStatus (apMiner app) = ''running'' then ''stopped'' else mStatus (apMiner app))"
    and "apStuck a = (if mStatus (apMiner app) = ''running'' then 0 else apStuck app)"
proof -
  let ?app = "web_log ''Stopping mining to apply configuration changes...'' app"
  have "mStatus (apMiner a) \<noteq> ''running'' \<and> mConfig (apMiner a) = mConfig (apMiner app) \<and> apRestarts a = apRestarts app \<and>
    apConfigFile a = apConfigFile app \<and> apLoops a = (if mStatus (apMiner app) = ''running'' then 0 else apLoops app) \<and>
    mStatus (apMiner a) = (if mStatus (apMiner app) = ''running'' then ''stopped'' else mStatus (apMiner app)) \<and>
    apStuck a = (if mStatus (apMiner app) = ''running'' then 0 else apStuck app)"
  proof (cases "mStatus (apMiner app) = ''running''")
    case False
    with assms show ?thesis by (simp add: stop_for_config_def)
  next
    case True
    with assms obtain a1 where a1: "web_Stop env ?app = (Inr (), a1)" "a = a1\<lparr>apMiner := (apMiner a1)\<lparr>mStatus := ''stopped''\<rparr>\<rparr>"
      by (auto simp: stop_for_config_def split: prod.splits sum.splits)
    from a1(1) obtain m where m: "StopMiner True (apMiner ?app) = (Inr (), m)" "a1 = (told_to_end env ?app)\<lparr>apMiner := m\<rparr>"
      "loops_end env ?app" by (rule web_Stop_ok)
    from StopMiner_ok [OF m(1)] True m a1(2) show ?thesis by simp
  qed
  then show "mStatus (apMiner a) \<noteq> ''running''" "mConfig (apMiner a) = mConfig (apMiner app)" "apRestarts a = apRestarts app"
    "apConfigFile a = apConfigFile app" "apLoops a = (if mStatus (apMiner app) = ''running'' then 0 else apLoops app)"
    "mStatus (apMiner a) = (if mStatus (apMiner app) = ''running'' then ''stopped'' else mStatus (apMiner app))"
    "apStuck a = (if mStatus (apMiner app) = ''running'' then 0 else apStuck app)" by blast+
qed

text \<open>It does when every loop ends and the header fetcher has not been stopped before.\<close>

definition can_stop :: "WebEnv \<Rightarrow> App \<Rightarrow> bool" where
  "can_stop env app \<longleftrightarrow> mHeaderFetcher (apMiner app) \<noteq> Some True \<and> loops_end env app"

lemma stop_for_config_returns:
  assumes "mStatus (apMiner app) = ''running'' \<Longrightarrow> can_stop env app"
  obtains a where "stop_for_config env app = (Inr (), a)"
proof (cases "mStatus (apMiner app) = ''running''")
  case True
  let ?app = "web_log ''Stopping mining to apply configuration changes...'' app"
  from assms [OF True] have f: "mHeaderFetcher (apMiner ?app) \<noteq> Some True" "loops_end env ?app"
    by (simp_all add: can_stop_def loops_end_def)
  from StopMiner_result(1) [OF f(1)] obtain m where "StopMiner True (apMiner ?app) = (Inr (), m)" by blast
  with True f(2) that show thesis by (simp add: stop_for_config_def web_Stop_def)
next
  case False
  with that show thesis by (simp add: stop_for_config_def)
qed

section \<open>Changing the configuration\<close>

definition connects :: "WebEnv \<Rightarrow> MinerConfig \<Rightarrow> bool" where
  "connects env config \<longleftrightarrow> ConnectionMode (connection_config config) = ''p2p'' \<or> weRpcOk env (config_creds config)"

definition configured :: "WebEnv \<Rightarrow> MinerConfig \<Rightarrow> App \<Rightarrow> App" where
  "configured env config app =
     (let m = apply_config (weCores env) (connection_config config) (apMiner app)
      in app\<lparr>apMiner := m, apConfigFile := snd (saveConfigToFile (weDisk env) (mConfig m) (apConfigFile app))\<rparr>)"

lemma configured_simps [simp]:
  "apMiner (configured env config app) = apply_config (weCores env) (connection_config config) (apMiner app)"
  "apLoops (configured env config app) = apLoops app" "apRestarts (configured env config app) = apRestarts app"
  "apConfigFile (configured env config app) = snd (saveConfigToFile (weDisk env)
     (mConfig (apply_config (weCores env) (connection_config config) (apMiner app))) (apConfigFile app))"
  by (simp_all add: configured_def Let_def)

lemma web_UpdateConfig_stopped:
  assumes "mStatus (apMiner app) \<noteq> ''running''"
  shows "web_UpdateConfig env config app =
    (if connects env config then (Inr (Inr ()), configured env config app) else (Inr (Inl ConnectionTestFailed), app))"
  using assms by (auto simp: web_UpdateConfig_def UpdateConfig_def connects_def configured_def Let_def)

text \<open>What is left of the application when the old miner has been stopped.\<close>

lemma post_config_eq:
  assumes "stop_for_config env app = (Inr u, a)" "mStatus (apMiner a) \<noteq> ''running''"
  shows "post_config env (Some config) app =
    (if TrimSpace (start_payout config) = '''' then (Answer 400 PayoutMissing, a)
     else if \<not> connects env config then (Answer 400 (UpdateFailed ConnectionTestFailed), a)
     else (Answer 200 (RestartedBody (mStatus (apMiner app) = ''running'')),
       if mStatus (apMiner app) = ''running''
       then web_log (restart_message (mConfig (apMiner (configured env config a))))
         ((configured env config a)\<lparr>apRestarts := apRestarts a + 1\<rparr>)
       else configured env config a))"
  unfolding post_config_def option.simps assms(1)
  by (simp add: web_UpdateConfig_stopped [OF assms(2)])

text \<open>An accepted configuration, whatever was running before.\<close>

definition given_config :: "WebEnv \<Rightarrow> App \<Rightarrow> MinerConfig \<Rightarrow> MinerConfig" where
  "given_config env app config =
     apply_intensity (default_settings (weCores env) (DeviceType (mConfig (apMiner app))) (connection_config config))"

lemma post_config_accepts:
  assumes "mStatus (apMiner app) = ''running'' \<Longrightarrow> can_stop env app"
    and "TrimSpace (start_payout config) \<noteq> ''''" "connects env config"
  obtains app' where "post_config env (Some config) app = (Answer 200 (RestartedBody (mStatus (apMiner app) = ''running'')), app')"
    and "mConfig (apMiner app') = given_config env app config"
    and "mRpcClient (apMiner app') = (if ConnectionMode (connection_config config) = ''p2p'' then None
      else Some (config_creds (mConfig (apMiner app'))))"
    and "mStatus (apMiner app') = (if mStatus (apMiner app) = ''running'' then ''stopped'' else mStatus (apMiner app))"
    and "apLoops app' = (if mStatus (apMiner app) = ''running'' then 0 else apLoops app)"
    and "apRestarts app' = apRestarts app + (if mStatus (apMiner app) = ''running'' then 1 else 0)"
    and "apConfigFile app' = snd (saveConfigToFile (weDisk env) (mConfig (apMiner app')) (apConfigFile app))"
proof -
  obtain a where a0: "stop_for_config env app = (Inr (), a)" by (rule stop_for_config_returns [OF assms(1)])
  note a = stop_for_config_ok [OF a0]
  define c where "c = configured env config a"
  have rpc: "mRpcClient (apMiner c) = (if ConnectionMode (connection_config config) = ''p2p'' then None
      else Some (config_creds (mConfig (apMiner c))))"
    by (simp add: c_def apply_config_def Let_def config_creds_def)
  have post: "post_config env (Some config) app = (Answer 200 (RestartedBody (mStatus (apMiner app) = ''running'')),
      if mStatus (apMiner app) = ''running''
      then web_log (restart_message (mConfig (apMiner c))) (c\<lparr>apRestarts := apRestarts a + 1\<rparr>) else c)"
    using post_config_eq [OF a0 a(1)] assms(2,3) by (simp add: c_def)
  have fields: "mConfig (apMiner c) = given_config env app config"
    "mStatus (apMiner c) = mStatus (apMiner a)" "apLoops c = apLoops a" "apRestarts c = apRestarts a"
    "apConfigFile c = snd (saveConfigToFile (weDisk env) (mConfig (apMiner c)) (apConfigFile a))"
    by (simp_all add: c_def apply_config_fields given_config_def a(2))
  show thesis
    by (rule that [OF post]) (use rpc fields a(3-6) in \<open>auto\<close>)
qed

text \<open>A change that was answered with success.\<close>

lemma post_config_config:
  assumes "post_config env (Some config) app = (Answer 200 b, app')"
  shows "mConfig (apMiner app') = given_config env app config"
    and "apConfigFile app' = snd (saveConfigToFile (weDisk env) (mConfig (apMiner app')) (apConfigFile app))"
proof -
  obtain r a where ra: "stop_for_config env app = (r, a)" by fastforce
  with assms have "r = Inr ()"
    by (cases r) (auto simp: post_config_def halted_answer_def split: stop_halt.splits)
  with ra have a0: "stop_for_config env app = (Inr (), a)" by simp
  note a = stop_for_config_ok [OF a0]
  from assms post_config_eq [OF a0 a(1), of config] have "app' = configured env config a \<or>
      app' = web_log (restart_message (mConfig (apMiner (configured env config a))))
         ((configured env config a)\<lparr>apRestarts := apRestarts a + 1\<rparr>)"
    by (auto split: if_splits)
  then show "mConfig (apMiner app') = given_config env app config"
    "apConfigFile app' = snd (saveConfigToFile (weDisk env) (mConfig (apMiner app')) (apConfigFile app))"
    using a(2,4) by (auto simp: apply_config_fields given_config_def)
qed

lemma accepted_payout:
  assumes "c = given_config env app config"
  shows "start_payout c = PayoutAddr c" "PayoutAddr c = PayoutAddr (connection_config config)"
    and "cfgNetwork c = cfgNetwork (connection_config config)" "cfgNetwork c \<noteq> ''''"
    and "PayoutAddrTestnet c = PayoutAddrTestnet config" "PayoutAddrMainnet c = PayoutAddrMainnet config"
    and "ConnectionMode c = ConnectionMode (connection_config config)"
proof -
  have keep: "PayoutAddrTestnet (apply_intensity (default_settings n d x)) = PayoutAddrTestnet x"
    "PayoutAddrMainnet (apply_intensity (default_settings n d x)) = PayoutAddrMainnet x"
    "ConnectionMode (apply_intensity x) = ConnectionMode x" for n d x
    by (simp_all add: default_settings_def apply_intensity_def Let_def)
  show c: "PayoutAddr c = PayoutAddr (connection_config config)" "cfgNetwork c = cfgNetwork (connection_config config)"
    "PayoutAddrTestnet c = PayoutAddrTestnet config" "PayoutAddrMainnet c = PayoutAddrMainnet config"
    "ConnectionMode c = ConnectionMode (connection_config config)"
    by (simp_all add: assms given_config_def apply_config_fields keep connection_config_payout)
  show "cfgNetwork c \<noteq> ''''"
    by (simp add: c connection_config_def normalize_network_def or_default_def Let_def)
  show "start_payout c = PayoutAddr c"
    by (simp add: start_payout_def Let_def c connection_config_payout)
qed

lemma migrate_id:
  assumes "cfgNetwork c \<noteq> ''''"
    and "PayoutAddr c = (if cfgNetwork c = ''testnet'' then PayoutAddrTestnet c else PayoutAddrMainnet c)"
  shows "migrate_config c = (if cfgNetwork c = ''testnet'' \<and> PayoutAddrMainnet c = ''''
    then c\<lparr>PayoutAddrMainnet := PayoutAddrTestnet c\<rparr> else c)"
proof -
  define n where "n = cfgNetwork c"
  have same: "c\<lparr>cfgNetwork := n\<rparr> = c" "\<And>d. PayoutAddr d = x \<Longrightarrow> d\<lparr>PayoutAddr := x\<rparr> = d"
    "\<And>x. PayoutAddrMainnet c = x \<Longrightarrow> c\<lparr>PayoutAddrMainnet := x\<rparr> = c" for x by (auto simp: n_def)
  have "migrate_config c = (let d = (if PayoutAddrMainnet c = '''' \<and> PayoutAddr c \<noteq> ''''
      then c\<lparr>PayoutAddrMainnet := PayoutAddr c\<rparr> else c)
      in d\<lparr>PayoutAddr := (if n = ''testnet'' then PayoutAddrTestnet c else PayoutAddrMainnet d)\<rparr>)"
    using assms(1) unfolding migrate_config_def or_default_def n_def [symmetric] Let_def
    by (simp add: same(1)) (simp add: n_def)
  then show ?thesis
    using assms(2) same(2,3) unfolding n_def [symmetric] by (cases "n = ''testnet''") (auto simp: Let_def)
qed

lemma accepted_file:
  assumes "c = given_config env app config"
  shows "migrate_config c = (if cfgNetwork c = ''testnet'' \<and> PayoutAddrMainnet c = ''''
    then c\<lparr>PayoutAddrMainnet := PayoutAddrTestnet c\<rparr> else c)"
proof -
  note a = accepted_payout [OF assms]
  show ?thesis by (rule migrate_id [OF a(4)]) (simp add: a connection_config_payout)
qed

section \<open>A stopped header fetcher\<close>

text \<open>
  The state a miner in RPC mode is in when it has been started, stopped and started again: it runs, and
  the stop channel of its header fetcher is closed.
\<close>

definition wedged :: "MinerConfig \<Rightarrow> App \<Rightarrow> bool" where
  "wedged c app \<longleftrightarrow> mConfig (apMiner app) = c \<and> ConnectionMode c \<noteq> ''p2p'' \<and> mStatus (apMiner app) = ''running'' \<and>
     mHeaderFetcher (apMiner app) = Some True \<and> mRpcClient (apMiner app) \<noteq> None"

lemma web_Start_wedged: "wedged c app \<Longrightarrow> wedged c (snd (web_Start env app))"
  by (auto simp: web_Start_def wedged_def dest: StartMiner_ok split: sum.split)

lemma wedged_cong:
  assumes "wedged c app" "mConfig (apMiner app') = mConfig (apMiner app)" "mStatus (apMiner app') = mStatus (apMiner app)"
    and "mHeaderFetcher (apMiner app') = mHeaderFetcher (apMiner app)" "mRpcClient (apMiner app') = mRpcClient (apMiner app)"
  shows "wedged c app'"
  using assms by (simp add: wedged_def)

lemma web_Stop_wedged:
  assumes "wedged c app"
  shows "fst (web_Stop env app) = Inl (StopPanics CloseOfClosedChannel)" "wedged c (snd (web_Stop env app))"
    and "apLoops (snd (web_Stop env app)) = 0"
  using assms by (simp_all add: web_Stop_def wedged_def StopMiner_result(3))

lemma stop_for_config_wedged:
  assumes "wedged c app"
  shows "fst (stop_for_config env app) = Inl (StopPanics CloseOfClosedChannel) \<and> wedged c (snd (stop_for_config env app))"
proof -
  let ?app = "web_log ''Stopping mining to apply configuration changes...'' app"
  have "wedged c ?app" by (rule wedged_cong [OF assms]) simp_all
  from web_Stop_wedged [OF this, of env] obtain a where "web_Stop env ?app = (Inl (StopPanics CloseOfClosedChannel), a)" "wedged c a"
    by (metis prod.collapse)
  with assms show ?thesis by (simp add: stop_for_config_def wedged_def)
qed

lemma post_config_wedged:
  assumes "wedged c app"
  shows "wedged c (snd (post_config env body app))"
    and "post_config env (Some config) app = (Aborted CloseOfClosedChannel, snd (post_config env (Some config) app))"
proof -
  obtain a where a: "stop_for_config env app = (Inl (StopPanics CloseOfClosedChannel), a)" "wedged c a"
    using stop_for_config_wedged [OF assms] by (metis prod.collapse)
  then have p: "post_config env (Some config) app = (Aborted CloseOfClosedChannel, a)" for config
    by (simp add: post_config_def halted_answer_def)
  then show "post_config env (Some config) app = (Aborted CloseOfClosedChannel, snd (post_config env (Some config) app))"
    by simp
  show "wedged c (snd (post_config env body app))"
    using a(2) p assms by (cases body) (simp_all add: post_config_def)
qed

lemma handle_wedged: "wedged c app \<Longrightarrow> wedged c (snd (handle env meth call app))"
  using web_Start_wedged [of c app env] web_Stop_wedged(2) [of c app env] post_config_wedged(1) [of c app env]
  by (cases call) (auto simp: handle_def SetHashLogging_def elim: wedged_cong split: prod.split sum.split option.split)

lemma restart_wedged:
  assumes "wedged c app"
  shows "wedged c (restart_fires env app)"
proof (cases "apRestarts app")
  case 0
  with assms show ?thesis by (simp add: restart_fires_def)
next
  case (Suc n)
  have "wedged c (app\<lparr>apRestarts := n\<rparr>)" by (rule wedged_cong [OF assms]) simp_all
  then have "wedged c (snd (web_Start env (app\<lparr>apRestarts := n\<rparr>)))" by (rule web_Start_wedged)
  moreover obtain r a where "web_Start env (app\<lparr>apRestarts := n\<rparr>) = (r, a)" by fastforce
  ultimately show ?thesis using Suc by (cases r) (auto simp: restart_fires_def elim: wedged_cong)
qed

lemma web_run_wedged: "wedged c app \<Longrightarrow> wedged c (web_run events app)"
  unfolding web_run_def
proof (induction events arbitrary: app)
  case (Cons e es)
  then show ?case using handle_wedged restart_wedged by (cases e) simp_all
qed simp

lemma start_stop_start_wedged:
  assumes "web_Start env app = (Inr u, a1)" "web_Stop env0 a1 = (Inr v, a2)" "web_Start env' a2 = (Inr w, a3)"
    and "ConnectionMode (mConfig (apMiner app)) \<noteq> ''p2p''"
    and "mRpcClient (apMiner app) = None \<or> mHeaderFetcher (apMiner app) = Some False"
  shows "wedged (mConfig (apMiner app)) a3"
proof -
  obtain m1 where m1: "StartMiner (weRpcOk env (config_creds (mConfig (apMiner app)))) (apMiner app) = Inr m1"
    "apMiner a1 = m1" by (rule web_Start_ok [OF assms(1)]) simp
  have 1: "mConfig m1 = mConfig (apMiner app)" "mRpcClient m1 \<noteq> None" "mHeaderFetcher m1 = Some False"
    using StartMiner_ok [OF m1(1)] assms(4,5) by (auto split: if_splits)
  obtain m2 where m2: "StopMiner True m1 = (Inr (), m2)" "apMiner a2 = m2"
    by (rule web_Stop_ok [OF assms(2)]) (simp add: m1(2))
  have 2: "mConfig m2 = mConfig m1" "mRpcClient m2 = mRpcClient m1" "mHeaderFetcher m2 = Some True"
    using StopMiner_ok [OF m2(1)] 1(3) by auto
  obtain m3 where m3: "StartMiner (weRpcOk env' (config_creds (mConfig m2))) m2 = Inr m3" "apMiner a3 = m3"
    by (rule web_Start_ok [OF assms(3)]) (simp add: m2(2))
  show ?thesis using StartMiner_ok [OF m3(1)] assms(4) 1 2 m3(2) by (auto simp: wedged_def)
qed

lemma legacy_payout_dropped:
  assumes "mStatus (apMiner app) = ''running'' \<Longrightarrow> can_stop env app" "connects env config"
    and "PayoutAddrMainnet config = ''''" "PayoutAddrTestnet config = ''''" "TrimSpace (PayoutAddr config) \<noteq> ''''"
  shows "\<exists>b app'. post_config env (Some config) app = (Answer 200 b, app') \<and>
    PayoutAddr (mConfig (apMiner app')) = '''' \<and> PayoutAddrMainnet (mConfig (apMiner app')) = '''' \<and>
    PayoutAddrTestnet (mConfig (apMiner app')) = '''' \<and>
    mConfig (apMiner app') = given_config env app config \<and>
    apConfigFile app' = snd (saveConfigToFile (weDisk env) (mConfig (apMiner app')) (apConfigFile app)) \<and>
    (\<forall>env'. web_Start env' app' = (Inl PayoutRequired, app'))"
proof -
  have "TrimSpace (start_payout config) \<noteq> ''''" using assms(3-5) by (simp add: start_payout_def Let_def)
  then obtain app' where p: "post_config env (Some config) app =
      (Answer 200 (RestartedBody (mStatus (apMiner app) = ''running'')), app')"
    and m: "mConfig (apMiner app') = given_config env app config"
    using post_config_accepts [OF assms(1) _ assms(2)] by metis
  note pay = accepted_payout [OF m]
  have e: "PayoutAddr (mConfig (apMiner app')) = ''''" using assms(3,4) by (simp add: pay connection_config_payout)
  then have "TrimSpace (start_payout (mConfig (apMiner app'))) = ''''"
    by (simp add: pay(1) TrimSpace_def)
  then have "\<forall>env'. web_Start env' app' = (Inl PayoutRequired, app')" using web_Start_payout by blast
  with e m p post_config_config(2) [OF p] pay(5,6) assms(3,4) show ?thesis by auto
qed

text \<open>A configuration a running miner takes, up to the restart.\<close>

lemma posted_restart:
  assumes "mStatus (apMiner app) = ''running''" "can_stop env app" "1 \<le> weCores env"
    and "TrimSpace (start_payout config) \<noteq> ''''" "TrimSpace (PayoutAddr (connection_config config)) \<noteq> ''''"
    and "connects env config"
  shows "\<exists>app'. post_config env (Some config) app = (Answer 200 (RestartedBody True), app') \<and>
    mStatus (apMiner app') = ''stopped'' \<and> apLoops app' = 0 \<and> mConfig (apMiner app') = given_config env app config \<and>
    mStatus (apMiner (restart_fires env' app')) = ''running'' \<and> apLoops (restart_fires env' app') = 1 \<and>
    mConfig (apMiner (restart_fires env' app')) = given_config env app config"
proof -
  obtain app' where p: "post_config env (Some config) app = (Answer 200 (RestartedBody (mStatus (apMiner app) = ''running'')), app')"
      "mStatus (apMiner app') = (if mStatus (apMiner app) = ''running'' then ''stopped'' else mStatus (apMiner app))"
      "apLoops app' = (if mStatus (apMiner app) = ''running'' then 0 else apLoops app)"
      "apRestarts app' = apRestarts app + (if mStatus (apMiner app) = ''running'' then 1 else 0)"
    and c: "mConfig (apMiner app') = given_config env app config"
    and rpc: "mRpcClient (apMiner app') = (if ConnectionMode (connection_config config) = ''p2p'' then None
      else Some (config_creds (mConfig (apMiner app'))))"
    by (rule post_config_accepts [OF _ assms(4,6), of app]) (rule assms(2))
  note pay = accepted_payout [OF c]
  let ?a = "app'\<lparr>apRestarts := apRestarts app\<rparr>"
  have "TrimSpace (start_payout (mConfig (apMiner ?a))) \<noteq> ''''" using pay assms(5) by simp
  moreover have "ConnectionMode (mConfig (apMiner ?a)) = ''p2p'' \<or> mRpcClient (apMiner ?a) \<noteq> None" using pay rpc by simp
  ultimately obtain m' where m': "StartMiner (weRpcOk env' (config_creds (mConfig (apMiner ?a)))) (apMiner ?a) = Inr m'"
    using StartMiner_total by blast
  then have "restart_fires env' app' = web_log ''Miner restarted with new configuration'' (?a\<lparr>apMiner := m', apLoops := 1\<rparr>)"
    using p(3,4) assms(1) by (simp add: restart_fires_def web_Start_def)
  moreover have "mStatus m' = ''running''" "mConfig m' = mConfig (apMiner app')" using StartMiner_ok [OF m'] by simp_all
  ultimately show ?thesis using p assms(1) c by simp
qed

lemma given_config_bounds:
  assumes "1 \<le> weCores env"
  shows "1 \<le> cfgThreadCount (given_config env app config)" "cfgThreadCount (given_config env app config) \<le> 64"
    and "0 < cfgMaxHashes (given_config env app config)" "cfgMaxHashes (given_config env app config) \<le> 1000000"
  using apply_config_bounds [OF assms, of "connection_config config" "apMiner app"]
  by (simp_all add: apply_config_fields given_config_def)

lemma posted_payout:
  assumes "post_config env (Some config) app = (Answer 200 b, app')"
  shows "network_payout (mConfig (apMiner app')) = PayoutAddr (connection_config config)"
proof -
  note pay = accepted_payout [OF post_config_config(1) [OF assms]]
  show ?thesis
    by (simp add: network_payout_def pay(3,5,6) pay(2) connection_config_payout)
qed

lemma restart_keeps_config: "mConfig (apMiner (restart_fires env app)) = mConfig (apMiner app)"
proof (cases "web_Start env (app\<lparr>apRestarts := apRestarts app - 1\<rparr>)")
  case (Pair r a)
  then have "mConfig (apMiner a) = mConfig (apMiner app)"
    using StartMiner_ok(3) by (auto simp: web_Start_def split: sum.splits)
  with Pair show ?thesis by (simp add: restart_fires_def split: sum.split)
qed

text \<open>An address that is missing does not decode either.\<close>

lemma payout_script_decoded:
  "payout_script c =
    (case DecodeDogecoinAddress (network_payout c) of Inl e \<Rightarrow> default_payout_script | Inr script \<Rightarrow> script)"
  by (simp add: payout_script_def Let_def DecodeDogecoinAddress_def)

section \<open>Stopped and stuck\<close>

text \<open>Every event but a request to start.\<close>

fun quiet :: "web_event \<Rightarrow> bool" where
  "quiet (Request env meth ApiStart) = (meth \<noteq> POST)"
| "quiet _ = True"

definition idle :: "App \<Rightarrow> bool" where
  "idle app \<longleftrightarrow> mStatus (apMiner app) = ''stopped'' \<and> apLoops app = 0 \<and> apRestarts app = 0"

lemma post_config_idle:
  assumes "idle app"
  shows "idle (snd (post_config env body app))"
proof (cases body)
  case None
  with assms show ?thesis by (simp add: post_config_def)
next
  case (Some config)
  have "mStatus (apMiner app) \<noteq> ''running''" using assms by (simp add: idle_def)
  then have "stop_for_config env app = (Inr (), app)" "mStatus (apMiner app) \<noteq> ''running''" by (simp_all add: stop_for_config_def)
  from post_config_eq [OF this, of config] Some assms show ?thesis by (auto simp: idle_def apply_config_fields)
qed

lemma web_Stop_idle: "idle app \<Longrightarrow> idle (snd (web_Stop env app))"
  using StopMiner_keeps [of "loops_end env app" "apMiner app"] by (auto simp: idle_def web_Stop_def split: prod.split)

lemma web_step_idle:
  assumes "idle app" "quiet e"
  shows "idle (web_step e app)"
proof (cases e)
  case (RestartDue env)
  with assms show ?thesis by (simp add: restart_fires_def idle_def)
next
  case (Request env meth call)
  with assms post_config_idle [OF assms(1), of env] web_Stop_idle [OF assms(1), of env] show ?thesis
    by (cases call) (auto simp: handle_def SetHashLogging_def idle_def split: prod.splits sum.splits option.splits)
qed

lemma web_run_idle: "idle app \<Longrightarrow> list_all quiet events \<Longrightarrow> idle (web_run events app)"
  unfolding web_run_def by (induction events arbitrary: app) (auto intro: web_step_idle)

text \<open>A loop that never ends stays, and \<open>Stop\<close> does not return while there is one.\<close>

lemma web_Start_stuck: "apStuck (snd (web_Start env app)) = apStuck app"
  by (simp add: web_Start_def split: sum.split)

lemma web_Stop_stuck: "apStuck app \<le> apStuck (snd (web_Stop env app))"
  by (simp add: web_Stop_def split: prod.split)

lemma stop_for_config_stuck: "apStuck app \<le> apStuck (snd (stop_for_config env app))"
  using web_Stop_stuck [of "web_log ''Stopping mining to apply configuration changes...'' app" env]
  by (auto simp: stop_for_config_def split: prod.splits sum.splits)

lemma web_UpdateConfig_stuck: "apStuck app \<le> apStuck (snd (web_UpdateConfig env config app))"
  by (simp add: web_UpdateConfig_def Let_def split: prod.split)

lemma post_config_stuck: "apStuck app \<le> apStuck (snd (post_config env body app))"
proof (cases body)
  case None
  then show ?thesis by (simp add: post_config_def)
next
  case (Some config)
  obtain r a where a: "stop_for_config env app = (r, a)" by fastforce
  obtain r' a' where a': "web_UpdateConfig env config a = (r', a')" by fastforce
  have le: "apStuck app \<le> apStuck a" "apStuck a \<le> apStuck a'"
    using stop_for_config_stuck [of app env] web_UpdateConfig_stuck [of a env config] a a' by simp_all
  then have "apStuck app \<le> apStuck a'" by simp
  with le(1) Some show ?thesis by (simp add: post_config_def a a' Let_def split: sum.split)
qed

lemma web_step_stuck: "apStuck app \<le> apStuck (web_step e app)"
proof (cases e)
  case (RestartDue env)
  then show ?thesis using web_Start_stuck [of env "app\<lparr>apRestarts := apRestarts app - 1\<rparr>"]
    by (auto simp: restart_fires_def split: prod.splits sum.splits)
next
  case (Request env meth call)
  then show ?thesis
    using web_Start_stuck [of env app] web_Stop_stuck [of app env] post_config_stuck [of app env]
    by (cases call) (auto simp: handle_def split: prod.splits sum.splits option.splits)
qed

lemma web_run_stuck: "apStuck app \<le> apStuck (web_run events app)"
  unfolding web_run_def
proof (induction events arbitrary: app)
  case (Cons e es)
  from Cons [of "web_step e app"] web_step_stuck [of app e] show ?case by simp
qed simp

lemma stuck_stop:
  assumes "0 < apStuck app"
  shows "fst (handle e POST ApiStop app) \<in> {NoAnswer, Aborted CloseOfClosedChannel}"
  using assms by (simp add: handle_def web_Stop_def loops_end_def StopMiner_def halted_answer_def Let_def)

section \<open>Properties\<close>

text \<open>Only a \<open>POST\<close> changes anything; every other request is answered from the state as it is.\<close>

theorem only_post_changes:
  assumes "meth \<noteq> POST"
  shows "snd (handle env meth call app) = app"
  using assms by (cases call) (simp_all add: handle_def fetcher_stats_def)

text \<open>C15: a running miner takes a new configuration that names a payout address for its network and, in RPC mode,
  a node that answers: provided its header fetcher has not been stopped before and its mining loops end when they are
  told to, the request stops it and is answered with success, and when the second is over the miner runs again in a single
  loop. Its configuration is then exactly the one it was given with the network and the mode normalised, the settings left
  out filled in and the intensity applied: it pays to the address of its network, within the bounds of threads and
  hashes.\<close>

theorem posted_config_runs:
  assumes "mStatus (apMiner app) = ''running''" "can_stop env app" "1 \<le> weCores env"
    and "TrimSpace (start_payout config) \<noteq> ''''" "TrimSpace (PayoutAddr (connection_config config)) \<noteq> ''''"
    and "connects env config"
  shows "\<exists>app' c. post_config env (Some config) app = (Answer 200 (RestartedBody True), app') \<and> c = mConfig (apMiner app') \<and>
    mStatus (apMiner app') = ''stopped'' \<and> apLoops app' = 0 \<and>
    mStatus (apMiner (restart_fires env' app')) = ''running'' \<and> apLoops (restart_fires env' app') = 1 \<and>
    mConfig (apMiner (restart_fires env' app')) = c \<and>
    c = apply_intensity (default_settings (weCores env) (DeviceType (mConfig (apMiner app))) (connection_config config)) \<and>
    PayoutAddr c = PayoutAddr (connection_config config) \<and>
    1 \<le> cfgThreadCount c \<and> cfgThreadCount c \<le> 64 \<and> 0 < cfgMaxHashes c \<and> cfgMaxHashes c \<le> 1000000"
  using posted_restart [OF assms, of env'] given_config_bounds [OF assms(3), of app config]
    accepted_payout(2) [OF refl, of env app config] by (auto simp: given_config_def)

text \<open>C29: a rejected change of the configuration is not without effect. Where the mining loops end when they are told
  to and no restart is pending, a miner that was running is stopped, keeps its configuration and its file, and
  nothing but a \<open>POST\<close> to \<open>/api/start\<close> starts it again: whatever other requests come, no mining loop runs and the status
  stays \<open>stopped\<close>.\<close>

theorem rejected_config_stops:
  assumes "mStatus (apMiner app) = ''running''" "can_stop env app" "apRestarts app = 0"
    and "TrimSpace (start_payout config) = '''' \<or> \<not> connects env config"
  shows "\<exists>e app'. post_config env (Some config) app = (Answer 400 e, app') \<and> mConfig (apMiner app') = mConfig (apMiner app) \<and>
    apConfigFile app' = apConfigFile app \<and>
    (\<forall>events. list_all quiet events \<longrightarrow>
      mStatus (apMiner (web_run events app')) = ''stopped'' \<and> apLoops (web_run events app') = 0)"
proof -
  obtain a where a0: "stop_for_config env app = (Inr (), a)" by (rule stop_for_config_returns [OF assms(2)])
  note a = stop_for_config_ok [OF a0]
  have "idle a" using a(3,5,6) assms(1,3) by (simp add: idle_def)
  then have idle: "list_all quiet events \<longrightarrow> idle (web_run events a)" for events using web_run_idle by blast
  have "\<exists>e. post_config env (Some config) app = (Answer 400 e, a)"
    using post_config_eq [OF a0 a(1), of config] assms(4) by auto
  with idle a(2,4) show ?thesis unfolding idle_def by auto
qed

text \<open>A configuration with only the old single payout address passes the check of the handler, and is then
  stored without an address: the request succeeds and the miner cannot be started any more.\<close>

theorem legacy_payout_lost:
  assumes "mStatus (apMiner app) = ''running'' \<Longrightarrow> can_stop env app" "connects env config"
    and "PayoutAddrMainnet config = ''''" "PayoutAddrTestnet config = ''''" "TrimSpace (PayoutAddr config) \<noteq> ''''"
  shows "\<exists>b app'. post_config env (Some config) app = (Answer 200 b, app') \<and> PayoutAddr (mConfig (apMiner app')) = '''' \<and>
    web_Start env' app' = (Inl PayoutRequired, app')"
  using legacy_payout_dropped [OF assms] by blast

text \<open>C17: a stopped miner in RPC mode that is started again can neither be stopped nor configured any more, by
  any sequence of requests: closing the stop channel of the header fetcher a second time panics, before the
  status changes. The loops are told to end, while the status stays \<open>running\<close>.\<close>

theorem restarted_rpc_miner_wedged:
  assumes "web_Start env app = (Inr u, a1)" "web_Stop env0 a1 = (Inr v, a2)" "web_Start env' a2 = (Inr w, a3)"
    and "ConnectionMode (mConfig (apMiner app)) \<noteq> ''p2p''"
    and "mRpcClient (apMiner app) = None \<or> mHeaderFetcher (apMiner app) = Some False"
  shows "mConfig (apMiner (web_run events a3)) = mConfig (apMiner app) \<and> mStatus (apMiner (web_run events a3)) = ''running'' \<and>
    fst (handle e POST ApiStop (web_run events a3)) = Aborted CloseOfClosedChannel \<and>
    fst (handle e POST (ApiConfig (Some config)) (web_run events a3)) = Aborted CloseOfClosedChannel \<and>
    apLoops (snd (handle e POST ApiStop (web_run events a3))) = 0"
proof -
  have w: "wedged (mConfig (apMiner app)) (web_run events a3)"
    by (rule web_run_wedged) (rule start_stop_start_wedged [OF assms])
  from web_Stop_wedged [OF w, of e] obtain a where
    a: "web_Stop e (web_run events a3) = (Inl (StopPanics CloseOfClosedChannel), a)" "apLoops a = 0"
    by (metis prod.collapse)
  then have "handle e POST ApiStop (web_run events a3) = (Aborted CloseOfClosedChannel, a)"
    by (simp add: handle_def halted_answer_def)
  moreover have "fst (post_config e (Some config) (web_run events a3)) = Aborted CloseOfClosedChannel"
    by (subst post_config_wedged(2) [OF w]) simp
  ultimately show ?thesis using w a(2) by (simp add: handle_def wedged_def)
qed

text \<open>C31: a mining loop that does not end when it is told to, because its round never returns, is waited for without
  end: the \<open>POST\<close> to \<open>/api/stop\<close> is never answered, the status stays what it was, and no later one is answered
  either, whatever is requested in between: it waits as well, or panics where the miner mines through RPC.\<close>

theorem hung_round_blocks_stop:
  assumes "0 < apLoops app" "\<not> weLoopsEnd env" "mHeaderFetcher (apMiner app) \<noteq> Some True"
  shows "\<exists>app'. handle env POST ApiStop app = (NoAnswer, app') \<and> mStatus (apMiner app') = mStatus (apMiner app) \<and>
    (\<forall>events e. fst (handle e POST ApiStop (web_run events app')) \<in> {NoAnswer, Aborted CloseOfClosedChannel})"
proof -
  have stuck: "\<not> loops_end env app" "0 < apStuck (told_to_end env app)" using assms(1,2) by (simp_all add: loops_end_def told_to_end_def)
  obtain m where m: "StopMiner False (apMiner app) = (Inl LoopsRunOn, m)" "mStatus m = mStatus (apMiner app)"
    using StopMiner_result(2) [OF assms(3)] by blast
  let ?app' = "(told_to_end env app)\<lparr>apMiner := m\<rparr>"
  have "handle env POST ApiStop app = (NoAnswer, ?app')"
    using m(1) stuck(1) by (simp add: handle_def web_Stop_def halted_answer_def)
  moreover have "0 < apStuck (web_run events ?app')" for events
    using web_run_stuck [of ?app' events] stuck(2) by simp
  then have "fst (handle e POST ApiStop (web_run events ?app')) \<in> {NoAnswer, Aborted CloseOfClosedChannel}" for e events
    using stuck_stop by blast
  ultimately show ?thesis using m(2) by (intro exI [of _ ?app']) simp
qed

text \<open>Nothing keeps a running miner from being started once more: two mining loops then share its state.\<close>

theorem second_start_second_loop:
  assumes "web_Start env app = (Inr u, a1)"
  shows "\<exists>a2. web_Start env' a1 = (Inr (), a2) \<and> apLoops a2 = apLoops app + 2"
proof -
  obtain m where m: "StartMiner (weRpcOk env (config_creds (mConfig (apMiner app)))) (apMiner app) = Inr m"
    and a1: "a1 = app\<lparr>apMiner := m, apLoops := apLoops app + 1\<rparr>" by (rule web_Start_ok [OF assms])
  have "TrimSpace (start_payout (mConfig m)) \<noteq> ''''" "ConnectionMode (mConfig m) = ''p2p'' \<or> mRpcClient m \<noteq> None"
    using StartMiner_ok [OF m] by auto
  from StartMiner_total [OF this] obtain m' where
    "StartMiner (weRpcOk env' (config_creds (mConfig m))) m = Inr m'" by blast
  then show ?thesis by (simp add: web_Start_def a1)
qed

text \<open>C16: the file an accepted configuration is saved to gives it back at the next start, with one exception: a
  testnet configuration without a mainnet address comes back with the testnet address as that of mainnet.\<close>

theorem config_file_roundtrip:
  assumes "post_config env (Some config) app = (Answer 200 b, app')"
    and "deMkdirOk (weDisk env)" "deWriteFails (weDisk env) = None"
  shows "\<exists>c. c = mConfig (apMiner app') \<and> loadConfigFromFile (apConfigFile app') =
    Inr (if cfgNetwork c = ''testnet'' \<and> PayoutAddrMainnet c = '''' then c\<lparr>PayoutAddrMainnet := PayoutAddrTestnet c\<rparr> else c)"
proof -
  note given = post_config_config [OF assms(1)]
  show ?thesis
    using accepted_file [OF given(1)] given(2) assms(2,3) by (simp add: saveConfigToFile_def loadConfigFromFile_def)
qed

text \<open>The answer of the API to a \<open>GET\<close> of the configuration is not one it takes back. When the node does
  not answer at start-up, it holds the payout address of the file in the old single field, and the miner would start
  with it, but the addresses of the two networks are empty. Posted back unchanged it is accepted, and from then on
  the address is gone, from the running configuration and from the file, and the miner does not start.\<close>

theorem posting_back_loses_address:
  assumes "loadConfigFromFile file = Inr c" "ConnectionMode c \<noteq> ''p2p''" "\<not> weRpcOk env (start_creds flags (Some c))"
    and "TrimSpace (PayoutAddr c) \<noteq> ''''" "deMkdirOk (weDisk env)" "deWriteFails (weDisk env) = None"
  shows "\<exists>shown b app'. fst (handle env GET (ApiConfig None) (start_app env flags file)) = Answer 200 (ConfigBody shown False) \<and>
    PayoutAddr shown = PayoutAddr c \<and> PayoutAddrMainnet shown = '''' \<and> PayoutAddrTestnet shown = '''' \<and>
    fst (web_Start env (start_app env flags file)) = Inr () \<and>
    handle env POST (ApiConfig (Some shown)) (start_app env flags file) = (Answer 200 b, app') \<and>
    web_Start env' app' = (Inl PayoutRequired, app') \<and>
    (\<exists>c'. loadConfigFromFile (apConfigFile app') = Inr c' \<and> PayoutAddr c' = '''' \<and>
      PayoutAddrMainnet c' = '''' \<and> PayoutAddrTestnet c' = '''')"
proof -
  define shown where "shown = fallback_config (start_creds flags (Some c)) (Some c)"
  have app: "start_app env flags file = app_of file (fallback_miner (weCores env) shown)"
    using assms(1-3) by (simp add: start_app_def shown_def NewMiner_def Let_def)
  have shown: "PayoutAddr shown = PayoutAddr c" "PayoutAddrMainnet shown = ''''" "PayoutAddrTestnet shown = ''''"
    "ConnectionMode shown = ''p2p''" by (simp_all add: shown_def fallback_config_def)
  have m: "mConfig (fallback_miner n x) = x" "mStatus (fallback_miner n x) = ''stopped''" for n x
    by (simp_all add: fallback_miner_def)
  have "start_payout shown = PayoutAddr c" using shown by (simp add: start_payout_def Let_def)
  then obtain m' where "StartMiner (weRpcOk env (config_creds shown)) (fallback_miner (weCores env) shown) = Inr m'"
    using StartMiner_total [of "fallback_miner (weCores env) shown"] assms(4) shown(4) m(1) by metis
  then have start: "fst (web_Start env (start_app env flags file)) = Inr ()"
    by (simp add: app web_Start_def app_of_def m)
  have con: "connects env shown"
    using shown(4) by (simp add: connects_def connection_config_def normalize_network_def or_default_def Let_def)
  have "mStatus (apMiner (start_app env flags file)) \<noteq> ''running''" by (simp add: app app_of_def m)
  then obtain b app' where p: "post_config env (Some shown) (start_app env flags file) = (Answer 200 b, app')"
    and lost: "PayoutAddr (mConfig (apMiner app')) = ''''" "PayoutAddrMainnet (mConfig (apMiner app')) = ''''"
      "PayoutAddrTestnet (mConfig (apMiner app')) = ''''" "web_Start env' app' = (Inl PayoutRequired, app')"
    using legacy_payout_dropped [where app = "start_app env flags file" and config = shown and env = env] con shown assms(4) by auto
  have "loadConfigFromFile (apConfigFile app') = Inr (migrate_config (mConfig (apMiner app')))"
    using post_config_config(2) [OF p] assms(5,6) by (simp add: saveConfigToFile_def loadConfigFromFile_def)
  then have reload: "\<exists>c'. loadConfigFromFile (apConfigFile app') = Inr c' \<and> PayoutAddr c' = '''' \<and>
      PayoutAddrMainnet c' = '''' \<and> PayoutAddrTestnet c' = ''''"
    using accepted_file [OF post_config_config(1) [OF p]] lost(1-3) by auto
  have get: "fst (handle env GET (ApiConfig None) (start_app env flags file)) = Answer 200 (ConfigBody shown False)"
    using assms(1) by (simp add: handle_def app app_of_def m)
  have post: "handle env POST (ApiConfig (Some shown)) (start_app env flags file) = (Answer 200 b, app')"
    using p by (simp add: handle_def)
  from get post start shown lost(4) reload show ?thesis by blast
qed

text \<open>A first run that finds no node waits for a payout address: it does not start without one, and it has
  neither a payment monitor nor an optimizer.\<close>

theorem first_run_waits:
  assumes "loadConfigFromFile file = Inl e" "\<not> weRpcOk env flags"
  shows "web_Start env' (start_app env flags file) = (Inl PayoutRequired, start_app env flags file) \<and>
    ConnectionMode (mConfig (apMiner (start_app env flags file))) = ''p2p'' \<and>
    cfgNetwork (mConfig (apMiner (start_app env flags file))) = ''testnet'' \<and>
    mPaymentMonitor (apMiner (start_app env flags file)) = None \<and> mOptimizerStopped (apMiner (start_app env flags file))"
proof -
  have app: "start_app env flags file = app_of file (fallback_miner (weCores env) (fallback_config flags None))"
    using assms by (simp add: start_app_def start_creds_def NewMiner_def Let_def)
  have "TrimSpace (start_payout (fallback_config flags None)) = ''''"
    by (simp add: start_payout_def fallback_config_def TrimSpace_def)
  then show ?thesis unfolding app
    by (intro conjI web_Start_payout) (simp_all add: app_of_def fallback_miner_def fallback_config_def)
qed

section \<open>The list of submitted blocks\<close>

lemma reverse_blocks_done: "\<not> i < j \<Longrightarrow> reverse_blocks xs i j n = xs"
  by (cases n) simp_all

lemma reverse_blocks_mid:
  assumes "mid \<noteq> []" "length mid \<le> n"
  shows "reverse_blocks (pre @ mid @ suf) (length pre) (length pre + length mid - 1) n = pre @ rev mid @ suf"
  using assms
proof (induction n arbitrary: pre mid suf)
  case (Suc n)
  from Suc.prems(1) obtain x rest where mid: "mid = x # rest" by (cases mid) auto
  show ?case
  proof (cases rest rule: rev_cases)
    case Nil
    then show ?thesis by (simp add: mid)
  next
    case (snoc m y)
    let ?i = "length pre" and ?j = "length pre + length m + 1"
    have "(pre @ mid @ suf)[?i := (pre @ mid @ suf) ! ?j, ?j := (pre @ mid @ suf) ! ?i] = (pre @ [y]) @ m @ (x # suf)"
      by (simp add: mid snoc nth_append list_update_append)
    then have step: "reverse_blocks (pre @ mid @ suf) ?i ?j (Suc n) = reverse_blocks ((pre @ [y]) @ m @ (x # suf)) (?i + 1) (?j - 1) n"
      by simp
    have "reverse_blocks ((pre @ [y]) @ m @ (x # suf)) (?i + 1) (?j - 1) n = (pre @ [y]) @ rev m @ (x # suf)"
    proof (cases "m = []")
      case True
      then show ?thesis by (simp add: reverse_blocks_done)
    next
      case False
      with Suc.IH [of m "pre @ [y]" "x # suf"] Suc.prems(2) show ?thesis by (simp add: mid snoc)
    qed
    with step show ?thesis by (simp add: mid snoc)
  qed
qed simp

text \<open>The exchange of the ends turns the list round.\<close>

theorem submitted_blocks_newest_first:
  "fst (handle env meth ApiSubmittedBlocks app) = Answer 200 (BlocksBody (rev (apBlocks app)))"
proof (cases "apBlocks app")
  case Nil
  then show ?thesis by (simp add: handle_def newest_first_def)
next
  case (Cons b bs)
  then show ?thesis
    using reverse_blocks_mid [of "apBlocks app" "length (apBlocks app)" "[]" "[]"]
    by (simp add: handle_def newest_first_def)
qed

section \<open>The diagnostic\<close>

definition diagnostic_hash :: "scrypt_key \<Rightarrow> ScryptMiner \<Rightarrow> u32 \<Rightarrow> byte list" where
  "diagnostic_hash key sm n = (case scryptHash key sm (diagnostic_header n) of Inr h \<Rightarrow> h | Inl p \<Rightarrow> [])"

lemma diagnostic_scrypt:
  assumes "key_ok key sm"
  shows "scryptHash key sm (diagnostic_header n) = Inr (diagnostic_hash key sm n)" "length (diagnostic_hash key sm n) = 32"
proof -
  have len: "length (diagnostic_header n) = 80" by (simp add: diagnostic_header_def)
  with assms obtain h where "scryptHash key sm (diagnostic_header n) = Inr h" "length h = 32"
    unfolding key_ok_def scryptHash_def by (metis option.simps(5))
  then show "scryptHash key sm (diagnostic_header n) = Inr (diagnostic_hash key sm n)" "length (diagnostic_hash key sm n) = 32"
    by (simp_all add: diagnostic_hash_def)
qed

lemma diagnostic_loop_find:
  assumes "key_ok key sm" "target_le_bytes t = Inr le"
  shows "diagnostic_loop key sm le n i =
    Inr (find (\<lambda>k. le_nat (diagnostic_hash key sm k) \<le> t) (map (\<lambda>k. i + of_nat k) [0..<n]))"
proof (induction n arbitrary: i)
  case (Suc n)
  have l: "[0..<Suc n] = 0 # map Suc [0..<n]" by (simp add: map_Suc_upt upt_conv_Cons del: upt_Suc)
  have m: "map (\<lambda>k. i + of_nat k) [0..<Suc n] = i # map (\<lambda>k. (i + 1) + of_nat k) [0..<n]"
    unfolding l by (simp add: comp_def add.assoc)
  have "hashMeetsTargetLE (diagnostic_hash key sm i) le \<longleftrightarrow> le_nat (diagnostic_hash key sm i) \<le> t"
    using meets_target_le_bytes [OF assms(2)] diagnostic_scrypt(2) [OF assms(1)] by simp
  then show ?case unfolding m using diagnostic_scrypt(1) [OF assms(1), of i] by (simp add: Suc)
qed simp

text \<open>The diagnostic finds the first of its ten thousand nonces whose hash is at most the target, and nothing
  when there is none.\<close>

theorem diagnostic_finds_first:
  assumes "key_ok key sm"
  shows "runDiagnosticTest key sm = Inr (find (\<lambda>k. le_nat (diagnostic_hash key sm k) \<le> BitsToTarget 0x1b0404cb)
    (map of_nat [0..<10000]))"
proof -
  have "BitsToTarget 0x1b0404cb < 256 ^ 32" by (simp add: BitsToTarget_nat Let_def)
  then obtain le where "target_le_bytes (BitsToTarget 0x1b0404cb) = Inr le" using target_le_bytes_Inr by blast
  then show ?thesis
    using diagnostic_loop_find [OF assms, of "BitsToTarget 0x1b0404cb" le 10000 0] diagnostic_scrypt(1) [OF assms, of 0]
    by (simp add: runDiagnosticTest_def)
qed

section \<open>Witnesses\<close>

definition sampleDisk :: DiskEnv where
  "sampleDisk = \<lparr>deMkdirOk = True, deWriteFails = None\<rparr>"

definition sampleWeb :: "bool \<Rightarrow> WebEnv" where
  "sampleWeb ok = \<lparr>weCores = 8, weGpu = False, weRpcOk = (\<lambda>_. ok), weDisk = sampleDisk, weNewKey = (\<lambda>_. Inl KeyFailed),
     weClient = lone_client, weFetcher = NewHeaderFetcher,
     weErrorText = (\<lambda>_. ''error''), weLoopsEnd = True\<rparr>"

lemma sampleWeb_simps [simp]:
  "weCores (sampleWeb ok) = 8" "weRpcOk (sampleWeb ok) = (\<lambda>_. ok)" "deMkdirOk (weDisk (sampleWeb ok))"
  "deWriteFails (weDisk (sampleWeb ok)) = None" "weLoopsEnd (sampleWeb ok)"
  by (simp_all add: sampleWeb_def sampleDisk_def)

lemma sampleConfig_simps [simp]:
  "ConnectionMode sampleConfig = ''p2p''" "cfgNetwork sampleConfig = ''mainnet''" "PayoutAddrMainnet sampleConfig = ''D''"
  "PayoutAddrTestnet sampleConfig = ''''" "PayoutAddr sampleConfig = ''D''" "TrimSpace ''D'' = ''D''" "TrimSpace '''' = ''''"
  by (simp_all add: sampleConfig_def initial_config_def TrimSpace_def is_space_def)

lemma sampleConfig_connected [simp]:
  "connection_config sampleConfig = sampleConfig\<lparr>PayoutAddr := ''D''\<rparr>" "start_payout sampleConfig = ''D''" "connects env sampleConfig"
proof -
  show c: "connection_config sampleConfig = sampleConfig\<lparr>PayoutAddr := ''D''\<rparr>"
    by (simp add: connection_config_def normalize_network_def or_default_def Let_def)
  show "start_payout sampleConfig = ''D''" "connects env sampleConfig" by (simp_all add: start_payout_def connects_def c)
qed

definition runningApp :: App where
  "runningApp = (app_of Missing (sampleMiner\<lparr>mStatus := ''running''\<rparr>))\<lparr>apLoops := 1\<rparr>"

lemma runningApp_simps [simp]:
  "mStatus (apMiner runningApp) = ''running''" "mHeaderFetcher (apMiner runningApp) = None" "apRestarts runningApp = 0"
  "apLoops runningApp = 1" "can_stop (sampleWeb ok) runningApp"
  by (simp_all add: can_stop_def loops_end_def)
     (simp_all add: runningApp_def app_of_def sampleMiner_def newMinerP2POnly_def miner_of_config_def Let_def)

theorem only_post_changes_witness: "snd (handle (sampleWeb True) GET (ApiConfig (Some sampleConfig)) runningApp) = runningApp"
  by (rule only_post_changes) simp

theorem posted_config_runs_witness:
  "\<exists>app' c. post_config (sampleWeb False) (Some sampleConfig) runningApp = (Answer 200 (RestartedBody True), app') \<and>
    apLoops app' = 0 \<and> apLoops (restart_fires (sampleWeb False) app') = 1 \<and>
    mConfig (apMiner (restart_fires (sampleWeb False) app')) = c \<and> PayoutAddr c = ''D'' \<and> cfgThreadCount c \<le> 64"
  using posted_config_runs [of runningApp "sampleWeb False" sampleConfig "sampleWeb False"] by auto

theorem rejected_config_stops_witness:
  "\<exists>e app'. post_config (sampleWeb False) (Some (sampleConfig\<lparr>PayoutAddrMainnet := '''', PayoutAddr := ''''\<rparr>)) runningApp =
     (Answer 400 e, app') \<and>
     mStatus (apMiner (web_run [Request (sampleWeb True) POST (ApiConfig (Some sampleConfig)), RestartDue (sampleWeb True)] app')) =
       ''stopped''"
proof -
  let ?c = "sampleConfig\<lparr>PayoutAddrMainnet := '''', PayoutAddr := ''''\<rparr>"
  from rejected_config_stops [of runningApp "sampleWeb False" ?c] obtain e app' where
    p: "post_config (sampleWeb False) (Some ?c) runningApp = (Answer 400 e, app')"
    and "\<forall>events. list_all quiet events \<longrightarrow> mStatus (apMiner (web_run events app')) = ''stopped'' \<and> apLoops (web_run events app') = 0"
    by (auto simp: start_payout_def)
  moreover have "list_all quiet [Request (sampleWeb True) POST (ApiConfig (Some sampleConfig)), RestartDue (sampleWeb True)]" by simp
  ultimately have "mStatus (apMiner (web_run [Request (sampleWeb True) POST (ApiConfig (Some sampleConfig)), RestartDue (sampleWeb True)] app')) =
      ''stopped''" by blast
  with p show ?thesis by blast
qed

theorem hung_round_blocks_stop_witness:
  "\<exists>app'. handle (sampleWeb True\<lparr>weLoopsEnd := False\<rparr>) POST ApiStop runningApp = (NoAnswer, app') \<and>
    fst (handle (sampleWeb True) POST ApiStop (web_run [Request (sampleWeb True) POST ApiStart] app')) \<in>
      {NoAnswer, Aborted CloseOfClosedChannel}"
  using hung_round_blocks_stop [of runningApp "sampleWeb True\<lparr>weLoopsEnd := False\<rparr>"] by auto

theorem legacy_payout_lost_witness:
  "\<exists>b app'. post_config (sampleWeb True) (Some (sampleConfig\<lparr>PayoutAddrMainnet := ''''\<rparr>)) runningApp = (Answer 200 b, app') \<and>
    PayoutAddr (mConfig (apMiner app')) = '''' \<and> web_Start (sampleWeb True) app' = (Inl PayoutRequired, app')"
  by (rule legacy_payout_lost) (simp_all add: connects_def)

definition rpcConfig :: MinerConfig where
  "rpcConfig = sampleConfig\<lparr>ConnectionMode := ''rpc''\<rparr>"

definition rpcApp :: App where
  "rpcApp = app_of Missing (miner_of_config 8 rpcConfig)"

lemma rpcApp_simps:
  "mConfig (apMiner rpcApp) = rpcConfig" "mRpcClient (apMiner rpcApp) = None" "ConnectionMode rpcConfig = ''rpc''"
  "RPCURL rpcConfig = ''u''" "RPCUser rpcConfig = ''a''" "RPCPass rpcConfig = ''b''" "start_payout rpcConfig = ''D''"
  by (simp_all add: rpcApp_def app_of_def miner_of_config_def rpcConfig_def start_payout_def)
     (simp_all add: sampleConfig_def initial_config_def)

lemma rpcApp_stuck: "apStuck rpcApp = 0"
  by (simp add: rpcApp_def app_of_def)

lemma rpcApp_starts:
  obtains a1 a2 a3 where "web_Start (sampleWeb True) rpcApp = (Inr (), a1)" "web_Stop (sampleWeb True) a1 = (Inr (), a2)"
    "web_Start (sampleWeb True) a2 = (Inr (), a3)"
proof -
  have "start_connection True (apMiner rpcApp) = Inr ((apMiner rpcApp)\<lparr>mRpcClient := Some \<lparr>rpcUrl = ''u'', rpcUser = ''a'', rpcPass = ''b''\<rparr>,
      mHeaderFetcher := Some False\<rparr>)"
    by (simp add: start_connection_def Let_def rpcApp_simps)
  then obtain m1 where m1: "StartMiner True (apMiner rpcApp) = Inr m1"
    by (simp add: StartMiner_def Let_def rpcApp_simps)
  note s1 = StartMiner_ok [OF m1]
  have f1: "mHeaderFetcher m1 = Some False" using s1(5) by (simp add: rpcApp_simps)
  obtain m2 where m2: "StopMiner True m1 = (Inr (), m2)" using StopMiner_result(1) [of m1] f1 by auto
  have "mConfig m2 = rpcConfig" "mRpcClient m2 \<noteq> None"
    using StopMiner_ok [OF m2] f1 s1(3,5) by (simp_all add: rpcApp_simps)
  with StartMiner_total [of m2 True] obtain m3 where m3: "StartMiner True m2 = Inr m3" by (auto simp: rpcApp_simps)
  let ?a1 = "rpcApp\<lparr>apMiner := m1, apLoops := apLoops rpcApp + 1\<rparr>"
  have stop: "web_Stop (sampleWeb True) ?a1 = (Inr (), (told_to_end (sampleWeb True) ?a1)\<lparr>apMiner := m2\<rparr>)"
    using m2 by (simp add: web_Stop_def loops_end_def rpcApp_stuck)
  show thesis
    by (rule that [OF _ stop]) (auto simp: web_Start_def m1 m3)
qed

theorem restarted_rpc_miner_wedged_witness:
  "\<exists>app. mStatus (apMiner (web_run [Request (sampleWeb True) POST ApiStop] app)) = ''running'' \<and>
    fst (handle (sampleWeb True) POST ApiStop (web_run [Request (sampleWeb True) POST ApiStop] app)) = Aborted CloseOfClosedChannel"
proof -
  obtain a1 a2 a3 where a: "web_Start (sampleWeb True) rpcApp = (Inr (), a1)" "web_Stop (sampleWeb True) a1 = (Inr (), a2)"
    "web_Start (sampleWeb True) a2 = (Inr (), a3)" by (rule rpcApp_starts)
  show ?thesis
    using restarted_rpc_miner_wedged [OF a, of "[Request (sampleWeb True) POST ApiStop]" "sampleWeb True" rpcConfig]
    by (auto simp: rpcApp_simps)
qed

theorem second_start_second_loop_witness:
  "\<exists>a1 a2. web_Start (sampleWeb True) rpcApp = (Inr (), a1) \<and> web_Start (sampleWeb True) a1 = (Inr (), a2) \<and>
    apLoops a2 = apLoops rpcApp + 2"
proof -
  obtain a1 where a: "web_Start (sampleWeb True) rpcApp = (Inr (), a1)" by (rule rpcApp_starts)
  from second_start_second_loop [OF a, of "sampleWeb True"] a show ?thesis by blast
qed

theorem config_file_roundtrip_witness:
  "\<exists>app' c. post_config (sampleWeb False) (Some sampleConfig) runningApp = (Answer 200 (RestartedBody True), app') \<and>
    c = mConfig (apMiner app') \<and> loadConfigFromFile (apConfigFile app') = Inr c"
proof -
  have ok: "can_stop (sampleWeb False) runningApp" "TrimSpace (start_payout sampleConfig) \<noteq> ''''"
    "connects (sampleWeb False) sampleConfig" by simp_all
  obtain app' where p: "post_config (sampleWeb False) (Some sampleConfig) runningApp = (Answer 200 (RestartedBody True), app')"
    using post_config_accepts [OF ok] runningApp_simps(1) by metis
  from config_file_roundtrip [OF p(1)] accepted_payout [OF post_config_config(1) [OF p]] p(1) show ?thesis by auto
qed

definition savedRpc :: MinerConfig where
  "savedRpc = rpcConfig\<lparr>cfgNetwork := ''mainnet''\<rparr>"

lemma load_savedRpc: "loadConfigFromFile (Saved savedRpc) = Inr savedRpc"
  using migrate_id [of savedRpc] by (simp add: loadConfigFromFile_def savedRpc_def rpcConfig_def)

theorem posting_back_loses_address_witness:
  "\<exists>shown b app'. fst (handle (sampleWeb False) GET (ApiConfig None)
      (start_app (sampleWeb False) \<lparr>rpcUrl = ''u'', rpcUser = ''a'', rpcPass = ''b''\<rparr> (Saved savedRpc))) = Answer 200 (ConfigBody shown False) \<and>
    PayoutAddr shown = ''D'' \<and>
    handle (sampleWeb False) POST (ApiConfig (Some shown))
      (start_app (sampleWeb False) \<lparr>rpcUrl = ''u'', rpcUser = ''a'', rpcPass = ''b''\<rparr> (Saved savedRpc)) = (Answer 200 b, app') \<and>
    web_Start (sampleWeb True) app' = (Inl PayoutRequired, app')"
proof -
  have "ConnectionMode savedRpc \<noteq> ''p2p''" "PayoutAddr savedRpc = ''D''" by (simp_all add: savedRpc_def rpcConfig_def)
  with posting_back_loses_address [OF load_savedRpc, of "sampleWeb False" "\<lparr>rpcUrl = ''u'', rpcUser = ''a'', rpcPass = ''b''\<rparr>"
      "sampleWeb True"]
  show ?thesis by (auto simp: rpcConfig_def)
qed

theorem first_run_waits_witness:
  "\<exists>a. web_Start (sampleWeb True) (start_app (sampleWeb False) \<lparr>rpcUrl = ''u'', rpcUser = ''a'', rpcPass = ''b''\<rparr> Missing) =
    (Inl PayoutRequired, a)"
  using first_run_waits [of Missing NoConfigFile "sampleWeb False"] by (simp add: loadConfigFromFile_def)

theorem diagnostic_finds_first_witness:
  "runDiagnosticTest zeroKey NewScryptMiner = Inr (find (\<lambda>k. le_nat (diagnostic_hash zeroKey NewScryptMiner k) \<le>
    BitsToTarget 0x1b0404cb) (map of_nat [0..<10000]))"
  by (rule diagnostic_finds_first) (simp add: key_ok_def zeroKey_def)

end
