(* ===== verification/GpuStub.thy ===== *)
theory GpuStub
  imports ScryptMining GoText
begin

text \<open>
  The GPU miner of a build without OpenCL, \<open>src/gpu_miner_stub.go\<close>: a \<open>ScryptMiner\<close> behind the same
  interface, whose settings are copied before every round.
\<close>

record StubMiner =
  sgMiner :: ScryptMiner
  sgMaxHashes :: u64
  sgMaxHashesThisRound :: u64
  sgThreadCount :: int
  sgInitialized :: bool

definition stub_NewGPUMiner :: "u64 \<Rightarrow> int \<Rightarrow> StubMiner" where
  "stub_NewGPUMiner maxHashes threadCount =
     \<lparr>sgMiner = NewScryptMinerWithConfig maxHashes threadCount, sgMaxHashes = maxHashes, sgMaxHashesThisRound = 0,
      sgThreadCount = threadCount, sgInitialized = False\<rparr>"

definition stub_SetNonceStrategy :: "string \<Rightarrow> string \<Rightarrow> bool \<Rightarrow> StubMiner \<Rightarrow> StubMiner" where
  "stub_SetNonceStrategy searchMode startMode useStride g =
     g\<lparr>sgMiner := SetNonceStrategy searchMode startMode useStride (sgMiner g)\<rparr>"

definition stub_Initialize :: "StubMiner \<Rightarrow> StubMiner" where
  "stub_Initialize g = g\<lparr>sgInitialized := True\<rparr>"

definition stub_MineBlock ::
  "scrypt_key \<Rightarrow> StubMiner \<Rightarrow> Block \<Rightarrow> string \<Rightarrow> u64 \<Rightarrow> u32 \<Rightarrow> nat list \<Rightarrow> (go_panic + MineOutcome) option \<times> StubMiner" where
  "stub_MineBlock key g block targetHex unixNano startNonce schedule =
     (let m = (sgMiner g)\<lparr>MaxHashes := sgMaxHashes g\<rparr>;
          m = m\<lparr>MaxHashesThisRound := sgMaxHashesThisRound g\<rparr>;
          m = m\<lparr>ThreadCount := sgThreadCount g\<rparr>
      in (MineBlock key m block targetHex unixNano startNonce schedule, g\<lparr>sgMiner := m\<rparr>))"

definition stub_DetectGPUs :: "int \<Rightarrow> string list" where
  "stub_DetectGPUs numCPU = [''CPU: '' @ Itoa numCPU @ '' cores (GPU/OpenCL is Windows-only in this build)'']"

definition stub_IsGPUAvailable :: bool where
  "stub_IsGPUAvailable = False"

section \<open>The stub is the CPU miner\<close>

lemma stub_settings:
  "sgMiner (snd (stub_MineBlock key g b t u n s)) =
     (sgMiner g)\<lparr>MaxHashes := sgMaxHashes g, MaxHashesThisRound := sgMaxHashesThisRound g, ThreadCount := sgThreadCount g\<rparr>"
  by (simp add: stub_MineBlock_def Let_def)

text \<open>A second round with the same limits mines the same way: what is left of the first does not matter.\<close>

lemma stub_round_again:
  "stub_MineBlock key (snd (stub_MineBlock key g b t u n s)) b' t' u' n' s' = stub_MineBlock key g b' t' u' n' s'"
  by (simp add: stub_MineBlock_def Let_def)

text \<open>In a build without OpenCL a round of the GPU miner is a round of a CPU miner with its settings, so with
  one thread a solution is the first nonce that meets the target.\<close>

theorem stub_round_is_cpu_round:
  assumes "g = (stub_SetNonceStrategy search start stride (stub_NewGPUMiner maxHashes threads))\<lparr>sgMaxHashesThisRound := limit\<rparr>"
    and "m = (SetNonceStrategy search start stride (NewScryptMinerWithConfig maxHashes threads))\<lparr>MaxHashesThisRound := limit\<rparr>"
  shows "fst (stub_MineBlock key g block targetHex unixNano startNonce schedule) =
    MineBlock key m block targetHex unixNano startNonce schedule"
  using assms by (simp add: stub_MineBlock_def stub_SetNonceStrategy_def stub_NewGPUMiner_def SetNonceStrategy_def
      NewScryptMinerWithConfig_def NewScryptMiner_def Let_def)

theorem stub_round_is_cpu_round_witness:
  "fst (stub_MineBlock zeroKey ((stub_SetNonceStrategy ''sequential'' ''random'' True (stub_NewGPUMiner 500 2))\<lparr>sgMaxHashesThisRound := 9\<rparr>)
      sampleBlock ''ff'' 1 2 [0, 1]) =
    MineBlock zeroKey ((SetNonceStrategy ''sequential'' ''random'' True (NewScryptMinerWithConfig 500 2))\<lparr>MaxHashesThisRound := 9\<rparr>)
      sampleBlock ''ff'' 1 2 [0, 1]"
  by (rule stub_round_is_cpu_round [OF refl refl])

end
