(* ===== verification/OpenCLLibrary.thy ===== *)
theory OpenCLLibrary
  imports Main
begin

text \<open>
  Loading the functions of system libraries in \<open>src/gpu_miner.go\<close>: \<open>initOpenCLDLL\<close> for OpenCL and
  \<open>initWinAlloc\<close> for page allocation. A library is the set of functions it exports, given as a predicate;
  the function pointers are the names that are bound.
\<close>

type_synonym dll = "string \<Rightarrow> bool"

datatype dll_error = DllNotFound | FunctionsNotFound

record ClLibrary =
  clInitialized :: bool
  clBound :: "string list"

definition clFunctions :: "string list" where
  "clFunctions =
     [''clGetPlatformIDs'', ''clGetDeviceIDs'', ''clCreateContext'', ''clCreateCommandQueue'', ''clGetDeviceInfo'',
      ''clReleaseContext'', ''clReleaseCommandQueue'', ''clCreateProgramWithSource'', ''clBuildProgram'',
      ''clGetProgramBuildInfo'', ''clCreateKernel'', ''clCreateBuffer'', ''clEnqueueWriteBuffer'', ''clEnqueueReadBuffer'',
      ''clEnqueueCopyBuffer'', ''clSetKernelArg'', ''clEnqueueNDRangeKernel'', ''clFinish'', ''clReleaseProgram'',
      ''clReleaseKernel'', ''clReleaseMemObject'']"

definition initOpenCLDLL :: "dll option \<Rightarrow> ClLibrary \<Rightarrow> (dll_error + unit) \<times> ClLibrary" where
  "initOpenCLDLL found lib =
     (if clInitialized lib then (Inr (), lib)
      else case found of
        None \<Rightarrow> (Inl DllNotFound, lib)
      | Some d \<Rightarrow>
          let lib = lib\<lparr>clBound := filter d clFunctions\<rparr> in
          if ''clGetPlatformIDs'' \<notin> set (clBound lib) \<or> ''clGetDeviceIDs'' \<notin> set (clBound lib)
          then (Inl FunctionsNotFound, lib)
          else (Inr (), lib\<lparr>clInitialized := True\<rparr>))"

record WinAlloc =
  winVirtualAlloc :: bool
  winVirtualFree :: bool

definition initWinAlloc :: "dll option \<Rightarrow> WinAlloc \<Rightarrow> WinAlloc" where
  "initWinAlloc found w =
     (if winVirtualAlloc w then w
      else case found of
        None \<Rightarrow> w
      | Some d \<Rightarrow> w\<lparr>winVirtualAlloc := d ''VirtualAlloc'', winVirtualFree := d ''VirtualFree''\<rparr>)"

section \<open>What is bound\<close>

lemma clFunctions_required: "''clGetPlatformIDs'' \<in> set clFunctions" "''clGetDeviceIDs'' \<in> set clFunctions"
  by (simp_all add: clFunctions_def)

lemma init_loaded: "initOpenCLDLL found lib = (Inr u, lib') \<Longrightarrow> clInitialized lib'"
  by (cases "clInitialized lib"; cases found) (auto simp: initOpenCLDLL_def Let_def split: if_splits)

lemma init_again: "initOpenCLDLL found lib = (Inr u, lib') \<Longrightarrow> initOpenCLDLL found' lib' = (Inr (), lib')"
  by (drule init_loaded) (simp add: initOpenCLDLL_def)

lemma win_alloc_again: "winVirtualAlloc (initWinAlloc (Some d) w) \<Longrightarrow> initWinAlloc found (initWinAlloc (Some d) w) = initWinAlloc (Some d) w"
  by (simp add: initWinAlloc_def)

text \<open>A library counts as loaded when it exports the two functions that are looked for; every other function
  may be missing, and is then called through a nil pointer.\<close>

theorem incomplete_library_accepted:
  assumes "\<not> clInitialized lib" "d ''clGetPlatformIDs''" "d ''clGetDeviceIDs''"
  shows "\<exists>lib'. initOpenCLDLL (Some d) lib = (Inr (), lib') \<and> set (clBound lib') = {f \<in> set clFunctions. d f}"
  using assms clFunctions_required by (simp add: initOpenCLDLL_def Let_def)

theorem incomplete_library_accepted_witness:
  "\<exists>lib'. initOpenCLDLL (Some (\<lambda>f. f = ''clGetPlatformIDs'' \<or> f = ''clGetDeviceIDs'')) \<lparr>clInitialized = False, clBound = []\<rparr> =
     (Inr (), lib') \<and> ''clCreateContext'' \<notin> set (clBound lib')"
proof -
  define d where "d = (\<lambda>f. f = ''clGetPlatformIDs'' \<or> f = ''clGetDeviceIDs'')"
  have d: "d ''clGetPlatformIDs''" "d ''clGetDeviceIDs''" "\<not> d ''clCreateContext''" by (simp_all add: d_def)
  have "\<not> clInitialized \<lparr>clInitialized = False, clBound = []\<rparr>" by simp
  from incomplete_library_accepted [OF this d(1,2)] d(3) show ?thesis unfolding d_def [symmetric] by blast
qed

end
