(* ===== verification/Spec2Isabelle.thy ===== *)
theory Spec2Isabelle
  imports GpuKernel WebServer GpuStub OpenCLLibrary
begin

text \<open>
  Doge Lucky Mining is a solo miner for Dogecoin written in Go. It keeps the tip of the block chain
  by asking a peer for headers, builds a block with a single coinbase transaction on that tip,
  searches nonces on the CPU or the GPU, relays a found block to its peers (or hands it to a node
  over RPC) and later looks in its history of tips whether the block was accepted.

  \<^bold>\<open>How the parts interact.\<close> \<open>main.go\<close> owns the \<open>Miner\<close>: its configuration, the two miners, the
  P2P client, the payment monitor and the optimizer. Each iteration of \<open>miningLoop\<close> reads the tip
  from the P2P client, has \<open>template_builder.go\<close> turn it into a template (\<open>pow_dogecoin.go\<close> gives
  the bits), assembles a block (\<open>block.go\<close>), mines it (\<open>scrypt.go\<close> or \<open>gpu_miner.go\<close>), checks the
  result (\<open>hash_compare.go\<close>) and submits it through \<open>p2p.go\<close>.

  \<^bold>\<open>Theories, in import order, with the files under \<open>src/\<close> they model.\<close>
  \<^item> \<open>GoPrelude\<close>, \<open>GoText\<close>, \<open>GoNet\<close>: what the program takes from Go and its standard library:
    machine words, \<open>(value, error)\<close> results as sums, byte readers and writers, hexadecimal
    text, \<open>strconv\<close>, \<open>strings\<close> and the address functions of \<open>net\<close>. \<open>Sha256\<close> is \<open>crypto/sha256\<close>.
  \<^item> \<open>HashCompare\<close> (\<open>hash_compare.go\<close>): byte reversal and the comparison of a hash with a target.
  \<^item> \<open>Base58Address\<close> (\<open>address.go\<close>): decoding of payout addresses and the payment script.
  \<^item> \<open>TxBlock\<close> (\<open>block.go\<close>, the record of \<open>headers.go\<close>): transactions, headers, blocks, serialisation.
  \<^item> \<open>WireFormat\<close>, \<open>P2PMessages\<close>, \<open>PeerMessages\<close> (\<open>p2p.go\<close>): the encodings of the protocol, the framing
    of messages on a connection that takes so many bytes and no more (a message goes out in two writes, header and
    payload), and the payloads \<open>version\<close>, \<open>addr\<close>, \<open>reject\<close> and \<open>inv\<close>.
  \<^item> \<open>CompactTarget\<close> (\<open>pow_dogecoin.go\<close>, \<open>template_builder.go\<close>): compact bits, DigiShield, templates.
  \<^item> \<open>HeaderSync\<close> (\<open>p2p.go\<close>): networks, checkpoints, the locator, \<open>processHeaders\<close>, \<open>requestHeaders\<close>.
  \<^item> \<open>PeerBook\<close> (\<open>p2p.go\<close>): recently failed peers, the peer cache files, deduplicated log lines.
  \<^item> \<open>PeerConnection\<close> (\<open>p2p.go\<close>): dialling, the handshake, \<open>ensureConnected\<close>, seeds, fetching the tip in
    the foreground and in the background, probing other peers.
  \<^item> \<open>ScryptMining\<close> (\<open>scrypt.go\<close>): the nonce search, single-threaded and by goroutines: setting the
    found flag, sending a result and receiving it are steps of their own.
  \<^item> \<open>BroadcastPool\<close> (\<open>p2p.go\<close>): the pool of extra connections, \<open>BroadcastBlock\<close>, harvesting of peers, with what
    other goroutines do to the client meanwhile as a parameter. \<open>PoolKeepers\<close>: the calls that maintain the pool, which
    count, dial and add under separate locks, as a step relation over all their interleavings.
  \<^item> \<open>PaymentMonitor\<close> (\<open>payment_monitor_p2p.go\<close>): submitted blocks against the history of tips.
  \<^item> \<open>GpuMining\<close>, \<open>GpuParallel\<close>, \<open>GpuDriver\<close>, \<open>GpuKernel\<close> (\<open>gpu_miner.go\<close>): the settings of the GPU
    miner and its choice of a miner; its CPU round with worker goroutines and a watchdog; the set-up of
    OpenCL with the probe of the scratchpad and the check of the kernels; the loop of kernel batches.
  \<^item> \<open>MinerConfig\<close> (\<open>main.go\<close>): configuration, start and stop (which waits for the mining loops, and
    does not return where one of them never ends), block assembly, verification, submission.
  \<^item> \<open>AutoOptimizer\<close> (\<open>miner_optimizer.go\<close>): the goroutine that tunes the configuration.
  \<^item> \<open>MiningRound\<close> (\<open>main.go\<close>): \<open>miningLoop\<close>, from the first sync to the record of a submission. A round in which a
    header refresh or the broadcast never returns has the outcome \<open>Hang\<close>.
  \<^item> \<open>RpcNode\<close> (\<open>rpc.go\<close>, \<open>headers.go\<close>): JSON values, calls to a node, both forms of a header, the header
    fetcher. \<open>RpcMining\<close> (\<open>main.go\<close>): the template of a round in RPC mode, composed with the node.
  \<^item> \<open>Background\<close> (\<open>p2p.go\<close>): the goroutines that run beside the mining loop: the header syncs and the keeper of
    the pool, instances of one locale of ticks that keep a relation; and the getters of the client.
  \<^item> \<open>WebServer\<close> (\<open>main.go\<close>): \<open>main()\<close>: the configuration file, start-up, statistics, the HTTP and WebSocket
    handlers as steps of the application (\<open>NoAnswer\<close> where the handler never returns), the restart of the miner, the choice of a port and the diagnostic.
  \<^item> \<open>GpuStub\<close> (\<open>gpu_miner_stub.go\<close>): the GPU miner of a build without OpenCL. \<open>OpenCLLibrary\<close>
    (\<open>gpu_miner.go\<close>): the functions looked up in \<open>OpenCL.dll\<close> and \<open>kernel32.dll\<close>.

  \<^bold>\<open>State.\<close> A Go struct is a record with the same field names where these are free; \<open>P2PClient\<close> is
  split by concern into \<open>PeerLink\<close> (the connection), \<open>HeaderChain\<close> (the chain), \<open>PeerBook\<close> (failed
  peers and cache files) and the pool of \<open>PoolClient\<close>, joined in the records \<open>P2PClient\<close> and
  \<open>PoolClient\<close>. Mutation is state passing; the goroutines of the parallel search are a step relation
  over all interleavings, those of the GPU miner's CPU round an event sequence that includes the ticks of
  its watchdog. The OpenCL contexts are a store that the global variable and the miner point into. The
  application (\<open>App\<close>) is the miner with its running loops, its pending restarts, the configuration file and
  the connected browsers; a pointer of \<open>Miner\<close> that may be nil is an option. Errors are the left side of a sum, panics and calls that never return
  are values of their own (\<open>go_panic\<close>, \<open>halt\<close>).

  \<^bold>\<open>What the lemmas show.\<close> The searches return the first nonce that meets the target or report none,
  in every interleaving at most one result is delivered, and the stride mode ends while the range
  mode need not. A header chain only grows along links, in one batch, through \<open>requestHeaders\<close> and
  through every operation of a client that switches peers. A relayed block is a valid proof of work
  on the tip, and the number of peers a broadcast reports is the number of
  sockets that took the whole block. The templates of a run are assembled into blocks with pairwise different coinbase
  transactions. A solution the GPU miner reports was verified on the CPU whatever the driver answers, a
  kernel round ends and gives back its buffers, and a stalled CPU round is cut off. Encoders and
  decoders are inverse. In RPC mode a round works with the template the calls to the node give, on the
  node's tip, and the header fetcher holds the blocks of the chain the node answers about. Requests of the web
  interface: only a \<open>POST\<close> changes the application, an accepted configuration is normalised, saved so that it is
  read back, and runs after the restart, a rejected one leaves the miner stopped until it is started again, a mining loop that
  hangs keeps every request to stop unanswered, and a miner in RPC mode that was
  started, stopped and started can be neither stopped nor configured again; the blocks assembled after a
  configuration was accepted pay the address it gave, or nobody when that cannot be decoded. The caches, logs and caps are bounded; the pool of
  connections is bounded for each call that maintains it, and two calls together exceed its limit. The optimizer refines
  an abstract tuner and settles. Several theorems state what the code does where this is not what
  it means to do.

  \<^bold>\<open>Bounds and fuel.\<close> Loops over data are structural. The retry loop of \<open>ensureConnected\<close> is a partial
  function, proved to return, and so is the loop of kernel batches, whose measure is what is left of the
  nonces and then the batch size. The parallel search runs along a schedule of goroutine steps;
  that it ends is a theorem about every long enough fair schedule. A loop that reads messages until
  a deadline is given the number of messages that arrive before it (\<open>neTicks\<close>), which is any number.

  \<^bold>\<open>Parameters.\<close> \<open>scrypt.Key\<close> of \<open>golang.org/x/crypto\<close>, the OpenCL driver as a function from the calls made
  so far to the reply to the next one (\<open>cl_driver\<close>), a node in the same way (\<open>rpc_node\<close>), DNS and dialling (\<open>NetEnv\<close>), connection tests, disk and new keys of a web request (\<open>WebEnv\<close>), the clock, the random numbers what the concurrently updated tip is when a
  round reads it, which calls into the client return (\<open>reRefresh\<close>, \<open>reBroadcast\<close>; a theorem of this file gives a client
  for which they do not), and whether the mining loops end when they are told to (\<open>weLoopsEnd\<close>). Web requests are
  handled one after the other, each from its start to its answer or to the point where it waits for ever.

  \<^bold>\<open>Not modelled.\<close> The web pages and the OpenCL kernel (other languages), the transport of HTTP and WebSocket
  and the decoding of JSON (libraries), the opening of a browser, the crash log file, queries of build logs and
  other log lines that no operation reads. JSON files and messages are the values they encode, with fields looked up by
  their exact names. Floating-point numbers are rationals; a conversion to an integer that is out of range
  gives what it gives on amd64.
\<close>

section \<open>An offline client and the mining loop\<close>

text \<open>Does the refresh of the client return?\<close>

definition refresh_returns :: "NetEnv \<Rightarrow> int \<Rightarrow> P2PClient \<Rightarrow> bool" where
  "refresh_returns env maxAge c =
     (case RefreshHeadersIfStale env maxAge c of Some (Inr c') \<Rightarrow> True | _ \<Rightarrow> False)"

text \<open>
  When the client of a round has no connection and can reach none of the peers it knows, the refresh at the start of the
  round, the one of four seconds the loop asks for on mainnet, never returns, and neither does the round: the
  mining loop does not end any more (\<open>weLoopsEnd\<close> is false), and by \<open>hung_round_blocks_stop\<close> no request to stop it is answered.
\<close>

theorem offline_round_hangs:
  assumes "p2p_mode s" "neDial nenv = (\<lambda>_ _ _. None)" "conn (pLink c) = None" "known c \<noteq> []"
    and "\<not> fresh (neNow nenv) 4000 (pChain c)" "reRefresh env BeforeTemplate = refresh_returns nenv 4000 c"
  shows "mining_round key netErr env s = Hang"
proof -
  have "RefreshHeadersIfStale nenv 4000 c = Some (Inl Deadlocked)"
    using offline_deadlock [OF assms(2-4)] assms(5) by (simp add: RefreshHeadersIfStale_def connect_and_request_def)
  with assms(1,6) show ?thesis by (simp add: refresh_returns_def mining_round_def)
qed

theorem offline_round_hangs_witness:
  "mining_round zeroKey '''' (sampleEnv\<lparr>reRefresh := (\<lambda>_. refresh_returns (net_env None) 4000 lone_client)\<rparr>) singleRound = Hang"
  by (rule offline_round_hangs [OF singleRound_ok(1), of "net_env None" lone_client])
     (simp_all add: net_env_def fresh_def lone_client_def newHeaderChain_def setNetwork_def known_def)

section \<open>From the web interface to the coinbase\<close>

text \<open>C14: after a configuration was accepted over HTTP, and whether or not the miner has been restarted since, the one
  transaction of every block it assembles pays the address that was given for the network. An address that cannot be
  decoded is accepted just as well: the reward of the block then goes to the hash of twenty zero bytes.\<close>

theorem posted_payout_is_paid:
  assumes "post_config env (Some config) app = (Answer 200 b, app')"
    and "a \<in> {app', restart_fires env' app'}" "createEmptyBlock t (apMiner a) = (Inr blk, m')"
  shows "\<exists>tx. Transactions blk = [tx] \<and> map ScriptPubKey (Outputs tx) =
    [case DecodeDogecoinAddress (PayoutAddr (connection_config config)) of
       Inl e \<Rightarrow> [0x76, 0xA9, 0x14] @ replicate 20 0 @ [0x88, 0xAC] | Inr script \<Rightarrow> script]"
proof -
  have "mConfig (apMiner a) = mConfig (apMiner app')" using assms(2) restart_keeps_config by auto
  then have "network_payout (mConfig (apMiner a)) = PayoutAddr (connection_config config)"
    using posted_payout [OF assms(1)] by simp
  then show ?thesis
    using createEmptyBlock_spec [OF assms(3)]
    by (auto simp: payout_script_decoded default_payout_script_def cong: sum.case_cong)
qed

theorem posted_payout_is_paid_witness:
  "\<exists>app' blk m' tx. post_config (sampleWeb False) (Some sampleConfig) runningApp = (Answer 200 (RestartedBody True), app') \<and>
    createEmptyBlock sampleTemplate (apMiner (restart_fires (sampleWeb False) app')) = (Inr blk, m') \<and>
    Transactions blk = [tx] \<and> map ScriptPubKey (Outputs tx) = [[0x76, 0xA9, 0x14] @ replicate 20 0 @ [0x88, 0xAC]]"
proof -
  obtain app' where p: "post_config (sampleWeb False) (Some sampleConfig) runningApp = (Answer 200 (RestartedBody True), app')"
    using post_config_accepts [of runningApp "sampleWeb False" sampleConfig] by auto
  obtain blk m' where b: "createEmptyBlock sampleTemplate (apMiner (restart_fires (sampleWeb False) app')) = (Inr blk, m')"
    using sampleTemplate_block by blast
  have "DecodeDogecoinAddress (PayoutAddr (connection_config sampleConfig)) = Inl InvalidAddressLength"
    by (simp add: DecodeDogecoinAddress_def)
  with posted_payout_is_paid [OF p _ b, of "sampleWeb False"] p b show ?thesis by auto
qed

end
